(* ===== verification/Prelude.thy ===== *)
theory Prelude
  imports Main "HOL-Library.Word" "HOL-Library.Monad_Syntax"
begin

text \<open>
  Shared vocabulary of the development: the machine integers of
  \<open>src/src/include/stddef.h\<close>, the result type of kernel code, the
  page constants of \<open>src/src/include/mem.h\<close> and the generic lemmas the
  component theories use.

  Kernel code is modelled in the option monad.  \<open>Some\<close> is a return to the
  caller, \<open>None\<close> means that control never comes back: the kernel stopped in
  \<open>BUG()\<close> (which prints, disables interrupts and halts), faulted on an
  invalid pointer, or loops for ever.  A theorem that concludes
  \<open>f x = Some y\<close> therefore also says that none of these happens.
\<close>

unbundle bit_operations_syntax

section \<open>Machine integers\<close>

type_synonym u8 = "8 word"
type_synonym u16 = "16 word"
type_synonym u32 = "32 word"
type_synonym u64 = "64 word"

lemma unat_u32_lt: "unat (w :: u32) < 4294967296"
  by (rule order.strict_trans2 [OF unsigned_less]) simp

lemma unat_u64_lt: "unat (w :: u64) < 18446744073709551616"
  by (rule order.strict_trans2 [OF unsigned_less]) simp

lemma of_nat_unatD: "unat w = n \<Longrightarrow> w = of_nat n"
  by auto

lemma unat_and_not_mask: "unat ((y :: 'a::len word) AND NOT (mask n)) = unat y - unat y mod 2 ^ n"
proof -
  have "y AND NOT (mask n) = push_bit n (drop_bit n y)"
    by (rule bit_eqI) (auto simp: bit_simps)
  then have m: "y AND NOT (mask n) = y - take_bit n y"
    using bits_ident [of n y] by (simp add: algebra_simps)
  have t: "unat (take_bit n y) = unat y mod 2 ^ n"
    using unsigned_take_bit_eq [of n y] by (metis take_bit_eq_mod)
  have "take_bit n y \<le> y" unfolding word_le_nat_alt t by simp
  then show ?thesis unfolding m t [symmetric] by (rule unat_sub)
qed

section \<open>Collections of facts\<close>

named_theorems run_simps \<open>unfolding rules for kernel code in the option monad\<close>
named_theorems const_defs \<open>definitions of the numeric constants of the headers\<close>

section \<open>Stopping the kernel\<close>

definition BUG_ON :: "bool \<Rightarrow> unit option" where
  "BUG_ON b = (if b then None else Some ())"

lemma BUG_ON_simps [simp, run_simps]:
  "BUG_ON False = Some ()"
  "BUG_ON True = None"
  by (simp_all add: BUG_ON_def)

lemma BUG_ON_eq_Some [simp]: "BUG_ON b = Some u \<longleftrightarrow> \<not> b"
  by (simp add: BUG_ON_def)

lemma bind_BUG_ON_eq_Some [simp]:
  "Option.bind (BUG_ON b) f = Some y \<longleftrightarrow> \<not> b \<and> f () = Some y"
  by (simp add: BUG_ON_def)

lemma bind_eq_Some_conv: "Option.bind m f = Some y \<longleftrightarrow> (\<exists>x. m = Some x \<and> f x = Some y)"
  by (cases m) auto

section \<open>Pages\<close>

definition PAGE_SHIFT :: nat where [const_defs, code_unfold]: "PAGE_SHIFT = 12"
definition PAGE_SIZE :: nat where [const_defs, code_unfold]: "PAGE_SIZE = 4096"

definition ROUND_PAGE_DOWN :: "u64 \<Rightarrow> u64" where
  "ROUND_PAGE_DOWN x = x AND NOT 4095"

definition ROUND_PAGE_UP :: "u64 \<Rightarrow> u64" where
  "ROUND_PAGE_UP x = (x + 4096 - 1) AND NOT 4095"

end
