(* ===== verification/Err.thy ===== *)
theory Err
  imports Prelude
begin

text \<open>
  Error numbers (\<open>src/src/include/errno.h\<close>) and error pointers
  (\<open>src/src/include/err.h\<close>).  Kernel functions return a negative error number
  as an \<open>int\<close>, or fold it into a pointer with \<open>ERR_PTR\<close>.  The rest of the
  development carries such results as sums \<open>errno + 'a\<close>; the lemmas of this
  theory show that this loses nothing: folding is invertible and never mistakes a
  pointer below the error page for an error.
\<close>

section \<open>Error numbers\<close>

text \<open>The whole header, name by name; aliases are listed with the value they expand to.\<close>

definition errno_names :: "string list" where
  "errno_names =
   [''EPERM'', ''ENOENT'', ''ESRCH'', ''EINTR'', ''EIO'', ''ENXIO'', ''E2BIG'', ''ENOEXEC'',
     ''EBADF'', ''ECHILD'', ''EAGAIN'', ''ENOMEM'', ''EACCES'', ''EFAULT'', ''ENOTBLK'',
     ''EBUSY'', ''EEXIST'', ''EXDEV'', ''ENODEV'', ''ENOTDIR'', ''EISDIR'', ''EINVAL'',
     ''ENFILE'', ''EMFILE'', ''ENOTTY'', ''ETXTBSY'', ''EFBIG'', ''ENOSPC'', ''ESPIPE'',
     ''EROFS'', ''EMLINK'', ''EPIPE'', ''EDOM'', ''ERANGE'', ''EDEADLK'', ''ENAMETOOLONG'',
     ''ENOLCK'', ''ENOSYS'', ''ENOTEMPTY'', ''ELOOP'', ''EWOULDBLOCK'', ''ENOMSG'',
     ''EIDRM'', ''ECHRNG'', ''EL2NSYNC'', ''EL3HLT'', ''EL3RST'', ''ELNRNG'', ''EUNATCH'',
     ''ENOCSI'', ''EL2HLT'', ''EBADE'', ''EBADR'', ''EXFULL'', ''ENOANO'', ''EBADRQC'',
     ''EBADSLT'', ''EDEADLOCK'', ''EBFONT'', ''ENOSTR'', ''ENODATA'', ''ETIME'', ''ENOSR'',
     ''ENONET'', ''ENOPKG'', ''EREMOTE'', ''ENOLINK'', ''EADV'', ''ESRMNT'', ''ECOMM'',
     ''EPROTO'', ''EMULTIHOP'', ''EDOTDOT'', ''EBADMSG'', ''EOVERFLOW'', ''ENOTUNIQ'',
     ''EBADFD'', ''EREMCHG'', ''ELIBACC'', ''ELIBBAD'', ''ELIBSCN'', ''ELIBMAX'',
     ''ELIBEXEC'', ''EILSEQ'', ''ERESTART'', ''ESTRPIPE'', ''EUSERS'', ''ENOTSOCK'',
     ''EDESTADDRREQ'', ''EMSGSIZE'', ''EPROTOTYPE'', ''ENOPROTOOPT'', ''EPROTONOSUPPORT'',
     ''ESOCKTNOSUPPORT'', ''EOPNOTSUPP'', ''EPFNOSUPPORT'', ''EAFNOSUPPORT'', ''EADDRINUSE'',
     ''EADDRNOTAVAIL'', ''ENETDOWN'', ''ENETUNREACH'', ''ENETRESET'', ''ECONNABORTED'',
     ''ECONNRESET'', ''ENOBUFS'', ''EISCONN'', ''ENOTCONN'', ''ESHUTDOWN'', ''ETOOMANYREFS'',
     ''ETIMEDOUT'', ''ECONNREFUSED'', ''EHOSTDOWN'', ''EHOSTUNREACH'', ''EALREADY'',
     ''EINPROGRESS'', ''ESTALE'', ''EUCLEAN'', ''ENOTNAM'', ''ENAVAIL'', ''EISNAM'',
     ''EREMOTEIO'', ''EDQUOT'', ''ENOMEDIUM'', ''EMEDIUMTYPE'', ''ECANCELED'', ''ENOKEY'',
     ''EKEYEXPIRED'', ''EKEYREVOKED'', ''EKEYREJECTED'', ''EOWNERDEAD'', ''ENOTRECOVERABLE'']"

definition errno_values :: "nat list" where
  "errno_values =
   [1, 2, 3, 4, 5, 6, 7, 8, 9, 10, 11, 12, 13, 14, 15, 16, 17, 18, 19, 20, 21, 22, 23, 24,
     25, 26, 27, 28, 29, 30, 31, 32, 33, 34, 35, 36, 37, 38, 39, 40, 11, 42, 43, 44, 45, 46,
     47, 48, 49, 50, 51, 52, 53, 54, 55, 56, 57, 35, 59, 60, 61, 62, 63, 64, 65, 66, 67, 68,
     69, 70, 71, 72, 73, 74, 75, 76, 77, 78, 79, 80, 81, 82, 83, 84, 85, 86, 87, 88, 89, 90,
     91, 92, 93, 94, 95, 96, 97, 98, 99, 100, 101, 102, 103, 104, 105, 106, 107, 108, 109,
     110, 111, 112, 113, 114, 115, 116, 117, 118, 119, 120, 121, 122, 123, 124, 125, 126,
     127, 128, 129, 130, 131]"

definition errno_table :: "(string \<times> nat) list" where
  "errno_table = zip errno_names errno_values"

text \<open>The error numbers the kernel itself returns.\<close>

datatype errno =
    ENOENT | ENOEXEC | EBADF | ENOMEM | EACCES | EBUSY | EEXIST | ENODEV
  | ENOTDIR | EISDIR | EINVAL | ENOSYS | ENOTEMPTY

fun errno_code :: "errno \<Rightarrow> int" where
  "errno_code ENOENT = 2"
| "errno_code ENOEXEC = 8"
| "errno_code EBADF = 9"
| "errno_code ENOMEM = 12"
| "errno_code EACCES = 13"
| "errno_code EBUSY = 16"
| "errno_code EEXIST = 17"
| "errno_code ENODEV = 19"
| "errno_code ENOTDIR = 20"
| "errno_code EISDIR = 21"
| "errno_code EINVAL = 22"
| "errno_code ENOSYS = 38"
| "errno_code ENOTEMPTY = 39"

fun errno_name :: "errno \<Rightarrow> string" where
  "errno_name ENOENT = ''ENOENT''"
| "errno_name ENOEXEC = ''ENOEXEC''"
| "errno_name EBADF = ''EBADF''"
| "errno_name ENOMEM = ''ENOMEM''"
| "errno_name EACCES = ''EACCES''"
| "errno_name EBUSY = ''EBUSY''"
| "errno_name EEXIST = ''EEXIST''"
| "errno_name ENODEV = ''ENODEV''"
| "errno_name ENOTDIR = ''ENOTDIR''"
| "errno_name EISDIR = ''EISDIR''"
| "errno_name EINVAL = ''EINVAL''"
| "errno_name ENOSYS = ''ENOSYS''"
| "errno_name ENOTEMPTY = ''ENOTEMPTY''"

lemma errno_code_in_table:
  "map_of errno_table (errno_name e) = Some (nat (errno_code e))"
  by (cases e) (simp_all add: errno_table_def errno_names_def errno_values_def)

lemma errno_code_range: "1 \<le> errno_code e" "errno_code e \<le> 39"
  by (cases e; simp)+

lemma errno_code_inj [simp]: "errno_code a = errno_code b \<longleftrightarrow> a = b"
  by (cases a; cases b; simp)

definition MAX_ERRNO :: int where [const_defs]: "MAX_ERRNO = 4095"

lemma errno_table_bounded: "\<forall>(n, c) \<in> set errno_table. 1 \<le> c \<and> int c \<le> MAX_ERRNO"
proof -
  have "\<forall>c \<in> set errno_values. 1 \<le> c \<and> int c \<le> MAX_ERRNO"
    by (simp add: errno_values_def MAX_ERRNO_def)
  then show ?thesis by (auto simp: errno_table_def dest: set_zip_rightD)
qed

section \<open>Error pointers\<close>

text \<open>A pointer is its 64 bits; a C \<open>long\<close> is an integer in the signed 64-bit range.\<close>

definition ERR_PTR :: "int \<Rightarrow> u64" where
  "ERR_PTR val = word_of_int val"

definition PTR_ERR :: "u64 \<Rightarrow> int" where
  "PTR_ERR ptr = sint ptr"

definition IS_ERR :: "u64 \<Rightarrow> bool" where
  "IS_ERR ptr \<longleftrightarrow> word_of_int (- MAX_ERRNO) \<le> ptr"

text \<open>How a sum is laid out in one pointer.\<close>

fun fold_err :: "errno + u64 \<Rightarrow> u64" where
  "fold_err (Inl e) = ERR_PTR (- errno_code e)"
| "fold_err (Inr p) = p"

lemma PTR_ERR_ERR_PTR:
  "- (2 ^ 63) \<le> v \<Longrightarrow> v < 2 ^ 63 \<Longrightarrow> PTR_ERR (ERR_PTR v) = v"
  unfolding PTR_ERR_def ERR_PTR_def
  by (simp add: int_word_sint)

lemma IS_ERR_iff_uint: "IS_ERR p \<longleftrightarrow> 2 ^ 64 - 4095 \<le> uint p"
  by (simp add: IS_ERR_def MAX_ERRNO_def word_le_def)

lemma uint_ERR_PTR_neg:
  assumes "1 \<le> e" "e \<le> 4095"
  shows "uint (ERR_PTR (- e)) = 2 ^ 64 - e"
proof -
  have "(- e) mod 2 ^ 64 = (2 ^ 64 + - e) mod 2 ^ 64"
    by (metis mod_add_self1)
  also have "\<dots> = 2 ^ 64 - e" using assms by (intro mod_pos_pos_trivial [THEN trans]) simp_all
  finally show ?thesis unfolding ERR_PTR_def uint_word_of_int by simp
qed

lemma IS_ERR_ERR_PTR:
  assumes "1 \<le> e" "e \<le> 4095"
  shows "IS_ERR (ERR_PTR (- e))"
  using assms by (simp add: IS_ERR_iff_uint uint_ERR_PTR_neg)

lemma IS_ERR_errno [simp]: "IS_ERR (ERR_PTR (- errno_code e))"
  using errno_code_range [of e] by (intro IS_ERR_ERR_PTR) simp_all

lemma PTR_ERR_errno [simp]: "PTR_ERR (ERR_PTR (- errno_code e)) = - errno_code e"
  using errno_code_range [of e] by (intro PTR_ERR_ERR_PTR) simp_all

lemma IS_ERR_fold_err:
  "(\<And>p. r = Inr p \<Longrightarrow> \<not> IS_ERR p) \<Longrightarrow> IS_ERR (fold_err r) \<longleftrightarrow> isl r"
  by (cases r) auto

end
