(* ===== verification/Pmm.thy ===== *)
theory Pmm
  imports Prelude
begin

text \<open>
  The physical frame allocator, \<open>src/src/mm/pmm.c\<close>: one bit per frame in an array
  of 64-bit words at the start of managed memory, and (once \<open>init_mm\<close> has run) one
  reference count per frame in the array \<open>pages\<close>.

  The record \<open>pmm\<close> holds the file's static variables.  The array the pointer
  \<open>bitmap\<close> refers to is a function from word index to word; \<open>pages\<close> is \<open>None\<close>
  while the pointer is null.  The operations are polymorphic in the record's extension, so
  that the page-table and heap theories add their own fields to the same state.
\<close>

section \<open>State\<close>

text \<open>\<open>page_t\<close> is a struct whose only member is the reference count.\<close>

type_synonym page_t = int

record pmm =
  bitmap :: "nat \<Rightarrow> u64"
  first_frame :: u64
  bitmap_size :: u64
  memsize :: u64
  memused :: u64
  pages :: "(nat \<Rightarrow> page_t) option"

section \<open>Operations\<close>

text \<open>The two scans of \<open>alloc_phys_page\<close>: the first word that is not full, and in it
  the first clear bit (\<open>bit = 1 << bit_offs\<close> throughout the loop, so the offset is the
  whole state; after 64 shifts the mask is zero and the loop stops).\<close>

function scan_words :: "(nat \<Rightarrow> u64) \<Rightarrow> nat \<Rightarrow> nat \<Rightarrow> nat" where
  "scan_words bm n i = (if i < n \<and> bm i = -1 then scan_words bm n (Suc i) else i)"
  by pat_completeness auto
termination
  by (relation "measure (\<lambda>(bm, n, i). n - i)") auto

declare scan_words.simps [simp del]

lemma exp_ge_64: "64 \<le> k \<Longrightarrow> (2 :: u64) ^ k = 0"
  by (simp add: exp_eq_zero_iff)

function scan_bit :: "u64 \<Rightarrow> nat \<Rightarrow> nat" where
  "scan_bit w k = (if w AND push_bit k 1 \<noteq> 0 then scan_bit w (Suc k) else k)"
  by pat_completeness auto
termination
proof (relation "measure (\<lambda>(w, k). 64 - k)")
  fix w :: u64 and k
  assume "w AND push_bit k 1 \<noteq> 0"
  then have "k < 64" using exp_ge_64 [of k] by (cases "k < 64") auto
  then show "((w, Suc k), w, k) \<in> measure (\<lambda>(w, k). 64 - k)" by simp
qed simp

declare scan_bit.simps [simp del]

definition alloc_phys_page :: "'z pmm_scheme \<Rightarrow> (u64 \<times> 'z pmm_scheme) option" where
  "alloc_phys_page s =
    (let n = unat (bitmap_size s) div 8;
         i = scan_words (bitmap s) n 0
     in if i = n then Some (0, s)
        else
          let k = scan_bit (bitmap s i) 0;
              s1 = s\<lparr>bitmap := (bitmap s)(i := bitmap s i OR push_bit k 1),
                     memused := memused s + 4096\<rparr>;
              frame = first_frame s + of_nat i * 64 + of_nat k
          in case pages s1 of
               None \<Rightarrow> Some (frame, s1)
             | Some pg \<Rightarrow>
                 do {
                   BUG_ON (pg (unat frame) > 0);
                   Some (frame, s1\<lparr>pages := Some (pg(unat frame := 1))\<rparr>)
                 })"

definition free_phys_page :: "u64 \<Rightarrow> 'z pmm_scheme \<Rightarrow> 'z pmm_scheme option" where
  "free_phys_page orig_frame s =
    (let frame = orig_frame - first_frame s
     in do {
       BUG_ON (frame div 8 \<ge> bitmap_size s);
       let i = unat (frame div 64);
       let bit = push_bit (unat (frame mod 64)) 1;
       BUG_ON (bitmap s i AND bit = 0);
       let s1 = s\<lparr>bitmap := (bitmap s)(i := bitmap s i AND NOT bit),
                  memused := memused s - 4096\<rparr>;
       pg \<leftarrow> pages s1;
       BUG_ON (pg (unat orig_frame) \<noteq> 1);
       Some (s1\<lparr>pages := Some (pg(unat orig_frame := 0))\<rparr>)
     })"

text \<open>\<open>memset(bitmap, 0, n)\<close> on little-endian words; the count is a \<open>u32\<close>.\<close>

definition zero_bytes :: "(nat \<Rightarrow> u64) \<Rightarrow> nat \<Rightarrow> nat \<Rightarrow> u64" where
  "zero_bytes m n i =
    (if 8 * i + 8 \<le> n then 0
     else if n \<le> 8 * i then m i
     else push_bit (8 * (n - 8 * i)) (drop_bit (8 * (n - 8 * i)) (m i)))"

fun reserve_bitmap :: "nat \<Rightarrow> nat \<Rightarrow> 'z pmm_scheme \<Rightarrow> 'z pmm_scheme option" where
  "reserve_bitmap 0 i s = Some s"
| "reserve_bitmap (Suc todo) i s =
    do {
      (f, s1) \<leftarrow> alloc_phys_page s;
      let frame = (ucast f :: u32);
      BUG_ON (ucast frame \<noteq> first_frame s1 + of_nat i);
      reserve_bitmap todo (Suc i) s1
    }"

text \<open>\<open>mem\<close> is what the memory at \<open>P2V(physbase)\<close> holds before the call.\<close>

definition init_pmm ::
  "u64 \<Rightarrow> u64 \<Rightarrow> (nat \<Rightarrow> u64) \<Rightarrow> 'z pmm_scheme \<Rightarrow> 'z pmm_scheme option" where
  "init_pmm physbase sz mem s =
    do {
      BUG_ON (physbase AND 4095 \<noteq> 0);
      BUG_ON (sz AND 4095 \<noteq> 0);
      let bsz = (drop_bit 12 sz) div 8;
      let s1 = s\<lparr>bitmap := zero_bytes mem (unat (ucast bsz :: u32)),
                 first_frame := drop_bit 12 physbase,
                 bitmap_size := bsz, memsize := sz, memused := 0\<rparr>;
      reserve_bitmap (unat (drop_bit 12 (ROUND_PAGE_UP bsz))) 0 s1
    }"

definition get_mem_size :: "'z pmm_scheme \<Rightarrow> u64" where
  "get_mem_size s = memsize s"

definition get_used_mem :: "'z pmm_scheme \<Rightarrow> u64" where
  "get_used_mem s = memused s"

definition get_free_mem :: "'z pmm_scheme \<Rightarrow> u64" where
  "get_free_mem s = memsize s - memused s"

section \<open>Abstraction: the set of used frames\<close>

definition nframes :: "'z pmm_scheme \<Rightarrow> nat" where
  "nframes s = 64 * (unat (bitmap_size s) div 8)"

definition managed :: "'z pmm_scheme \<Rightarrow> nat set" where
  "managed s = {unat (first_frame s) ..< unat (first_frame s) + nframes s}"

definition used_frames :: "'z pmm_scheme \<Rightarrow> nat set" where
  "used_frames s = {f \<in> managed s.
     bit (bitmap s ((f - unat (first_frame s)) div 64)) ((f - unat (first_frame s)) mod 64)}"

definition free_frames :: "'z pmm_scheme \<Rightarrow> nat set" where
  "free_frames s = managed s - used_frames s"

definition pmm_inv :: "'z pmm_scheme \<Rightarrow> bool" where
  "pmm_inv s \<longleftrightarrow>
     0 < unat (first_frame s) \<and> unat (first_frame s) + nframes s < 2 ^ 32 \<and>
     memused s = of_nat (4096 * card (used_frames s)) \<and>
     (\<forall>pg. pages s = Some pg \<longrightarrow> (\<forall>f \<in> free_frames s. pg f = 0))"

section \<open>The scans\<close>

lemma scan_words_props:
  "i \<le> n \<Longrightarrow> i \<le> scan_words bm n i \<and> scan_words bm n i \<le> n \<and>
     (\<forall>j. i \<le> j \<and> j < scan_words bm n i \<longrightarrow> bm j = -1) \<and>
     (scan_words bm n i < n \<longrightarrow> bm (scan_words bm n i) \<noteq> -1)"
proof (induction bm n i rule: scan_words.induct)
  case (1 bm n i)
  show ?case
  proof (cases "i < n \<and> bm i = -1")
    case True
    with 1 have IH: "Suc i \<le> scan_words bm n (Suc i) \<and> scan_words bm n (Suc i) \<le> n \<and>
       (\<forall>j. Suc i \<le> j \<and> j < scan_words bm n (Suc i) \<longrightarrow> bm j = -1) \<and>
       (scan_words bm n (Suc i) < n \<longrightarrow> bm (scan_words bm n (Suc i)) \<noteq> -1)"
      by simp
    have "scan_words bm n i = scan_words bm n (Suc i)"
      using True by (simp add: scan_words.simps [of bm n i])
    then show ?thesis using IH True by (metis Suc_leD Suc_leI nat_less_le)
  next
    case False
    then show ?thesis using 1 by (auto simp: scan_words.simps [of bm n i])
  qed
qed

lemma scan_bit_props:
  "k \<le> scan_bit w k \<and> (\<forall>j. k \<le> j \<and> j < scan_bit w k \<longrightarrow> bit w j) \<and> \<not> bit w (scan_bit w k)"
proof (induction w k rule: scan_bit.induct)
  case (1 w k)
  show ?case
  proof (cases "bit w k")
    case True
    then have t: "w AND push_bit k 1 \<noteq> 0" by (simp add: bit_iff_and_push_bit_not_eq_0)
    have "scan_bit w k = scan_bit w (Suc k)"
      using t by (simp add: scan_bit.simps [of w k])
    then show ?thesis using "1.IH" [OF t] True by (metis Suc_leD Suc_leI nat_less_le)
  next
    case False
    then have "scan_bit w k = k"
      by (simp add: scan_bit.simps [of w k] bit_iff_and_push_bit_not_eq_0)
    with False show ?thesis by auto
  qed
qed

lemma full_word_iff: "(w :: u64) = -1 \<longleftrightarrow> (\<forall>k < 64. bit w k)"
  by (auto intro!: bit_word_eqI)

lemma scan_bit_lt: "w \<noteq> -1 \<Longrightarrow> scan_bit w 0 < 64"
  using scan_bit_props [of 0 w] full_word_iff [of w] by (meson le0 not_less order_less_le_trans)

lemma bit_set_bit_u64: "k < 64 \<Longrightarrow> bit ((w :: u64) OR push_bit k 1) j \<longleftrightarrow> bit w j \<or> j = k"
  by (auto simp: bit_simps)

lemma bit_clear_bit_u64: "bit ((w :: u64) AND NOT (push_bit k 1)) j \<longleftrightarrow> bit w j \<and> j \<noteq> k"
  by (auto simp: bit_simps dest: bit_imp_le_length)

section \<open>Frame numbers and bitmap positions\<close>

lemma frame_pos [simp]:
  assumes "k < 64"
  shows "(64 * i + k) div 64 = i" "(64 * i + k) mod 64 = (k :: nat)"
  using assms by simp_all

lemma unat_frame:
  assumes "unat (ff :: u64) + 64 * n < 2 ^ 32" "i < n" "k < 64"
  shows "unat (ff + of_nat i * 64 + of_nat k) = unat ff + (64 * i + k)"
proof -
  have b: "unat ff + (64 * i + k) < 2 ^ 32" using assms by linarith
  have "ff + of_nat i * 64 + of_nat k = (of_nat (unat ff + (64 * i + k)) :: u64)" by simp
  also have "unat \<dots> = unat ff + (64 * i + k)"
    using b by (simp only: unat_of_nat) simp
  finally show ?thesis .
qed

lemma finite_managed [simp]: "finite (managed s)"
  by (simp add: managed_def)

lemma finite_used_frames [simp]: "finite (used_frames s)"
  by (rule finite_subset [OF _ finite_managed [of s]]) (auto simp: used_frames_def)

lemma finite_free_frames [simp]: "finite (free_frames s)"
  by (simp add: free_frames_def)

lemma used_frames_subset: "used_frames s \<subseteq> managed s"
  by (auto simp: used_frames_def)

lemma managed_pos:
  "f \<in> managed s \<longleftrightarrow>
     (\<exists>i k. f = unat (first_frame s) + (64 * i + k) \<and> i < unat (bitmap_size s) div 8 \<and> k < 64)"
proof
  assume f: "f \<in> managed s"
  let ?d = "f - unat (first_frame s)"
  have "?d < 64 * (unat (bitmap_size s) div 8)" "unat (first_frame s) \<le> f"
    using f by (auto simp: managed_def nframes_def)
  then have "f = unat (first_frame s) + (64 * (?d div 64) + ?d mod 64) \<and>
      ?d div 64 < unat (bitmap_size s) div 8 \<and> ?d mod 64 < 64"
    by (auto simp: less_mult_imp_div_less mult.commute)
  then show "\<exists>i k. f = unat (first_frame s) + (64 * i + k) \<and>
      i < unat (bitmap_size s) div 8 \<and> k < 64" by blast
next
  assume "\<exists>i k. f = unat (first_frame s) + (64 * i + k) \<and>
      i < unat (bitmap_size s) div 8 \<and> k < 64"
  then show "f \<in> managed s" by (auto simp: managed_def nframes_def)
qed

lemma used_frames_pos:
  assumes "i < unat (bitmap_size s) div 8" "k < 64"
  shows "unat (first_frame s) + (64 * i + k) \<in> used_frames s \<longleftrightarrow> bit (bitmap s i) k"
proof -
  have "unat (first_frame s) + (64 * i + k) \<in> managed s" using assms managed_pos by blast
  then show ?thesis using assms by (simp add: used_frames_def)
qed

lemma free_frames_pos:
  assumes "i < unat (bitmap_size s) div 8" "k < 64"
  shows "unat (first_frame s) + (64 * i + k) \<in> free_frames s \<longleftrightarrow> \<not> bit (bitmap s i) k"
proof -
  have "unat (first_frame s) + (64 * i + k) \<in> managed s" using assms managed_pos by blast
  then show ?thesis using assms by (simp add: free_frames_def used_frames_pos)
qed

lemma free_frames_empty_iff:
  "free_frames s = {} \<longleftrightarrow> (\<forall>i < unat (bitmap_size s) div 8. bitmap s i = -1)"
proof
  assume e: "free_frames s = {}"
  show "\<forall>i < unat (bitmap_size s) div 8. bitmap s i = -1"
    using e free_frames_pos [of _ s] unfolding full_word_iff by blast
next
  assume a: "\<forall>i < unat (bitmap_size s) div 8. bitmap s i = -1"
  show "free_frames s = {}"
  proof (rule equals0I)
    fix f assume f: "f \<in> free_frames s"
    then obtain i k where *: "f = unat (first_frame s) + (64 * i + k)"
      "i < unat (bitmap_size s) div 8" "k < 64"
      by (auto simp: free_frames_def managed_pos)
    then show False using f a free_frames_pos [of i s k] by (simp add: full_word_iff)
  qed
qed

section \<open>Allocation\<close>

lemma alloc_phys_page_full: "free_frames s = {} \<Longrightarrow> alloc_phys_page s = Some (0, s)"
proof -
  assume "free_frames s = {}"
  then have a: "\<forall>i < unat (bitmap_size s) div 8. bitmap s i = -1"
    by (simp add: free_frames_empty_iff)
  let ?n = "unat (bitmap_size s) div 8"
  have "scan_words (bitmap s) ?n 0 = ?n"
    using scan_words_props [of 0 ?n "bitmap s"] a by (metis le_neq_implies_less le0)
  then show ?thesis by (simp add: alloc_phys_page_def)
qed

text \<open>The frame the scans find is the least free one, and its bit is the only change.\<close>

lemma alloc_scan:
  assumes "free_frames s \<noteq> {}"
  obtains i k where
    "scan_words (bitmap s) (unat (bitmap_size s) div 8) 0 = i"
    "scan_bit (bitmap s i) 0 = k" "i < unat (bitmap_size s) div 8" "k < 64"
    "\<not> bit (bitmap s i) k" "unat (first_frame s) + (64 * i + k) = Min (free_frames s)"
proof -
  let ?n = "unat (bitmap_size s) div 8"
  define i where "i = scan_words (bitmap s) ?n 0"
  define k where "k = scan_bit (bitmap s i) 0"
  have i: "i \<le> ?n" "\<forall>j < i. bitmap s j = -1" "i < ?n \<longrightarrow> bitmap s i \<noteq> -1"
    using scan_words_props [of 0 ?n "bitmap s"] by (auto simp: i_def)
  have "\<not> (\<forall>j < ?n. bitmap s j = -1)" using assms by (simp add: free_frames_empty_iff)
  then have ilt: "i < ?n" using i by (metis le_neq_implies_less)
  then have klt: "k < 64" using i scan_bit_lt [of "bitmap s i"] by (simp add: k_def)
  have k: "\<forall>j < k. bit (bitmap s i) j" "\<not> bit (bitmap s i) k"
    using scan_bit_props [of 0 "bitmap s i"] by (auto simp: k_def)
  have "Min (free_frames s) = unat (first_frame s) + (64 * i + k)"
  proof (rule Min_eqI)
    fix f assume f: "f \<in> free_frames s"
    then obtain i' k' where *: "f = unat (first_frame s) + (64 * i' + k')" "i' < ?n" "k' < 64"
      by (auto simp: free_frames_def managed_pos)
    have nb: "\<not> bit (bitmap s i') k'" using f * free_frames_pos [of i' s k'] by simp
    then have "i \<le> i'" using i(2) *(3) full_word_iff [of "bitmap s i'"] by (meson not_le)
    moreover have "i' = i \<Longrightarrow> k \<le> k'" using nb k(1) by (meson not_le)
    ultimately show "unat (first_frame s) + (64 * i + k) \<le> f"
      using * klt by (cases "i' = i") auto
  qed (use ilt klt k free_frames_pos [of i s k] in auto)
  then show ?thesis using that [of i k] ilt klt k by (simp add: i_def k_def)
qed

lemma used_frames_set_bit:
  assumes "i < unat (bitmap_size s) div 8" "k < 64"
    and "bitmap s' = (bitmap s)(i := bitmap s i OR push_bit k 1)"
    and "bitmap_size s' = bitmap_size s" "first_frame s' = first_frame s"
  shows "used_frames s' = insert (unat (first_frame s) + (64 * i + k)) (used_frames s)"
proof (rule set_eqI)
  fix f
  have m: "managed s' = managed s" using assms by (simp add: managed_def nframes_def)
  show "f \<in> used_frames s' \<longleftrightarrow> f \<in> insert (unat (first_frame s) + (64 * i + k)) (used_frames s)"
  proof (cases "f \<in> managed s")
    case False
    then show ?thesis using assms(1,2) m by (auto simp: used_frames_def managed_pos)
  next
    case True
    then obtain i' k' where "f = unat (first_frame s) + (64 * i' + k')"
      "i' < unat (bitmap_size s) div 8" "k' < 64" by (auto simp: managed_pos)
    then show ?thesis
      using assms used_frames_pos [of i' s k'] used_frames_pos [of i' s' k']
      by (cases "i' = i") (auto simp: bit_set_bit_u64 simp del: push_bit_of_1)
  qed
qed

lemma used_frames_clear_bit:
  assumes "i < unat (bitmap_size s) div 8" "k < 64"
    and "bitmap s' = (bitmap s)(i := bitmap s i AND NOT (push_bit k 1))"
    and "bitmap_size s' = bitmap_size s" "first_frame s' = first_frame s"
  shows "used_frames s' = used_frames s - {unat (first_frame s) + (64 * i + k)}"
proof (rule set_eqI)
  fix f
  have m: "managed s' = managed s" using assms by (simp add: managed_def nframes_def)
  show "f \<in> used_frames s' \<longleftrightarrow> f \<in> used_frames s - {unat (first_frame s) + (64 * i + k)}"
  proof (cases "f \<in> managed s")
    case False
    then show ?thesis using m by (auto simp: used_frames_def)
  next
    case True
    then obtain i' k' where "f = unat (first_frame s) + (64 * i' + k')"
      "i' < unat (bitmap_size s) div 8" "k' < 64" by (auto simp: managed_pos)
    then show ?thesis
      using assms used_frames_pos [of i' s k'] used_frames_pos [of i' s' k']
      by (cases "i' = i") (auto simp: bit_clear_bit_u64 simp del: push_bit_of_1)
  qed
qed

lemma alloc_phys_page_free:
  assumes inv: "pmm_inv s" and free: "free_frames s \<noteq> {}"
  obtains f s' where
    "alloc_phys_page s = Some (f, s')" "unat f = Min (free_frames s)"
    "used_frames s' = insert (unat f) (used_frames s)"
    "managed s' = managed s" "memused s' = memused s + 4096"
    "pages s' = map_option (\<lambda>pg. pg(unat f := 1)) (pages s)"
    "first_frame s' = first_frame s" "bitmap_size s' = bitmap_size s"
    "memsize s' = memsize s" "pmm.more s' = pmm.more s"
proof -
  obtain i k where ik: "scan_words (bitmap s) (unat (bitmap_size s) div 8) 0 = i"
    "scan_bit (bitmap s i) 0 = k" "i < unat (bitmap_size s) div 8" "k < 64"
    "\<not> bit (bitmap s i) k" "unat (first_frame s) + (64 * i + k) = Min (free_frames s)"
    by (rule alloc_scan [OF free])
  let ?f = "first_frame s + of_nat i * 64 + of_nat k"
  let ?s1 = "s\<lparr>bitmap := (bitmap s)(i := bitmap s i OR push_bit k 1),
               memused := memused s + 4096\<rparr>"
  let ?s' = "?s1\<lparr>pages := map_option (\<lambda>pg. pg(unat ?f := 1)) (pages s)\<rparr>"
  have uf: "unat ?f = unat (first_frame s) + (64 * i + k)"
    using inv ik by (intro unat_frame) (auto simp: pmm_inv_def nframes_def)
  have mem: "unat ?f \<in> free_frames s" using uf ik(6) free Min_in [of "free_frames s"] by simp
  have "\<And>pg. pages s = Some pg \<Longrightarrow> pg (unat ?f) = 0" using inv mem by (auto simp: pmm_inv_def)
  then have a: "alloc_phys_page s = Some (?f, ?s')"
    using ik by (cases "pages s") (simp_all add: alloc_phys_page_def Let_def)
  have u: "used_frames ?s' = insert (unat ?f) (used_frames s)"
    using used_frames_set_bit [of i s k ?s'] ik uf by simp
  show ?thesis
    by (rule that [OF a]) (use u uf ik in \<open>simp_all add: managed_def nframes_def\<close>)
qed

lemma pmm_inv_alloc_step:
  assumes inv: "pmm_inv s" and f: "f \<in> free_frames s"
    and s': "used_frames s' = insert f (used_frames s)" "managed s' = managed s"
      "memused s' = memused s + 4096" "pages s' = map_option (\<lambda>pg. pg(f := 1)) (pages s)"
      "first_frame s' = first_frame s" "bitmap_size s' = bitmap_size s"
  shows "pmm_inv s'"
proof -
  have "f \<notin> used_frames s" using f by (simp add: free_frames_def)
  then have "card (used_frames s') = Suc (card (used_frames s))" using s' by simp
  moreover have "free_frames s' = free_frames s - {f}"
    using s' by (auto simp: free_frames_def)
  ultimately show ?thesis using inv s'
    by (auto simp: pmm_inv_def nframes_def algebra_simps)
qed

section \<open>The frame-allocator contract\<close>

text \<open>
  What the page-table code, the heap and the copy-on-write code rely on: a call either
  reports exhaustion with frame number 0 and changes nothing, or hands out a frame that was
  available and no longer is.
\<close>

locale frame_allocator =
  fixes alloc :: "'s \<Rightarrow> (u64 \<times> 's) option"
    and inv :: "'s \<Rightarrow> bool"
    and avail :: "'s \<Rightarrow> nat set"
  assumes alloc_exhausted: "inv s \<Longrightarrow> avail s = {} \<Longrightarrow> alloc s = Some (0, s)"
    and alloc_available: "inv s \<Longrightarrow> avail s \<noteq> {} \<Longrightarrow>
      \<exists>f s'. alloc s = Some (f, s') \<and> f \<noteq> 0 \<and> unat f \<in> avail s \<and>
        inv s' \<and> avail s' = avail s - {unat f}"
begin

lemma alloc_total: "inv s \<Longrightarrow> \<exists>f s'. alloc s = Some (f, s') \<and> inv s'"
  using alloc_exhausted alloc_available by (cases "avail s = {}") blast+

lemma alloc_cases:
  assumes "inv s" "alloc s = Some (f, s')"
  shows "f = 0 \<and> s' = s \<and> avail s = {} \<or>
    f \<noteq> 0 \<and> unat f \<in> avail s \<and> inv s' \<and> avail s' = avail s - {unat f}"
  using alloc_exhausted [OF assms(1)] alloc_available [OF assms(1)] assms(2)
  by (cases "avail s = {}") auto

lemma alloc_zero_iff:
  assumes "inv s" "alloc s = Some (f, s')"
  shows "f = 0 \<longleftrightarrow> avail s = {}"
  using alloc_cases [OF assms] by auto

lemma alloc_fresh_twice:
  assumes "inv s" "alloc s = Some (f, s1)" "alloc s1 = Some (g, s2)" "g \<noteq> 0"
  shows "f \<noteq> g"
  using alloc_cases [OF assms(1,2)] alloc_cases [of s1 g s2] assms(3,4) by auto

end

lemma alloc_phys_page_available:
  assumes inv: "pmm_inv s" and free: "free_frames s \<noteq> {}"
  shows "\<exists>f s'. alloc_phys_page s = Some (f, s') \<and> f \<noteq> 0 \<and> unat f \<in> free_frames s \<and>
    pmm_inv s' \<and> free_frames s' = free_frames s - {unat f}"
proof -
  obtain f s' where a: "alloc_phys_page s = Some (f, s')" "unat f = Min (free_frames s)"
    "used_frames s' = insert (unat f) (used_frames s)"
    "managed s' = managed s" "memused s' = memused s + 4096"
    "pages s' = map_option (\<lambda>pg. pg(unat f := 1)) (pages s)"
    "first_frame s' = first_frame s" "bitmap_size s' = bitmap_size s"
    by (rule alloc_phys_page_free [OF inv free])
  have mem: "unat f \<in> free_frames s" using a(2) free Min_in [of "free_frames s"] by simp
  have "pmm_inv s'" by (rule pmm_inv_alloc_step [OF inv mem a(3-8)])
  moreover have "free_frames s' = free_frames s - {unat f}"
    using a(3,4) by (auto simp: free_frames_def)
  moreover have "f \<noteq> 0"
    using mem inv by (auto simp: free_frames_def managed_def pmm_inv_def)
  ultimately show ?thesis using a mem by blast
qed

interpretation frames: frame_allocator alloc_phys_page pmm_inv free_frames
  by unfold_locales (auto intro: alloc_phys_page_full alloc_phys_page_available)

text \<open>What a successful call leaves alone, for any state.\<close>

lemma alloc_phys_page_frame:
  assumes "alloc_phys_page s = Some (f, s')"
  shows "pmm.more s' = pmm.more s" "first_frame s' = first_frame s"
    "bitmap_size s' = bitmap_size s" "memsize s' = memsize s"
  using assms
  by (auto simp: alloc_phys_page_def Let_def bind_eq_Some_conv split: if_splits option.splits)

section \<open>Freeing\<close>

lemma free_pos:
  assumes inv: "pmm_inv s" and ik: "i < unat (bitmap_size s) div 8" "k < 64"
    and f: "unat f = unat (first_frame s) + (64 * i + k)"
  shows "\<not> (f - first_frame s) div 8 \<ge> bitmap_size s"
    "unat ((f - first_frame s) div 64) = i" "unat ((f - first_frame s) mod 64) = k"
proof -
  have "first_frame s \<le> f" using f by (simp add: word_le_nat_alt)
  then have d: "unat (f - first_frame s) = 64 * i + k" using f by (simp add: unat_sub)
  show "unat ((f - first_frame s) div 64) = i" "unat ((f - first_frame s) mod 64) = k"
    using d ik by (simp_all add: unat_div unat_mod)
  have "64 * i + k < 8 * unat (bitmap_size s)" using ik by linarith
  then show "\<not> (f - first_frame s) div 8 \<ge> bitmap_size s"
    using d by (simp add: word_le_nat_alt unat_div)
qed

lemma free_phys_page_used:
  assumes inv: "pmm_inv s" and f: "unat f \<in> used_frames s"
    and pg: "pages s = Some pg" "pg (unat f) = 1"
  obtains s' where "free_phys_page f s = Some s'"
    "used_frames s' = used_frames s - {unat f}" "managed s' = managed s"
    "memused s' = memused s - 4096" "pages s' = Some (pg(unat f := 0))"
    "first_frame s' = first_frame s" "bitmap_size s' = bitmap_size s"
    "pmm.more s' = pmm.more s"
proof -
  obtain i k where ik: "unat f = unat (first_frame s) + (64 * i + k)"
    "i < unat (bitmap_size s) div 8" "k < 64"
    using subsetD [OF used_frames_subset f] unfolding managed_pos by blast
  note pos = free_pos [OF inv ik(2,3,1)]
  have b: "bit (bitmap s i) k" using f used_frames_pos [OF ik(2,3)] ik(1) by simp
  let ?s' = "s\<lparr>bitmap := (bitmap s)(i := bitmap s i AND NOT (push_bit k 1)),
               memused := memused s - 4096, pages := Some (pg(unat f := 0))\<rparr>"
  have "free_phys_page f s = Some ?s'"
    using pos b pg by (simp add: free_phys_page_def Let_def bit_iff_and_push_bit_not_eq_0)
  then show ?thesis
    using that [of ?s'] used_frames_clear_bit [of i s k ?s'] ik
    by (simp add: managed_def nframes_def)
qed

lemma pmm_inv_free_step:
  assumes inv: "pmm_inv s" and f: "f \<in> used_frames s"
    and s': "used_frames s' = used_frames s - {f}" "managed s' = managed s"
      "memused s' = memused s - 4096" "pages s = Some pg" "pages s' = Some (pg(f := 0))"
      "first_frame s' = first_frame s" "bitmap_size s' = bitmap_size s"
  shows "pmm_inv s'"
proof -
  have c: "card (used_frames s) = Suc (card (used_frames s'))"
    unfolding s'(1) by (rule card.remove [OF finite_used_frames f])
  have "memused s = of_nat (4096 * card (used_frames s))" using inv by (simp add: pmm_inv_def)
  then have m: "memused s' = of_nat (4096 * card (used_frames s'))" using s'(3) c by simp
  have "free_frames s' = insert f (free_frames s)"
    using s'(1,2) f used_frames_subset [of s] by (auto simp: free_frames_def)
  moreover have "\<forall>g \<in> free_frames s. pg g = 0" using inv s'(4) by (auto simp: pmm_inv_def)
  moreover have "nframes s' = nframes s" using s'(7) by (simp add: nframes_def)
  ultimately show ?thesis using inv m s'(5,6) by (simp add: pmm_inv_def)
qed

text \<open>A frame that is not marked used stops the kernel; so does freeing twice.\<close>

lemma free_phys_page_clears_bit:
  assumes "free_phys_page f s = Some s'"
  shows "free_phys_page f s' = None"
  using assms
  by (auto simp: free_phys_page_def Let_def bind_eq_Some_conv BUG_ON_def and.assoc
      split: if_splits option.splits)

section \<open>Start-up\<close>

lemma drop_bit_round_page_up: "drop_bit 12 (ROUND_PAGE_UP x) = drop_bit 12 (x + 4095)"
proof (rule bit_word_eqI)
  fix n
  define y where "y = x + 4095"
  have e: "x + 4096 - 1 = y" by (simp add: y_def)
  have "ROUND_PAGE_UP x = y AND NOT (mask 12)"
    unfolding ROUND_PAGE_UP_def e by (simp add: mask_eq_exp_minus_1)
  then show "bit (drop_bit 12 (ROUND_PAGE_UP x)) n \<longleftrightarrow> bit (drop_bit 12 (x + 4095)) n"
    unfolding y_def [symmetric] by (auto simp: bit_simps dest: bit_imp_le_length)
qed

lemma unat_pages_of:
  assumes "unat x < 2 ^ 60"
  shows "unat (drop_bit 12 (ROUND_PAGE_UP x)) = (unat x + 4095) div 4096"
proof -
  have "unat (x + 4095) = unat x + 4095"
    using assms by (simp add: unat_word_ariths)
  then show ?thesis
    unfolding drop_bit_round_page_up unat_drop_bit_eq by (simp add: drop_bit_eq_div)
qed

lemma ucast_u32_id:
  assumes "unat (f :: u64) < 2 ^ 32"
  shows "ucast (ucast f :: u32) = f"
proof -
  have "unat (ucast (ucast f :: u32) :: u64) = unat f"
    using assms by (simp add: unsigned_ucast_eq take_bit_eq_mod unat_mod)
  then show ?thesis by (simp add: word_unat_eq_iff)
qed

lemma reserve_bitmap_spec:
  assumes "pmm_inv s" "pages s = None"
    and "used_frames s = {unat (first_frame s) ..< unat (first_frame s) + i}"
    and "i + todo \<le> nframes s" "unat (first_frame s) + nframes s < 2 ^ 32"
  shows "\<exists>s'. reserve_bitmap todo i s = Some s' \<and> pmm_inv s' \<and> pages s' = None \<and>
    used_frames s' = {unat (first_frame s) ..< unat (first_frame s) + (i + todo)} \<and>
    first_frame s' = first_frame s \<and> bitmap_size s' = bitmap_size s \<and>
    memsize s' = memsize s \<and> pmm.more s' = pmm.more s"
  using assms
proof (induction todo i s rule: reserve_bitmap.induct)
  case (1 i s)
  then show ?case by simp
next
  case (2 todo i s)
  let ?ff = "unat (first_frame s)"
  have fr: "free_frames s = {?ff + i ..< ?ff + nframes s}"
    using "2.prems"(3) by (auto simp: free_frames_def managed_def)
  have ne: "free_frames s \<noteq> {}" and mn: "Min (free_frames s) = ?ff + i"
    using "2.prems"(4) by (auto simp: fr intro!: Min_eqI)
  obtain f s1 where a: "alloc_phys_page s = Some (f, s1)" "unat f = Min (free_frames s)"
    "used_frames s1 = insert (unat f) (used_frames s)"
    "managed s1 = managed s" "memused s1 = memused s + 4096"
    "pages s1 = map_option (\<lambda>pg. pg(unat f := 1)) (pages s)"
    "first_frame s1 = first_frame s" "bitmap_size s1 = bitmap_size s"
    "memsize s1 = memsize s" "pmm.more s1 = pmm.more s"
    by (rule alloc_phys_page_free [OF "2.prems"(1) ne])
  have uf: "unat f = ?ff + i" using a(2) mn by simp
  have mem: "unat f \<in> free_frames s" using uf fr "2.prems"(4) by simp
  have inv1: "pmm_inv s1" by (rule pmm_inv_alloc_step [OF "2.prems"(1) mem a(3-8)])
  have lt: "?ff + i < 2 ^ 32" using "2.prems"(4,5) by simp
  have f: "f = first_frame s + of_nat i" using uf
    by (metis of_nat_add of_nat_unat ucast_id)
  have fu: "ucast (ucast f :: u32) = f" using lt uf by (intro ucast_u32_id) simp
  have "\<exists>s'. reserve_bitmap todo (Suc i) s1 = Some s' \<and> pmm_inv s' \<and> pages s' = None \<and>
    used_frames s' = {unat (first_frame s1) ..< unat (first_frame s1) + (Suc i + todo)} \<and>
    first_frame s' = first_frame s1 \<and> bitmap_size s' = bitmap_size s1 \<and>
    memsize s' = memsize s1 \<and> pmm.more s' = pmm.more s1"
  proof (rule "2.IH" [OF a(1) refl refl _ inv1])
    show "used_frames s1 = {unat (first_frame s1) ..< unat (first_frame s1) + Suc i}"
      using a(3,7) uf "2.prems"(3) by auto
  qed (use a fu f "2.prems" in \<open>simp_all add: nframes_def\<close>)
  then show ?case using a fu f by simp
qed

lemma used_frames_empty:
  assumes "\<And>i. i < unat (bitmap_size s) div 8 \<Longrightarrow> bitmap s i = 0"
  shows "used_frames s = {}"
proof (rule equals0I)
  fix f assume f: "f \<in> used_frames s"
  then obtain i k where "f = unat (first_frame s) + (64 * i + k)"
    "i < unat (bitmap_size s) div 8" "k < 64"
    using subsetD [OF used_frames_subset f] unfolding managed_pos by blast
  then show False using f assms used_frames_pos [of i s k] by simp
qed

lemma zero_bytes_words: "i < n div 8 \<Longrightarrow> zero_bytes m n i = 0"
  by (auto simp: zero_bytes_def)

section \<open>Properties\<close>

text \<open>C38: \<open>init_pmm\<close> on a page-aligned region of at least 64 frames above frame 0 and
  below frame \<open>2^32\<close> returns (none of its checks fires), whatever the memory held before,
  and leaves exactly the frames that hold the bitmap marked used.\<close>

theorem init_pmm_establishes_inv:
  assumes al: "physbase AND 4095 = 0" "sz AND 4095 = 0"
    and sz: "64 * 4096 \<le> unat sz" and base: "4096 \<le> unat physbase"
    and lim: "unat physbase + unat sz < 2 ^ 44"
    and early: "pages s = None"
  shows "\<exists>s'. init_pmm physbase sz mem s = Some s' \<and> pmm_inv s' \<and>
    unat (first_frame s') = unat physbase div 4096 \<and>
    nframes s' = 64 * (unat sz div 4096 div 64) \<and>
    used_frames s' = {unat physbase div 4096 ..<
      unat physbase div 4096 + (unat sz div 4096 div 8 + 4095) div 4096} \<and>
    get_mem_size s' = sz"
proof -
  define bsz where "bsz = drop_bit 12 sz div 8"
  define s1 where "s1 = s\<lparr>bitmap := zero_bytes mem (unat (ucast bsz :: u32)),
    first_frame := drop_bit 12 physbase, bitmap_size := bsz, memsize := sz, memused := 0\<rparr>"
  have ff: "unat (drop_bit 12 physbase) = unat physbase div 4096"
    unfolding unat_drop_bit_eq by (simp add: drop_bit_eq_div)
  have b: "unat bsz = unat sz div 4096 div 8"
    unfolding bsz_def unat_div unat_drop_bit_eq by (simp add: drop_bit_eq_div)
  have lim': "unat physbase + unat sz < 17592186044416" using lim by simp
  have b32: "unat bsz < 4294967296" using b lim' by linarith
  then have "unat (ucast bsz :: u32) = unat bsz"
    by (simp add: unsigned_ucast_eq take_bit_eq_mod)
  then have used1: "used_frames s1 = {}"
    by (intro used_frames_empty) (simp add: s1_def zero_bytes_words)
  have nf: "nframes s1 = 64 * (unat bsz div 8)" by (simp add: nframes_def s1_def)
  have lim32: "unat physbase div 4096 + nframes s1 < 4294967296" using nf b lim' by linarith
  have "pmm_inv s1"
    using base lim32 used1 early ff by (simp add: pmm_inv_def s1_def)
  moreover have "(unat bsz + 4095) div 4096 \<le> nframes s1"
  proof -
    have "64 \<le> unat sz div 4096" using sz div_le_mono [of "64 * 4096" "unat sz" 4096] by simp
    then have "1 \<le> unat bsz div 8" using b div_le_mono [of 64 "unat sz div 4096" 8] by simp
    then have "unat bsz + 4095 \<le> 4096 * (64 * (unat bsz div 8))" by linarith
    then have "(unat bsz + 4095) div 4096 \<le> 4096 * (64 * (unat bsz div 8)) div 4096"
      by (rule div_le_mono)
    then show ?thesis by (simp add: nf)
  qed
  ultimately obtain s' where s': "reserve_bitmap ((unat bsz + 4095) div 4096) 0 s1 = Some s'"
    "pmm_inv s'" "used_frames s' = {unat physbase div 4096 ..<
      unat physbase div 4096 + (unat bsz + 4095) div 4096}"
    "first_frame s' = first_frame s1" "bitmap_size s' = bitmap_size s1" "memsize s' = memsize s1"
    using reserve_bitmap_spec [of s1 0 "(unat bsz + 4095) div 4096"] used1 early ff lim32
    by (auto simp: s1_def)
  have "init_pmm physbase sz mem s = Some s'"
    using al s'(1) b32 unat_pages_of [of bsz]
    by (simp add: init_pmm_def Let_def bsz_def [symmetric] s1_def)
  moreover have "nframes s' = nframes s1" using s'(5) by (simp add: nframes_def)
  moreover have "unat sz div 4096 div 8 div 8 = unat sz div 4096 div 64"
    by (simp flip: div_mult2_eq)
  ultimately show ?thesis
    using s' ff b nf by (auto simp: s1_def get_mem_size_def)
qed

definition pmm_blank :: pmm where
  "pmm_blank = \<lparr>bitmap = (\<lambda>_. 7), first_frame = 0, bitmap_size = 0, memsize = 0,
     memused = 0, pages = None\<rparr>"

theorem init_pmm_establishes_inv_witness:
  "\<exists>s'. init_pmm 0x200000 0x80000 (\<lambda>_. 7) pmm_blank = Some s' \<and> pmm_inv s' \<and>
    used_frames s' = {512 ..< 513}"
  using init_pmm_establishes_inv [of "0x200000" "0x80000" pmm_blank "\<lambda>_. 7"]
  by (auto simp: pmm_blank_def)

text \<open>C8: under the allocator's invariant \<open>alloc_phys_page\<close> always returns: frame 0 and an
  unchanged state when every managed frame is used, and otherwise the least free frame, which
  is then used, has reference count 1 and is accounted for, with the invariant kept.\<close>

theorem alloc_phys_page_correct:
  assumes inv: "pmm_inv s"
  shows "if free_frames s = {} then alloc_phys_page s = Some (0, s)
    else \<exists>f s'. alloc_phys_page s = Some (f, s') \<and> f \<noteq> 0 \<and>
      unat f = Min (free_frames s) \<and> pmm_inv s' \<and>
      used_frames s' = insert (unat f) (used_frames s) \<and>
      free_frames s' = free_frames s - {unat f} \<and>
      get_used_mem s' = get_used_mem s + 4096 \<and>
      (\<forall>pg. pages s' = Some pg \<longrightarrow> pg (unat f) = 1)"
proof (cases "free_frames s = {}")
  case True
  then show ?thesis by (simp add: alloc_phys_page_full)
next
  case False
  obtain f s' where a: "alloc_phys_page s = Some (f, s')" "unat f = Min (free_frames s)"
    "used_frames s' = insert (unat f) (used_frames s)" "memused s' = memused s + 4096"
    "pages s' = map_option (\<lambda>pg. pg(unat f := 1)) (pages s)"
    by (rule alloc_phys_page_free [OF inv False])
  show ?thesis
    using frames.alloc_cases [OF inv a(1)] a False by (auto simp: get_used_mem_def)
qed

definition pmm_demo :: pmm where
  "pmm_demo = \<lparr>bitmap = (\<lambda>_. 0), first_frame = 256, bitmap_size = 8, memsize = 0x40000,
     memused = 0, pages = Some (\<lambda>_. 0)\<rparr>"

lemma pmm_demo_used: "used_frames pmm_demo = {}"
  by (rule used_frames_empty) (simp add: pmm_demo_def)

lemma pmm_demo_inv: "pmm_inv pmm_demo"
  using pmm_demo_used by (simp add: pmm_inv_def pmm_demo_def nframes_def)

lemma pmm_demo_free: "free_frames pmm_demo = {256 ..< 320}"
  unfolding free_frames_def pmm_demo_used by (simp add: managed_def nframes_def pmm_demo_def)

lemma pmm_demo_alloc:
  "\<exists>s'. alloc_phys_page pmm_demo = Some (256, s')"
  by (simp add: pmm_demo_def alloc_phys_page_def scan_words.simps scan_bit.simps)

theorem alloc_phys_page_correct_witness:
  "pmm_inv pmm_demo \<and> (\<exists>f s'. alloc_phys_page pmm_demo = Some (f, s') \<and> pmm_inv s' \<and> unat f = 256)"
proof -
  have "Min {256 ..< 320 :: nat} = 256" by (rule Min_eqI) auto
  then show ?thesis
    using alloc_phys_page_correct [OF pmm_demo_inv] pmm_demo_inv by (auto simp: pmm_demo_free)
qed

text \<open>giving back a frame that was just allocated restores the allocator exactly:
  bitmap, reference counts and accounting.\<close>

theorem free_after_alloc:
  assumes inv: "pmm_inv s" and pg: "pages s = Some pg"
    and a: "alloc_phys_page s = Some (f, s')" and nz: "f \<noteq> 0"
  shows "free_phys_page f s' = Some s"
proof -
  have ne: "free_frames s \<noteq> {}" using frames.alloc_zero_iff [OF inv a] nz by simp
  obtain i k where ik: "scan_words (bitmap s) (unat (bitmap_size s) div 8) 0 = i"
    "scan_bit (bitmap s i) 0 = k" "i < unat (bitmap_size s) div 8" "k < 64"
    "\<not> bit (bitmap s i) k" "unat (first_frame s) + (64 * i + k) = Min (free_frames s)"
    by (rule alloc_scan [OF ne])
  have f: "f = first_frame s + of_nat i * 64 + of_nat k"
    and s': "s' = s\<lparr>bitmap := (bitmap s)(i := bitmap s i OR push_bit k 1),
      memused := memused s + 4096, pages := Some (pg(unat f := 1))\<rparr>"
    using a ik pg by (auto simp: alloc_phys_page_def Let_def)
  have uf: "unat f = unat (first_frame s) + (64 * i + k)"
    unfolding f using inv ik by (intro unat_frame) (auto simp: pmm_inv_def nframes_def)
  have "unat f \<in> free_frames s" using uf ik free_frames_pos [of i s k] by simp
  then have pg0: "pg(unat f := 0) = pg" using inv pg by (auto simp: pmm_inv_def)
  have old: "(bitmap s i OR push_bit k 1) AND NOT (push_bit k 1) = bitmap s i"
    using ik(5) by (intro bit_word_eqI) (auto simp: bit_simps)
  have nz: "(bitmap s i OR push_bit k 1) AND push_bit k 1 \<noteq> 0"
    using bit_set_bit_u64 [OF ik(4), of "bitmap s i" k]
    by (simp only: bit_iff_and_push_bit_not_eq_0 [symmetric]) simp
  note pos = free_pos [OF inv ik(3,4) uf]
  show ?thesis
    unfolding free_phys_page_def Let_def s'
    using pos nz pg0 old pg by (simp del: push_bit_of_1)
qed

theorem free_after_alloc_witness:
  "\<exists>f s'. alloc_phys_page pmm_demo = Some (f, s') \<and> free_phys_page f s' = Some pmm_demo"
proof -
  obtain s' where a: "alloc_phys_page pmm_demo = Some (256, s')" using pmm_demo_alloc by blast
  have "free_phys_page 256 s' = Some pmm_demo"
    by (rule free_after_alloc [OF pmm_demo_inv _ a]) (simp_all add: pmm_demo_def)
  then show ?thesis using a by blast
qed

end
