(* ===== verification/Vmm.thy ===== *)
theory Vmm
  imports Pmm "HOL-Library.Sublist"
begin

text \<open>
  Page tables, \<open>src/src/mm/vmm.c\<close>, with the entry layout of \<open>src/src/include/mm.h\<close>.
  Physical memory that holds page tables is a function from frame number to its 512 entries;
  a table pointer \<open>P2V(frame << PAGE_SHIFT)\<close> is represented by its frame number.  The
  record extends the frame allocator's, so \<open>map_page\<close> allocates missing tables from the
  allocator it really uses.
\<close>

section \<open>Constants of mem.h\<close>

definition MEM_BOTTOM_HALF :: u64 where "MEM_BOTTOM_HALF = 0x0000800000000000"
definition KERNEL_VIRT_ADDR :: u64 where "KERNEL_VIRT_ADDR = 0xffffffff80000000"
definition MEMORY_BASE :: u64 where "MEMORY_BASE = 0xffffff0000000000"
definition HEAP_START :: u64 where "HEAP_START = 0xfffffe0000000000"

definition P2V_IMAGE :: "u64 \<Rightarrow> u64" where "P2V_IMAGE addr = addr + KERNEL_VIRT_ADDR"
definition V2P_IMAGE :: "u64 \<Rightarrow> u64" where "V2P_IMAGE addr = addr - KERNEL_VIRT_ADDR"
definition P2V :: "u64 \<Rightarrow> u64" where "P2V addr = addr + MEMORY_BASE"
definition V2P :: "u64 \<Rightarrow> u64" where "V2P addr = addr - MEMORY_BASE"

definition PTE_PRESENT :: u32 where [const_defs]: "PTE_PRESENT = 0x01"
definition PTE_WRITE :: u32 where [const_defs]: "PTE_WRITE = 0x02"
definition PTE_USER :: u32 where [const_defs]: "PTE_USER = 0x04"
definition PTE_SIZE :: u32 where [const_defs]: "PTE_SIZE = 0x80"

lemma V2P_P2V [simp]: "V2P (P2V a) = a" and P2V_V2P [simp]: "P2V (V2P a) = a"
  by (simp_all add: P2V_def V2P_def)

section \<open>Page-table entries\<close>

record pte =
  p_flags :: u8
  p_reserved :: "4 word"
  p_frame :: "40 word"
  p_avail :: "11 word"
  p_nx :: "1 word"

definition pte_zero :: pte where
  "pte_zero = \<lparr>p_flags = 0, p_reserved = 0, p_frame = 0, p_avail = 0, p_nx = 0\<rparr>"

text \<open>The 64-bit word the bit-fields of \<open>pte_t\<close> are laid out in, lowest field first.\<close>

definition pte_encode :: "pte \<Rightarrow> u64" where
  "pte_encode e =
     ucast (p_flags e) OR push_bit 8 (ucast (p_reserved e)) OR push_bit 12 (ucast (p_frame e)) OR
     push_bit 52 (ucast (p_avail e)) OR push_bit 63 (ucast (p_nx e))"

definition pte_decode :: "u64 \<Rightarrow> pte" where
  "pte_decode w =
     \<lparr>p_flags = ucast w, p_reserved = ucast (drop_bit 8 w), p_frame = ucast (drop_bit 12 w),
      p_avail = ucast (drop_bit 52 w), p_nx = ucast (drop_bit 63 w)\<rparr>"

lemma pte_decode_encode: "pte_decode (pte_encode e) = e"
proof -
  have "p_flags (pte_decode (pte_encode e)) = p_flags e"
    "p_reserved (pte_decode (pte_encode e)) = p_reserved e"
    "p_frame (pte_decode (pte_encode e)) = p_frame e"
    "p_avail (pte_decode (pte_encode e)) = p_avail e"
    "p_nx (pte_decode (pte_encode e)) = p_nx e"
    by (rule bit_word_eqI; auto simp: pte_decode_def pte_encode_def bit_simps
        dest: bit_imp_le_length)+
  then show ?thesis by (intro pte.equality) simp_all
qed

lemma pte_encode_decode: "pte_encode (pte_decode w) = w"
proof (rule bit_word_eqI)
  fix n assume "n < LENGTH(64)"
  then show "bit (pte_encode (pte_decode w)) n \<longleftrightarrow> bit w n"
    by (cases "n = 63"; cases "52 \<le> n"; cases "12 \<le> n"; cases "8 \<le> n") (auto simp: pte_decode_def pte_encode_def bit_simps)
qed

definition pte_present :: "pte \<Rightarrow> bool" where
  "pte_present e \<longleftrightarrow> p_flags e AND ucast PTE_PRESENT \<noteq> 0"

definition pte_large :: "pte \<Rightarrow> bool" where
  "pte_large e \<longleftrightarrow> p_flags e AND ucast PTE_SIZE \<noteq> 0"

lemma pte_zero_not_present [simp]: "\<not> pte_present pte_zero"
  by (simp add: pte_present_def pte_zero_def)

section \<open>State\<close>

datatype tlb_op = Invalidate_entry u64 | Invalidate_all

record vmm = pmm +
  tables :: "u64 \<Rightarrow> nat \<Rightarrow> pte"
  page_dir :: u64
  tlb_log :: "tlb_op list"

definition tlb_invalidate_entry :: "u64 \<Rightarrow> 'z vmm_scheme \<Rightarrow> 'z vmm_scheme" where
  "tlb_invalidate_entry address s = s\<lparr>tlb_log := tlb_log s @ [Invalidate_entry address]\<rparr>"

definition tlb_invalidate_all :: "'z vmm_scheme \<Rightarrow> 'z vmm_scheme" where
  "tlb_invalidate_all s = s\<lparr>tlb_log := tlb_log s @ [Invalidate_all]\<rparr>"

definition set_pte :: "u64 \<Rightarrow> nat \<Rightarrow> pte \<Rightarrow> 'z vmm_scheme \<Rightarrow> 'z vmm_scheme" where
  "set_pte t i e s = s\<lparr>tables := (tables s)(t := (tables s t)(i := e))\<rparr>"

section \<open>Operations\<close>

text \<open>\<open>(addr >> i*9) & 0x1ff\<close>, the index into a table of level \<open>i\<close>.\<close>

definition pt_index :: "nat \<Rightarrow> u64 \<Rightarrow> nat" where
  "pt_index i vpn = unat (drop_bit (9 * i) vpn AND 0x1ff)"

text \<open>The loop \<open>for (i = 3; i >= 1; i--)\<close> shared by \<open>map_page\<close> and
  \<open>find_user_pte\<close>: it descends from table \<open>t\<close> of level \<open>i\<close>, allocating tables that
  are missing with the given entry flags.\<close>

fun walk_alloc :: "nat \<Rightarrow> u64 \<Rightarrow> u64 \<Rightarrow> u32 \<Rightarrow> 'z vmm_scheme \<Rightarrow> (u64 \<times> 'z vmm_scheme) option" where
  "walk_alloc 0 t vpn fl s = Some (t, s)"
| "walk_alloc (Suc i) t vpn fl s =
    (let e = tables s t (pt_index (Suc i) vpn)
     in if pte_present e then walk_alloc i (ucast (p_frame e)) vpn fl s
        else do {
          (new_table, s1) \<leftarrow> alloc_phys_page s;
          BUG_ON (new_table = 0);
          let s2 = s1\<lparr>tables := (tables s1)(new_table := (\<lambda>_. pte_zero))\<rparr>;
          let s3 = set_pte t (pt_index (Suc i) vpn)
            (pte_zero\<lparr>p_frame := ucast new_table, p_flags := ucast fl\<rparr>) s2;
          walk_alloc i new_table vpn fl s3
        })"

definition map_page :: "u64 \<Rightarrow> u64 \<Rightarrow> u32 \<Rightarrow> 'z vmm_scheme \<Rightarrow> 'z vmm_scheme option" where
  "map_page frame addr flags s =
    do {
      BUG_ON (addr AND 4095 \<noteq> 0);
      let vpn = drop_bit 12 addr;
      (t, s1) \<leftarrow> walk_alloc 3 (page_dir s) vpn (PTE_PRESENT OR PTE_WRITE OR flags) s;
      BUG_ON (pte_present (tables s1 t (pt_index 0 vpn)));
      let s2 = set_pte t (pt_index 0 vpn)
        (pte_zero\<lparr>p_frame := ucast frame, p_flags := ucast (PTE_PRESENT OR flags)\<rparr>) s1;
      Some (tlb_invalidate_entry (push_bit 12 vpn) s2)
    }"

definition map_kernel_page :: "u64 \<Rightarrow> u64 \<Rightarrow> 'z vmm_scheme \<Rightarrow> 'z vmm_scheme option" where
  "map_kernel_page frame addr s = map_page frame addr PTE_WRITE s"

definition map_user_page :: "u64 \<Rightarrow> u64 \<Rightarrow> u32 \<Rightarrow> 'z vmm_scheme \<Rightarrow> 'z vmm_scheme option" where
  "map_user_page frame addr flags s = map_page frame addr (PTE_USER OR flags) s"

text \<open>The flags argument of \<open>alloc_page\<close> is ignored; a null pointer is 0.\<close>

definition alloc_page :: "u32 \<Rightarrow> 'z vmm_scheme \<Rightarrow> (u64 \<times> 'z vmm_scheme) option" where
  "alloc_page flags s =
    do {
      (frame, s1) \<leftarrow> alloc_phys_page s;
      Some (if frame = 0 then 0 else P2V (push_bit 12 frame), s1)
    }"

definition free_page :: "u64 \<Rightarrow> 'z vmm_scheme \<Rightarrow> 'z vmm_scheme option" where
  "free_page p s =
    do {
      BUG_ON (p AND 4095 \<noteq> 0);
      free_phys_page (drop_bit 12 (V2P p)) s
    }"

text \<open>\<open>l4\<close> and \<open>l3\<close> are the frames of the static arrays \<open>page_table_l4\<close> and
  \<open>page_table_l3_memmap\<close>, which the linker places; only two fields of each entry change.\<close>

definition map_memory :: "u64 \<Rightarrow> u64 \<Rightarrow> u64 \<Rightarrow> 'z vmm_scheme \<Rightarrow> 'z vmm_scheme option" where
  "map_memory l4 l3 sz s =
    do {
      BUG_ON (sz > 1024 * 1024 * 1024);
      let i4 = unat (drop_bit 39 MEMORY_BASE AND 0x1ff);
      let s1 = set_pte l4 i4 ((tables s l4 i4)
        \<lparr>p_flags := ucast (PTE_PRESENT OR PTE_WRITE), p_frame := ucast l3\<rparr>) s;
      let i3 = unat (drop_bit 30 MEMORY_BASE AND 0x1ff);
      let s2 = set_pte l3 i3 ((tables s1 l3 i3)
        \<lparr>p_flags := ucast (PTE_PRESENT OR PTE_WRITE OR PTE_SIZE), p_frame := 0\<rparr>) s1;
      Some (tlb_invalidate_all s2)
    }"

text \<open>\<open>get_task_cr3\<close>: the physical address of a task's top table.\<close>

definition get_task_cr3 :: "u64 \<Rightarrow> u64" where
  "get_task_cr3 page_dir_ptr = V2P page_dir_ptr"

section \<open>The tree of tables\<close>

text \<open>
  \<open>at_path tb t p\<close> follows a list of indices from table \<open>t\<close> and gives the table
  reached; a large-page entry ends the descent.  \<open>pt_inv\<close> says that the tables form a tree
  (no table is reached along two index paths) disjoint from the frames the allocator may still
  hand out.
\<close>

fun at_path :: "(u64 \<Rightarrow> nat \<Rightarrow> pte) \<Rightarrow> u64 \<Rightarrow> nat list \<Rightarrow> u64 option" where
  "at_path tb t [] = Some t"
| "at_path tb t (i # is) =
    (if pte_present (tb t i) \<and> \<not> pte_large (tb t i)
     then at_path tb (ucast (p_frame (tb t i))) is else None)"

definition vpath :: "u64 \<Rightarrow> nat list" where
  "vpath vpn = [pt_index 3 vpn, pt_index 2 vpn, pt_index 1 vpn]"

definition translate_in :: "(u64 \<Rightarrow> nat \<Rightarrow> pte) \<Rightarrow> u64 \<Rightarrow> u64 \<Rightarrow> pte option" where
  "translate_in tb pd vpn =
    (case at_path tb pd (vpath vpn) of None \<Rightarrow> None
     | Some t \<Rightarrow> if pte_present (tb t (pt_index 0 vpn)) then Some (tb t (pt_index 0 vpn)) else None)"

definition translate :: "'z vmm_scheme \<Rightarrow> u64 \<Rightarrow> pte option" where
  "translate s vpn = translate_in (tables s) (page_dir s) vpn"

definition same_page :: "u64 \<Rightarrow> u64 \<Rightarrow> bool" where
  "same_page v w \<longleftrightarrow> vpath v = vpath w \<and> pt_index 0 v = pt_index 0 w"

definition tree_in :: "(u64 \<Rightarrow> nat \<Rightarrow> pte) \<Rightarrow> u64 \<Rightarrow> bool" where
  "tree_in tb pd \<longleftrightarrow> (\<forall>p q t. length p \<le> 3 \<longrightarrow> length q \<le> 3 \<longrightarrow>
     at_path tb pd p = Some t \<longrightarrow> at_path tb pd q = Some t \<longrightarrow> p = q)"

definition pt_inv :: "'z vmm_scheme \<Rightarrow> bool" where
  "pt_inv s \<longleftrightarrow> tree_in (tables s) (page_dir s) \<and>
     (\<forall>p t. length p \<le> 3 \<longrightarrow> at_path (tables s) (page_dir s) p = Some t \<longrightarrow>
        unat t \<notin> free_frames s)"

lemma at_path_snoc:
  "at_path tb t (p @ [j]) =
    (case at_path tb t p of None \<Rightarrow> None
     | Some u \<Rightarrow> if pte_present (tb u j) \<and> \<not> pte_large (tb u j)
         then Some (ucast (p_frame (tb u j))) else None)"
  by (induction p arbitrary: t) auto

lemma at_path_append:
  "at_path tb t (p @ q) =
    (case at_path tb t p of None \<Rightarrow> None | Some u \<Rightarrow> at_path tb u q)"
  by (induction p arbitrary: t) auto

text \<open>Linking a fresh, empty table \<open>nt\<close> below entry \<open>i\<close> of the table at path \<open>p\<close>.\<close>

lemma at_path_install:
  assumes tree: "tree_in tb pd" and p: "length p < 3" "at_path tb pd p = Some t"
    and ni: "\<not> pte_present (tb t i)"
    and fresh: "\<And>q. length q \<le> 3 \<Longrightarrow> at_path tb pd q \<noteq> Some nt"
    and e: "pte_present e" "\<not> pte_large e" "ucast (p_frame e) = nt"
    and tb': "tb' = (tb(nt := (\<lambda>_. pte_zero)))(t := (tb t)(i := e))"
    and q: "length q \<le> 3"
  shows "at_path tb' pd q =
    (if q = p @ [i] then Some nt else if prefix (p @ [i]) q then None
     else at_path tb pd q)"
  using q
proof (induction q rule: rev_induct)
  case Nil
  then show ?case by simp
next
  case (snoc j q)
  have IH: "at_path tb' pd q =
    (if q = p @ [i] then Some nt else if prefix (p @ [i]) q then None
     else at_path tb pd q)" using snoc by simp
  have tnt: "t \<noteq> nt" using fresh [of p] p by auto
  have tb't: "tb' t = (tb t)(i := e)" and tb'nt: "tb' nt = (\<lambda>_. pte_zero)"
    and tb'u: "\<And>u. u \<noteq> t \<Longrightarrow> u \<noteq> nt \<Longrightarrow> tb' u = tb u"
    using tnt by (simp_all add: tb')
  have ext: "prefix (p @ [i]) q \<Longrightarrow> prefix (p @ [i]) (q @ [j]) \<and> q @ [j] \<noteq> p @ [i]"
    by (auto simp: prefix_def)
  consider (same) "q = p @ [i]" | (below) "q \<noteq> p @ [i]" "prefix (p @ [i]) q"
    | (other) "\<not> prefix (p @ [i]) q" by blast
  then show ?case
  proof cases
    case same
    then have "at_path tb' pd q = Some nt" using IH by simp
    then have "at_path tb' pd (q @ [j]) = None" by (simp add: at_path_snoc tb'nt)
    then show ?thesis using same ext by simp
  next
    case below
    then show ?thesis using IH ext by (simp add: at_path_snoc)
  next
    case other
    then have old: "at_path tb' pd q = at_path tb pd q" using IH by (auto split: if_splits)
    show ?thesis
    proof (cases "at_path tb pd q")
      case None
      then have "q \<noteq> p" using p by auto
      then show ?thesis using None old other by (simp add: at_path_snoc)
    next
      case (Some u)
      have unt: "u \<noteq> nt" using Some fresh [of q] snoc.prems by auto
      show ?thesis
      proof (cases "q = p")
        case True
        then have "u = t" using Some p by simp
        then show ?thesis using True Some old e ni by (auto simp: at_path_snoc tb't)
      next
        case False
        then have "u \<noteq> t" using tree Some p snoc.prems unfolding tree_in_def
          by (metis length_append_singleton less_imp_le Suc_leD)
        moreover have "\<not> prefix (p @ [i]) (q @ [j])"
          using False other by auto
        moreover have "q @ [j] \<noteq> p @ [i]" using False by simp
        ultimately show ?thesis using False Some old unt by (simp add: at_path_snoc tb'u)
      qed
    qed
  qed
qed

text \<open>Installing a table changes no translation and keeps the tables a tree.\<close>

lemma tree_install:
  assumes tree: "tree_in tb pd" and p: "length p < 3" "at_path tb pd p = Some t"
    and ni: "\<not> pte_present (tb t i)"
    and fresh: "\<And>q. length q \<le> 3 \<Longrightarrow> at_path tb pd q \<noteq> Some nt"
    and e: "pte_present e" "\<not> pte_large e" "ucast (p_frame e) = nt"
    and tb': "tb' = (tb(nt := (\<lambda>_. pte_zero)))(t := (tb t)(i := e))"
  shows "tree_in tb' pd"
  unfolding tree_in_def
proof (intro allI impI)
  fix q r u
  assume q: "length q \<le> 3" and r: "length r \<le> 3"
    and a: "at_path tb' pd q = Some u" and b: "at_path tb' pd r = Some u"
  have inst: "\<And>q. length q \<le> 3 \<Longrightarrow> at_path tb' pd q =
    (if q = p @ [i] then Some nt else if prefix (p @ [i]) q then None else at_path tb pd q)"
    by (rule at_path_install [OF tree p ni fresh e tb'])
  have "u = nt \<and> q = p @ [i] \<or> u \<noteq> nt \<and> at_path tb pd q = Some u"
    using a inst [OF q] fresh [OF q] by (auto split: if_splits)
  moreover have "u = nt \<and> r = p @ [i] \<or> u \<noteq> nt \<and> at_path tb pd r = Some u"
    using b inst [OF r] fresh [OF r] by (auto split: if_splits)
  ultimately show "q = r" using tree q r unfolding tree_in_def by blast
qed

lemma length_vpath [simp]: "length (vpath v) = 3"
  by (simp add: vpath_def)

lemma translate_install:
  assumes tree: "tree_in tb pd" and p: "length p < 3" "at_path tb pd p = Some t"
    and ni: "\<not> pte_present (tb t i)"
    and fresh: "\<And>q. length q \<le> 3 \<Longrightarrow> at_path tb pd q \<noteq> Some nt"
    and e: "pte_present e" "\<not> pte_large e" "ucast (p_frame e) = nt"
    and tb': "tb' = (tb(nt := (\<lambda>_. pte_zero)))(t := (tb t)(i := e))"
  shows "translate_in tb' pd v = translate_in tb pd v"
proof -
  have tnt: "t \<noteq> nt" using fresh [of p] p by auto
  have inst: "at_path tb' pd (vpath v) =
    (if vpath v = p @ [i] then Some nt else if prefix (p @ [i]) (vpath v) then None
     else at_path tb pd (vpath v))"
    by (rule at_path_install [OF tree p ni fresh e tb']) simp_all
  show ?thesis
  proof (cases "prefix (p @ [i]) (vpath v)")
    case True
    then obtain z where z: "vpath v = (p @ [i]) @ z" by (auto simp: prefix_def)
    have "at_path tb pd (vpath v) = None"
      unfolding z using p ni by (simp add: at_path_append)
    then show ?thesis using inst True tnt tb' by (simp add: translate_in_def)
  next
    case False
    then have same: "at_path tb' pd (vpath v) = at_path tb pd (vpath v)"
      using inst by (auto simp: prefix_def)
    have "\<And>u. at_path tb pd (vpath v) = Some u \<Longrightarrow> u \<noteq> nt \<and> u \<noteq> t"
    proof -
      fix u assume u: "at_path tb pd (vpath v) = Some u"
      have "vpath v \<noteq> p" using p(1) length_vpath [of v] by auto
      then show "u \<noteq> nt \<and> u \<noteq> t"
        using u fresh [of "vpath v"] tree p unfolding tree_in_def
        by (metis length_vpath less_imp_le order_refl)
    qed
    then show ?thesis using same tb' by (auto simp: translate_in_def split: option.splits)
  qed
qed

section \<open>The descent\<close>

text \<open>The path the descent has followed when it reaches level \<open>i\<close>.\<close>

definition vpre :: "nat \<Rightarrow> u64 \<Rightarrow> nat list" where
  "vpre i v = take (3 - i) (vpath v)"

lemma vpre_simps [simp]:
  "vpre 3 v = []" "vpre 0 v = vpath v" "i \<le> 3 \<Longrightarrow> length (vpre i v) = 3 - i"
  by (simp_all add: vpre_def)

lemma vpre_step: "i < 3 \<Longrightarrow> vpre i v = vpre (Suc i) v @ [pt_index (Suc i) v]"
  by (cases i; cases "i - 1"; cases "i - 2")
    (auto simp: vpre_def vpath_def numeral_3_eq_3 numeral_2_eq_2)

text \<open>No large page on the way to \<open>v\<close>: the code treats every present entry as a table.\<close>

definition no_large :: "'z vmm_scheme \<Rightarrow> u64 \<Rightarrow> bool" where
  "no_large s v \<longleftrightarrow> (\<forall>i < 3. \<forall>t. at_path (tables s) (page_dir s) (vpre (Suc i) v) = Some t \<longrightarrow>
     pte_present (tables s t (pt_index (Suc i) v)) \<longrightarrow>
     \<not> pte_large (tables s t (pt_index (Suc i) v)))"

definition table_flags :: "u32 \<Rightarrow> bool" where
  "table_flags fl \<longleftrightarrow> bit fl 0 \<and> \<not> bit fl 7"

lemma table_flags_pte:
  assumes "table_flags fl"
  shows "pte_present (pte_zero\<lparr>p_frame := x, p_flags := ucast fl\<rparr>)"
    "\<not> pte_large (pte_zero\<lparr>p_frame := x, p_flags := ucast fl\<rparr>)"
proof -
  have e: "(w :: u8) AND 1 \<noteq> 0 \<longleftrightarrow> bit w 0" "(w :: u8) AND 128 \<noteq> 0 \<longleftrightarrow> bit w 7" for w
    using bit_iff_and_push_bit_not_eq_0 [of w 0] bit_iff_and_push_bit_not_eq_0 [of w 7]
    by simp_all
  show "pte_present (pte_zero\<lparr>p_frame := x, p_flags := ucast fl\<rparr>)"
    "\<not> pte_large (pte_zero\<lparr>p_frame := x, p_flags := ucast fl\<rparr>)"
    using assms by (simp_all add: pte_present_def pte_large_def const_defs e table_flags_def
        bit_simps del: bit_0)
qed

lemma pmm_view_simps [simp]:
  "managed (tables_update f s) = managed s" "managed (page_dir_update g s) = managed s"
  "managed (tlb_log_update h s) = managed s"
  "used_frames (tables_update f s) = used_frames s"
  "used_frames (page_dir_update g s) = used_frames s"
  "used_frames (tlb_log_update h s) = used_frames s"
  "free_frames (tables_update f s) = free_frames s"
  "free_frames (page_dir_update g s) = free_frames s"
  "free_frames (tlb_log_update h s) = free_frames s"
  "pmm_inv (tables_update f s) = pmm_inv s" "pmm_inv (page_dir_update g s) = pmm_inv s"
  "pmm_inv (tlb_log_update h s) = pmm_inv s"
  by (simp_all add: managed_def nframes_def used_frames_def free_frames_def pmm_inv_def)

lemma set_pte_view [simp]:
  "managed (set_pte t i e s) = managed s" "used_frames (set_pte t i e s) = used_frames s"
  "free_frames (set_pte t i e s) = free_frames s" "pmm_inv (set_pte t i e s) = pmm_inv s"
  "page_dir (set_pte t i e s) = page_dir s" "tlb_log (set_pte t i e s) = tlb_log s"
  "vmm.more (set_pte t i e s) = vmm.more s" "pages (set_pte t i e s) = pages s"
  "tables (set_pte t i e s) = (tables s)(t := (tables s t)(i := e))"
  by (simp_all add: set_pte_def)

lemma alloc_phys_page_vmm:
  assumes "alloc_phys_page s = Some (f, s')"
  shows "tables s' = tables s" "page_dir s' = page_dir s" "tlb_log s' = tlb_log s"
    "vmm.more s' = vmm.more s"
  using alloc_phys_page_frame(1) [OF assms] by (cases s; cases s'; simp)+

lemma no_large_install:
  assumes tree: "tree_in (tables s) pd" and p: "length p < 3" "at_path (tables s) pd p = Some t"
    and ni: "\<not> pte_present (tables s t i)"
    and fresh: "\<And>q. length q \<le> 3 \<Longrightarrow> at_path (tables s) pd q \<noteq> Some nt"
    and e: "pte_present e" "\<not> pte_large e" "ucast (p_frame e) = nt"
    and tb': "tables s' = ((tables s)(nt := (\<lambda>_. pte_zero)))(t := (tables s t)(i := e))"
    and pd: "page_dir s = pd" "page_dir s' = pd" and nl: "no_large s v"
  shows "no_large s' v"
  unfolding no_large_def pd
proof (intro allI impI)
  fix j u
  let ?q = "vpre (Suc j) v" and ?k = "pt_index (Suc j) v"
  assume j: "j < 3" and u: "at_path (tables s') pd ?q = Some u"
    and pres: "pte_present (tables s' u ?k)"
  have tnt: "t \<noteq> nt" using fresh [of p] p by auto
  have lq: "length ?q \<le> 3" using j by simp
  have "at_path (tables s') pd ?q = (if ?q = p @ [i] then Some nt
      else if prefix (p @ [i]) ?q then None else at_path (tables s) pd ?q)"
    by (rule at_path_install [OF tree p ni fresh e tb' lq])
  then consider "u = nt" | "at_path (tables s) pd ?q = Some u" "u \<noteq> nt"
    using u fresh [OF lq] by (auto split: if_splits)
  then show "\<not> pte_large (tables s' u ?k)"
  proof cases
    case 1
    then show ?thesis using pres tb' tnt by simp
  next
    case 2
    then show ?thesis
      using pres nl j e unfolding no_large_def pd tb' by (auto simp: tb' split: if_splits)
  qed
qed

lemma walk_alloc_spec:
  assumes "pmm_inv s" "pt_inv s" "table_flags fl" "i \<le> 3"
    and "at_path (tables s) (page_dir s) (vpre i v) = Some t"
    and "no_large s v" "i \<le> card (free_frames s)"
  shows "\<exists>t' s'. walk_alloc i t v fl s = Some (t', s') \<and> pmm_inv s' \<and> pt_inv s' \<and>
    page_dir s' = page_dir s \<and> at_path (tables s') (page_dir s) (vpath v) = Some t' \<and>
    (\<forall>w. translate s' w = translate s w) \<and> free_frames s' \<subseteq> free_frames s \<and>
    card (free_frames s) \<le> card (free_frames s') + i \<and>
    (\<forall>w. no_large s w \<longrightarrow> no_large s' w) \<and>
    tlb_log s' = tlb_log s \<and> vmm.more s' = vmm.more s"
  using assms
proof (induction i arbitrary: t s)
  case 0
  then show ?case by auto
next
  case (Suc i)
  let ?tb = "tables s" and ?pd = "page_dir s" and ?k = "pt_index (Suc i) v"
  have st: "vpre i v = vpre (Suc i) v @ [?k]" using Suc.prems(4) by (intro vpre_step) simp
  show ?case
  proof (cases "pte_present (?tb t ?k)")
    case True
    have "\<not> pte_large (?tb t ?k)" using Suc.prems True unfolding no_large_def by auto
    then have "at_path ?tb ?pd (vpre i v) = Some (ucast (p_frame (?tb t ?k)))"
      unfolding st using Suc.prems True by (simp add: at_path_snoc)
    then obtain t' s' where "walk_alloc i (ucast (p_frame (?tb t ?k))) v fl s = Some (t', s')"
      "pmm_inv s'" "pt_inv s'" "page_dir s' = page_dir s"
      "at_path (tables s') (page_dir s) (vpath v) = Some t'"
      "\<forall>w. translate s' w = translate s w" "free_frames s' \<subseteq> free_frames s"
      "card (free_frames s) \<le> card (free_frames s') + i"
      "\<forall>w. no_large s w \<longrightarrow> no_large s' w" "tlb_log s' = tlb_log s" "vmm.more s' = vmm.more s"
      using Suc.IH [of s "ucast (p_frame (?tb t ?k))"] Suc.prems by auto
    then show ?thesis using True by (intro exI [of _ t'] exI [of _ s']) simp
  next
    case False
    have ne: "free_frames s \<noteq> {}" using Suc.prems(7) by auto
    obtain nt s1 where a: "alloc_phys_page s = Some (nt, s1)" and nt: "nt \<noteq> 0"
      "unat nt \<in> free_frames s" "pmm_inv s1" "free_frames s1 = free_frames s - {unat nt}"
      using frames.alloc_available [OF Suc.prems(1) ne] by blast
    note fr = alloc_phys_page_vmm [OF a]
    let ?e = "pte_zero\<lparr>p_frame := ucast nt, p_flags := ucast fl\<rparr>"
    let ?s3 = "set_pte t ?k ?e (s1\<lparr>tables := (tables s1)(nt := (\<lambda>_. pte_zero))\<rparr>)"
    have "unat nt < 2 ^ 32"
      using nt(2) Suc.prems(1) by (auto simp: free_frames_def managed_def pmm_inv_def)
    then have small: "unat nt < 2 ^ 40" by simp
    have e: "pte_present ?e" "\<not> pte_large ?e" "ucast (p_frame ?e) = nt"
      using table_flags_pte [OF Suc.prems(3)] small
      by (simp_all add: word_unat_eq_iff unsigned_ucast_eq take_bit_eq_mod unat_mod)
    have tree: "tree_in ?tb ?pd" using Suc.prems(2) by (simp add: pt_inv_def)
    have fresh: "\<And>q. length q \<le> 3 \<Longrightarrow> at_path ?tb ?pd q \<noteq> Some nt"
      using Suc.prems(2) nt(2) unfolding pt_inv_def by blast
    have p: "length (vpre (Suc i) v) < 3" "at_path ?tb ?pd (vpre (Suc i) v) = Some t"
      using Suc.prems(4,5) by simp_all
    have tnt: "t \<noteq> nt" using fresh [of "vpre (Suc i) v"] p by auto
    have tb3: "tables ?s3 = (?tb(nt := (\<lambda>_. pte_zero)))(t := (?tb t)(?k := ?e))"
      using tnt by (simp add: fr)
    have pd3: "page_dir ?s3 = ?pd" by (simp add: fr)
    have inst: "\<And>q. length q \<le> 3 \<Longrightarrow> at_path (tables ?s3) ?pd q =
        (if q = vpre (Suc i) v @ [?k] then Some nt
         else if prefix (vpre (Suc i) v @ [?k]) q then None else at_path ?tb ?pd q)"
      by (rule at_path_install [OF tree p False fresh e tb3])
    have "tree_in (tables ?s3) ?pd" by (rule tree_install [OF tree p False fresh e tb3])
    moreover have "\<And>q u. length q \<le> 3 \<Longrightarrow> at_path (tables ?s3) ?pd q = Some u \<Longrightarrow>
        unat u \<notin> free_frames s1"
      using inst nt(4) Suc.prems(2) unfolding pt_inv_def by (auto split: if_splits)
    ultimately have inv3: "pt_inv ?s3" unfolding pt_inv_def pd3 by simp
    have at3: "at_path (tables ?s3) (page_dir ?s3) (vpre i v) = Some nt"
      unfolding pd3 st using inst [of "vpre (Suc i) v @ [?k]"] p(1) by simp
    have nls: "\<And>w. no_large s w \<Longrightarrow> no_large ?s3 w"
      by (rule no_large_install [OF tree p False fresh e tb3 refl pd3])
    have nl3: "no_large ?s3 v" by (rule nls [OF Suc.prems(6)])
    have cd: "card (free_frames s) = Suc (card (free_frames s1))"
      unfolding nt(4) using card.remove [OF finite_free_frames nt(2)] by simp
    then have c3: "i \<le> card (free_frames ?s3)" using Suc.prems(7) by simp
    have tr3: "\<And>w. translate ?s3 w = translate s w"
      unfolding translate_def pd3 by (rule translate_install [OF tree p False fresh e tb3])
    obtain t' s' where w: "walk_alloc i nt v fl ?s3 = Some (t', s')" "pmm_inv s'" "pt_inv s'"
      "page_dir s' = page_dir ?s3" "at_path (tables s') (page_dir ?s3) (vpath v) = Some t'"
      "\<forall>w. translate s' w = translate ?s3 w" "free_frames s' \<subseteq> free_frames ?s3"
      "card (free_frames ?s3) \<le> card (free_frames s') + i"
      "\<forall>w. no_large ?s3 w \<longrightarrow> no_large s' w"
      "tlb_log s' = tlb_log ?s3" "vmm.more s' = vmm.more ?s3"
      using Suc.IH [OF _ inv3 Suc.prems(3) _ at3 nl3 c3] nt(3) Suc.prems(4) by auto
    have "walk_alloc (Suc i) t v fl s = Some (t', s')"
      using False a nt(1) w(1) by (simp add: Let_def)
    moreover have "card (free_frames s) \<le> card (free_frames s') + Suc i" using w(8) cd by simp
    moreover have "\<forall>w. no_large s w \<longrightarrow> no_large s' w" using w(9) nls by blast
    ultimately show ?thesis
      using w(2-7,10,11) tr3 pd3 nt(4) fr by (auto simp del: fun_upd_apply)
  qed
qed

lemma walk_alloc_existing:
  assumes "i \<le> 3" "at_path (tables s) (page_dir s) (vpre i v) = Some t"
    "at_path (tables s) (page_dir s) (vpath v) = Some t'"
  shows "walk_alloc i t v fl s = Some (t', s)"
  using assms
proof (induction i arbitrary: t)
  case 0
  then show ?case by simp
next
  case (Suc i)
  let ?tb = "tables s" and ?pd = "page_dir s" and ?k = "pt_index (Suc i) v"
  have st: "vpre i v = vpre (Suc i) v @ [?k]" using Suc.prems(1) by (intro vpre_step) simp
  have "prefix (vpre i v) (vpath v)" by (simp add: vpre_def take_is_prefix)
  then obtain z where "vpath v = vpre i v @ z" by (auto simp: prefix_def)
  then obtain u where u: "at_path ?tb ?pd (vpre i v) = Some u"
    using Suc.prems(3) by (cases "at_path ?tb ?pd (vpre i v)") (auto simp: at_path_append)
  then have "pte_present (?tb t ?k)" "u = ucast (p_frame (?tb t ?k))"
    unfolding st using Suc.prems(2) by (auto simp: at_path_snoc split: if_splits)
  then show ?case using Suc.IH [of u] Suc.prems u by simp
qed

text \<open>Writing a leaf entry moves no table.\<close>

lemma at_path_other_table:
  assumes tree: "tree_in tb pd" and t: "at_path tb pd (vpath v) = Some t"
    and tb': "\<And>u. u \<noteq> t \<Longrightarrow> tb' u = tb u" and q: "length q \<le> 3"
  shows "at_path tb' pd q = at_path tb pd q"
  using q
proof (induction q rule: rev_induct)
  case Nil
  then show ?case by simp
next
  case (snoc j q)
  then have IH: "at_path tb' pd q = at_path tb pd q" by simp
  show ?case
  proof (cases "at_path tb pd q")
    case None
    then show ?thesis using IH by (simp add: at_path_snoc)
  next
    case (Some u)
    have "length q \<noteq> length (vpath v)" using snoc.prems by simp
    then have "q \<noteq> vpath v" by auto
    then have "u \<noteq> t" using tree t Some snoc.prems unfolding tree_in_def
      by (metis length_append_singleton Suc_leD length_vpath order_refl)
    then show ?thesis using IH Some tb' by (simp add: at_path_snoc)
  qed
qed

lemma at_path_leaf:
  assumes tree: "tree_in tb pd" and t: "at_path tb pd (vpath v) = Some t"
    and q: "length q \<le> 3"
  shows "at_path (tb(t := (tb t)(k := e))) pd q = at_path tb pd q"
  by (rule at_path_other_table [OF tree t _ q]) simp

lemma pt_inv_leaf:
  assumes inv: "pt_inv s" and t: "at_path (tables s) (page_dir s) (vpath v) = Some t"
  shows "pt_inv (set_pte t k e s)"
  using inv at_path_leaf [OF _ t, of _ k e] unfolding pt_inv_def tree_in_def by simp

lemma translate_leaf:
  assumes inv: "pt_inv s" and t: "at_path (tables s) (page_dir s) (vpath v) = Some t"
    and e: "pte_present e"
  shows "translate (set_pte t (pt_index 0 v) e s) w =
    (if same_page w v then Some e else translate s w)"
proof -
  let ?s' = "set_pte t (pt_index 0 v) e s"
  have tree: "tree_in (tables s) (page_dir s)" using inv by (simp add: pt_inv_def)
  have p: "at_path (tables ?s') (page_dir s) (vpath w) = at_path (tables s) (page_dir s) (vpath w)"
    using at_path_leaf [OF tree t, of "vpath w"] by simp
  have "at_path (tables s) (page_dir s) (vpath w) = Some t \<longleftrightarrow> vpath w = vpath v"
    using tree t unfolding tree_in_def by (metis length_vpath order_refl)
  then show ?thesis
    using p e t by (auto simp: translate_def translate_in_def same_page_def split: option.splits)
qed

lemma aligned_page:
  assumes "(addr :: u64) AND 4095 = 0"
  shows "push_bit 12 (drop_bit 12 addr) = addr"
proof (rule bit_word_eqI)
  fix n assume n: "n < LENGTH(64)"
  have "addr AND mask 12 = 0" using assms by (simp add: mask_eq_exp_minus_1)
  then have "n < 12 \<Longrightarrow> \<not> bit addr n"
    by (metis bit_0_eq bit_and_iff bit_mask_iff bot_apply bot_bool_def bit_imp_le_length
        min_less_iff_conj possible_bit_word)
  then show "bit (push_bit 12 (drop_bit 12 addr)) n \<longleftrightarrow> bit addr n"
    using n by (cases "12 \<le> n") (auto simp: bit_simps)
qed

definition leaf_pte :: "u64 \<Rightarrow> u32 \<Rightarrow> pte" where
  "leaf_pte frame flags =
    pte_zero\<lparr>p_frame := ucast frame, p_flags := ucast (PTE_PRESENT OR flags)\<rparr>"

lemma leaf_pte_present [simp]: "pte_present (leaf_pte frame flags)"
proof -
  have "bit (ucast (PTE_PRESENT OR flags) :: u8) 0"
    by (simp add: bit_simps const_defs del: bit_0)
  then show ?thesis
    using bit_iff_and_push_bit_not_eq_0 [of "ucast (PTE_PRESENT OR flags) :: u8" 0]
    by (simp add: pte_present_def leaf_pte_def const_defs del: bit_0)
qed

lemma no_large_leaf:
  assumes inv: "pt_inv s" and t: "at_path (tables s) (page_dir s) (vpath v) = Some t"
    and nl: "no_large s w"
  shows "no_large (set_pte t k e s) w"
  unfolding no_large_def
proof (intro allI impI)
  fix i u
  let ?s' = "set_pte t k e s"
  assume i: "i < 3" and u: "at_path (tables ?s') (page_dir ?s') (vpre (Suc i) w) = Some u"
    and p: "pte_present (tables ?s' u (pt_index (Suc i) w))"
  have tree: "tree_in (tables s) (page_dir s)" using inv by (simp add: pt_inv_def)
  have u': "at_path (tables s) (page_dir s) (vpre (Suc i) w) = Some u"
    using u at_path_leaf [OF tree t, of "vpre (Suc i) w" k e] i by simp
  have "length (vpre (Suc i) w) \<noteq> length (vpath v)" using i by simp
  then have "vpre (Suc i) w \<noteq> vpath v" by auto
  moreover have "length (vpre (Suc i) w) \<le> 3" using i by simp
  ultimately have "u \<noteq> t"
    using tree t u' unfolding tree_in_def by (metis length_vpath order_refl)
  then show "\<not> pte_large (tables ?s' u (pt_index (Suc i) w))"
    using p nl u' i unfolding no_large_def by simp
qed

lemma map_page_spec:
  assumes inv: "pmm_inv s" "pt_inv s" and al: "addr AND 4095 = 0"
    and fl: "\<not> bit flags 7" and nl: "no_large s (drop_bit 12 addr)"
    and un: "translate s (drop_bit 12 addr) = None" and room: "3 \<le> card (free_frames s)"
  obtains s' where "map_page frame addr flags s = Some s'" "pmm_inv s'" "pt_inv s'"
    "page_dir s' = page_dir s"
    "translate s' (drop_bit 12 addr) = Some (leaf_pte frame flags)"
    "\<And>w. \<not> same_page w (drop_bit 12 addr) \<Longrightarrow> translate s' w = translate s w"
    "tlb_log s' = tlb_log s @ [Invalidate_entry addr]"
    "card (free_frames s) \<le> card (free_frames s') + 3" "free_frames s' \<subseteq> free_frames s"
    "\<And>w. no_large s w \<Longrightarrow> no_large s' w" "vmm.more s' = vmm.more s"
proof -
  let ?v = "drop_bit 12 addr" and ?fl = "PTE_PRESENT OR PTE_WRITE OR flags"
  have tf: "table_flags ?fl"
    using fl by (simp add: table_flags_def const_defs bit_simps del: bit_0)
  have "\<exists>t s1. walk_alloc 3 (page_dir s) ?v ?fl s = Some (t, s1) \<and> pmm_inv s1 \<and> pt_inv s1 \<and>
    page_dir s1 = page_dir s \<and> at_path (tables s1) (page_dir s) (vpath ?v) = Some t \<and>
    (\<forall>w. translate s1 w = translate s w) \<and> free_frames s1 \<subseteq> free_frames s \<and>
    card (free_frames s) \<le> card (free_frames s1) + 3 \<and>
    (\<forall>w. no_large s w \<longrightarrow> no_large s1 w) \<and> tlb_log s1 = tlb_log s \<and> vmm.more s1 = vmm.more s"
    using walk_alloc_spec [OF inv tf, of 3 ?v "page_dir s"] nl room by simp
  then obtain t s1 where w: "walk_alloc 3 (page_dir s) ?v ?fl s = Some (t, s1)" "pmm_inv s1"
    "pt_inv s1" "page_dir s1 = page_dir s"
    "at_path (tables s1) (page_dir s) (vpath ?v) = Some t"
    "\<forall>w. translate s1 w = translate s w" "free_frames s1 \<subseteq> free_frames s"
    "card (free_frames s) \<le> card (free_frames s1) + 3"
    "\<forall>w. no_large s w \<longrightarrow> no_large s1 w" "tlb_log s1 = tlb_log s" "vmm.more s1 = vmm.more s"
    by blast
  have t: "at_path (tables s1) (page_dir s1) (vpath ?v) = Some t" using w(4,5) by simp
  have "translate s1 ?v = None" using w(6) un by simp
  then have ni: "\<not> pte_present (tables s1 t (pt_index 0 ?v))"
    using t by (auto simp: translate_def translate_in_def split: if_splits)
  let ?s2 = "set_pte t (pt_index 0 ?v) (leaf_pte frame flags) s1"
  let ?s' = "tlb_invalidate_entry addr ?s2"
  have m: "map_page frame addr flags s = Some ?s'"
    using al w(1) ni aligned_page [OF al] by (simp add: map_page_def Let_def leaf_pte_def)
  have tr: "\<And>w. translate ?s' w = translate ?s2 w" "pt_inv ?s' = pt_inv ?s2"
    "\<And>w. no_large ?s' w = no_large ?s2 w" "free_frames ?s' = free_frames s1"
    "pmm_inv ?s' = pmm_inv s1" "page_dir ?s' = page_dir s1" "vmm.more ?s' = vmm.more s1"
    "tlb_log ?s' = tlb_log s1 @ [Invalidate_entry addr]"
    by (simp_all add: translate_def pt_inv_def no_large_def tlb_invalidate_entry_def)
  note tl = translate_leaf [OF w(3) t leaf_pte_present [of frame flags]]
  show ?thesis
  proof (rule that [OF m])
    show "translate ?s' ?v = Some (leaf_pte frame flags)"
      unfolding tr tl by (simp add: same_page_def)
    show "\<And>w. \<not> same_page w ?v \<Longrightarrow> translate ?s' w = translate s w"
      unfolding tr tl using w(6) by simp
    show "\<And>x. no_large s x \<Longrightarrow> no_large ?s' x"
      unfolding tr using w(9) no_large_leaf [OF w(3) t] by blast
    show "pt_inv ?s'" unfolding tr by (rule pt_inv_leaf [OF w(3) t])
  qed (use w in \<open>simp_all add: tr\<close>)
qed

section \<open>What any successful call leaves alone\<close>

lemma walk_alloc_frame:
  "walk_alloc i t v fl s = Some (t', s') \<Longrightarrow>
    vmm.more s' = vmm.more s \<and> page_dir s' = page_dir s \<and>
    (pmm_inv s \<longrightarrow> pmm_inv s' \<and> free_frames s' \<subseteq> free_frames s)"
proof (induction i arbitrary: t s)
  case 0
  then show ?case by simp
next
  case (Suc i)
  show ?case
  proof (cases "pte_present (tables s t (pt_index (Suc i) v))")
    case True
    then show ?thesis using Suc by simp
  next
    case False
    then obtain nt s1 where a: "alloc_phys_page s = Some (nt, s1)" "nt \<noteq> 0"
      "walk_alloc i nt v fl (set_pte t (pt_index (Suc i) v)
        (pte_zero\<lparr>p_frame := ucast nt, p_flags := ucast fl\<rparr>)
        (s1\<lparr>tables := (tables s1)(nt := (\<lambda>_. pte_zero))\<rparr>)) = Some (t', s')"
      using Suc.prems by (auto simp: Let_def bind_eq_Some_conv)
    have "pmm_inv s \<Longrightarrow> pmm_inv s1 \<and> free_frames s1 \<subseteq> free_frames s"
      using frames.alloc_cases [OF _ a(1)] by blast
    then show ?thesis using Suc.IH [OF a(3)] alloc_phys_page_vmm [OF a(1)] by auto
  qed
qed

lemma map_page_frame:
  assumes "map_page frame addr flags s = Some s'"
  shows "vmm.more s' = vmm.more s" "page_dir s' = page_dir s"
    "pmm_inv s \<Longrightarrow> pmm_inv s' \<and> free_frames s' \<subseteq> free_frames s"
  using assms walk_alloc_frame
  by (fastforce simp: map_page_def Let_def bind_eq_Some_conv tlb_invalidate_entry_def)+

section \<open>Properties\<close>

text \<open>C15: \<open>map_page\<close> on an unmapped, page-aligned address, with three frames to spare,
  returns; afterwards the page translates to exactly the requested frame and flags, every
  other page translates as before, the tables are still a tree, and the address has been
  invalidated in the TLB.\<close>

theorem map_page_correct:
  assumes inv: "pmm_inv s" "pt_inv s" and al: "addr AND 4095 = 0"
    and fl: "\<not> bit flags 7" and nl: "no_large s (drop_bit 12 addr)"
    and un: "translate s (drop_bit 12 addr) = None" and room: "3 \<le> card (free_frames s)"
  shows "\<exists>s'. map_page frame addr flags s = Some s' \<and> pmm_inv s' \<and> pt_inv s' \<and>
    page_dir s' = page_dir s \<and>
    translate s' (drop_bit 12 addr) = Some (leaf_pte frame flags) \<and>
    (\<forall>w. \<not> same_page w (drop_bit 12 addr) \<longrightarrow> translate s' w = translate s w) \<and>
    tlb_log s' = tlb_log s @ [Invalidate_entry addr]"
  using map_page_spec [OF assms, of frame] by metis

definition vmm_demo :: vmm where
  "vmm_demo = pmm.extend pmm_demo
     \<lparr>tables = (\<lambda>_ _. pte_zero), page_dir = 10, tlb_log = []\<rparr>"

lemma vmm_demo_pmm: "pmm_inv vmm_demo" "free_frames vmm_demo = {256 ..< 320}"
proof -
  have "used_frames vmm_demo = {}"
    by (rule used_frames_empty) (simp add: vmm_demo_def pmm_demo_def pmm.defs)
  then show "pmm_inv vmm_demo" "free_frames vmm_demo = {256 ..< 320}"
    by (simp_all add: pmm_inv_def free_frames_def managed_def nframes_def vmm_demo_def
        pmm_demo_def pmm.defs)
qed

lemma vmm_demo_path: "at_path (tables vmm_demo) 10 p = (if p = [] then Some 10 else None)"
  by (cases p) (simp_all add: vmm_demo_def pmm.defs)

lemma vmm_demo_inv: "pt_inv vmm_demo" "no_large vmm_demo v" "translate vmm_demo v = None"
proof -
  have pd: "page_dir vmm_demo = 10" by (simp add: vmm_demo_def pmm.defs)
  show "pt_inv vmm_demo"
    by (auto simp: pt_inv_def tree_in_def pd vmm_demo_path vmm_demo_pmm split: if_splits)
  show "no_large vmm_demo v" by (simp add: no_large_def vmm_demo_def pmm.defs)
  have "vpath v \<noteq> []" by (simp add: vpath_def)
  then show "translate vmm_demo v = None"
    by (simp add: translate_def translate_in_def pd vmm_demo_path)
qed

theorem map_page_correct_witness:
  "\<exists>s'. map_page 300 0x400000 PTE_USER vmm_demo = Some s' \<and>
    translate s' 0x400 = Some (leaf_pte 300 PTE_USER)"
  using map_page_correct [of vmm_demo "0x400000" PTE_USER 300]
  by (auto simp: vmm_demo_pmm vmm_demo_inv const_defs)

text \<open>mapping a page that is already mapped stops the kernel instead of overwriting
  the entry.\<close>

theorem map_page_twice_stops:
  assumes "translate s (drop_bit 12 addr) = Some e"
  shows "map_page frame addr flags s = None"
proof -
  obtain t where t: "at_path (tables s) (page_dir s) (vpath (drop_bit 12 addr)) = Some t"
    "pte_present (tables s t (pt_index 0 (drop_bit 12 addr)))"
    using assms by (auto simp: translate_def translate_in_def split: option.splits if_splits)
  show ?thesis
    using t walk_alloc_existing [of 3 s "drop_bit 12 addr" "page_dir s" t]
    by (simp add: map_page_def Let_def BUG_ON_def)
qed

theorem map_page_twice_stops_witness:
  "\<exists>s'. map_page 300 0x400000 PTE_USER vmm_demo = Some s' \<and>
    map_page 301 0x400000 PTE_USER s' = None"
proof -
  obtain s' where s': "map_page 300 0x400000 PTE_USER vmm_demo = Some s'"
    "translate s' (drop_bit 12 0x400000) = Some (leaf_pte 300 PTE_USER)"
    by (rule map_page_spec [of vmm_demo "0x400000" PTE_USER 300])
      (simp_all add: vmm_demo_pmm vmm_demo_inv const_defs)
  then show ?thesis using map_page_twice_stops [OF s'(2)] by blast
qed

end
