(* ===== verification/Heap.thy ===== *)
theory Heap
  imports Vmm
begin

text \<open>
  The kernel heap, \<open>src/src/mm/heap.c\<close>: a first-fit allocator over a chain of blocks,
  each a four-byte header holding its size (bit 0 set when the block is used) followed by the
  payload.  The model keeps the header words in a map from address to word, exactly where the
  code reads and writes them; payload bytes belong to the clients.  Addresses are natural
  numbers: the heap lies two terabytes below the end of the address space, so no address
  computation of a well-formed heap wraps; sizes are 32-bit words and do wrap.

  The loops are \<open>partial_function\<close>s, so that a heap whose headers are corrupt may
  make them run for ever; for well-formed heaps the theory proves that they return.
\<close>

section \<open>State and operations\<close>

record heap = vmm +
  heap_top :: nat
  hdr :: "nat \<Rightarrow> u32"

definition heap_start :: nat where "heap_start = 0xfffffe0000000000"

definition set_hdr :: "nat \<Rightarrow> u32 \<Rightarrow> 'z heap_scheme \<Rightarrow> 'z heap_scheme" where
  "set_hdr n w s = s\<lparr>hdr := (hdr s)(n := w)\<rparr>"

definition init_heap :: "'z heap_scheme \<Rightarrow> 'z heap_scheme option" where
  "init_heap s =
    do {
      (frame, s1) \<leftarrow> alloc_phys_page s;
      BUG_ON (frame = 0);
      let s2 = s1\<lparr>heap_top := heap_start\<rparr>;
      s3 \<leftarrow> map_kernel_page frame (of_nat (heap_top s2)) s2;
      let s4 = s3\<lparr>heap_top := heap_top s3 + 4096\<rparr>;
      Some (set_hdr heap_start (4096 - 4) s4)
    }"

text \<open>The inner loop of \<open>kmalloc\<close>: the total size of the free blocks that directly
  follow the block at \<open>n\<close>, headers included.\<close>

function merge_scan :: "(nat \<Rightarrow> u32) \<Rightarrow> nat \<Rightarrow> nat \<Rightarrow> u32 \<Rightarrow> u32" where
  "merge_scan h tp n increase =
    (let next_node = n + 4 + unat (h n)
     in if next_node < tp \<and> h next_node AND 1 = 0
        then merge_scan h tp next_node (increase + 4 + h next_node)
        else increase)"
  by pat_completeness auto
termination
  by (relation "measure (\<lambda>(h, tp, n, inc). tp - n)") auto

declare merge_scan.simps [simp del]

partial_function (option) kmalloc_loop ::
  "u32 \<Rightarrow> nat \<Rightarrow> nat \<Rightarrow> 'z heap_scheme \<Rightarrow> (nat \<times> 'z heap_scheme) option" where
  "kmalloc_loop sz n last_free_node s =
    (if heap_top s \<le> n then
       do {
         BUG_ON (n > heap_top s);
         (f, s1) \<leftarrow> alloc_phys_page s;
         let frame = (ucast f :: u32);
         if frame = 0 then Some (0, s1)
         else do {
           s2 \<leftarrow> map_kernel_page (ucast frame) (of_nat (heap_top s1)) s1;
           let s3 = s2\<lparr>heap_top := heap_top s2 + 4096\<rparr>;
           if last_free_node \<noteq> 0
           then kmalloc_loop sz last_free_node last_free_node
             (set_hdr last_free_node (hdr s3 last_free_node + 4096) s3)
           else kmalloc_loop sz n last_free_node (set_hdr n 4096 s3)
         }
       }
     else if hdr s n AND 1 \<noteq> 0 then
       kmalloc_loop sz (n + 4 + unat (hdr s n AND NOT 1)) 0 s
     else if unat sz + 4 \<le> unat (hdr s n) then
       let s1 = set_hdr (n + 4 + unat sz) (hdr s n - sz - 4) s
       in Some (n + 4, set_hdr n (sz OR 1) s1)
     else
       let increase = merge_scan (hdr s) (heap_top s) n 0
       in if increase \<noteq> 0 then kmalloc_loop sz n last_free_node (set_hdr n (hdr s n + increase) s)
          else kmalloc_loop sz (n + 4 + unat (hdr s n)) n s)"

definition align8 :: "u32 \<Rightarrow> u32" where
  "align8 sz = (sz + 7) div 8 * 8"

text \<open>The null pointer is address 0.\<close>

definition kmalloc :: "u32 \<Rightarrow> 'z heap_scheme \<Rightarrow> (nat \<times> 'z heap_scheme) option" where
  "kmalloc sz s = kmalloc_loop (align8 sz) heap_start 0 s"

partial_function (option) kfree_merge :: "nat \<Rightarrow> 'z heap_scheme \<Rightarrow> 'z heap_scheme option" where
  "kfree_merge node s =
    (let next_node = node + 4 + unat (hdr s node)
     in if next_node < heap_top s \<and> hdr s next_node AND 1 = 0
        then kfree_merge node (set_hdr node (hdr s node + (4 + hdr s next_node)) s)
        else Some s)"

definition kfree :: "nat \<Rightarrow> 'z heap_scheme \<Rightarrow> 'z heap_scheme option" where
  "kfree p s =
    (if p = 0 then Some s
     else do {
       BUG_ON (p < 4);
       let node = p - 4;
       BUG_ON (hdr s node AND 1 = 0);
       kfree_merge node (set_hdr node (hdr s node AND NOT 1) s)
     })"

section \<open>Well-formed heaps\<close>

text \<open>A block is its size and whether it is used; \<open>chain\<close> says that the headers from
  address \<open>n\<close> up to \<open>tp\<close> describe exactly the given blocks.\<close>

type_synonym block = "nat \<times> bool"

fun chain :: "(nat \<Rightarrow> u32) \<Rightarrow> nat \<Rightarrow> block list \<Rightarrow> nat \<Rightarrow> bool" where
  "chain h n [] tp \<longleftrightarrow> n = tp"
| "chain h n ((sz, u) # bs) tp \<longleftrightarrow>
     even sz \<and> unat (h n) = sz + of_bool u \<and> chain h (n + 4 + sz) bs tp"

fun allocs :: "nat \<Rightarrow> block list \<Rightarrow> (nat \<times> nat) list" where
  "allocs n [] = []"
| "allocs n ((sz, u) # bs) = (if u then [(n + 4, sz)] else []) @ allocs (n + 4 + sz) bs"

definition heap_blocks :: "'z heap_scheme \<Rightarrow> block list \<Rightarrow> bool" where
  "heap_blocks s bs \<longleftrightarrow> chain (hdr s) heap_start bs (heap_top s) \<and> bs \<noteq> [] \<and> \<not> snd (last bs)"

text \<open>The payloads handed out and not yet freed: address and size.\<close>

definition live :: "'z heap_scheme \<Rightarrow> (nat \<times> nat) set" where
  "live s = {a. \<exists>bs. chain (hdr s) heap_start bs (heap_top s) \<and> a \<in> set (allocs heap_start bs)}"

definition heap_inv :: "'z heap_scheme \<Rightarrow> bool" where
  "heap_inv s \<longleftrightarrow> pmm_inv s \<and> (\<exists>bs. heap_blocks s bs) \<and>
     heap_top s - heap_start + 4096 * card (free_frames s) < 2 ^ 32"

section \<open>Chains\<close>

lemma chain_append:
  "chain h n (as @ bs) tp \<longleftrightarrow> (\<exists>m. chain h n as m \<and> chain h m bs tp)"
  by (induction as arbitrary: n) auto

lemma allocs_append:
  "chain h n as m \<Longrightarrow> allocs n (as @ bs) = allocs n as @ allocs m bs"
  by (induction as arbitrary: n) auto

lemma chain_le: "chain h n bs tp \<Longrightarrow> n \<le> tp"
  by (induction bs arbitrary: n) force+

lemma chain_lt: "chain h n bs tp \<Longrightarrow> bs \<noteq> [] \<Longrightarrow> n < tp"
  by (cases bs) (force dest: chain_le)+

lemma chain_cong:
  "chain h n bs tp \<Longrightarrow> (\<And>a. n \<le> a \<Longrightarrow> a < tp \<Longrightarrow> h' a = h a) \<Longrightarrow> chain h' n bs tp"
proof (induction bs arbitrary: n)
  case Nil
  then show ?case by simp
next
  case (Cons b bs)
  obtain sz u where b: "b = (sz, u)" by (cases b)
  have "n < tp" using Cons.prems(1) chain_lt by blast
  then show ?case using Cons b by auto
qed

lemma chain_unique: "chain h n as tp \<Longrightarrow> chain h n bs tp \<Longrightarrow> as = bs"
proof (induction as arbitrary: n bs)
  case Nil
  then show ?case using chain_lt [of h n bs tp] by auto
next
  case (Cons a as)
  obtain sz u where a: "a = (sz, u)" by (cases a)
  have "n < tp" using Cons.prems(1) chain_lt by blast
  then obtain sz' u' bs' where b: "bs = (sz', u') # bs'" using Cons.prems(2) by (cases bs) auto
  have e: "even sz" "even sz'" "sz + of_bool u = sz' + of_bool u'"
    using Cons.prems a b by auto
  then have "u = u'" by (cases u; cases u') (simp_all, presburger+)
  then show ?case using e Cons a b by auto
qed

lemma allocs_range:
  assumes "chain h n bs tp" "(p, sz) \<in> set (allocs n bs)"
  shows "n + 4 \<le> p \<and> p + sz \<le> tp"
  using assms
proof (induction bs arbitrary: n)
  case Nil
  then show ?case by simp
next
  case (Cons b bs)
  obtain z u where b: "b = (z, u)" by (cases b)
  have "n + 4 + z \<le> tp" using Cons.prems(1) b chain_le by fastforce
  then show ?case using Cons b by (fastforce split: if_splits)
qed

text \<open>Bit 0 of a header word, as arithmetic on its value.\<close>

lemma and_1_iff: "(w :: u32) AND 1 \<noteq> 0 \<longleftrightarrow> odd (unat w)"
  by (simp add: and_one_eq word_unat_eq_iff unat_mod odd_iff_mod_2_eq_one)

lemma unat_and_not_1: "unat ((w :: u32) AND NOT 1) = unat w - unat w mod 2"
proof -
  have "w AND NOT 1 = push_bit (Suc 0) (drop_bit (Suc 0) w)"
  proof (rule bit_word_eqI)
    fix n
    show "bit (w AND NOT 1) n \<longleftrightarrow> bit (push_bit (Suc 0) (drop_bit (Suc 0) w)) n"
      unfolding bit_push_bit_iff bit_drop_bit_eq bit_and_iff bit_not_iff bit_1_iff
      by (cases n) (auto simp: bit_imp_le_length)
  qed
  also have "\<dots> = 2 * (w div 2)" by (simp add: push_bit_eq_mult drop_bit_eq_div mult.commute)
  also have "unat \<dots> = 2 * (unat w div 2)"
  proof -
    have "2 * (unat w div 2) < 4294967296" using unat_u32_lt [of w] by linarith
    then show ?thesis by (simp add: unat_word_ariths unat_div)
  qed
  finally show ?thesis by (simp add: minus_mod_eq_mult_div)
qed

lemma unat_or_1: "even (unat w) \<Longrightarrow> unat ((w :: u32) OR 1) = unat w + 1"
proof -
  assume e: "even (unat w)"
  have "even w" using e and_1_iff [of w] by (auto simp: and_one_eq even_iff_mod_2_eq_zero)
  then have "w OR 1 = w + 1" by (simp add: or_one_eq)
  moreover have "unat w + 1 < 2 ^ 32"
    using e unat_u32_lt [of w] by (cases "unat w = 4294967295") auto
  ultimately show ?thesis by (simp add: unat_word_ariths)
qed

lemma chain_odd: "chain h n ((sz, u) # bs) tp \<Longrightarrow> odd (unat (h n)) \<longleftrightarrow> u"
  by auto

lemma chain_used_size: "chain h n ((sz, True) # bs) tp \<Longrightarrow> unat (h n AND NOT 1) = sz"
proof -
  assume "chain h n ((sz, True) # bs) tp"
  then have "even sz" "unat (h n) = sz + 1" by auto
  then show ?thesis unfolding unat_and_not_1 by presburger
qed

lemma live_eq:
  assumes c: "chain (hdr s) heap_start bs (heap_top s)"
  shows "live s = set (allocs heap_start bs)"
proof -
  have "\<And>bs'. chain (hdr s) heap_start bs' (heap_top s) \<Longrightarrow> bs' = bs"
    by (rule chain_unique [OF _ c])
  then show ?thesis using c unfolding live_def by blast
qed

section \<open>Merging\<close>

lemma set_hdr_simps [simp]:
  "hdr (set_hdr n w s) = (hdr s)(n := w)" "heap_top (set_hdr n w s) = heap_top s"
  "heap.more (set_hdr n w s) = heap.more s" "tables (set_hdr n w s) = tables s"
  "page_dir (set_hdr n w s) = page_dir s"
  by (simp_all add: set_hdr_def)

fun frees_size :: "block list \<Rightarrow> nat" where
  "frees_size [] = 0"
| "frees_size ((sz, u) # bs) = (if u then 0 else 4 + sz + frees_size bs)"

fun skip_frees :: "block list \<Rightarrow> block list" where
  "skip_frees [] = []"
| "skip_frees ((sz, u) # bs) = (if u then (sz, u) # bs else skip_frees bs)"

lemma chain_skip_frees:
  "chain h n bs tp \<Longrightarrow> chain h (n + frees_size bs) (skip_frees bs) tp \<and> even (frees_size bs) \<and>
     frees_size bs \<le> tp - n"
proof (induction bs arbitrary: n)
  case Nil
  then show ?case by simp
next
  case (Cons b bs)
  obtain sz u where b: "b = (sz, u)" by (cases b)
  have "n + 4 + sz \<le> tp" using Cons.prems b chain_le by fastforce
  then show ?case using Cons.IH [of "n + 4 + sz"] Cons.prems b by (auto simp: algebra_simps)
qed

lemma allocs_skip_frees: "allocs (n + frees_size bs) (skip_frees bs) = allocs n bs"
proof (induction bs arbitrary: n)
  case Nil
  then show ?case by simp
next
  case (Cons b bs)
  then show ?case
    using Cons.IH [of "n + 4 + fst b"] by (cases b) (auto simp: algebra_simps)
qed

lemma skip_frees_last:
  "bs \<noteq> [] \<Longrightarrow> \<not> snd (last bs) \<Longrightarrow> skip_frees bs \<noteq> [] \<Longrightarrow>
     last (skip_frees bs) = last bs"
  by (induction bs) (auto split: if_splits)

lemma merge_scan_eq:
  assumes "chain h n ((sz, False) # bs) tp"
  shows "merge_scan h tp n inc = inc + of_nat (frees_size bs)"
  using assms
proof (induction bs arbitrary: n sz inc)
  case Nil
  then show ?case by (simp add: merge_scan.simps [of h tp n])
next
  case (Cons b bs)
  obtain z u where b: "b = (z, u)" by (cases b)
  let ?m = "n + 4 + sz"
  have hn: "unat (h n) = sz" using Cons.prems by simp
  have cm: "chain h ?m ((z, u) # bs) tp" using Cons.prems b by simp
  have lt: "?m < tp" using chain_lt [OF cm] by simp
  have odd: "(h ?m AND 1 = 0) = (\<not> u)" using and_1_iff [of "h ?m"] chain_odd [OF cm] by blast
  have unf: "merge_scan h tp n inc =
      (if \<not> u then merge_scan h tp ?m (inc + 4 + h ?m) else inc)"
    by (subst merge_scan.simps) (simp add: lt odd hn Let_def)
  show ?case
  proof (cases u)
    case True
    then show ?thesis using unf b by simp
  next
    case False
    have "unat (h ?m) = z" using cm False by simp
    then have "h ?m = of_nat z" by (rule of_nat_unatD)
    then show ?thesis using unf Cons.IH [of ?m z] cm False b by (simp add: algebra_simps)
  qed
qed

section \<open>One pass over the chain\<close>

text \<open>The loop of \<open>kmalloc\<close> at address \<open>n\<close>: the blocks already passed, the blocks ahead,
  and what \<open>last_free_node\<close> points to (nothing, the free block just passed, which is too
  small, or, after the heap has grown, the block at \<open>n\<close> itself).\<close>

definition at_node ::
  "u32 \<Rightarrow> 'z heap_scheme \<Rightarrow> nat \<Rightarrow> nat \<Rightarrow> block list \<Rightarrow> block list \<Rightarrow> bool" where
  "at_node sz s l n pre post \<longleftrightarrow>
     chain (hdr s) heap_start pre n \<and> chain (hdr s) n post (heap_top s) \<and>
     pre @ post \<noteq> [] \<and> \<not> snd (last (pre @ post)) \<and>
     ((pre = [] \<or> snd (last pre)) \<or>
      (\<exists>pre' z. pre = pre' @ [(z, False)] \<and> z < unat sz + 4 \<and> chain (hdr s) heap_start pre' l) \<or>
      (l = n \<and> post \<noteq> []))"

definition pass_found ::
  "u32 \<Rightarrow> 'z heap_scheme \<Rightarrow> block list \<Rightarrow> (nat \<times> 'z heap_scheme) option \<Rightarrow> bool" where
  "pass_found sz s bs r \<longleftrightarrow>
     (\<exists>p h' bs'. r = Some (p, s\<lparr>hdr := h'\<rparr>) \<and> p \<noteq> 0 \<and> heap_blocks (s\<lparr>hdr := h'\<rparr>) bs' \<and>
        set (allocs heap_start bs') = insert (p, unat sz) (set (allocs heap_start bs)) \<and>
        (\<forall>(q, m) \<in> set (allocs heap_start bs). p + unat sz < q \<or> q + m < p))"

definition pass_end ::
  "u32 \<Rightarrow> 'z heap_scheme \<Rightarrow> block list \<Rightarrow> (nat \<times> 'z heap_scheme) option \<Rightarrow> bool" where
  "pass_end sz s bs r \<longleftrightarrow>
     (\<exists>h' pre z l. r = kmalloc_loop sz (heap_top s) l (s\<lparr>hdr := h'\<rparr>) \<and>
        chain h' heap_start pre l \<and> chain h' l [(z, False)] (heap_top s) \<and> z < unat sz + 4 \<and>
        set (allocs heap_start (pre @ [(z, False)])) = set (allocs heap_start bs))"

lemma even_align8 [simp]: "even (unat (align8 sz))"
  by (simp add: align8_def unat_word_ariths dvd_mod_iff)

lemma allocs_split:
  "chain h heap_start pre n \<Longrightarrow>
     set (allocs heap_start (pre @ post)) = set (allocs heap_start pre) \<union> set (allocs n post)"
  by (simp add: allocs_append)

lemma fit_step:
  fixes s :: "'z heap_scheme"
  assumes pre: "chain (hdr s) heap_start pre n" and post: "chain (hdr s) n ((z, False) # post) (heap_top s)"
    and fin: "\<not> snd (last (pre @ (z, False) # post))"
    and ev: "even (unat sz)" and fit: "unat sz + 4 \<le> z"
  shows "pass_found sz s (pre @ (z, False) # post)
    (Some (n + 4, set_hdr n (sz OR 1) (set_hdr (n + 4 + unat sz) (hdr s n - sz - 4) s)))"
proof -
  let ?h' = "(hdr s)(n + 4 + unat sz := hdr s n - sz - 4, n := sz OR 1)"
  let ?rest = "(z - unat sz - 4, False) # post"
  let ?bs' = "pre @ (unat sz, True) # ?rest"
  have hn: "unat (hdr s n) = z" "even z" and tail: "chain (hdr s) (n + 4 + z) post (heap_top s)"
    using post by auto
  have "unat (hdr s n - sz) = z - unat sz"
    using fit hn by (simp add: unat_sub word_le_nat_alt)
  then have "unat (hdr s n - sz - 4) = z - unat sz - 4"
    using fit by (simp add: unat_sub word_le_nat_alt)
  moreover have "chain ?h' (n + 4 + z) post (heap_top s)"
    by (rule chain_cong [OF tail]) (use fit in auto)
  moreover have "even (z - unat sz - 4)" using hn(2) ev by simp
  ultimately have post': "chain ?h' n ((unat sz, True) # ?rest) (heap_top s)"
    using ev fit by (simp add: unat_or_1 add.commute add.left_commute)
  have pre': "chain ?h' heap_start pre n" by (rule chain_cong [OF pre]) auto
  have "chain ?h' heap_start ?bs' (heap_top s)"
    unfolding chain_append using pre' post' by blast
  moreover have "\<not> snd (last ?bs')" using fin by (cases "post = []") auto
  ultimately have "heap_blocks (s\<lparr>hdr := ?h'\<rparr>) ?bs'"
    by (simp add: heap_blocks_def del: chain.simps)
  moreover have rest: "allocs (n + 4 + unat sz) ?rest = allocs (n + 4 + z) post"
  proof -
    have "n + 4 + unat sz + 4 + (z - unat sz - 4) = n + 4 + z" using fit by simp
    moreover have "allocs (n + 4 + unat sz) ?rest =
      allocs (n + 4 + unat sz + 4 + (z - unat sz - 4)) post" by simp
    ultimately show ?thesis by (simp only:)
  qed
  then have "set (allocs heap_start ?bs') =
      insert (n + 4, unat sz) (set (allocs heap_start (pre @ (z, False) # post)))"
    using allocs_split [OF pre'] allocs_split [OF pre] by simp
  moreover have "\<forall>(q, m) \<in> set (allocs heap_start (pre @ (z, False) # post)).
      n + 4 + unat sz < q \<or> q + m < n + 4"
  proof -
    have "\<forall>(q, m) \<in> set (allocs heap_start pre). q + m < n + 4"
      using allocs_range [OF pre] by fastforce
    moreover have "\<forall>(q, m) \<in> set (allocs (n + 4 + z) post). n + 4 + unat sz < q"
      using allocs_range [OF tail] fit by fastforce
    ultimately show ?thesis using allocs_split [OF pre] by auto
  qed
  moreover have "set_hdr n (sz OR 1) (set_hdr (n + 4 + unat sz) (hdr s n - sz - 4) s) = s\<lparr>hdr := ?h'\<rparr>"
    by (simp add: set_hdr_def)
  ultimately show ?thesis unfolding pass_found_def by fastforce
qed

lemma merge_step:
  fixes s :: "'z heap_scheme"
  assumes pre: "chain (hdr s) heap_start pre n" and post: "chain (hdr s) n ((z, False) # post) (heap_top s)"
    and fin: "\<not> snd (last (pre @ (z, False) # post))"
    and small: "heap_top s - heap_start < 2 ^ 32"
  defines "h' \<equiv> (hdr s)(n := hdr s n + of_nat (frees_size post))"
  defines "post' \<equiv> (z + frees_size post, False) # skip_frees post"
  shows "chain h' heap_start pre n" "chain h' n post' (heap_top s)"
    "\<not> snd (last (pre @ post'))"
    "set (allocs heap_start (pre @ post')) = set (allocs heap_start (pre @ (z, False) # post))"
    "(of_nat (frees_size post) :: u32) = 0 \<longleftrightarrow> frees_size post = 0"
proof -
  have hn: "unat (hdr s n) = z" "even z" and tail: "chain (hdr s) (n + 4 + z) post (heap_top s)"
    using post by auto
  have sk: "chain (hdr s) (n + 4 + z + frees_size post) (skip_frees post) (heap_top s)"
    "even (frees_size post)" "frees_size post \<le> heap_top s - (n + 4 + z)"
    using chain_skip_frees [OF tail] by auto
  have "heap_start \<le> n" "n + 4 + z \<le> heap_top s" using chain_le [OF pre] chain_le [OF tail] by simp_all
  then have lim: "z + frees_size post < 4294967296" using sk(3) small by simp
  then have "unat (hdr s n + of_nat (frees_size post)) = z + frees_size post"
    using hn by (simp add: unat_word_ariths unat_of_nat)
  moreover have "chain h' (n + 4 + z + frees_size post) (skip_frees post) (heap_top s)"
    by (rule chain_cong [OF sk(1)]) (simp add: h'_def)
  ultimately show "chain h' n post' (heap_top s)"
    using hn sk by (simp add: h'_def post'_def ac_simps)
  show pre': "chain h' heap_start pre n" by (rule chain_cong [OF pre]) (simp add: h'_def)
  show "\<not> snd (last (pre @ post'))"
    using fin skip_frees_last [of post] by (cases "skip_frees post = []"; cases "post = []")
      (auto simp: post'_def)
  show "set (allocs heap_start (pre @ post')) = set (allocs heap_start (pre @ (z, False) # post))"
    using allocs_split [OF pre, of post'] allocs_split [OF pre, of "(z, False) # post"]
      allocs_skip_frees [of "n + 4 + z" post] by (simp add: post'_def ac_simps)
  show "(of_nat (frees_size post) :: u32) = 0 \<longleftrightarrow> frees_size post = 0"
    using lim by (simp add: word_unat_eq_iff unat_of_nat)
qed

lemma frees_mem:
  "(y, False) \<in> set bs \<Longrightarrow> y + 4 \<le> frees_size bs \<or> (y, False) \<in> set (skip_frees bs)"
  by (induction bs) auto

lemma chain_end_unique: "chain h n bs tp \<Longrightarrow> chain h n bs tp' \<Longrightarrow> tp' = tp"
  by (induction bs arbitrary: n) auto

lemma chain_snoc_end:
  assumes "chain h a (bs @ [(z, u)]) n" "chain h a bs l"
  shows "chain h l [(z, u)] n"
proof -
  obtain m where m: "chain h a bs m" "chain h m [(z, u)] n"
    using assms(1) unfolding chain_append by blast
  then have "m = l" using chain_end_unique [OF assms(2)] by simp
  then show ?thesis using m by simp
qed

lemma skip_frees_length: "frees_size bs \<noteq> 0 \<Longrightarrow> length (skip_frees bs) < length bs"
proof -
  have "length (skip_frees bs) \<le> length bs" for bs by (induction bs) auto
  then show "frees_size bs \<noteq> 0 \<Longrightarrow> length (skip_frees bs) < length bs"
    by (cases bs) (auto split: if_splits simp: less_Suc_eq_le)
qed

lemma pass_found_transfer:
  assumes "pass_found sz (s\<lparr>hdr := h\<rparr>) bs r"
    and "set (allocs heap_start bs) = set (allocs heap_start bs')"
  shows "pass_found sz s bs' r"
  using assms by (simp add: pass_found_def)

lemma pass_end_transfer:
  assumes "pass_end sz (s\<lparr>hdr := h\<rparr>) bs r"
    and "set (allocs heap_start bs) = set (allocs heap_start bs')"
  shows "pass_end sz s bs' r"
  using assms by (simp add: pass_end_def)

lemma one_pass:
  assumes "at_node sz s l n pre post" "even (unat sz)" "heap_top s - heap_start < 2 ^ 32"
  shows "pass_found sz s (pre @ post) (kmalloc_loop sz n l s) \<or>
    pass_end sz s (pre @ post) (kmalloc_loop sz n l s) \<and>
    (\<forall>z. (z, False) \<in> set post \<longrightarrow> z < unat sz + 4)"
  using assms
proof (induction "length post" arbitrary: post pre n l s rule: less_induct)
  case less
  have pre: "chain (hdr s) heap_start pre n" and post: "chain (hdr s) n post (heap_top s)"
    and fin: "pre @ post \<noteq> []" "\<not> snd (last (pre @ post))"
    using less.prems(1) by (auto simp: at_node_def)
  have hs: "0 < n" using chain_le [OF pre] by (simp add: heap_start_def)
  show ?case
  proof (cases post)
    case Nil
    then obtain pre' z where "pre = pre' @ [(z, False)]" "z < unat sz + 4"
      "chain (hdr s) heap_start pre' l"
      using less.prems(1) by (auto simp: at_node_def)
    moreover have "n = heap_top s" using post Nil by simp
    moreover have "chain (hdr s) l [(z, False)] n"
      using chain_snoc_end [of "hdr s" heap_start pre' z False n l] pre calculation by simp
    ultimately have "pass_end sz s (pre @ post) (kmalloc_loop sz n l s)"
      using Nil pre post unfolding pass_end_def
      by (intro exI [of _ "hdr s"] exI [of _ pre'] exI [of _ z] exI [of _ l]) simp
    then show ?thesis using Nil by simp
  next
    case (Cons b post')
    obtain z u where b: "b = (z, u)" by (cases b)
    have lt: "\<not> heap_top s \<le> n" using chain_lt [OF post] Cons by simp
    have c: "chain (hdr s) n ((z, u) # post') (heap_top s)" using post Cons b by simp
    have tail: "chain (hdr s) (n + 4 + z) post' (heap_top s)" using c by simp
    have u: "hdr s n AND 1 \<noteq> 0 \<longleftrightarrow> u" using and_1_iff chain_odd [OF c] by blast
    have pre1: "chain (hdr s) heap_start (pre @ [(z, u)]) (n + 4 + z)"
      using pre c by (auto simp: chain_append)
    show ?thesis
    proof (cases u)
      case True
      have "kmalloc_loop sz n l s = kmalloc_loop sz (n + 4 + z) 0 s"
        using lt u True chain_used_size [of "hdr s" n z post' "heap_top s"] c
        by (subst kmalloc_loop.simps) simp
      moreover have "at_node sz s 0 (n + 4 + z) (pre @ [(z, u)]) post'"
        using pre1 tail fin Cons b True by (simp add: at_node_def)
      ultimately show ?thesis
        using less.hyps [of post' s 0 "n + 4 + z" "pre @ [(z, u)]"] less.prems Cons b True by simp
    next
      case False
      have hn: "unat (hdr s n) = z" using c False by simp
      show ?thesis
      proof (cases "unat sz + 4 \<le> z")
        case True
        have "kmalloc_loop sz n l s =
          Some (n + 4, set_hdr n (sz OR 1) (set_hdr (n + 4 + unat sz) (hdr s n - sz - 4) s))"
          using lt u False hn True by (subst kmalloc_loop.simps) simp
        then show ?thesis
          using fit_step [of s pre n z post' sz] pre c fin Cons b False True less.prems(2) by simp
      next
        case small: False
        have ms: "merge_scan (hdr s) (heap_top s) n 0 = of_nat (frees_size post')"
          using merge_scan_eq c False by fastforce
        note step = merge_step [of s pre n z post', OF pre _ _ less.prems(3)]
        have c': "chain (hdr s) n ((z, False) # post') (heap_top s)" using c False by simp
        have fin': "\<not> snd (last (pre @ (z, False) # post'))" using fin Cons b False by simp
        note st = step [OF c' fin']
        show ?thesis
        proof (cases "frees_size post' = 0")
          case True
          have "kmalloc_loop sz n l s = kmalloc_loop sz (n + 4 + z) n s"
            using lt u False hn small ms True by (subst kmalloc_loop.simps) (simp add: Let_def)
          moreover have "at_node sz s n (n + 4 + z) (pre @ [(z, u)]) post'"
            using pre pre1 tail fin Cons b False small by (simp add: at_node_def)
          ultimately show ?thesis
            using less.hyps [of post' s n "n + 4 + z" "pre @ [(z, u)]"] less.prems Cons b False small
            by auto
        next
          case merge: False
          let ?h' = "(hdr s)(n := hdr s n + of_nat (frees_size post'))"
          let ?p = "(z + frees_size post', False) # skip_frees post'"
          have k: "kmalloc_loop sz n l s = kmalloc_loop sz n l (s\<lparr>hdr := ?h'\<rparr>)"
            using lt u False hn small ms merge st(5)
            by (subst kmalloc_loop.simps) (simp add: Let_def set_hdr_def)
          have "chain ?h' heap_start pre' l"
            if "pre = pre' @ [(y, False)]" "chain (hdr s) heap_start pre' l" for pre' y
          proof -
            have "l < n" using chain_lt [OF chain_snoc_end] pre that by blast
            then show ?thesis using that by (auto elim!: chain_cong)
          qed
          then have "at_node sz (s\<lparr>hdr := ?h'\<rparr>) l n pre ?p"
            using st(1-3) less.prems(1) unfolding at_node_def by auto
          moreover have "length ?p < length post"
            using skip_frees_length [OF merge] Cons by simp
          ultimately have r: "pass_found sz (s\<lparr>hdr := ?h'\<rparr>) (pre @ ?p) (kmalloc_loop sz n l s) \<or>
              pass_end sz (s\<lparr>hdr := ?h'\<rparr>) (pre @ ?p) (kmalloc_loop sz n l s) \<and>
              (\<forall>y. (y, False) \<in> set ?p \<longrightarrow> y < unat sz + 4)"
            using less.hyps [of ?p "s\<lparr>hdr := ?h'\<rparr>" l n pre] less.prems k by simp
          have unmerged: "y < unat sz + 4" if "\<forall>y. (y, False) \<in> set ?p \<longrightarrow> y < unat sz + 4"
            "(y, False) \<in> set post" for y
          proof -
            have lim: "z + frees_size post' < unat sz + 4"
              and sk: "\<And>x. (x, False) \<in> set (skip_frees post') \<Longrightarrow> x < unat sz + 4"
              using that(1) by simp_all
            have "y = z \<or> (y, False) \<in> set post'" using that(2) Cons b by auto
            then show ?thesis using lim sk small frees_mem [of y post'] by auto
          qed
          have sets: "set (allocs heap_start (pre @ ?p)) = set (allocs heap_start (pre @ post))"
            using st(4) Cons b False by simp
          from r show ?thesis
          proof (elim disjE conjE)
            assume "pass_found sz (s\<lparr>hdr := ?h'\<rparr>) (pre @ ?p) (kmalloc_loop sz n l s)"
            then show ?thesis using pass_found_transfer [OF _ sets] by blast
          next
            assume "pass_end sz (s\<lparr>hdr := ?h'\<rparr>) (pre @ ?p) (kmalloc_loop sz n l s)"
              and all: "\<forall>y. (y, False) \<in> set ?p \<longrightarrow> y < unat sz + 4"
            then show ?thesis using pass_end_transfer [OF _ sets] unmerged [OF all] by blast
          qed
        qed
      qed
    qed
  qed
qed

section \<open>Growing\<close>

lemma heap_view_simps [simp]:
  "managed (hdr_update f s) = managed s" "managed (heap_top_update g s) = managed s"
  "used_frames (hdr_update f s) = used_frames s"
  "used_frames (heap_top_update g s) = used_frames s"
  "free_frames (hdr_update f s) = free_frames s"
  "free_frames (heap_top_update g s) = free_frames s"
  "pmm_inv (hdr_update f s) = pmm_inv s" "pmm_inv (heap_top_update g s) = pmm_inv s"
  "pt_inv (hdr_update f s) = pt_inv s" "pt_inv (heap_top_update g s) = pt_inv s"
  "translate (hdr_update f s) = translate s" "translate (heap_top_update g s) = translate s"
  "no_large (hdr_update f s) = no_large s" "no_large (heap_top_update g s) = no_large s"
  by (simp_all add: managed_def nframes_def used_frames_def free_frames_def pmm_inv_def
      pt_inv_def translate_def no_large_def fun_eq_iff)

lemma set_hdr_view [simp]:
  "free_frames (set_hdr n w s) = free_frames s" "pmm_inv (set_hdr n w s) = pmm_inv s"
  "pt_inv (set_hdr n w s) = pt_inv s" "translate (set_hdr n w s) = translate s"
  "no_large (set_hdr n w s) = no_large s"
  by (simp_all add: set_hdr_def)

lemma heap_more_eq:
  assumes "vmm.more s' = vmm.more s"
  shows "heap_top s' = heap_top s" "hdr s' = hdr s" "heap.more s' = heap.more s"
  using assms by (cases s; cases s'; simp)+

lemma heap_fields_unchanged:
  assumes "alloc_phys_page s = Some (f, s')"
  shows "heap_top s' = heap_top s" "hdr s' = hdr s" "heap.more s' = heap.more s"
  using heap_more_eq [OF alloc_phys_page_vmm(4) [OF assms]] by simp_all

definition small_heap :: "'z heap_scheme \<Rightarrow> bool" where
  "small_heap s \<longleftrightarrow> pmm_inv s \<and> heap_top s - heap_start + 4096 * card (free_frames s) < 2 ^ 32"

text \<open>What one growth of the heap does, when it returns.\<close>

lemma grow_step:
  fixes s :: "'z heap_scheme"
  assumes sm: "small_heap s" and a: "alloc_phys_page s = Some (f, s1)" and f: "f \<noteq> 0"
    and m: "map_kernel_page f' a s1 = Some s2" and hs: "heap_start \<le> heap_top s"
  shows "small_heap (s2\<lparr>heap_top := heap_top s2 + 4096\<rparr>)"
    "card (free_frames s2) < card (free_frames s)"
    "heap_top s2 = heap_top s" "hdr s2 = hdr s"
proof -
  have inv: "pmm_inv s" using sm by (simp add: small_heap_def)
  have s1: "pmm_inv s1" "unat f \<in> free_frames s" "free_frames s1 = free_frames s - {unat f}"
    using frames.alloc_cases [OF inv a] f by auto
  have s2: "pmm_inv s2" "free_frames s2 \<subseteq> free_frames s1" "vmm.more s2 = vmm.more s1"
    using map_page_frame [OF m [unfolded map_kernel_page_def]] s1(1) by auto
  show h: "heap_top s2 = heap_top s" "hdr s2 = hdr s"
    using heap_more_eq [OF s2(3)] heap_fields_unchanged [OF a] by auto
  have "card (free_frames s) = Suc (card (free_frames s1))"
    unfolding s1(3) by (rule card.remove [OF finite_free_frames s1(2)])
  moreover have "card (free_frames s2) \<le> card (free_frames s1)"
    using s2(2) by (simp add: card_mono)
  ultimately show c: "card (free_frames s2) < card (free_frames s)" by linarith
  show "small_heap (s2\<lparr>heap_top := heap_top s2 + 4096\<rparr>)"
  proof -
    have "heap_top s - heap_start + 4096 * card (free_frames s) < 4294967296"
      using sm by (simp add: small_heap_def)
    then have "heap_top s + 4096 - heap_start + 4096 * card (free_frames s2) < 4294967296"
      using c hs by linarith
    then show ?thesis using s2(1) h by (simp add: small_heap_def)
  qed
qed

text \<open>Every outcome of the allocator from a well-formed heap: it stops the kernel, reports
  that memory is exhausted, or hands out a block disjoint from all others.\<close>

definition kmalloc_result ::
  "u32 \<Rightarrow> (nat \<times> nat) set \<Rightarrow> (nat \<times> 'z heap_scheme) option \<Rightarrow> bool" where
  "kmalloc_result sz L r \<longleftrightarrow>
     (\<forall>p s'. r = Some (p, s') \<longrightarrow> heap_inv s' \<and>
        (if p = 0 then live s' = L
         else live s' = insert (p, unat sz) L \<and>
           (\<forall>(q, m) \<in> L. p + unat sz < q \<or> q + m < p)))"

lemma pass_found_result:
  assumes sm: "small_heap s" and f: "pass_found sz s bs r"
  shows "kmalloc_result sz (set (allocs heap_start bs)) r \<and> (\<exists>p s'. r = Some (p, s') \<and> p \<noteq> 0)"
proof -
  obtain p h' bs' where *: "r = Some (p, s\<lparr>hdr := h'\<rparr>)" "p \<noteq> 0"
    "heap_blocks (s\<lparr>hdr := h'\<rparr>) bs'"
    "set (allocs heap_start bs') = insert (p, unat sz) (set (allocs heap_start bs))"
    "\<forall>(q, m) \<in> set (allocs heap_start bs). p + unat sz < q \<or> q + m < p"
    using f by (auto simp: pass_found_def)
  have "heap_inv (s\<lparr>hdr := h'\<rparr>)"
    using sm *(3) by (auto simp: heap_inv_def small_heap_def)
  moreover have "live (s\<lparr>hdr := h'\<rparr>) = set (allocs heap_start bs')"
    using *(3) by (intro live_eq) (simp add: heap_blocks_def)
  ultimately show ?thesis using * by (simp add: kmalloc_result_def)
qed

lemma kmalloc_from_end:
  fixes s :: "'z heap_scheme"
  assumes "small_heap s" "even (unat sz)"
    "chain (hdr s) heap_start pre l" "chain (hdr s) l [(z, False)] (heap_top s)"
  shows "kmalloc_result sz (set (allocs heap_start pre)) (kmalloc_loop sz (heap_top s) l s)"
  using assms
proof (induction "card (free_frames s)" arbitrary: s pre l z rule: less_induct)
  case less
  let ?T = "heap_top s"
  have inv: "pmm_inv s" using less.prems(1) by (simp add: small_heap_def)
  have l0: "l \<noteq> 0" "heap_start \<le> l" "l < ?T"
    using chain_le [OF less.prems(3)] chain_lt [OF less.prems(4)] by (auto simp: heap_start_def)
  show ?case
  proof (cases "free_frames s = {}")
    case True
    then have "kmalloc_loop sz ?T l s = Some (0, s)"
      using frames.alloc_exhausted [OF inv] by (subst kmalloc_loop.simps) simp
    moreover have bl: "chain (hdr s) heap_start (pre @ [(z, False)]) ?T"
      using less.prems(3,4) unfolding chain_append by blast
    moreover have "live s = set (allocs heap_start pre)"
      using live_eq [OF bl] allocs_append [OF less.prems(3), of "[(z, False)]"] by simp
    moreover have "heap_inv s"
      using less.prems(1) bl by (auto simp: heap_inv_def small_heap_def heap_blocks_def
          intro!: exI [of _ "pre @ [(z, False)]"])
    ultimately show ?thesis by (simp add: kmalloc_result_def)
  next
    case False
    then obtain f s1 where a: "alloc_phys_page s = Some (f, s1)" "f \<noteq> 0" "unat f \<in> free_frames s"
      using frames.alloc_available [OF inv] by blast
    have "unat f < 2 ^ 32"
      using a(3) inv by (auto simp: free_frames_def managed_def pmm_inv_def)
    then have fz: "(ucast f :: u32) \<noteq> 0"
      using a(2) by (simp add: word_unat_eq_iff unsigned_ucast_eq take_bit_eq_mod)
    let ?m = "map_kernel_page (ucast (ucast f :: u32)) (of_nat (heap_top s1)) s1"
    show ?thesis
    proof (cases ?m)
      case None
      then have "kmalloc_loop sz ?T l s = None"
        using a fz by (subst kmalloc_loop.simps) (simp add: Let_def)
      then show ?thesis by (simp add: kmalloc_result_def)
    next
      case (Some s2)
      note g = grow_step [OF less.prems(1) a(1,2) Some]
      let ?s3 = "s2\<lparr>heap_top := heap_top s2 + 4096\<rparr>"
      let ?s4 = "set_hdr l (hdr ?s3 l + 4096) ?s3"
      let ?post = "[(z + 4096, False)]"
      have hs: "heap_start \<le> ?T" using l0 by simp
      have k: "kmalloc_loop sz ?T l s = kmalloc_loop sz l l ?s4"
        using a fz Some l0 g(3,4) [OF hs] heap_fields_unchanged [OF a(1)]
        by (subst kmalloc_loop.simps) (simp add: Let_def)
      have sm4: "small_heap ?s4" using g(1) [OF hs] by (simp add: small_heap_def)
      have zT: "unat (hdr s l) = z" "even z" "l + 4 + z = ?T" using less.prems(4) by auto
      have "?T + 4096 - heap_start < 2 ^ 32"
        using sm4 g(3) [OF hs] by (simp add: small_heap_def)
      then have "z + 4096 < 2 ^ 32" using zT(3) l0 by linarith
      then have "unat (hdr s l + 4096) = z + 4096"
        using zT(1) by (simp add: unat_word_ariths)
      then have c: "chain (hdr ?s4) l ?post (heap_top ?s4)"
        using zT g(3,4) [OF hs] by simp
      have p: "chain (hdr ?s4) heap_start pre l"
        by (rule chain_cong [OF less.prems(3)]) (simp add: g(4) [OF hs])
      have at: "at_node sz ?s4 l l pre ?post"
        using c p by (simp add: at_node_def del: chain.simps)
      have sets: "set (allocs heap_start (pre @ ?post)) = set (allocs heap_start pre)"
        using allocs_append [OF p, of ?post] by simp
      have lim: "heap_top ?s4 - heap_start < 2 ^ 32" using sm4 by (simp add: small_heap_def)
      from one_pass [OF at less.prems(2) lim] show ?thesis
      proof (elim disjE conjE)
        assume "pass_found sz ?s4 (pre @ ?post) (kmalloc_loop sz l l ?s4)"
        from pass_found_result [OF sm4 this] show ?thesis unfolding sets k by blast
      next
        assume "pass_end sz ?s4 (pre @ ?post) (kmalloc_loop sz l l ?s4)"
        then obtain h' pre' z' l' where e:
          "kmalloc_loop sz l l ?s4 = kmalloc_loop sz (heap_top ?s4) l' (?s4\<lparr>hdr := h'\<rparr>)"
          "chain h' heap_start pre' l'" "chain h' l' [(z', False)] (heap_top ?s4)"
          "set (allocs heap_start (pre' @ [(z', False)])) = set (allocs heap_start (pre @ ?post))"
          unfolding pass_end_def by blast
        have "set (allocs heap_start pre') = set (allocs heap_start pre)"
          using e(4) sets allocs_append [OF e(2), of "[(z', False)]"] by simp
        then show ?thesis
          using less.hyps [of "?s4\<lparr>hdr := h'\<rparr>" pre' l' z'] g(2) [OF hs] sm4 e k less.prems(2)
          by (simp add: small_heap_def)
      qed
    qed
  qed
qed

lemma heap_at_start:
  assumes "heap_inv s"
  obtains bs where "heap_blocks s bs" "at_node sz s 0 heap_start [] bs" "small_heap s"
    "live s = set (allocs heap_start bs)" "heap_top s - heap_start < 2 ^ 32"
proof -
  obtain bs where bs: "heap_blocks s bs" using assms by (auto simp: heap_inv_def)
  have "at_node sz s 0 heap_start [] bs" using bs by (auto simp: at_node_def heap_blocks_def)
  moreover have "small_heap s" using assms by (simp add: heap_inv_def small_heap_def)
  moreover have "live s = set (allocs heap_start bs)"
    using bs by (intro live_eq) (simp add: heap_blocks_def)
  ultimately show ?thesis using that bs assms by (simp add: heap_inv_def)
qed

lemma kmalloc_outcome:
  assumes "heap_inv s"
  shows "kmalloc_result (align8 sz) (live s) (kmalloc sz s)"
proof -
  obtain bs where bs: "heap_blocks s bs" "at_node (align8 sz) s 0 heap_start [] bs" "small_heap s"
    "live s = set (allocs heap_start bs)" "heap_top s - heap_start < 2 ^ 32"
    using heap_at_start [OF assms] by blast
  from one_pass [OF bs(2) even_align8 bs(5)] show ?thesis
  proof (elim disjE conjE)
    assume "pass_found (align8 sz) s ([] @ bs) (kmalloc_loop (align8 sz) heap_start 0 s)"
    then show ?thesis using pass_found_result [OF bs(3)] bs(4) by (simp add: kmalloc_def)
  next
    assume "pass_end (align8 sz) s ([] @ bs) (kmalloc_loop (align8 sz) heap_start 0 s)"
    then obtain h' pre z l where e: "kmalloc_loop (align8 sz) heap_start 0 s =
        kmalloc_loop (align8 sz) (heap_top s) l (s\<lparr>hdr := h'\<rparr>)"
      "chain h' heap_start pre l" "chain h' l [(z, False)] (heap_top s)"
      "set (allocs heap_start (pre @ [(z, False)])) = set (allocs heap_start bs)"
      by (auto simp: pass_end_def simp del: chain.simps)
    have "set (allocs heap_start pre) = live s"
      using e(4) bs(4) allocs_append [OF e(2), of "[(z, False)]"] by simp
    then show ?thesis
      using kmalloc_from_end [of "s\<lparr>hdr := h'\<rparr>" "align8 sz" pre l z] e bs(3)
      by (simp add: kmalloc_def small_heap_def)
  qed
qed

section \<open>Enough memory\<close>

lemma heap_page_distinct:
  assumes a: "heap_start \<le> a" "a < heap_start + 2 ^ 32" "4096 dvd a"
    and b: "heap_start \<le> b" "b < heap_start + 2 ^ 32" "4096 dvd b"
    and same: "same_page (drop_bit 12 (of_nat a)) (drop_bit 12 (of_nat b))"
  shows "a = b"
proof -
  have idx: "pt_index i v = unat v div 512 ^ i mod 512" for i v
  proof -
    have "pt_index i v = unat (take_bit 9 (drop_bit (9 * i) v))"
      by (simp add: pt_index_def take_bit_eq_mask mask_eq_exp_minus_1)
    also have "\<dots> = take_bit 9 (unat (drop_bit (9 * i) v))"
      by (simp only: unsigned_take_bit_eq)
    also have "\<dots> = drop_bit (9 * i) (unat v) mod 512"
      by (simp only: take_bit_eq_mod unat_drop_bit_eq) simp
    also have "\<dots> = unat v div 512 ^ i mod 512" by (simp add: drop_bit_eq_div power_mult)
    finally show ?thesis .
  qed
  have vp: "unat (drop_bit 12 (of_nat x :: u64)) = x div 4096"
    if "x < heap_start + 2 ^ 32" for x
    using that unfolding unat_drop_bit_eq unat_of_nat by (simp add: drop_bit_eq_div heap_start_def)
  let ?x = "a div 4096" and ?y = "b div 4096"
  have "?x div 512 ^ 3 mod 512 = ?y div 512 ^ 3 mod 512"
    "?x div 512 ^ 2 mod 512 = ?y div 512 ^ 2 mod 512" "?x div 512 mod 512 = ?y div 512 mod 512"
    "?x mod 512 = ?y mod 512"
    using same by (simp_all add: same_page_def vpath_def idx vp [OF a(2)] vp [OF b(2)])
  moreover have "z mod 68719476736 = ((z div 512 ^ 3 mod 512 * 512 + z div 512 ^ 2 mod 512) * 512 +
      z div 512 mod 512) * 512 + z mod 512" for z :: nat
    using mod_mult2_eq [of z 512 134217728] mod_mult2_eq [of "z div 512" 512 262144]
      mod_mult2_eq [of "z div 262144" 512 512] div_mult2_eq [of z 512 512]
      div_mult2_eq [of z 262144 512] by simp
  ultimately have m: "?x mod 68719476736 = ?y mod 68719476736" by metis
  have "?x div 68719476736 = 65535" "?y div 68719476736 = 65535"
    using a b by (simp_all add: heap_start_def div_nat_eqI)
  then have "?x = ?y" using m by (metis div_mult_mod_eq)
  then show "a = b" using a(3) b(3) by (metis dvd_div_mult_self)
qed

text \<open>The address space above the heap is untouched and there are page frames for \<open>k\<close>
  growths, page tables included.\<close>

definition grow_ready :: "nat \<Rightarrow> 'z heap_scheme \<Rightarrow> bool" where
  "grow_ready k s \<longleftrightarrow> small_heap s \<and> pt_inv s \<and> heap_start \<le> heap_top s \<and>
     4096 dvd heap_top s \<and> 4 * k \<le> card (free_frames s) \<and>
     (\<forall>a. heap_top s \<le> a \<longrightarrow> a < heap_start + 2 ^ 32 \<longrightarrow> 4096 dvd a \<longrightarrow>
        translate s (drop_bit 12 (of_nat a)) = None \<and> no_large s (drop_bit 12 (of_nat a)))"

lemma grow_ready_hdr [simp]: "grow_ready k (s\<lparr>hdr := h\<rparr>) = grow_ready k s"
  by (simp add: grow_ready_def small_heap_def)

lemma grow_ready_mono: "grow_ready (j + k) s \<Longrightarrow> grow_ready k s"
  by (simp add: grow_ready_def)

lemma page_aligned_word:
  assumes "4096 dvd a" "a < 2 ^ 64"
  shows "(of_nat a :: u64) AND 4095 = 0"
proof -
  have "(of_nat a :: u64) AND 4095 = take_bit 12 (of_nat a)"
    by (simp add: take_bit_eq_mask mask_eq_exp_minus_1)
  also have "\<dots> = of_nat (take_bit 12 a)" by (simp add: take_bit_of_nat)
  also have "take_bit 12 a = 0" using assms(1) by (simp add: take_bit_eq_mod)
  finally show ?thesis by simp
qed

lemma pt_views_alloc:
  assumes "alloc_phys_page s = Some (f, s1)" "free_frames s1 \<subseteq> free_frames s"
  shows "pt_inv s \<Longrightarrow> pt_inv s1" "translate s1 v = translate s v"
    "no_large s1 v = no_large s v"
  using assms alloc_phys_page_vmm [OF assms(1)]
  by (auto simp: pt_inv_def translate_def no_large_def)

lemma grow_ok:
  fixes s :: "'z heap_scheme"
  assumes rdy: "grow_ready (Suc k) s"
  obtains f s1 s2 where "alloc_phys_page s = Some (f, s1)" "f \<noteq> 0" "unat f < 2 ^ 32"
    "map_kernel_page f (of_nat (heap_top s)) s1 = Some s2" "heap_top s2 = heap_top s"
    "hdr s2 = hdr s" "grow_ready k (s2\<lparr>heap_top := heap_top s + 4096\<rparr>)"
proof -
  let ?T = "heap_top s"
  have inv: "pmm_inv s" "pt_inv s" and sm: "small_heap s" and hs: "heap_start \<le> ?T"
    and al: "4096 dvd ?T" and cd: "4 * Suc k \<le> card (free_frames s)"
    and va: "\<And>a. ?T \<le> a \<Longrightarrow> a < heap_start + 2 ^ 32 \<Longrightarrow> 4096 dvd a \<Longrightarrow>
      translate s (drop_bit 12 (of_nat a)) = None \<and> no_large s (drop_bit 12 (of_nat a))"
    using rdy by (auto simp: grow_ready_def small_heap_def)
  have ne: "free_frames s \<noteq> {}" using cd by auto
  obtain f s1 where a: "alloc_phys_page s = Some (f, s1)" "f \<noteq> 0" "unat f \<in> free_frames s"
    "pmm_inv s1" "free_frames s1 = free_frames s - {unat f}"
    using frames.alloc_available [OF inv(1) ne] by blast
  have sub: "free_frames s1 \<subseteq> free_frames s" using a(5) by blast
  note v1 = pt_views_alloc [OF a(1) sub]
  have c1: "card (free_frames s) = Suc (card (free_frames s1))"
    unfolding a(5) by (rule card.remove [OF finite_free_frames a(3)])
  have T: "?T < heap_start + 2 ^ 32"
    using sm hs unfolding small_heap_def by linarith
  have al': "(of_nat ?T :: u64) AND 4095 = 0"
    using T al by (intro page_aligned_word) (simp_all add: heap_start_def)
  have fl: "\<not> bit PTE_WRITE 7" by (simp add: const_defs bit_simps)
  have "no_large s1 (drop_bit 12 (of_nat ?T))" "translate s1 (drop_bit 12 (of_nat ?T)) = None"
    "3 \<le> card (free_frames s1)"
    using va [OF order_refl T al] v1 c1 cd by simp_all
  then obtain s2 where m: "map_page f (of_nat ?T) PTE_WRITE s1 = Some s2" "pmm_inv s2" "pt_inv s2"
    "page_dir s2 = page_dir s1"
    "\<And>w. \<not> same_page w (drop_bit 12 (of_nat ?T)) \<Longrightarrow> translate s2 w = translate s1 w"
    "card (free_frames s1) \<le> card (free_frames s2) + 3"
    "\<And>w. no_large s1 w \<Longrightarrow> no_large s2 w" "vmm.more s2 = vmm.more s1"
    using map_page_spec [OF a(4) v1(1) [OF inv(2)] al' fl, of f] by metis
  have mk: "map_kernel_page f (of_nat ?T) s1 = Some s2" using m(1) by (simp add: map_kernel_page_def)
  note g = grow_step [OF sm a(1,2) mk hs]
  have "unat f < 2 ^ 32"
    using a(3) inv by (auto simp: free_frames_def managed_def pmm_inv_def)
  moreover have "translate s2 (drop_bit 12 (of_nat b)) = None \<and> no_large s2 (drop_bit 12 (of_nat b))"
    if b: "?T + 4096 \<le> b" "b < heap_start + 2 ^ 32" "4096 dvd b" for b
  proof -
    have "\<not> same_page (drop_bit 12 (of_nat b)) (drop_bit 12 (of_nat ?T))"
      using heap_page_distinct [OF _ b(2,3) hs T al] b(1) hs by auto
    then show ?thesis using m(5,7) v1 va [OF _ b(2,3)] b(1) by simp
  qed
  moreover have "4 * k \<le> card (free_frames s2)" using m(6) c1 cd by simp
  ultimately have "grow_ready k (s2\<lparr>heap_top := ?T + 4096\<rparr>)"
    using g m(3) hs al by (auto simp: grow_ready_def)
  then show ?thesis using that [OF a(1,2) _ mk] g(3,4) \<open>unat f < 2 ^ 32\<close> by blast
qed

lemma last_block_step:
  assumes "chain (hdr s) l [(z, False)] (heap_top s)" "z < unat sz + 4"
  shows "kmalloc_loop sz l l' s = kmalloc_loop sz (heap_top s) l s"
proof -
  have z: "unat (hdr s l) = z" "even z" "l + 4 + z = heap_top s" using assms(1) by auto
  have "merge_scan (hdr s) (heap_top s) l 0 = 0"
    using merge_scan_eq [OF assms(1), of 0] by simp
  then show ?thesis
    using z assms(2) and_1_iff [of "hdr s l"]
    by (subst kmalloc_loop.simps) (simp add: Let_def)
qed

lemma kmalloc_from_end_total:
  fixes s :: "'z heap_scheme"
  assumes "grow_ready (k + j) s" "even (unat sz)" "z < unat sz + 4" "unat sz + 4 \<le> z + 4096 * k"
    "chain (hdr s) heap_start pre l" "chain (hdr s) l [(z, False)] (heap_top s)"
  shows "\<exists>p s'. kmalloc_loop sz (heap_top s) l s = Some (p, s') \<and> p \<noteq> 0 \<and> grow_ready j s'"
  using assms
proof (induction k arbitrary: s z)
  case 0
  then show ?case by simp
next
  case (Suc k)
  let ?T = "heap_top s"
  obtain f s1 s2 where g: "alloc_phys_page s = Some (f, s1)" "f \<noteq> 0" "unat f < 2 ^ 32"
    "map_kernel_page f (of_nat ?T) s1 = Some s2" "heap_top s2 = ?T"
    "hdr s2 = hdr s" "grow_ready (k + j) (s2\<lparr>heap_top := ?T + 4096\<rparr>)"
    using grow_ok [of "k + j" s] Suc.prems(1) by (metis add_Suc)
  have l0: "l \<noteq> 0" "l < ?T"
    using chain_le [OF Suc.prems(5)] chain_lt [OF Suc.prems(6)] by (auto simp: heap_start_def)
  have f: "(ucast f :: u32) \<noteq> 0" "ucast (ucast f :: u32) = f"
    using g(2,3) by (simp_all add: word_unat_eq_iff unsigned_ucast_eq take_bit_eq_mod unat_mod)
  let ?s4 = "set_hdr l (hdr s2 l + 4096) (s2\<lparr>heap_top := ?T + 4096\<rparr>)"
  have k: "kmalloc_loop sz ?T l s = kmalloc_loop sz l l ?s4"
    using g f l0 heap_fields_unchanged [OF g(1)] by (subst kmalloc_loop.simps) (simp add: Let_def)
  have r4: "grow_ready (k + j) ?s4" using g(7) by (simp add: set_hdr_def)
  have z: "unat (hdr s l) = z" "even z" "l + 4 + z = ?T" using Suc.prems(6) by auto
  have lim: "heap_top ?s4 - heap_start < 2 ^ 32"
    using r4 by (simp add: grow_ready_def small_heap_def)
  have "heap_start \<le> l" by (rule chain_le [OF Suc.prems(5)])
  then have "z + 4096 < 2 ^ 32" using lim z by simp
  then have "unat (hdr s l + 4096) = z + 4096" using z(1) by (simp add: unat_word_ariths)
  then have c: "chain (hdr ?s4) l [(z + 4096, False)] (heap_top ?s4)" using z g(6) by simp
  have p: "chain (hdr ?s4) heap_start pre l"
    by (rule chain_cong [OF Suc.prems(5)]) (simp add: g(6))
  show ?case
  proof (cases "z + 4096 < unat sz + 4")
    case True
    have "\<exists>p s'. kmalloc_loop sz (heap_top ?s4) l ?s4 = Some (p, s') \<and> p \<noteq> 0 \<and> grow_ready j s'"
      by (rule Suc.IH [OF r4 Suc.prems(2) True _ p c]) (use Suc.prems(4) in simp)
    then show ?thesis unfolding k last_block_step [OF c True] .
  next
    case False
    have "at_node sz ?s4 l l pre [(z + 4096, False)]"
      using c p by (simp add: at_node_def del: chain.simps)
    from one_pass [OF this Suc.prems(2) lim] False
    have "pass_found sz ?s4 (pre @ [(z + 4096, False)]) (kmalloc_loop sz l l ?s4)" by auto
    then obtain p h where "kmalloc_loop sz l l ?s4 = Some (p, ?s4\<lparr>hdr := h\<rparr>)" "p \<noteq> 0"
      unfolding pass_found_def by blast
    then show ?thesis unfolding k using grow_ready_mono [OF r4] by simp
  qed
qed

lemma kmalloc_total_ready:
  assumes inv: "heap_inv s" and rdy: "grow_ready (k + j) s"
    and k: "unat (align8 sz) + 4 \<le> 4096 * k"
  shows "\<exists>p s'. kmalloc sz s = Some (p, s') \<and> p \<noteq> 0 \<and> grow_ready j s'"
proof -
  obtain bs where bs: "at_node (align8 sz) s 0 heap_start [] bs" "heap_top s - heap_start < 2 ^ 32"
    using heap_at_start [OF inv] by blast
  from one_pass [OF bs(1) even_align8 bs(2)] show ?thesis
  proof (elim disjE conjE)
    assume "pass_found (align8 sz) s ([] @ bs) (kmalloc_loop (align8 sz) heap_start 0 s)"
    then obtain p h where "kmalloc sz s = Some (p, s\<lparr>hdr := h\<rparr>)" "p \<noteq> 0"
      unfolding pass_found_def kmalloc_def by blast
    then show ?thesis using grow_ready_mono [OF rdy] by simp
  next
    assume "pass_end (align8 sz) s ([] @ bs) (kmalloc_loop (align8 sz) heap_start 0 s)"
    then obtain h' pre z l where e: "kmalloc_loop (align8 sz) heap_start 0 s =
        kmalloc_loop (align8 sz) (heap_top s) l (s\<lparr>hdr := h'\<rparr>)"
      "chain h' heap_start pre l" "chain h' l [(z, False)] (heap_top s)" "z < unat (align8 sz) + 4"
      unfolding pass_end_def by blast
    show ?thesis
      using kmalloc_from_end_total [of k j "s\<lparr>hdr := h'\<rparr>" "align8 sz" z pre l] e rdy k
      by (simp add: kmalloc_def)
  qed
qed

lemma kmalloc_total:
  assumes inv: "heap_inv s" and rdy: "grow_ready k s" and k: "unat (align8 sz) + 4 \<le> 4096 * k"
  shows "\<exists>p s'. kmalloc sz s = Some (p, s') \<and> p \<noteq> 0"
  using kmalloc_total_ready [of s k 0 sz] assms by auto

text \<open>No page is taken while a free block is large enough.\<close>

lemma kmalloc_fits:
  assumes inv: "heap_inv s" and bs: "heap_blocks s bs" "(z, False) \<in> set bs"
    and z: "unat (align8 sz) + 4 \<le> z"
  shows "\<exists>p h. kmalloc sz s = Some (p, s\<lparr>hdr := h\<rparr>) \<and> p \<noteq> 0"
proof -
  obtain bs' where bs': "heap_blocks s bs'" "at_node (align8 sz) s 0 heap_start [] bs'"
    "heap_top s - heap_start < 2 ^ 32"
    using heap_at_start [OF inv] by blast
  have "bs' = bs"
    using bs(1) bs'(1) unfolding heap_blocks_def by (blast intro: chain_unique)
  from one_pass [OF bs'(2) even_align8 bs'(3)] have
    "pass_found (align8 sz) s ([] @ bs') (kmalloc_loop (align8 sz) heap_start 0 s)"
    using bs(2) z \<open>bs' = bs\<close> by auto
  then show ?thesis unfolding pass_found_def kmalloc_def by blast
qed

section \<open>Releasing a block\<close>

lemma allocs_node:
  assumes "chain h n bs tp" "(p, sz) \<in> set (allocs n bs)"
  obtains pre post where "bs = pre @ (sz, True) # post" "chain h n pre (p - 4)" "4 \<le> p"
    "chain h (p - 4) ((sz, True) # post) tp"
  using assms
proof (induction bs arbitrary: n thesis)
  case Nil
  then show ?case by simp
next
  case (Cons b bs)
  obtain z u where b: "b = (z, u)" by (cases b)
  show ?case
  proof (cases "u \<and> p = n + 4 \<and> sz = z")
    case True
    then show ?thesis using Cons.prems(1) [of "[]" bs] Cons.prems(2) b by auto
  next
    case False
    then have "(p, sz) \<in> set (allocs (n + 4 + z) bs)" using Cons.prems(3) b by auto
    moreover have "chain h (n + 4 + z) bs tp" using Cons.prems(2) b by simp
    ultimately obtain pre post where "bs = pre @ (sz, True) # post" "chain h (n + 4 + z) pre (p - 4)"
      "4 \<le> p" "chain h (p - 4) ((sz, True) # post) tp"
      using Cons.IH [of "n + 4 + z"] by blast
    then show ?thesis using Cons.prems(1) [of "b # pre" post] Cons.prems(2) b by simp
  qed
qed

lemma kfree_merge_spec:
  assumes "chain (hdr s) heap_start pre n" "chain (hdr s) n ((z, False) # post) (heap_top s)"
    "heap_top s - heap_start < 2 ^ 32"
  shows "kfree_merge n s =
    Some (set_hdr n (of_nat (z + frees_size post)) s)"
  using assms
proof (induction post arbitrary: s z)
  case Nil
  then have "unat (hdr s n) = z" "n + 4 + z = heap_top s" by auto
  then show ?case
    by (subst kfree_merge.simps) (auto simp: set_hdr_def Let_def dest: of_nat_unatD)
next
  case (Cons b post)
  obtain y u where b: "b = (y, u)" by (cases b)
  let ?m = "n + 4 + z"
  have hn: "unat (hdr s n) = z" "even z" using Cons.prems(2) by auto
  have cm: "chain (hdr s) ?m ((y, u) # post) (heap_top s)" using Cons.prems(2) b by simp
  have lt: "?m < heap_top s" using chain_lt [OF cm] by simp
  have u: "hdr s ?m AND 1 = 0 \<longleftrightarrow> \<not> u" using and_1_iff [of "hdr s ?m"] chain_odd [OF cm] by blast
  show ?case
  proof (cases u)
    case True
    then have "kfree_merge n s = Some s"
      using lt u hn by (subst kfree_merge.simps) (simp add: Let_def)
    then show ?thesis using True b hn by (auto simp: set_hdr_def dest: of_nat_unatD)
  next
    case False
    let ?w = "hdr s n + (4 + hdr s ?m)"
    have k: "kfree_merge n s = kfree_merge n (set_hdr n ?w s)"
      using lt u hn False by (subst kfree_merge.simps) (simp add: Let_def)
    have hm: "unat (hdr s ?m) = y" "even y" and tail: "chain (hdr s) (?m + 4 + y) post (heap_top s)"
      using cm False by auto
    have "?m + 4 + y \<le> heap_top s" "heap_start \<le> n"
      using chain_le [OF tail] chain_le [OF Cons.prems(1)] by simp_all
    then have "z + 4 + y < 2 ^ 32" using Cons.prems(3) by linarith
    then have w: "unat ?w = z + 4 + y" using hn hm by (simp add: unat_word_ariths)
    have c1: "chain (hdr (set_hdr n ?w s)) heap_start pre n"
      by (rule chain_cong [OF Cons.prems(1)]) simp
    have "chain (hdr (set_hdr n ?w s)) (?m + 4 + y) post (heap_top s)"
      by (rule chain_cong [OF tail]) simp
    then have c2: "chain (hdr (set_hdr n ?w s)) n ((z + 4 + y, False) # post)
        (heap_top (set_hdr n ?w s))"
      using w hn(2) hm(2) by (simp add: add.assoc [symmetric])
    show ?thesis
      using Cons.IH [OF c1 c2] Cons.prems(3) k b False by (simp add: set_hdr_def add_ac)
  qed
qed

lemma kfree_spec:
  assumes inv: "heap_inv s" and p: "(p, sz) \<in> live s"
  obtains s' where "kfree p s = Some s'" "heap_inv s'" "live s' = live s - {(p, sz)}"
    "hdr s' (p - 4) AND 1 = 0" "4 \<le> p"
proof -
  obtain bs where bs: "heap_blocks s bs" "small_heap s" "live s = set (allocs heap_start bs)"
    "heap_top s - heap_start < 2 ^ 32"
    using heap_at_start [OF inv] by blast
  have ch: "chain (hdr s) heap_start bs (heap_top s)" using bs(1) by (simp add: heap_blocks_def)
  obtain pre post where d: "bs = pre @ (sz, True) # post" "chain (hdr s) heap_start pre (p - 4)"
    "4 \<le> p" "chain (hdr s) (p - 4) ((sz, True) # post) (heap_top s)"
    using allocs_node [OF ch] p bs(3) by blast
  let ?n = "p - 4"
  let ?s1 = "set_hdr ?n (hdr s ?n AND NOT 1) s"
  have tail: "chain (hdr s) (?n + 4 + sz) post (heap_top s)" and ev: "even sz" using d(4) by auto
  have c1: "chain (hdr ?s1) heap_start pre ?n" by (rule chain_cong [OF d(2)]) simp
  have "chain (hdr ?s1) (?n + 4 + sz) post (heap_top s)" by (rule chain_cong [OF tail]) simp
  then have c2: "chain (hdr ?s1) ?n ((sz, False) # post) (heap_top ?s1)"
    using chain_used_size [OF d(4)] ev by simp
  have fin: "\<not> snd (last (pre @ (sz, False) # post))"
    using bs(1) d(1) by (auto simp: heap_blocks_def)
  have lim: "heap_top ?s1 - heap_start < 2 ^ 32" using bs(4) by simp
  let ?w = "of_nat (sz + frees_size post) :: u32"
  let ?s' = "set_hdr ?n ?w ?s1"
  have "hdr s ?n AND 1 \<noteq> 0" using and_1_iff chain_odd [OF d(4)] by blast
  then have k: "kfree p s = Some ?s'"
    using d(3) kfree_merge_spec [OF c1 c2 lim] by (simp add: kfree_def Let_def)
  note st = merge_step [OF c1 c2 fin lim]
  have "hdr ?s1 ?n + of_nat (frees_size post) = ?w"
    using c2 by (auto dest: of_nat_unatD)
  then have h': "hdr ?s' = (hdr ?s1)(?n := hdr ?s1 ?n + of_nat (frees_size post))"
    by (simp only: set_hdr_simps)
  let ?bs' = "pre @ (sz + frees_size post, False) # skip_frees post"
  have hb: "heap_blocks ?s' ?bs'"
    using st(1-3) unfolding heap_blocks_def chain_append h' by auto
  have "live ?s' = set (allocs heap_start ?bs')"
    using hb by (intro live_eq) (simp add: heap_blocks_def)
  also have "\<dots> = set (allocs heap_start (pre @ (sz, False) # post))" by (rule st(4))
  also have "\<dots> = live s - {(p, sz)}"
  proof -
    have "set (allocs heap_start (pre @ (sz, False) # post)) =
        set (allocs heap_start pre) \<union> set (allocs (?n + 4 + sz) post)"
      using allocs_split [OF d(2)] by simp
    moreover have "live s = insert (p, sz) (set (allocs heap_start pre) \<union> set (allocs (?n + 4 + sz) post))"
      using allocs_split [OF d(2), of "(sz, True) # post"] bs(3) d(1,3) by simp
    moreover have "(p, sz) \<notin> set (allocs heap_start pre)" using allocs_range [OF d(2)] d(3) by fastforce
    moreover have "(p, sz) \<notin> set (allocs (?n + 4 + sz) post)"
      using allocs_range [OF tail, of p sz] d(3) by auto
    ultimately show ?thesis by blast
  qed
  finally have "live ?s' = live s - {(p, sz)}" .
  moreover have "heap_inv ?s'" using hb bs(2) by (auto simp: heap_inv_def small_heap_def)
  moreover have "hdr ?s' ?n AND 1 = 0"
  proof -
    have "chain (hdr ?s') ?n ((sz + frees_size post, False) # skip_frees post) (heap_top s)"
      using st(2) unfolding h' by simp
    then have "unat ?w = sz + frees_size post" by (simp del: of_nat_add)
    moreover have "even (sz + frees_size post)" using st(2) by simp
    ultimately show ?thesis using and_1_iff [of ?w] by simp
  qed
  ultimately show ?thesis using that [OF k] d(3) by blast
qed

lemma kfree_free_block:
  assumes "chain (hdr s) heap_start (pre @ (sz, False) # post) (heap_top s)"
    "chain (hdr s) heap_start pre n"
  shows "kfree (n + 4) s = None"
proof -
  obtain m where m: "chain (hdr s) heap_start pre m" "chain (hdr s) m ((sz, False) # post) (heap_top s)"
    using assms(1) unfolding chain_append by blast
  have "m = n" by (rule chain_end_unique [OF assms(2) m(1)])
  then have "even (unat (hdr s n))" using m(2) by simp
  then have "hdr s n AND 1 = 0" using and_1_iff [of "hdr s n"] by auto
  then show ?thesis by (simp add: kfree_def Let_def)
qed

text \<open>The allocator touches no state but its own and that of the layers below.\<close>

lemma kmalloc_loop_more:
  assumes "kmalloc_loop sz n l s = Some r"
  shows "heap.more (snd r) = heap.more s"
proof (rule kmalloc_loop.raw_induct
    [OF _ assms, where P = "\<lambda>_ _ _ s r. heap.more (snd r) = heap.more s"], goal_cases)
  case (1 loop sz n l s r)
  have grow: "heap.more s2 = heap.more s"
    if "alloc_phys_page s = Some (f, s1)" "map_kernel_page g a s1 = Some s2" for f s1 g a s2
    using heap_fields_unchanged [OF that(1)]
      heap_more_eq [OF map_page_frame(1) [OF that(2) [unfolded map_kernel_page_def]]] by simp
  show ?case
  proof (cases "heap_top s \<le> n")
    case True
    then obtain f s1 where a: "alloc_phys_page s = Some (f, s1)"
      "if (ucast f :: u32) = 0 then r = (0, s1) else
        \<exists>s2. map_kernel_page (ucast (ucast f :: u32)) (of_nat (heap_top s1)) s1 = Some s2 \<and>
          (\<exists>m s3. loop sz m l s3 = Some r \<and> heap.more s3 = heap.more s2)"
      using 1(2) by (auto simp: Let_def bind_eq_Some_conv split: if_splits)
        (metis (no_types, lifting) heap.select_convs(3) heap.update_convs(1) heap.surjective
          set_hdr_simps(3))+
    then show ?thesis
      using grow [OF a(1)] heap_fields_unchanged(3) [OF a(1)]
      by (auto split: if_splits dest!: 1(1))
  next
    case False
    then show ?thesis
      using 1(2) by (auto simp: Let_def split: if_splits dest!: 1(1))
  qed
qed

lemma kmalloc_more: "kmalloc sz s = Some (p, s') \<Longrightarrow> heap.more s' = heap.more s"
  by (auto simp: kmalloc_def dest!: kmalloc_loop_more)

lemma kfree_merge_hdr:
  assumes "kfree_merge n s = Some s'"
  shows "\<exists>h. s' = s\<lparr>hdr := h\<rparr>"
proof (rule kfree_merge.raw_induct
    [OF _ assms, where P = "\<lambda>_ s s'. \<exists>h. s' = s\<lparr>hdr := h\<rparr>"], goal_cases)
  case (1 loop n s s')
  have "\<exists>h. s = s\<lparr>hdr := h\<rparr>" by (rule exI [of _ "hdr s"]) simp
  then show ?case using 1(2) by (auto simp: Let_def set_hdr_def split: if_splits dest!: 1(1))
qed

text \<open>\<open>kfree\<close> writes headers only.\<close>

lemma kfree_hdr:
  assumes "kfree p s = Some s'"
  obtains h where "s' = s\<lparr>hdr := h\<rparr>"
proof -
  have "\<exists>h. s = s\<lparr>hdr := h\<rparr>" by (rule exI [of _ "hdr s"]) simp
  then have "\<exists>h. s' = s\<lparr>hdr := h\<rparr>"
    using assms
    by (auto simp: kfree_def Let_def bind_eq_Some_conv set_hdr_def split: if_splits dest!: kfree_merge_hdr)
  then show ?thesis using that by blast
qed

lemma kfree_more: "kfree p s = Some s' \<Longrightarrow> heap.more s' = heap.more s"
  by (erule kfree_hdr) simp

lemma kfree_ready: "kfree p s = Some s' \<Longrightarrow> grow_ready k s' = grow_ready k s"
  by (erule kfree_hdr) simp

section \<open>The allocator's contract\<close>

text \<open>What the kernel relies on when it calls \<open>kmalloc\<close> and \<open>kfree\<close>: blocks handed out
  are disjoint and stay recorded until they are freed.\<close>

locale allocator =
  fixes alloc :: "u32 \<Rightarrow> 's \<Rightarrow> (nat \<times> 's) option"
    and dealloc :: "nat \<Rightarrow> 's \<Rightarrow> 's option"
    and inv :: "'s \<Rightarrow> bool"
    and blocks :: "'s \<Rightarrow> (nat \<times> nat) set"
    and grant :: "u32 \<Rightarrow> nat"
  assumes alloc_block: "inv s \<Longrightarrow> alloc n s = Some (p, s') \<Longrightarrow> p \<noteq> 0 \<Longrightarrow>
      inv s' \<and> blocks s' = insert (p, grant n) (blocks s) \<and>
      (\<forall>(q, m) \<in> blocks s. p + grant n < q \<or> q + m < p)"
    and alloc_none: "inv s \<Longrightarrow> alloc n s = Some (0, s') \<Longrightarrow> inv s' \<and> blocks s' = blocks s"
    and dealloc_block: "inv s \<Longrightarrow> (p, m) \<in> blocks s \<Longrightarrow>
      \<exists>s'. dealloc p s = Some s' \<and> inv s' \<and> blocks s' = blocks s - {(p, m)}"
begin

lemma alloc_fresh: "inv s \<Longrightarrow> alloc n s = Some (p, s') \<Longrightarrow> p \<noteq> 0 \<Longrightarrow> p \<notin> fst ` blocks s"
  using alloc_block by fastforce

lemma alloc_inv: "inv s \<Longrightarrow> alloc n s = Some (p, s') \<Longrightarrow> inv s'"
  using alloc_block alloc_none by (cases "p = 0") blast+

lemma alloc_keeps: "inv s \<Longrightarrow> alloc n s = Some (p, s') \<Longrightarrow> blocks s \<subseteq> blocks s'"
  using alloc_block alloc_none by (cases "p = 0") blast+

lemma alloc_dealloc:
  assumes "inv s" "alloc n s = Some (p, s')" "p \<noteq> 0"
  shows "\<exists>s''. dealloc p s' = Some s'' \<and> inv s'' \<and> blocks s'' = blocks s"
proof -
  have b: "inv s'" "blocks s' = insert (p, grant n) (blocks s)" using alloc_block [OF assms] by auto
  have "(p, grant n) \<notin> blocks s" using alloc_fresh [OF assms] by force
  then show ?thesis using dealloc_block [OF b(1), of p "grant n"] b(2) by auto
qed

end

interpretation kheap: allocator kmalloc kfree heap_inv live "\<lambda>n. unat (align8 n)"
proof
  fix s s' :: "'a heap_scheme" and n p
  show "kmalloc n s = Some (p, s') \<Longrightarrow> heap_inv s \<Longrightarrow> p \<noteq> 0 \<Longrightarrow>
      heap_inv s' \<and> live s' = insert (p, unat (align8 n)) (live s) \<and>
      (\<forall>(q, m) \<in> live s. p + unat (align8 n) < q \<or> q + m < p)"
    using kmalloc_outcome [of s n] by (simp add: kmalloc_result_def)
  show "heap_inv s \<Longrightarrow> kmalloc n s = Some (0, s') \<Longrightarrow> heap_inv s' \<and> live s' = live s"
    using kmalloc_outcome [of s n] by (simp add: kmalloc_result_def)
next
  fix s :: "'a heap_scheme" and p m
  assume "heap_inv s" "(p, m) \<in> live s"
  then show "\<exists>s'. kfree p s = Some s' \<and> heap_inv s' \<and> live s' = live s - {(p, m)}"
    using kfree_spec by metis
qed

section \<open>Start-up\<close>

lemma init_heap_spec:
  fixes s :: "'z heap_scheme"
  assumes inv: "pmm_inv s" "pt_inv s" and nl: "no_large s (drop_bit 12 (of_nat heap_start))"
    and un: "translate s (drop_bit 12 (of_nat heap_start)) = None"
    and room: "4 \<le> card (free_frames s)" and lim: "card (free_frames s) < 2 ^ 20"
  obtains s' where "init_heap s = Some s'" "heap_inv s'" "live s' = {}" "pt_inv s'"
    "heap_blocks s' [(4092, False)]" "heap_top s' = heap_start + 4096" "free_frames s' \<subseteq> free_frames s"
    "heap.more s' = heap.more s"
    "\<And>k. 4 * Suc k \<le> card (free_frames s) \<Longrightarrow>
      (\<And>v. translate s v = None \<and> no_large s v) \<Longrightarrow> grow_ready k s'"
proof -
  have ne: "free_frames s \<noteq> {}" using room by auto
  obtain f s1 where a: "alloc_phys_page s = Some (f, s1)" "f \<noteq> 0" "unat f \<in> free_frames s"
    "pmm_inv s1" "free_frames s1 = free_frames s - {unat f}"
    using frames.alloc_available [OF inv(1) ne] by blast
  have sub: "free_frames s1 \<subseteq> free_frames s" using a(5) by blast
  note v1 = pt_views_alloc [OF a(1) sub]
  let ?s2 = "s1\<lparr>heap_top := heap_start\<rparr>"
  have c1: "card (free_frames s) = Suc (card (free_frames s1))"
    unfolding a(5) by (rule card.remove [OF finite_free_frames a(3)])
  have pre: "pmm_inv ?s2" "pt_inv ?s2" "no_large ?s2 (drop_bit 12 (of_nat heap_start))"
    "translate ?s2 (drop_bit 12 (of_nat heap_start)) = None" "3 \<le> card (free_frames ?s2)"
    using a(4) v1 inv nl un c1 room by simp_all
  have al: "(of_nat heap_start :: u64) AND 4095 = 0"
    by (rule page_aligned_word) (simp_all add: heap_start_def)
  have fl: "\<not> bit PTE_WRITE 7" by (simp add: const_defs bit_simps)
  obtain s3 where m: "map_page f (of_nat heap_start) PTE_WRITE ?s2 = Some s3" "pmm_inv s3"
    "pt_inv s3" "free_frames s3 \<subseteq> free_frames ?s2" "vmm.more s3 = vmm.more ?s2"
    "\<And>w. \<not> same_page w (drop_bit 12 (of_nat heap_start)) \<Longrightarrow>
      translate s3 w = translate ?s2 w"
    "card (free_frames ?s2) \<le> card (free_frames s3) + 3"
    "\<And>w. no_large ?s2 w \<Longrightarrow> no_large s3 w"
    using map_page_spec [OF pre(1,2) al fl pre(3-5), of f] by metis
  note m3 = heap_more_eq [OF m(5)]
  let ?s' = "set_hdr heap_start 4092 (s3\<lparr>heap_top := heap_start + 4096\<rparr>)"
  have i: "init_heap s = Some ?s'"
    using a(1,2) m(1) m3 by (simp add: init_heap_def map_kernel_page_def Let_def)
  have hb: "heap_blocks ?s' [(4092, False)]" by (simp add: heap_blocks_def)
  then have ch: "chain (hdr ?s') heap_start [(4092, False)] (heap_top ?s')"
    by (simp only: heap_blocks_def)
  have "card (free_frames s3) \<le> card (free_frames s1)" using m(4) by (simp add: card_mono)
  then have "4096 + 4096 * card (free_frames s3) < 4294967296" using c1 lim by simp
  then have sm: "heap_inv ?s'" "small_heap ?s'"
    using m(2) hb by (auto simp: heap_inv_def small_heap_def)
  moreover have "live ?s' = {}" using live_eq [OF ch] by simp
  moreover have "heap.more ?s' = heap.more s" using m3 heap_fields_unchanged [OF a(1)] by simp
  moreover have "grow_ready k ?s'"
    if k: "4 * Suc k \<le> card (free_frames s)" and va: "\<And>v. translate s v = None \<and> no_large s v"
    for k
  proof -
    have "translate s3 (drop_bit 12 (of_nat b)) = None \<and> no_large s3 (drop_bit 12 (of_nat b))"
      if b: "heap_start + 4096 \<le> b" "b < heap_start + 2 ^ 32" "4096 dvd b" for b
    proof -
      have "4096 dvd heap_start" by (simp add: heap_start_def)
      then have "\<not> same_page (drop_bit 12 (of_nat b)) (drop_bit 12 (of_nat heap_start))"
        using heap_page_distinct [OF _ b(2,3), of heap_start] b(1) by auto
      then show ?thesis using m(6,8) v1 va by simp
    qed
    then show ?thesis
      using sm(2) m(3,7) c1 k by (auto simp: grow_ready_def heap_start_def)
  qed
  ultimately show ?thesis using that [OF i sm(1)] hb m(3,4) sub by simp
qed

section \<open>Properties\<close>

text \<open>\<open>init_heap\<close> turns a fresh machine into a well-formed heap with nothing
  allocated.\<close>

theorem init_heap_establishes_inv:
  assumes "pmm_inv s" "pt_inv s" "no_large s (drop_bit 12 (of_nat heap_start))"
    "translate s (drop_bit 12 (of_nat heap_start)) = None"
    "4 \<le> card (free_frames s)" "card (free_frames s) < 2 ^ 20"
  shows "\<exists>s'. init_heap s = Some s' \<and> heap_inv s' \<and> live s' = {} \<and> pt_inv s'"
  using init_heap_spec [OF assms] by metis

definition heap_raw :: heap where
  "heap_raw = vmm.extend vmm_demo \<lparr>heap_top = 0, hdr = (\<lambda>_. 0)\<rparr>"

lemma heap_raw_facts:
  "pmm_inv heap_raw" "pt_inv heap_raw" "no_large heap_raw v" "translate heap_raw v = None"
  "free_frames heap_raw = {256 ..< 320}"
proof -
  have eq: "pmm_inv heap_raw = pmm_inv vmm_demo" "pt_inv heap_raw = pt_inv vmm_demo"
    "no_large heap_raw v = no_large vmm_demo v" "translate heap_raw v = translate vmm_demo v"
    "free_frames heap_raw = free_frames vmm_demo"
    by (simp_all add: heap_raw_def pmm_inv_def free_frames_def used_frames_def managed_def
        nframes_def pt_inv_def no_large_def translate_def vmm.defs)
  show "pmm_inv heap_raw" "pt_inv heap_raw" "no_large heap_raw v" "translate heap_raw v = None"
    "free_frames heap_raw = {256 ..< 320}"
    unfolding eq by (rule vmm_demo_pmm vmm_demo_inv)+
qed

theorem init_heap_establishes_inv_witness:
  "\<exists>s'. init_heap heap_raw = Some s' \<and> heap_inv s' \<and> live s' = {} \<and> pt_inv s'"
  by (rule init_heap_establishes_inv) (simp_all add: heap_raw_facts)

lemma init_heap_small:
  fixes r :: "'z heap_scheme"
  assumes r: "pmm_inv r" "pt_inv r" "\<And>v. no_large r v" "\<And>v. translate r v = None"
    "free_frames r = {256 ..< 320}"
  obtains s where "init_heap r = Some s" "heap_inv s" "live s = {}" "pt_inv s"
    "heap_blocks s [(4092, False)]" "grow_ready 10 s" "heap.more s = heap.more r"
proof -
  have c: "4 \<le> card (free_frames r)" "card (free_frames r) < 2 ^ 20" by (simp_all add: r(5))
  obtain s where s: "init_heap r = Some s" "heap_inv s" "live s = {}" "pt_inv s"
    "heap_blocks s [(4092, False)]" "heap.more s = heap.more r"
    "\<And>k. 4 * Suc k \<le> card (free_frames r) \<Longrightarrow>
      (\<And>v. translate r v = None \<and> no_large r v) \<Longrightarrow> grow_ready k s"
    using init_heap_spec [OF r(1,2) r(3) r(4) c] by metis
  have "grow_ready 10 s" by (rule s(7)) (simp_all add: r)
  then show ?thesis using that s(1-6) by blast
qed

text \<open>A heap ready for use exists, whatever the rest of the state.\<close>

lemma heap_with_rest:
  obtains s :: "'z heap_scheme" where "heap_inv s" "live s = {}" "grow_ready 10 s" "heap.more s = x"
proof -
  define r :: "'z heap_scheme" where "r = heap.extend heap_raw x"
  have "pmm_inv r = pmm_inv heap_raw" "pt_inv r = pt_inv heap_raw"
    "\<And>v. no_large r v = no_large heap_raw v" "\<And>v. translate r v = translate heap_raw v"
    "free_frames r = free_frames heap_raw" "heap.more r = x"
    by (simp_all add: r_def pmm_inv_def free_frames_def used_frames_def managed_def nframes_def
        pt_inv_def translate_def no_large_def heap.defs)
  then show ?thesis
    using that init_heap_small [of r] by (metis heap_raw_facts)
qed

lemma heap_demo_exists:
  obtains s where "init_heap heap_raw = Some s" "heap_inv s" "live s = {}" "pt_inv s"
    "heap_blocks s [(4092, False)]" "grow_ready 10 s"
  by (rule init_heap_small [of heap_raw]) (simp_all add: heap_raw_facts)

text \<open>C7: \<open>kmalloc\<close> on a well-formed heap keeps it well-formed.  If it returns a null
  pointer nothing was allocated; otherwise the new block has the requested size rounded up to
  eight bytes (modulo \<open>2 ^ 32\<close>, as the code computes it) and lies apart from every
  block in use, with room for a header between them.\<close>

theorem kmalloc_correct:
  assumes "heap_inv s" "kmalloc sz s = Some (p, s')"
  shows "heap_inv s' \<and>
    (if p = 0 then live s' = live s
     else live s' = insert (p, unat (align8 sz)) (live s) \<and>
       (\<forall>(q, m) \<in> live s. p + unat (align8 sz) < q \<or> q + m < p))"
  using kmalloc_outcome [OF assms(1), of sz] assms(2) by (simp add: kmalloc_result_def)

theorem kmalloc_correct_witness:
  "\<exists>s p s'. init_heap heap_raw = Some s \<and> kmalloc 10 s = Some (p, s') \<and> heap_inv s' \<and>
    live s' = {(p, 16)}"
proof -
  obtain s where s: "init_heap heap_raw = Some s" "heap_inv s" "live s = {}" "grow_ready 10 s"
    using heap_demo_exists by metis
  have a: "unat (align8 10) = 16" by (simp add: align8_def)
  then obtain p s' where k: "kmalloc 10 s = Some (p, s')" "p \<noteq> 0"
    using kmalloc_total [OF s(2,4), of 10] by auto
  then show ?thesis using kmalloc_correct [OF s(2) k(1)] s a by auto
qed

text \<open>C21: as long as there are page frames for the growth the request can need (four per
  page: the page itself and at most three page tables), \<open>kmalloc\<close> returns a block: its
  loops end and no check stops the kernel.\<close>

theorem kmalloc_returns:
  assumes "heap_inv s" "grow_ready k s" "unat (align8 sz) + 4 \<le> 4096 * k"
  shows "\<exists>p s'. kmalloc sz s = Some (p, s') \<and> p \<noteq> 0"
  by (rule kmalloc_total [OF assms])

theorem kmalloc_returns_witness:
  "\<exists>s p s'. init_heap heap_raw = Some s \<and> kmalloc 20000 s = Some (p, s') \<and> p \<noteq> 0"
proof -
  obtain s where s: "init_heap heap_raw = Some s" "heap_inv s" "grow_ready 10 s"
    using heap_demo_exists by metis
  then show ?thesis using kmalloc_returns [OF s(2,3), of 20000] by (auto simp: align8_def)
qed

text \<open>C20: freeing a block in use returns, keeps the heap well-formed, and removes exactly
  that block; freeing it a second time stops the kernel.\<close>

theorem kfree_correct:
  assumes inv: "heap_inv s" and p: "(p, sz) \<in> live s"
  shows "\<exists>s'. kfree p s = Some s' \<and> heap_inv s' \<and> live s' = live s - {(p, sz)} \<and>
    kfree p s' = None"
proof -
  obtain s' where s': "kfree p s = Some s'" "heap_inv s'" "live s' = live s - {(p, sz)}"
    "hdr s' (p - 4) AND 1 = 0" "4 \<le> p"
    by (rule kfree_spec [OF inv p])
  then have "kfree p s' = None" by (simp add: kfree_def Let_def)
  then show ?thesis using s' by blast
qed

theorem kfree_correct_witness:
  "\<exists>s p s' s''. init_heap heap_raw = Some s \<and> kmalloc 10 s = Some (p, s') \<and>
    kfree p s' = Some s'' \<and> live s'' = {} \<and> kfree p s'' = None"
proof -
  obtain s where s: "init_heap heap_raw = Some s" "heap_inv s" "live s = {}" "grow_ready 10 s"
    using heap_demo_exists by metis
  obtain p s' where k: "kmalloc 10 s = Some (p, s')" "p \<noteq> 0"
    using kmalloc_total [OF s(2,4), of 10] by (auto simp: align8_def)
  then have "heap_inv s'" "live s' = {(p, unat (align8 10))}"
    using kheap.alloc_block [OF s(2) k] s(3) by auto
  then show ?thesis using kfree_correct [of s' p "unat (align8 10)"] s(1) k by auto
qed

end
