(* ===== verification/CString.thy ===== *)
theory CString
  imports Heap
begin

text \<open>
  Memory and string routines: \<open>src/src/arch/string.c\<close> (the assembly loops, one recursion
  per repeated instruction) and \<open>src/src/lib/string.c\<close>.  Byte memory is a function from
  addresses to bytes; \<open>char\<close> is signed, as it is for the compiler the kernel is built with.
  \<open>cstr m a xs\<close> relates a pointer to the list of characters it points to; the
  lemmas show what each routine does to the list.
\<close>

type_synonym mem = "nat \<Rightarrow> u8"

section \<open>Block operations\<close>

text \<open>\<open>rep movsb\<close> with the direction flag clear and set.\<close>

fun movsb_up :: "nat \<Rightarrow> nat \<Rightarrow> nat \<Rightarrow> mem \<Rightarrow> mem" where
  "movsb_up 0 d s m = m"
| "movsb_up (Suc n) d s m = movsb_up n (d + 1) (s + 1) (m(d := m s))"

fun movsb_down :: "nat \<Rightarrow> nat \<Rightarrow> nat \<Rightarrow> mem \<Rightarrow> mem" where
  "movsb_down 0 d s m = m"
| "movsb_down (Suc n) d s m = movsb_down n (d - 1) (s - 1) (m(d := m s))"

definition memcpy :: "nat \<Rightarrow> nat \<Rightarrow> u32 \<Rightarrow> mem \<Rightarrow> nat \<times> mem" where
  "memcpy dest src count m = (dest, movsb_up (unat count) dest src m)"

definition memmove :: "nat \<Rightarrow> nat \<Rightarrow> u32 \<Rightarrow> mem \<Rightarrow> nat \<times> mem" where
  "memmove dest src count m =
    (if dest < src then (dest, movsb_up (unat count) dest src m)
     else (dest, movsb_down (unat count) (dest + unat count - 1) (src + unat count - 1) m))"

text \<open>\<open>rep stos\<close> of one, two and four bytes, little end first.\<close>

fun stosb :: "nat \<Rightarrow> nat \<Rightarrow> u8 \<Rightarrow> mem \<Rightarrow> mem" where
  "stosb 0 d v m = m"
| "stosb (Suc n) d v m = stosb n (d + 1) v (m(d := v))"

fun stosw :: "nat \<Rightarrow> nat \<Rightarrow> u16 \<Rightarrow> mem \<Rightarrow> mem" where
  "stosw 0 d v m = m"
| "stosw (Suc n) d v m = stosw n (d + 2) v (m(d := ucast v, d + 1 := ucast (drop_bit 8 v)))"

fun stosl :: "nat \<Rightarrow> nat \<Rightarrow> u32 \<Rightarrow> mem \<Rightarrow> mem" where
  "stosl 0 d v m = m"
| "stosl (Suc n) d v m = stosl n (d + 4) v
     (m(d := ucast v, d + 1 := ucast (drop_bit 8 v), d + 2 := ucast (drop_bit 16 v),
        d + 3 := ucast (drop_bit 24 v)))"

definition memset :: "nat \<Rightarrow> u32 \<Rightarrow> u32 \<Rightarrow> mem \<Rightarrow> nat \<times> mem" where
  "memset dest val count m = (dest, stosb (unat count) dest (ucast val) m)"

definition memset16 :: "nat \<Rightarrow> u16 \<Rightarrow> u32 \<Rightarrow> mem \<Rightarrow> nat \<times> mem" where
  "memset16 dest val count m = (dest, stosw (unat count) dest val m)"

definition memset32 :: "nat \<Rightarrow> u32 \<Rightarrow> u32 \<Rightarrow> mem \<Rightarrow> nat \<times> mem" where
  "memset32 dest val count m = (dest, stosl (unat count) dest val m)"

text \<open>The loop of \<open>memcmp\<close> never moves its pointers.\<close>

fun memcmp_loop :: "nat \<Rightarrow> nat \<Rightarrow> nat \<Rightarrow> mem \<Rightarrow> int" where
  "memcmp_loop 0 dest src m = 0"
| "memcmp_loop (Suc count) dest src m =
    (let c = sint (m dest) - sint (m src) in if c \<noteq> 0 then c else memcmp_loop count dest src m)"

definition memcmp :: "nat \<Rightarrow> nat \<Rightarrow> u32 \<Rightarrow> mem \<Rightarrow> int" where
  "memcmp dest src count m = memcmp_loop (unat count) dest src m"

section \<open>Strings\<close>

partial_function (option) strcpy_loop :: "nat \<Rightarrow> nat \<Rightarrow> mem \<Rightarrow> mem option" where
  "strcpy_loop dest src m =
    (let al = m src; m1 = m(dest := al)
     in if al = 0 then Some m1 else strcpy_loop (dest + 1) (src + 1) m1)"

definition strcpy :: "nat \<Rightarrow> nat \<Rightarrow> mem \<Rightarrow> (nat \<times> mem) option" where
  "strcpy dest src m = do { m1 \<leftarrow> strcpy_loop dest src m; Some (dest, m1) }"

text \<open>\<open>repnz scasb\<close>: what is left in \<open>rcx\<close> when a zero byte was read or the count ran out.\<close>

fun scasb :: "nat \<Rightarrow> nat \<Rightarrow> mem \<Rightarrow> nat" where
  "scasb 0 s m = 0"
| "scasb (Suc n) s m = (if m s = 0 then n else scasb n (s + 1) m)"

definition strlen :: "nat \<Rightarrow> mem \<Rightarrow> u32" where
  "strlen s m = ucast (NOT (of_nat (scasb 0xFFFFFFFF s m)) - 1 :: u64)"

partial_function (option) strcmp :: "nat \<Rightarrow> nat \<Rightarrow> mem \<Rightarrow> int option" where
  "strcmp dest src m =
    (if m dest \<noteq> 0 then
       let c = sint (m dest) - sint (m src)
       in if c \<noteq> 0 then Some c else strcmp (dest + 1) (src + 1) m
     else Some (sint (m dest) - sint (m src)))"

definition strcat :: "nat \<Rightarrow> nat \<Rightarrow> mem \<Rightarrow> (nat \<times> mem) option" where
  "strcat dest src m =
    do {
      (d, m1) \<leftarrow> strcpy (dest + unat (strlen dest m)) src m;
      Some (dest, m1)
    }"

text \<open>A null result is address 0.\<close>

partial_function (option) strchr :: "nat \<Rightarrow> u8 \<Rightarrow> mem \<Rightarrow> nat option" where
  "strchr str c m =
    (if m str = 0 then Some 0 else if m str = c then Some str else strchr (str + 1) c m)"

fun strrchr_loop :: "nat \<Rightarrow> nat \<Rightarrow> u8 \<Rightarrow> mem \<Rightarrow> nat" where
  "strrchr_loop str 0 c m = (if m str = c then str else 0)"
| "strrchr_loop str (Suc k) c m =
    (if m (str + Suc k) = c then str + Suc k else strrchr_loop str k c m)"

definition strrchr :: "nat \<Rightarrow> u8 \<Rightarrow> mem \<Rightarrow> nat" where
  "strrchr str c m = strrchr_loop str (unat (strlen str m)) c m"

definition slash :: u8 where "slash = 47"

text \<open>\<open>while (p != s && *p == '/') *p-- = 0\<close>, with \<open>p = s + k\<close>.\<close>

fun trim_slashes :: "nat \<Rightarrow> nat \<Rightarrow> mem \<Rightarrow> mem" where
  "trim_slashes s 0 m = m"
| "trim_slashes s (Suc k) m =
    (if m (s + Suc k) = slash then trim_slashes s k (m(s + Suc k := 0)) else m)"

definition basename :: "nat \<Rightarrow> mem \<Rightarrow> (nat \<times> mem) option" where
  "basename s m =
    do {
      BUG_ON (m s = 0);
      let m1 = trim_slashes s (unat (strlen s m - 1)) m;
      let sl = strrchr s slash m1;
      Some (if sl = 0 then s else sl + 1, m1)
    }"

text \<open>\<open>dirname\<close> returns a pointer into the string, or one of two string literals.\<close>

datatype dirname_result = Lit string | Ptr nat

definition dirname :: "nat \<Rightarrow> mem \<Rightarrow> (dirname_result \<times> mem) option" where
  "dirname s m =
    do {
      (p, m1) \<leftarrow> basename s m;
      if p = s then Some (Lit [], m1)
      else if p - 1 = s then Some (Lit ''/'', m1)
      else Some (Ptr s, m1(p - 1 := 0))
    }"

text \<open>\<open>strdup\<close> allocates from the kernel heap; from here on the state has byte memory.\<close>

record kmem = heap +
  mem :: mem

definition kzalloc :: "u32 \<Rightarrow> 'z kmem_scheme \<Rightarrow> (nat \<times> 'z kmem_scheme) option" where
  "kzalloc sz st =
    do {
      (p, st1) \<leftarrow> kmalloc sz st;
      if p = 0 then Some (0, st1)
      else Some (p, st1\<lparr>mem := snd (memset p 0 sz (mem st1))\<rparr>)
    }"

definition strdup :: "nat \<Rightarrow> 'z kmem_scheme \<Rightarrow> (nat \<times> 'z kmem_scheme) option" where
  "strdup s st =
    do {
      let len = strlen s (mem st) + 1;
      (p, st1) \<leftarrow> kmalloc len st;
      if p = 0 then Some (0, st1)
      else let (r, m1) = memcpy p s len (mem st1) in Some (r, st1\<lparr>mem := m1\<rparr>)
    }"

section \<open>Lemmas: blocks\<close>

lemma movsb_up_below: "a < d \<Longrightarrow> movsb_up n d s m a = m a"
  by (induction n arbitrary: d s m) auto

lemma movsb_up_above: "d + n \<le> a \<Longrightarrow> movsb_up n d s m a = m a"
  by (induction n arbitrary: d s m) auto

lemma movsb_up_copy:
  "i < n \<Longrightarrow> d \<le> s \<or> s + n \<le> d \<Longrightarrow> movsb_up n d s m (d + i) = m (s + i)"
proof (induction n arbitrary: d s m i)
  case 0
  then show ?case by simp
next
  case (Suc n)
  show ?case
  proof (cases i)
    case 0
    then show ?thesis using movsb_up_below [of d "d + 1" n "s + 1" "m(d := m s)"] by simp
  next
    case i: (Suc j)
    have "movsb_up n (d + 1) (s + 1) (m(d := m s)) (d + 1 + j) = (m(d := m s)) (s + 1 + j)"
      by (rule Suc.IH) (use Suc.prems i in auto)
    then show ?thesis using i Suc.prems by auto
  qed
qed

lemma movsb_down_other:
  "a + n \<le> d \<or> d < a \<Longrightarrow> n \<le> Suc d \<Longrightarrow> movsb_down n d s m a = m a"
proof (induction n arbitrary: d s m)
  case (Suc n)
  have "movsb_down n (d - 1) (s - 1) (m(d := m s)) a = (m(d := m s)) a"
    by (rule Suc.IH) (use Suc.prems in auto)
  then show ?case using Suc.prems by auto
qed simp

lemma movsb_down_copy:
  "i < n \<Longrightarrow> s \<le> d \<Longrightarrow> n \<le> Suc s \<Longrightarrow> movsb_down n d s m (d - i) = m (s - i)"
proof (induction n arbitrary: d s m i)
  case 0
  then show ?case by simp
next
  case (Suc n)
  show ?case
  proof (cases i)
    case 0
    then show ?thesis
      using movsb_down_other [of d n "d - 1" "s - 1" "m(d := m s)"] Suc.prems
      by (cases d; cases n) auto
  next
    case i: (Suc j)
    have "movsb_down n (d - 1) (s - 1) (m(d := m s)) (d - 1 - j) = (m(d := m s)) (s - 1 - j)"
      by (rule Suc.IH) (use Suc.prems i in auto)
    moreover have "s - 1 - j \<noteq> d" using Suc.prems i by auto
    ultimately show ?thesis using i by simp
  qed
qed

lemma stosb_val: "stosb n d v m a = (if d \<le> a \<and> a < d + n then v else m a)"
  by (induction n arbitrary: d m) auto

lemma memcmp_loop_eq:
  "memcmp_loop n a b m = (if n = 0 then 0 else sint (m a) - sint (m b))"
  by (induction n) auto

section \<open>Lemmas: strings\<close>

fun cstr :: "mem \<Rightarrow> nat \<Rightarrow> u8 list \<Rightarrow> bool" where
  "cstr m a [] \<longleftrightarrow> m a = 0"
| "cstr m a (x # xs) \<longleftrightarrow> m a = x \<and> x \<noteq> 0 \<and> cstr m (a + 1) xs"

lemma cstr_nth: "cstr m a xs \<longleftrightarrow>
    (\<forall>i < length xs. m (a + i) = xs ! i \<and> xs ! i \<noteq> 0) \<and> m (a + length xs) = 0"
proof (induction xs arbitrary: a)
  case Nil
  then show ?case by simp
next
  case (Cons x xs)
  then show ?case by (auto simp: All_less_Suc2)
qed

lemma cstr_unique: "cstr m a xs \<Longrightarrow> cstr m a ys \<Longrightarrow> xs = ys"
proof (induction xs arbitrary: a ys)
  case Nil
  then show ?case by (cases ys) auto
next
  case (Cons x xs)
  then show ?case by (cases ys) auto
qed

lemma cstr_cong:
  "cstr m a xs \<Longrightarrow> (\<And>i. i \<le> length xs \<Longrightarrow> m' (b + i) = m (a + i)) \<Longrightarrow> cstr m' b xs"
  by (simp add: cstr_nth)

lemma scasb_cstr: "cstr m s xs \<Longrightarrow> length xs < n \<Longrightarrow> scasb n s m = n - length xs - 1"
proof (induction xs arbitrary: s n)
  case Nil
  then show ?case by (cases n) auto
next
  case (Cons x xs)
  then show ?case by (cases n) auto
qed

lemma strlen_mod: "n < 4294967295 \<Longrightarrow> (18446744069414584320 + n) mod 4294967296 = (n::nat)"
proof -
  assume n: "n < 4294967295"
  have "18446744069414584320 + n = n + 4294967295 * 4294967296" by simp
  then show ?thesis using n mod_mult_self1 [of n 4294967295 4294967296] by (simp add: add.commute)
qed
lemma strlen_ucast: "n < 4294967295 \<Longrightarrow> (ucast (of_nat (18446744069414584320 + n) :: u64) :: u32) = of_nat n"
  apply (simp only: word_unat_eq_iff unsigned_ucast_eq unat_of_nat take_bit_eq_mod)
  apply (simp add: strlen_mod del: of_nat_add)
  done
lemma strlen_not: "n < 4294967295 \<Longrightarrow> NOT (of_nat (4294967295 - n - 1) :: u64) - 1 = (of_nat (18446744069414584320 + n) :: u64)"
proof -
  assume n: "n < 4294967295"
    have "(of_nat (4294967294 - n) :: u64) = 4294967294 - of_nat n"
      using n of_nat_diff [of n 4294967294, where ?'a = "u64"] by simp
    moreover have "NOT (4294967294 - of_nat n :: u64) = of_nat n + (- 4294967295)"
      by (simp add: not_eq_complement)
    moreover have "(- 4294967295 :: u64) = 18446744069414584321" by simp
    ultimately show ?thesis by simp
qed

lemma strlen_cstr:
  assumes "cstr m s xs" "length xs < 0xFFFFFFFF"
  shows "strlen s m = of_nat (length xs)"
proof -
  have "scasb 0xFFFFFFFF s m = 4294967295 - length xs - 1" using scasb_cstr [OF assms] by simp
  then show ?thesis
    using strlen_not [of "length xs"] strlen_ucast [of "length xs"] assms(2)
    by (simp only: strlen_def)
qed

lemma strcpy_loop_cstr:
  assumes "cstr m s xs" "d \<le> s \<or> s + length xs < d"
  shows "strcpy_loop d s m = Some (movsb_up (Suc (length xs)) d s m)"
  using assms
proof (induction xs arbitrary: d s m)
  case Nil
  then show ?case by (subst strcpy_loop.simps) simp
next
  case (Cons x xs)
  have "cstr (m(d := m s)) (s + 1) xs"
    by (rule cstr_cong [of m "s + 1"]) (use Cons.prems in auto)
  then have "strcpy_loop (d + 1) (s + 1) (m(d := m s)) =
      Some (movsb_up (Suc (length xs)) (d + 1) (s + 1) (m(d := m s)))"
    by (rule Cons.IH) (use Cons.prems in auto)
  then show ?case using Cons.prems by (subst strcpy_loop.simps) (simp add: Let_def)
qed

definition schar_less :: "(u8 \<times> u8) set" where
  "schar_less = {(x, y). sint x < sint y}"

lemma strcmp_cstr:
  assumes "cstr m a xs" "cstr m b ys"
  shows "\<exists>r. strcmp a b m = Some r \<and> (r = 0 \<longleftrightarrow> xs = ys) \<and>
    (r < 0 \<longleftrightarrow> (xs @ [0], ys @ [0]) \<in> lexord schar_less)"
  using assms
proof (induction xs arbitrary: a b ys)
  case Nil
  then show ?case
    by (cases ys) (auto simp: strcmp.simps [of a] schar_less_def signed_eq_0_iff)
next
  case (Cons x xs)
  have x: "m a = x" "x \<noteq> 0" using Cons.prems by auto
  have ys: "m b = hd (ys @ [0])" using Cons.prems by (cases ys) auto
  show ?case
  proof (cases "x = m b")
    case False
    then have "sint x \<noteq> sint (m b)" using signed_word_eqI by blast
    then have "strcmp a b m = Some (sint x - sint (m b))"
      using x by (subst strcmp.simps) (simp add: Let_def)
    then show ?thesis
      using False x ys \<open>sint x \<noteq> sint (m b)\<close> by (cases ys) (auto simp: schar_less_def)
  next
    case True
    then obtain zs where zs: "ys = x # zs" "cstr m (b + 1) zs"
      using Cons.prems x by (cases ys) auto
    have "strcmp a b m = strcmp (a + 1) (b + 1) m"
      using x True by (subst strcmp.simps) (simp add: Let_def)
    then show ?thesis using Cons.IH [of "a + 1" "b + 1" zs] Cons.prems zs
      by (auto simp: schar_less_def)
  qed
qed

lemma strchr_cstr:
  assumes "cstr m a xs"
  shows "strchr a c m =
    Some (if c \<in> set xs then a + length (takeWhile (\<lambda>x. x \<noteq> c) xs) else 0)"
  using assms
proof (induction xs arbitrary: a)
  case Nil
  then show ?case by (subst strchr.simps) simp
next
  case (Cons x xs)
  then show ?case by (subst strchr.simps) auto
qed

lemma strrchr_loop_found:
  "j \<le> k \<Longrightarrow> m (s + j) = c \<Longrightarrow> (\<And>i. j < i \<Longrightarrow> i \<le> k \<Longrightarrow> m (s + i) \<noteq> c) \<Longrightarrow>
    strrchr_loop s k c m = s + j"
proof (induction k)
  case (Suc k)
  then show ?case using Suc.prems(3) [of "Suc k"] by (cases "j = Suc k") auto
qed simp

lemma strrchr_loop_none: "(\<And>i. i \<le> k \<Longrightarrow> m (s + i) \<noteq> c) \<Longrightarrow> strrchr_loop s k c m = 0"
proof (induction k)
  case 0
  then show ?case using 0 [of 0] by simp
next
  case (Suc k)
  then show ?case using Suc.prems [of "Suc k"] by simp
qed

lemma strrchr_cstr:
  assumes "cstr m s xs" "length xs < 0xFFFFFFFF" "c \<noteq> 0"
  shows "c \<notin> set xs \<Longrightarrow> strrchr s c m = 0"
    "xs = as @ c # bs \<Longrightarrow> c \<notin> set bs \<Longrightarrow> strrchr s c m = s + length as"
proof -
  have len: "unat (strlen s m) = length xs"
    using strlen_cstr [OF assms(1,2)] assms(2) by (simp add: unat_of_nat)
  have nth: "\<And>i. i < length xs \<Longrightarrow> m (s + i) = xs ! i" "m (s + length xs) = 0"
    using assms(1) by (auto simp: cstr_nth)
  show "c \<notin> set xs \<Longrightarrow> strrchr s c m = 0"
    unfolding strrchr_def len using nth assms(3)
    by (intro strrchr_loop_none) (metis le_neq_implies_less nth_mem)
  show "xs = as @ c # bs \<Longrightarrow> c \<notin> set bs \<Longrightarrow> strrchr s c m = s + length as"
    unfolding strrchr_def len
  proof (rule strrchr_loop_found)
    fix i assume xs: "xs = as @ c # bs" "c \<notin> set bs" and i: "length as < i" "i \<le> length xs"
    show "m (s + i) \<noteq> c"
    proof (cases "i = length xs")
      case False
      then have "xs ! i = bs ! (i - length as - 1)" "i - length as - 1 < length bs"
        using xs i by (auto simp: nth_append nth_Cons')
      then show ?thesis using nth(1) [of i] xs False i by (metis le_neq_implies_less nth_mem)
    qed (use nth assms(3) in simp)
  qed (use nth(1) [of "length as"] in simp_all)
qed

section \<open>Lemmas: paths\<close>

definition rstrip :: "u8 list \<Rightarrow> u8 list" where
  "rstrip xs = rev (dropWhile (\<lambda>x. x = slash) (rev xs))"

lemma cstr_snoc_cut: "cstr m s (xs @ [x]) \<Longrightarrow> cstr (m(s + length xs := 0)) s xs"
  by (auto simp: cstr_nth nth_append split: if_splits)

lemma trim_slashes_cstr:
  assumes "cstr m s (x # ys)"
  shows "cstr (trim_slashes s (length ys) m) s (x # rstrip ys)"
  using assms
proof (induction ys arbitrary: m rule: rev_induct)
  case Nil
  then show ?case by (simp add: rstrip_def)
next
  case (snoc y ys)
  have y: "m (s + Suc (length ys)) = y"
    using snoc.prems by (auto simp: cstr_nth dest: spec [of _ "Suc (length ys)"])
  show ?case
  proof (cases "y = slash")
    case True
    have "cstr (m(s + Suc (length ys) := 0)) s (x # ys)"
      using cstr_snoc_cut [of m s "x # ys" y] snoc.prems by simp
    from snoc.IH [OF this] show ?thesis using True y by (simp add: rstrip_def del: fun_upd_apply)
  next
    case False
    then show ?thesis using y snoc.prems by (simp add: rstrip_def)
  qed
qed

lemma trimmed_path:
  assumes "dir @ slash # base @ replicate k slash = x # ys" "base \<noteq> []" "slash \<notin> set base"
  shows "x # rstrip ys = dir @ slash # base"
proof -
  have l: "last base \<noteq> slash" using assms(2,3) last_in_set by metis
  have strip: "rstrip (zs @ base @ replicate k slash) = zs @ base" for zs
  proof -
    obtain b bs where "base = bs @ [b]" "b \<noteq> slash" using assms(2) l by (cases base rule: rev_cases) auto
    moreover have "dropWhile (\<lambda>x. x = slash) (replicate k slash @ ws) = dropWhile (\<lambda>x. x = slash) ws" for ws
      by (induction k) auto
    ultimately show ?thesis by (simp add: rstrip_def)
  qed
  show ?thesis
  proof (cases dir)
    case Nil
    then show ?thesis using assms(1) strip [of "[]"] by auto
  next
    case (Cons d dir')
    then have "x = d" "ys = dir' @ slash # base @ replicate k slash" using assms(1) by auto
    then show ?thesis using strip [of "dir' @ [slash]"] Cons by simp
  qed
qed

lemma cstr_append: "cstr m s (xs @ ys) \<longleftrightarrow>
    (\<forall>i < length xs. m (s + i) = xs ! i \<and> xs ! i \<noteq> 0) \<and> cstr m (s + length xs) ys"
  by (induction xs arbitrary: s) (auto simp: All_less_Suc2)

lemma basename_split:
  assumes path: "cstr m s (dir @ slash # base @ replicate k slash)"
    and base: "base \<noteq> []" "slash \<notin> set base"
    and len: "length (dir @ slash # base @ replicate k slash) < 0xFFFFFFFF" and s: "0 < s"
  obtains m1 where "basename s m = Some (s + length dir + 1, m1)" "cstr m1 s (dir @ slash # base)"
proof -
  let ?xs = "dir @ slash # base @ replicate k slash"
  obtain x ys where xy: "?xs = x # ys" by (cases ?xs) auto
  let ?m1 = "trim_slashes s (length ys) m"
  have t: "cstr ?m1 s (dir @ slash # base)"
    using trim_slashes_cstr [of m s x ys] path trimmed_path [OF xy base] xy by simp
  have "strlen s m = of_nat (length ?xs)" by (rule strlen_cstr [OF path len])
  then have l: "unat (strlen s m - 1) = length ys"
    using len unfolding xy by (simp add: unat_of_nat)
  have "m s \<noteq> 0" using path unfolding xy by simp
  moreover have "strrchr s slash ?m1 = s + length dir"
    by (rule strrchr_cstr(2) [OF t _ _ refl base(2)]) (use len in \<open>simp_all add: slash_def\<close>)
  ultimately have "basename s m = Some (s + length dir + 1, ?m1)"
    using s by (simp add: basename_def l)
  then show ?thesis using that t by blast
qed

lemma align8_ge:
  assumes "unat n \<le> 4294967288"
  shows "unat n \<le> unat (align8 n)" "unat (align8 n) \<le> unat n + 7"
proof -
  have "unat (n + 7) = unat n + 7" using assms by (simp add: unat_word_ariths)
  then have u: "unat ((n + 7) div 8) = (unat n + 7) div 8" by (simp add: unat_div)
  have b: "(unat n + 7) div 8 * 8 \<le> unat n + 7" by (metis div_mult_mod_eq le_add1)
  then have "unat (align8 n) = (unat n + 7) div 8 * 8"
    using assms u by (simp add: align8_def unat_word_ariths)
  then show "unat n \<le> unat (align8 n)" "unat (align8 n) \<le> unat n + 7"
    using b by linarith+
qed

lemma kmem_more_eq:
  assumes "heap.more st' = heap.more st"
  shows "mem st' = mem st"
  using assms by (cases st; cases st'; simp)

lemma strdup_spec:
  assumes inv: "heap_inv st" and str: "cstr (mem st) s xs" and len: "length xs < 4294967288"
    and blk: "(q, m) \<in> live st" "q \<le> s" "s + length xs < q + m"
    and k: "kmalloc (of_nat (length xs + 1)) st = Some (p, st1)" "p \<noteq> 0"
  obtains st' where "strdup s st = Some (p, st')" "heap_inv st'" "cstr (mem st') p xs"
    "cstr (mem st') s xs" "live st' = live st1"
    "\<And>a. a < p \<or> p + length xs < a \<Longrightarrow> mem st' a = mem st a"
proof -
  have sl: "strlen s (mem st) + 1 = of_nat (length xs + 1)"
    using strlen_cstr [OF str] len by simp
  have m1: "mem st1 = mem st" using kmem_more_eq [OF kmalloc_more [OF k(1)]] .
  have n: "unat (of_nat (length xs + 1) :: u32) = length xs + 1"
    using len by (simp only: unat_of_nat) simp
  let ?m' = "movsb_up (length xs + 1) p s (mem st)"
  let ?st' = "st1\<lparr>mem := ?m'\<rparr>"
  have "memcpy p s (of_nat (length xs + 1)) (mem st1) = (p, ?m')"
    by (simp only: memcpy_def n m1)
  then have sd: "strdup s st = Some (p, ?st')"
    using k by (simp add: strdup_def Let_def sl del: of_nat_add of_nat_Suc)
  have "length xs + 1 \<le> unat (align8 (of_nat (length xs + 1)))"
    using align8_ge(1) [of "of_nat (length xs + 1)"] n len by simp
  then have dis: "p + length xs < s \<or> s + length xs < p"
    using kheap.alloc_block [OF inv k] blk by fastforce
  have v: "heap_inv ?st' = heap_inv st1" "live ?st' = live st1"
    by (simp_all add: heap_inv_def live_def heap_blocks_def pmm_inv_def free_frames_def
        used_frames_def managed_def nframes_def)
  have copy: "\<And>i. i \<le> length xs \<Longrightarrow> ?m' (p + i) = mem st (s + i)"
    by (rule movsb_up_copy) (use dis in auto)
  have other: "?m' a = mem st a" if "a < p \<or> p + length xs < a" for a
    using that movsb_up_below [of a p "length xs + 1"] movsb_up_above [of p "length xs + 1" a]
    by (auto simp del: movsb_up.simps)
  show ?thesis
  proof (rule that [OF sd])
    show "heap_inv ?st'" unfolding v by (rule kheap.alloc_inv [OF inv k(1)])
    show "cstr (mem ?st') p xs" by (rule cstr_cong [OF str]) (use copy in simp)
    show "cstr (mem ?st') s xs" by (rule cstr_cong [OF str]) (use other dis in auto)
  qed (use other v in auto)
qed

section \<open>Properties\<close>

text \<open>\<open>memmove\<close> copies the bytes the source held before the call, however the two
  areas overlap, and changes no byte outside the destination.\<close>

theorem memmove_correct:
  "fst (memmove d s n m) = d \<and>
   (\<forall>i < unat n. snd (memmove d s n m) (d + i) = m (s + i)) \<and>
   (\<forall>a. a < d \<or> d + unat n \<le> a \<longrightarrow> snd (memmove d s n m) a = m a)"
proof -
  have "fst (memmove d s n m) = d" by (simp add: memmove_def)
  moreover have "snd (memmove d s n m) (d + i) = m (s + i)" if "i < unat n" for i
  proof (cases "d < s")
    case True
    then show ?thesis using that movsb_up_copy [of i "unat n" d s m] by (simp add: memmove_def)
  next
    case False
    let ?N = "unat n"
    have "movsb_down ?N (d + ?N - 1) (s + ?N - 1) m (d + ?N - 1 - (?N - 1 - i)) =
        m (s + ?N - 1 - (?N - 1 - i))"
      by (rule movsb_down_copy) (use that False in auto)
    then show ?thesis using that False by (simp add: memmove_def)
  qed
  moreover have "snd (memmove d s n m) a = m a" if a: "a < d \<or> d + unat n \<le> a" for a
  proof (cases "d < s")
    case True
    then show ?thesis
      using a movsb_up_below [of a d] movsb_up_above [of d "unat n" a] by (auto simp: memmove_def)
  next
    case False
    have "movsb_down (unat n) (d + unat n - 1) (s + unat n - 1) m a = m a"
    proof (cases "unat n = 0")
      case False
      then show ?thesis by (intro movsb_down_other) (use a in auto)
    qed simp
    then show ?thesis using False by (simp add: memmove_def)
  qed
  ultimately show ?thesis by blast
qed

definition demo_mem :: mem where
  "demo_mem = (\<lambda>_. 0)(16 := 117, 17 := slash, 18 := 97, 19 := 98, 20 := slash,
     32 := 117, 33 := 115, 48 := 117, 49 := 120)"

theorem memmove_correct_witness:
  "snd (memmove 17 16 4 demo_mem) (17 + 2) = 97 \<and> snd (memmove 17 16 4 demo_mem) 16 = 117"
proof -
  have "snd (memmove 17 16 4 demo_mem) (17 + 2) = demo_mem (16 + 2)"
    "snd (memmove 17 16 4 demo_mem) 16 = demo_mem 16"
    using memmove_correct [of 17 16 4 demo_mem] by (auto dest: spec [of _ 2])
  then show ?thesis by (simp add: demo_mem_def)
qed

text \<open>on two strings \<open>strcmp\<close> returns; the result is zero exactly when they are
  equal and negative exactly when the first comes before the second in the lexicographic order
  of signed characters.\<close>

theorem strcmp_correct:
  assumes "cstr m a xs" "cstr m b ys"
  shows "\<exists>r. strcmp a b m = Some r \<and> (r = 0 \<longleftrightarrow> xs = ys) \<and>
    (r < 0 \<longleftrightarrow> (xs @ [0], ys @ [0]) \<in> lexord schar_less)"
  by (rule strcmp_cstr [OF assms])

theorem strcmp_correct_witness:
  "\<exists>r. strcmp 32 48 demo_mem = Some r \<and> r < 0"
  using strcmp_correct [of demo_mem 32 "[117, 115]" 48 "[117, 120]"]
  by (auto simp: demo_mem_def schar_less_def)

text \<open>for a path \<open>dir/base\<close>, possibly with trailing slashes, \<open>basename\<close>
  points to \<open>base\<close> and \<open>dirname\<close> gives \<open>dir\<close> (\<open>"/"\<close> when it is empty).\<close>

theorem basename_dirname:
  assumes path: "cstr m s (dir @ slash # base @ replicate k slash)"
    and base: "base \<noteq> []" "slash \<notin> set base" and s: "0 < s"
    and len: "length (dir @ slash # base @ replicate k slash) < 0xFFFFFFFF"
  shows "\<exists>m1. basename s m = Some (s + length dir + 1, m1) \<and> cstr m1 (s + length dir + 1) base \<and>
    (if dir = [] then dirname s m = Some (Lit ''/'', m1)
     else \<exists>m2. dirname s m = Some (Ptr s, m2) \<and> cstr m2 s dir)"
proof -
  obtain m1 where b: "basename s m = Some (s + length dir + 1, m1)" "cstr m1 s (dir @ slash # base)"
    by (rule basename_split [OF path base len s])
  have "cstr m1 (s + length dir + 1) base" using b(2) by (simp add: cstr_append)
  moreover have "dir = [] \<Longrightarrow> dirname s m = Some (Lit ''/'', m1)"
    using b(1) by (simp add: dirname_def)
  moreover have "dirname s m = Some (Ptr s, m1(s + length dir := 0)) \<and>
      cstr (m1(s + length dir := 0)) s dir" if "dir \<noteq> []"
  proof -
    have "\<forall>i < length dir. m1 (s + i) = dir ! i \<and> dir ! i \<noteq> 0"
      using b(2) by (simp add: cstr_append)
    then have "cstr (m1(s + length dir := 0)) s dir" by (simp add: cstr_nth)
    then show ?thesis using that b(1) by (simp add: dirname_def)
  qed
  ultimately show ?thesis using b(1) by auto
qed

theorem basename_dirname_witness:
  "\<exists>m1. basename 16 demo_mem = Some (18, m1) \<and> cstr m1 18 [97, 98]"
  using basename_dirname [of demo_mem 16 "[117]" "[97, 98]" 1]
  by (auto simp: demo_mem_def slash_def)

text \<open>\<open>strdup\<close> of a string that lies in a block in use, with page frames to spare,
  returns a pointer to an equal string in a block of its own; the original and all other
  memory are untouched.\<close>

theorem strdup_correct:
  assumes "heap_inv st" "cstr (mem st) s xs" "length xs < 4294967280"
    "(q, m) \<in> live st" "q \<le> s" "s + length xs < q + m"
    and rdy: "grow_ready k st" "length xs + 12 \<le> 4096 * k"
  shows "\<exists>p st'. strdup s st = Some (p, st') \<and> heap_inv st' \<and> cstr (mem st') p xs \<and>
    cstr (mem st') s xs \<and> p \<notin> fst ` live st \<and> p \<in> fst ` live st' \<and>
    (\<forall>a. a < p \<or> p + length xs < a \<longrightarrow> mem st' a = mem st a)"
proof -
  let ?n = "of_nat (length xs + 1) :: u32"
  have n: "unat ?n = length xs + 1"
    using assms(3) by (simp only: unat_of_nat) simp
  have "unat (align8 ?n) + 4 \<le> 4096 * k"
    using align8_ge(2) [of ?n] n assms(3) rdy(2) by simp
  then obtain p st1 where k: "kmalloc ?n st = Some (p, st1)" "p \<noteq> 0"
    using kmalloc_total [OF assms(1) rdy(1)] by blast
  note al = kheap.alloc_block [OF assms(1) k] kheap.alloc_fresh [OF assms(1) k]
  have len: "length xs < 4294967288" using assms(3) by simp
  obtain st' where "strdup s st = Some (p, st')" "heap_inv st'" "cstr (mem st') p xs"
    "cstr (mem st') s xs" "live st' = live st1"
    "\<And>a. a < p \<or> p + length xs < a \<Longrightarrow> mem st' a = mem st a"
    using strdup_spec [OF assms(1,2) len assms(4-6) k] by metis
  then show ?thesis using al by (intro exI [of _ p] exI [of _ st']) auto
qed

lemma kmem_view [simp]:
  "pmm_inv (mem_update f s) = pmm_inv s" "free_frames (mem_update f s) = free_frames s"
  "pt_inv (mem_update f s) = pt_inv s" "translate (mem_update f s) = translate s"
  "no_large (mem_update f s) = no_large s" "heap_inv (mem_update f s) = heap_inv s"
  "live (mem_update f s) = live s" "grow_ready k (mem_update f s) = grow_ready k s"
  by (simp_all add: pmm_inv_def free_frames_def used_frames_def managed_def nframes_def
      pt_inv_def translate_def no_large_def heap_inv_def heap_blocks_def live_def
      grow_ready_def small_heap_def fun_eq_iff)

lemma kmem_demo_exists:
  obtains s :: kmem and p where "heap_inv s" "grow_ready 10 s" "live s = {(p, 16)}"
    "cstr (mem s) p [97, 98]"
proof -
  define r :: kmem where "r = heap.extend heap_raw \<lparr>mem = demo_mem\<rparr>"
  have "pmm_inv r = pmm_inv heap_raw" "pt_inv r = pt_inv heap_raw"
    "\<And>v. no_large r v = no_large heap_raw v" "\<And>v. translate r v = translate heap_raw v"
    "free_frames r = free_frames heap_raw"
    by (simp_all add: r_def pmm_inv_def free_frames_def used_frames_def managed_def nframes_def
        pt_inv_def translate_def no_large_def heap.defs)
  then have f: "pmm_inv r" "pt_inv r" "\<And>v. no_large r v" "\<And>v. translate r v = None"
    "free_frames r = {256 ..< 320}"
    by (simp_all add: heap_raw_facts)
  obtain s :: kmem where s: "heap_inv s" "live s = {}" "heap_blocks s [(4092, False)]" "grow_ready 10 s"
    using init_heap_small [OF f] by metis
  have a: "unat (align8 10) = 16" by (simp add: align8_def)
  then obtain p h where k: "kmalloc 10 s = Some (p, s\<lparr>hdr := h\<rparr>)" "p \<noteq> 0"
    using kmalloc_fits [OF s(1,3), of 4092 10] by auto
  let ?s = "s\<lparr>hdr := h, mem := (\<lambda>_. 0)(p := 97, p + 1 := 98)\<rparr>"
  show ?thesis
  proof (rule that [of ?s p])
    show "heap_inv ?s" "live ?s = {(p, 16)}"
      using kheap.alloc_block [OF s(1) k] s(2) a by simp_all
    show "grow_ready 10 ?s" using s(4) by simp
  qed simp
qed

theorem strdup_correct_witness:
  "\<exists>(st :: kmem) p q st'. strdup q st = Some (p, st') \<and> cstr (mem st') p [97, 98] \<and> p \<noteq> q"
proof -
  obtain st :: kmem and q where st: "heap_inv st" "grow_ready 10 st" "live st = {(q, 16)}"
    "cstr (mem st) q [97, 98]" by (rule kmem_demo_exists)
  then show ?thesis using strdup_correct [of st q "[97, 98]" q 16 10] by fastforce
qed

text \<open>\<open>memcmp\<close> compares the first byte only, whatever the length.\<close>

theorem memcmp_first_byte:
  "memcmp a b n m = (if n = 0 then 0 else sint (m a) - sint (m b))"
  by (simp add: memcmp_def memcmp_loop_eq unsigned_eq_0_iff)

end
