(* ===== verification/Arch.thy ===== *)
theory Arch
  imports Prelude
begin

text \<open>
  The processor and chipset interface: \<open>src/src/include/arch.h\<close> (port I/O, flags, model
  specific registers, the interrupt controllers' masks), \<open>src/src/arch/arch.c\<close> (PIC and
  timer set-up), \<open>src/src/kernel/irq.c\<close> (interrupt handlers) and
  \<open>src/src/kernel/interrupt.c\<close> (vector dispatch).

  The state records every port write; what a port read gives is up to the device, an arbitrary
  function of the writes so far.  Registered handlers are values of a type \<open>'h\<close>, and
  calling one is a parameter of \<open>do_irq\<close>.
\<close>

section \<open>Ports, flags and registers\<close>

record hw =
  out_log :: "(u16 \<times> u32) list"
  device :: "(u16 \<times> u32) list \<Rightarrow> u16 \<Rightarrow> u32"
  rflags :: u64
  msrs :: "u32 \<Rightarrow> u64"
  masked_irqs :: u16

record regs =
  reg_rax :: u64  reg_rcx :: u64  reg_rdx :: u64  reg_rbx :: u64  reg_rbp :: u64  reg_rsi :: u64  reg_rdi :: u64
  reg_r8 :: u64  reg_r9 :: u64  reg_r10 :: u64  reg_r11 :: u64  reg_r12 :: u64  reg_r13 :: u64  reg_r14 :: u64  reg_r15 :: u64
  vector :: u64
  error_code :: u64
  reg_rip :: u64
  reg_cs :: u64
  reg_rflags :: u64
  reg_rsp :: u64
  reg_ss :: u64

definition KERNEL_CS :: u16 where "KERNEL_CS = 0x0008"
definition KERNEL_DS :: u16 where "KERNEL_DS = 0x0010"
definition TSS_SELECTOR :: u16 where "TSS_SELECTOR = 0x0018"
definition USER_CS :: u16 where "USER_CS = 0x0033"
definition USER_DS :: u16 where "USER_DS = 0x002b"

definition outb :: "u16 \<Rightarrow> u8 \<Rightarrow> 'z hw_scheme \<Rightarrow> 'z hw_scheme" where
  "outb port val s = s\<lparr>out_log := out_log s @ [(port, ucast val)]\<rparr>"

definition inb :: "u16 \<Rightarrow> 'z hw_scheme \<Rightarrow> u8" where
  "inb port s = ucast (device s (out_log s) port)"

definition outl :: "u16 \<Rightarrow> u32 \<Rightarrow> 'z hw_scheme \<Rightarrow> 'z hw_scheme" where
  "outl port val s = s\<lparr>out_log := out_log s @ [(port, val)]\<rparr>"

definition inl :: "u16 \<Rightarrow> 'z hw_scheme \<Rightarrow> u32" where
  "inl port s = device s (out_log s) port"

text \<open>Bit 9 of the flags register enables interrupts.\<close>

definition cli :: "'z hw_scheme \<Rightarrow> 'z hw_scheme" where
  "cli s = s\<lparr>rflags := rflags s AND NOT (push_bit 9 1)\<rparr>"

definition sti :: "'z hw_scheme \<Rightarrow> 'z hw_scheme" where
  "sti s = s\<lparr>rflags := rflags s OR push_bit 9 1\<rparr>"

definition save_flags :: "'z hw_scheme \<Rightarrow> u64" where
  "save_flags s = rflags s"

definition save_flags_irq :: "'z hw_scheme \<Rightarrow> u64 \<times> 'z hw_scheme" where
  "save_flags_irq s = (rflags s, cli s)"

definition restore_flags :: "u64 \<Rightarrow> 'z hw_scheme \<Rightarrow> 'z hw_scheme" where
  "restore_flags flags s = s\<lparr>rflags := flags\<rparr>"

definition interrupts_on :: "'z hw_scheme \<Rightarrow> bool" where
  "interrupts_on s \<longleftrightarrow> bit (rflags s) 9"

text \<open>Model specific registers, read and written as two 32-bit halves.\<close>

definition rdmsr :: "u32 \<Rightarrow> 'z hw_scheme \<Rightarrow> u64" where
  "rdmsr msr s =
    (let lo = (ucast (msrs s msr) :: u32); hi = (ucast (drop_bit 32 (msrs s msr)) :: u32)
     in push_bit 32 (ucast hi) OR ucast lo)"

definition wrmsr :: "u32 \<Rightarrow> u64 \<Rightarrow> 'z hw_scheme \<Rightarrow> 'z hw_scheme" where
  "wrmsr msr val s =
    (let a = (ucast (val AND 0xffffffff) :: u32); d = (ucast (drop_bit 32 val) :: u32)
     in s\<lparr>msrs := (msrs s)(msr := push_bit 32 (ucast d) OR ucast a)\<rparr>)"

section \<open>Interrupt controllers and timer\<close>

definition PIC1 :: u16 where [const_defs]: "PIC1 = 0x20"
definition PIC2 :: u16 where [const_defs]: "PIC2 = 0xA0"
definition ICW1 :: u8 where [const_defs]: "ICW1 = 0x11"
definition ICW4 :: u8 where [const_defs]: "ICW4 = 0x01"
definition PIC1_START :: u8 where [const_defs]: "PIC1_START = 0x20"
definition PIC2_START :: u8 where [const_defs]: "PIC2_START = 0x28"
definition PIC_ACK :: u8 where [const_defs]: "PIC_ACK = 0x20"
definition HZ :: nat where [const_defs]: "HZ = 100"

definition init_pic :: "'z hw_scheme \<Rightarrow> 'z hw_scheme" where
  "init_pic s =
    (let s1 = outb PIC2 ICW1 (outb PIC1 ICW1 s);
         s2 = outb (PIC2 + 1) PIC2_START (outb (PIC1 + 1) PIC1_START s1);
         s3 = outb (PIC2 + 1) 2 (outb (PIC1 + 1) 4 s2);
         s4 = outb (PIC2 + 1) ICW4 (outb (PIC1 + 1) ICW4 s3);
         s5 = s4\<lparr>masked_irqs := 0xFFFB\<rparr>
     in outb (PIC2 + 1) 0xFF (outb (PIC1 + 1) (0xFF AND NOT (push_bit 2 1)) s5))"

definition PIT_CONTROL :: u16 where [const_defs]: "PIT_CONTROL = 0x43"
definition PIT_CHANNEL0 :: u16 where [const_defs]: "PIT_CHANNEL0 = 0x40"
definition PIT_CONTROL_VALUE :: u8 where [const_defs]: "PIT_CONTROL_VALUE = 0x34"
definition PIT_FREQ :: nat where [const_defs]: "PIT_FREQ = 0x1234DD"

definition pit_counter :: u16 where
  "pit_counter = of_nat (PIT_FREQ div HZ)"

definition init_pit :: "'z hw_scheme \<Rightarrow> 'z hw_scheme" where
  "init_pit s =
    outb PIT_CHANNEL0 (ucast (drop_bit 8 pit_counter))
      (outb PIT_CHANNEL0 (ucast (pit_counter AND 0xFF)) (outb PIT_CONTROL PIT_CONTROL_VALUE s))"

definition ack_master_pic :: "'z hw_scheme \<Rightarrow> 'z hw_scheme" where
  "ack_master_pic s = outb PIC1 PIC_ACK s"

definition ack_slave_pic :: "'z hw_scheme \<Rightarrow> 'z hw_scheme" where
  "ack_slave_pic s = outb PIC2 PIC_ACK (outb PIC1 PIC_ACK s)"

text \<open>The second half of both functions: tell the controller the line belongs to.\<close>

definition write_mask :: "nat \<Rightarrow> 'z hw_scheme \<Rightarrow> 'z hw_scheme" where
  "write_mask irq s =
    (if irq < 8 then outb (PIC1 + 1) (ucast (masked_irqs s AND 0xFF)) s
     else outb (PIC2 + 1) (ucast (drop_bit 8 (masked_irqs s))) s)"

definition mask_irq :: "nat \<Rightarrow> 'z hw_scheme \<Rightarrow> 'z hw_scheme" where
  "mask_irq irq s =
    (if masked_irqs s AND push_bit irq 1 \<noteq> 0 then s
     else write_mask irq (s\<lparr>masked_irqs := masked_irqs s OR push_bit irq 1\<rparr>))"

definition unmask_irq :: "nat \<Rightarrow> 'z hw_scheme \<Rightarrow> 'z hw_scheme" where
  "unmask_irq irq s =
    (if masked_irqs s AND push_bit irq 1 = 0 then s
     else write_mask irq (s\<lparr>masked_irqs := masked_irqs s AND NOT (push_bit irq 1)\<rparr>))"

section \<open>Interrupt handlers\<close>

text \<open>\<open>handler\<close> is \<open>None\<close> while the pointer is null; \<open>irqs\<close> has 16 entries, and an
  index outside the array has no defined result.\<close>

record ('h, 'd) irq_t =
  handler :: "'h option"
  irq_data :: 'd
  irq_count :: u32

record ('h, 'd) irqs = hw +
  irqs :: "nat \<Rightarrow> ('h, 'd) irq_t"
  jiffies :: u64

definition register_irq ::
  "nat \<Rightarrow> 'h \<Rightarrow> 'd \<Rightarrow> ('h, 'd, 'z) irqs_scheme \<Rightarrow> (int \<times> ('h, 'd, 'z) irqs_scheme) option" where
  "register_irq irq h d s =
    (if 16 \<le> irq then None
     else if handler (irqs s irq) \<noteq> None then Some (- 1, s)
     else
       let (fl, s1) = save_flags_irq s;
           flags = (ucast fl :: u32);
           s2 = s1\<lparr>irqs := (irqs s1)(irq := \<lparr>handler = Some h, irq_data = d, irq_count = 0\<rparr>)\<rparr>;
           s3 = unmask_irq irq s2
       in Some (0, restore_flags (ucast flags) s3))"

definition release_irq ::
  "nat \<Rightarrow> ('h, 'd, 'z) irqs_scheme \<Rightarrow> (int \<times> ('h, 'd, 'z) irqs_scheme) option" where
  "release_irq irq s =
    (if 16 \<le> irq then None
     else if handler (irqs s irq) = None then Some (- 1, s)
     else
       let flags = (ucast (save_flags s) :: u32);
           s1 = s\<lparr>irqs := (irqs s)(irq := (irqs s irq)\<lparr>handler := None\<rparr>)\<rparr>;
           s2 = mask_irq irq s1
       in Some (0, restore_flags (ucast flags) s2))"

definition do_irq ::
  "('h \<Rightarrow> 'd \<Rightarrow> ('h, 'd, 'z) irqs_scheme \<Rightarrow> ('h, 'd, 'z) irqs_scheme option) \<Rightarrow> regs \<Rightarrow>
    ('h, 'd, 'z) irqs_scheme \<Rightarrow> ('h, 'd, 'z) irqs_scheme option" where
  "do_irq call r s =
    (let n = unat (vector r - 32)
     in if 16 \<le> n then None
        else case handler (irqs s n) of
               None \<Rightarrow> None
             | Some h \<Rightarrow>
                 do {
                   s1 \<leftarrow> call h (irq_data (irqs s n)) s;
                   let s2 = s1\<lparr>irqs := (irqs s1)
                     (n := (irqs s1 n)\<lparr>irq_count := irq_count (irqs s1 n) + 1\<rparr>)\<rparr>;
                   Some (if vector r - 32 < 8 then ack_master_pic s2 else ack_slave_pic s2)
                 })"

text \<open>The timer handler; \<open>tick\<close> is \<open>scheduler_tick\<close>.\<close>

definition do_timer ::
  "(('h, 'd, 'z) irqs_scheme \<Rightarrow> ('h, 'd, 'z) irqs_scheme option) \<Rightarrow>
    ('h, 'd, 'z) irqs_scheme \<Rightarrow> ('h, 'd, 'z) irqs_scheme option" where
  "do_timer tick s = tick (s\<lparr>jiffies := jiffies s + 1\<rparr>)"

section \<open>Vectors\<close>

definition exception_name :: "u64 \<Rightarrow> string option" where
  "exception_name v =
    (let names = [''Divide error'', ''Debug exception'', ''NMI interrupt'', ''Breakpoint'',
       ''Overflow'', ''Bounds'', ''Invalid opcode'', ''No math coprocessor'', ''Double fault'',
       ''Coprocessor segment overrun'', ''Invalid TSS'', ''Segment not present'',
       ''Stack segment fault'', ''General protection fault'', ''Page fault'', ''Reserved'']
     in if v < 16 then Some (names ! unat v) else None)"

datatype exc_func = Do_unknown_exception | Do_page_fault

definition exc_func_table :: "exc_func list" where
  "exc_func_table = (replicate 32 Do_unknown_exception)[14 := Do_page_fault]"

text \<open>\<open>do_unknown_exception\<close> reports and halts, so it does not come back.  The page-fault
  handler and the interrupt dispatcher are parameters.  The entry stubs push the vector number
  minus 128 as a sign-extended byte.\<close>

definition do_unknown_exception :: "regs \<Rightarrow> 's \<Rightarrow> 's option" where
  "do_unknown_exception r s = None"

definition do_vector ::
  "(regs \<Rightarrow> 's \<Rightarrow> 's option) \<Rightarrow> (regs \<Rightarrow> 's \<Rightarrow> 's option) \<Rightarrow> regs \<Rightarrow> 's \<Rightarrow> 's option" where
  "do_vector page_fault irq r s =
    (let r1 = r\<lparr>vector := vector r + 128\<rparr>
     in if vector r1 < 32
        then (case exc_func_table ! unat (vector r1) of
                Do_unknown_exception \<Rightarrow> do_unknown_exception r1 s
              | Do_page_fault \<Rightarrow> page_fault r1 s)
        else irq r1 s)"

definition pushed_vector :: "u8 \<Rightarrow> u64" where
  "pushed_vector v = ucast v - 128"

section \<open>What the controllers were told last\<close>

fun last_out :: "u16 \<Rightarrow> (u16 \<times> u32) list \<Rightarrow> u32 option" where
  "last_out p [] = None"
| "last_out p ((q, v) # xs) =
    (case last_out p xs of Some w \<Rightarrow> Some w | None \<Rightarrow> if q = p then Some v else None)"

lemma last_out_append [simp]:
  "last_out p (xs @ ys) = (case last_out p ys of Some w \<Rightarrow> Some w | None \<Rightarrow> last_out p xs)"
  by (induction xs) (auto split: option.splits)

text \<open>The masks in the controllers agree with \<open>masked_irqs\<close>, and a line other than the
  cascade is masked exactly while it has no handler.\<close>

definition mask_synced :: "'z hw_scheme \<Rightarrow> bool" where
  "mask_synced s \<longleftrightarrow>
     last_out 0x21 (out_log s) = Some (ucast (ucast (masked_irqs s AND 0xFF) :: u8)) \<and>
     last_out 0xA1 (out_log s) = Some (ucast (ucast (drop_bit 8 (masked_irqs s)) :: u8))"

definition irq_inv :: "('h, 'd, 'z) irqs_scheme \<Rightarrow> bool" where
  "irq_inv s \<longleftrightarrow> mask_synced s \<and>
     (\<forall>i < 16. i \<noteq> 2 \<longrightarrow> (bit (masked_irqs s) i \<longleftrightarrow> handler (irqs s i) = None))"

lemma and_push_bit_1: "(w :: u16) AND push_bit n 1 \<noteq> 0 \<longleftrightarrow> bit w n"
  by (simp add: bit_iff_and_push_bit_not_eq_0)

lemma low_byte_cong:
  assumes "\<And>i. i < 8 \<Longrightarrow> bit (v :: u16) i = bit w i"
  shows "v AND 255 = w AND 255"
proof -
  have "v AND mask 8 = w AND mask 8"
    by (rule bit_word_eqI) (use assms in \<open>auto simp: bit_simps\<close>)
  then show ?thesis by (simp add: mask_eq_exp_minus_1)
qed

lemma high_byte_cong:
  assumes "\<And>i. 8 \<le> i \<Longrightarrow> bit (v :: u16) i = bit w i"
  shows "drop_bit 8 v = drop_bit 8 w"
  by (rule bit_word_eqI) (use assms in \<open>auto simp: bit_simps\<close>)

lemma write_mask_synced:
  assumes "mask_synced s" "irq < 16" "\<And>i. i \<noteq> irq \<Longrightarrow> bit m i = bit (masked_irqs s) i"
  shows "mask_synced (write_mask irq (s\<lparr>masked_irqs := m\<rparr>))"
proof (cases "irq < 8")
  case True
  then have "drop_bit 8 m = drop_bit 8 (masked_irqs s)"
    using assms(3) by (intro high_byte_cong) auto
  then show ?thesis
    using True assms(1) by (simp add: mask_synced_def write_mask_def outb_def const_defs)
next
  case False
  then have "m AND 255 = masked_irqs s AND 255" using assms(3) by (intro low_byte_cong) auto
  then show ?thesis
    using False assms(1) by (simp add: mask_synced_def write_mask_def outb_def const_defs)
qed

lemma write_mask_masked [simp]: "masked_irqs (write_mask irq s) = masked_irqs s"
  by (simp add: write_mask_def outb_def)

lemma unmask_irq_spec:
  assumes "mask_synced s" "irq < 16"
  shows "mask_synced (unmask_irq irq s)"
    "bit (masked_irqs (unmask_irq irq s)) i \<longleftrightarrow> bit (masked_irqs s) i \<and> i \<noteq> irq"
proof -
  let ?m = "masked_irqs s AND NOT (push_bit irq 1)"
  have m: "bit ?m j \<longleftrightarrow> bit (masked_irqs s) j \<and> j \<noteq> irq" for j
    using bit_imp_le_length [of "masked_irqs s" j] by (auto simp: bit_simps)
  show "mask_synced (unmask_irq irq s)"
    using assms write_mask_synced [OF assms(1,2), of ?m] m by (simp add: unmask_irq_def)
  show "bit (masked_irqs (unmask_irq irq s)) i \<longleftrightarrow> bit (masked_irqs s) i \<and> i \<noteq> irq"
    using m and_push_bit_1 [of "masked_irqs s" irq] by (auto simp: unmask_irq_def)
qed

lemma mask_irq_spec:
  assumes "mask_synced s" "irq < 16"
  shows "mask_synced (mask_irq irq s)"
    "bit (masked_irqs (mask_irq irq s)) i \<longleftrightarrow> bit (masked_irqs s) i \<or> i = irq"
proof -
  let ?m = "masked_irqs s OR push_bit irq 1"
  have m: "bit ?m j \<longleftrightarrow> bit (masked_irqs s) j \<or> j = irq" for j
    using assms(2) by (auto simp: bit_simps)
  show "mask_synced (mask_irq irq s)"
    using assms write_mask_synced [OF assms(1,2), of ?m] m by (simp add: mask_irq_def)
  show "bit (masked_irqs (mask_irq irq s)) i \<longleftrightarrow> bit (masked_irqs s) i \<or> i = irq"
    using m and_push_bit_1 [of "masked_irqs s" irq] by (auto simp: mask_irq_def)
qed

lemma hw_views [simp]:
  "mask_synced (s\<lparr>irqs := f\<rparr>) = mask_synced s" "mask_synced (s\<lparr>rflags := g\<rparr>) = mask_synced s"
  "mask_synced (cli s) = mask_synced s" "mask_synced (sti s) = mask_synced s"
  "mask_synced (restore_flags fl s) = mask_synced s"
  "masked_irqs (restore_flags fl s) = masked_irqs s" "masked_irqs (cli s) = masked_irqs s"
  by (simp_all add: mask_synced_def cli_def sti_def restore_flags_def)

lemma irqs_field_simps [simp]:
  "irqs (restore_flags fl s) = irqs s" "irqs (cli s) = irqs s"
  "irqs (mask_irq n s) = irqs s" "irqs (unmask_irq n s) = irqs s"
  "irqs.more (mask_irq n s) = irqs.more s" "irqs.more (unmask_irq n s) = irqs.more s"
  "rflags (restore_flags fl s) = fl"
  by (simp_all add: restore_flags_def cli_def mask_irq_def unmask_irq_def write_mask_def outb_def)

text \<open>The flags go through a 32-bit variable; the interrupt flag survives.\<close>

lemma flags_truncated: "bit (ucast (ucast (w :: u64) :: u32) :: u64) 9 = bit w 9"
  by (simp add: bit_simps)

lemma init_pic_inv:
  fixes s :: "('h, 'd, 'z) irqs_scheme"
  assumes "\<And>i. i < 16 \<Longrightarrow> handler (irqs s i) = None"
  shows "irq_inv (init_pic s)"
proof -
  have all: "bit (0xFFFB :: u16) i \<longleftrightarrow> i \<noteq> 2" if "i < 16" for i
  proof -
    have "(0xFFFB :: u16) = NOT (push_bit 2 1)" by simp
    then show ?thesis using that by (simp only: bit_not_iff_eq bit_push_bit_iff bit_1_iff) auto
  qed
  have "mask_synced (init_pic s)"
    by (simp add: mask_synced_def init_pic_def outb_def Let_def const_defs)
  moreover have "masked_irqs (init_pic s) = 0xFFFB" "irqs (init_pic s) = irqs s"
    by (simp_all add: init_pic_def outb_def Let_def)
  ultimately show ?thesis using all assms by (simp add: irq_inv_def)
qed

lemma register_irq_spec:
  assumes "irq_inv s" "irq < 16"
  obtains r s' where "register_irq irq h d s = Some (r, s')" "irq_inv s'"
    "r = (if handler (irqs s irq) = None then 0 else - 1)"
    "handler (irqs s' irq) = (if r = 0 then Some h else handler (irqs s irq))"
    "\<And>i. i \<noteq> irq \<Longrightarrow> irqs s' i = irqs s i"
    "interrupts_on s' = interrupts_on s"
proof (cases "handler (irqs s irq)")
  case (Some x)
  then have "register_irq irq h d s = Some (- 1, s)" using assms by (simp add: register_irq_def)
  then show ?thesis using that [of "- 1" s] assms Some by simp
next
  case None
  let ?s2 = "(cli s)\<lparr>irqs := (irqs s)(irq := \<lparr>handler = Some h, irq_data = d, irq_count = 0\<rparr>)\<rparr>"
  let ?s' = "restore_flags (ucast (ucast (rflags s) :: u32)) (unmask_irq irq ?s2)"
  have r: "register_irq irq h d s = Some (0, ?s')"
    using assms None by (simp add: register_irq_def save_flags_irq_def Let_def)
  have sy: "mask_synced ?s2" using assms(1) by (simp add: irq_inv_def)
  note u = unmask_irq_spec [OF sy assms(2)]
  have "irq_inv ?s'" using assms u by (auto simp: irq_inv_def)
  then show ?thesis
    using that [OF r] None flags_truncated [of "rflags s"] by (simp add: interrupts_on_def)
qed

lemma release_irq_spec:
  assumes "irq_inv s" "irq < 16"
  obtains r s' where "release_irq irq s = Some (r, s')" "irq_inv s'"
    "r = (if handler (irqs s irq) = None then - 1 else 0)" "handler (irqs s' irq) = None"
    "\<And>i. i \<noteq> irq \<Longrightarrow> irqs s' i = irqs s i" "interrupts_on s' = interrupts_on s"
proof (cases "handler (irqs s irq)")
  case None
  then have "release_irq irq s = Some (- 1, s)" using assms by (simp add: release_irq_def)
  then show ?thesis using that [of "- 1" s] assms None by simp
next
  case (Some h)
  let ?s1 = "s\<lparr>irqs := (irqs s)(irq := (irqs s irq)\<lparr>handler := None\<rparr>)\<rparr>"
  let ?s' = "restore_flags (ucast (ucast (rflags s) :: u32)) (mask_irq irq ?s1)"
  have r: "release_irq irq s = Some (0, ?s')"
    using assms Some by (simp add: release_irq_def save_flags_def Let_def)
  have sy: "mask_synced ?s1" using assms(1) by (simp add: irq_inv_def)
  note u = mask_irq_spec [OF sy assms(2)]
  have "irq_inv ?s'" using assms u by (auto simp: irq_inv_def)
  then show ?thesis
    using that [OF r] Some flags_truncated [of "rflags s"] by (simp add: interrupts_on_def)
qed

section \<open>Any sequence of registrations\<close>

inductive irq_reach :: "('h, 'd, 'z) irqs_scheme \<Rightarrow> bool" where
  boot: "(\<And>i. i < 16 \<Longrightarrow> handler (irqs s i) = None) \<Longrightarrow> irq_reach (init_pic s)"
| register: "irq_reach s \<Longrightarrow> irq < 16 \<Longrightarrow> register_irq irq h d s = Some (r, s') \<Longrightarrow> irq_reach s'"
| release: "irq_reach s \<Longrightarrow> irq < 16 \<Longrightarrow> release_irq irq s = Some (r, s') \<Longrightarrow> irq_reach s'"

inductive_cases irq_reachE: "irq_reach s"

lemma irq_reach_inv: "irq_reach s \<Longrightarrow> irq_inv s"
proof (induction rule: irq_reach.induct)
  case (boot s)
  then show ?case by (rule init_pic_inv)
next
  case (register s irq h d r s')
  then show ?case using register_irq_spec [OF register.IH register.hyps(2)] by (metis option.inject prod.inject)
next
  case (release s irq r s')
  then show ?case using release_irq_spec [OF release.IH release.hyps(2)] by (metis option.inject prod.inject)
qed

section \<open>Properties\<close>

text \<open>C34: after initialisation and any sequence of registrations and releases, the
  controllers' mask registers hold what \<open>masked_irqs\<close> says, and a line (other than the
  cascade line 2) is masked exactly when it has no handler.\<close>

theorem irq_lines_in_sync:
  assumes "irq_reach s" "i < 16" "i \<noteq> 2"
  shows "mask_synced s \<and> (bit (masked_irqs s) i \<longleftrightarrow> handler (irqs s i) = None)"
  using irq_reach_inv [OF assms(1)] assms(2,3) by (simp add: irq_inv_def)

definition irq_demo :: "(nat, nat) irqs" where
  "irq_demo = \<lparr>out_log = [], device = (\<lambda>_ _. 0), rflags = 0x202, msrs = (\<lambda>_. 0),
     masked_irqs = 0, irqs = (\<lambda>_. \<lparr>handler = None, irq_data = 0, irq_count = 0\<rparr>), jiffies = 0\<rparr>"

lemma irq_demo_reach: "irq_reach (init_pic irq_demo)"
  by (rule irq_reach.boot) (simp add: irq_demo_def)

lemma irq_demo_register:
  obtains s where "register_irq 1 7 0 (init_pic irq_demo) = Some (0, s)" "handler (irqs s 1) = Some 7"
proof -
  have no: "handler (irqs (init_pic irq_demo) 1) = None"
    by (simp add: init_pic_def outb_def Let_def irq_demo_def)
  obtain r s where "register_irq 1 7 0 (init_pic irq_demo) = Some (r, s)" "r = 0"
    "handler (irqs s 1) = (if r = 0 then Some 7 else None)"
    using register_irq_spec [OF irq_reach_inv [OF irq_demo_reach], of 1 7 0] no
    by (metis one_less_numeral_iff semiring_norm(76))
  then show ?thesis using that by simp
qed

theorem irq_lines_in_sync_witness:
  "\<exists>s. register_irq 1 7 0 (init_pic irq_demo) = Some (0, s) \<and> \<not> bit (masked_irqs s) 1"
proof -
  obtain s where s: "register_irq 1 7 0 (init_pic irq_demo) = Some (0, s)" "handler (irqs s 1) = Some 7"
    by (rule irq_demo_register)
  have "irq_reach s" by (rule irq_reach.register [OF irq_demo_reach _ s(1)]) simp
  then have "\<not> bit (masked_irqs s) 1" using irq_lines_in_sync [of s 1] s(2) by (simp del: bit_0)
  then show ?thesis using s(1) by blast
qed

text \<open>C35: for an interrupt on line \<open>n\<close> with a handler, the stub's vector reaches
  exactly that handler with its data; when the handler returns, its counter goes up by one and
  the end of interrupt is sent to the master controller, and to the slave for lines 8 to 15.\<close>

theorem irq_dispatch:
  assumes "vector r = pushed_vector v" "unat v = 32 + n" "n < 16"
    and "handler (irqs s n) = Some h" "call h (irq_data (irqs s n)) s = Some s1"
  shows "\<exists>s'. do_vector page_fault (do_irq call) r s = Some s' \<and>
    irq_count (irqs s' n) = irq_count (irqs s1 n) + 1 \<and>
    handler (irqs s' n) = handler (irqs s1 n) \<and>
    (\<forall>i. i \<noteq> n \<longrightarrow> irqs s' i = irqs s1 i) \<and>
    out_log s' = out_log s1 @ (if n < 8 then [(0x20, 0x20)] else [(0x20, 0x20), (0xA0, 0x20)])"
proof -
  have v: "unat (vector r + 128) = 32 + n"
    using assms(1-3) by (simp add: pushed_vector_def unsigned_ucast_eq take_bit_eq_mod)
  then have big: "\<not> vector r + 128 < 32" by (simp add: word_less_nat_alt)
  have "32 \<le> vector r + 128" using v by (simp add: word_le_nat_alt)
  then have n: "unat (vector r + 128 - 32) = n" by (simp only: unat_sub v) simp
  then have lt: "vector r + 128 - 32 < 8 \<longleftrightarrow> n < 8" by (simp add: word_less_nat_alt)
  show ?thesis
    unfolding do_vector_def Let_def using big assms(3)
    by (simp add: do_irq_def n [simplified] lt [simplified] assms(4,5) Let_def ack_master_pic_def
        ack_slave_pic_def outb_def const_defs)
qed

definition irq_demo2 :: "(nat, nat) irqs" where
  "irq_demo2 = irq_demo\<lparr>irqs := (\<lambda>_. \<lparr>handler = Some 7, irq_data = 0, irq_count = 4\<rparr>)\<rparr>"

theorem irq_dispatch_witness:
  "\<exists>s'. do_vector (\<lambda>_ _. None) (do_irq (\<lambda>h d s. Some s))
      (undefined\<lparr>vector := pushed_vector 0x29\<rparr>) irq_demo2 = Some s' \<and> irq_count (irqs s' 9) = 5"
proof -
  have "\<exists>s'. do_vector (\<lambda>_ _. None) (do_irq (\<lambda>h d s. Some s))
      (undefined\<lparr>vector := pushed_vector 0x29\<rparr>) irq_demo2 = Some s' \<and>
    irq_count (irqs s' 9) = irq_count (irqs irq_demo2 9) + 1 \<and>
    handler (irqs s' 9) = handler (irqs irq_demo2 9) \<and>
    (\<forall>i. i \<noteq> 9 \<longrightarrow> irqs s' i = irqs irq_demo2 i) \<and>
    out_log s' = out_log irq_demo2 @
      (if (9 :: nat) < 8 then [(0x20, 0x20)] else [(0x20, 0x20), (0xA0, 0x20)])"
    by (rule irq_dispatch [where v = "0x29" and s = irq_demo2 and h = 7])
      (simp_all add: irq_demo2_def)
  then show ?thesis by (auto simp: irq_demo2_def)
qed

end
