(* ===== verification/Vga.thy ===== *)
theory Vga
  imports Arch CString
begin

text \<open>
  The text console, \<open>src/src/kernel/console.c\<close>: an 80 by 25 page of character cells in
  video memory, two bytes each, and a cursor the VGA controller is told about after every
  character.  The state extends the port state of \<open>Arch\<close> with the file's variables and
  the byte memory the pointer \<open>screen\<close> points into.
\<close>

section \<open>State and operations\<close>

definition COLUMNS :: nat where [const_defs]: "COLUMNS = 80"
definition ROWS :: nat where [const_defs]: "ROWS = 25"

record vga = "(nat, nat) irqs" +
  cursor :: u16
  color :: u8
  vmem :: mem

definition screen :: nat where "screen = unat (P2V_IMAGE 0xB8000)"

definition init_console :: "'z vga_scheme \<Rightarrow> 'z vga_scheme" where
  "init_console s =
    (let s1 = outb 0x3D4 0x0F s;
         tmp = inb 0x3D5 s1;
         s2 = outb 0x3D4 0x0E s1
     in s2\<lparr>cursor := push_bit 8 (ucast (inb 0x3D5 s2)) + ucast tmp\<rparr>)"

definition move_cursor :: "'z vga_scheme \<Rightarrow> 'z vga_scheme" where
  "move_cursor s =
    (let s1 = outb 0x3D5 (ucast (cursor s AND 0xFF)) (outb 0x3D4 0x0F s)
     in outb 0x3D5 (ucast (drop_bit 8 (cursor s))) (outb 0x3D4 0x0E s1))"

text \<open>\<open>(color << 8) + ' '\<close>, truncated to the \<open>u16\<close> that \<open>memset16\<close> takes.\<close>

definition blank_cell :: "'z vga_scheme \<Rightarrow> u16" where
  "blank_cell s = push_bit 8 (ucast (color s)) + 32"

definition scroll :: "'z vga_scheme \<Rightarrow> 'z vga_scheme" where
  "scroll s =
    (if unat (cursor s) div COLUMNS \<ge> ROWS then
       let m1 = snd (memmove screen (screen + COLUMNS * 2) (of_nat ((ROWS - 1) * COLUMNS * 2)) (vmem s));
           m2 = snd (memset16 (screen + (ROWS - 1) * COLUMNS * 2) (blank_cell s) (of_nat COLUMNS) m1)
       in s\<lparr>cursor := cursor s - of_nat COLUMNS, vmem := m2\<rparr>
     else s)"

text \<open>The cursor arithmetic is done in \<open>int\<close> and truncated on assignment.\<close>

definition console_putc :: "u8 \<Rightarrow> 'z vga_scheme \<Rightarrow> 'z vga_scheme" where
  "console_putc c s =
    move_cursor (scroll
      (if c = 10 then s\<lparr>cursor := of_nat ((unat (cursor s) + COLUMNS) div COLUMNS * COLUMNS)\<rparr>
       else if c = 13 then s\<lparr>cursor := of_nat (unat (cursor s) div COLUMNS * COLUMNS)\<rparr>
       else if c = 9 then
         let tmp = (unat (cursor s) + 8) div 8 * 8 - unat (cursor s);
             s1 = s\<lparr>cursor := cursor s + of_nat tmp\<rparr>
         in s1\<lparr>vmem := snd (memset16 (screen + unat (cursor s1) * 2) (blank_cell s) (of_nat tmp) (vmem s1))\<rparr>
       else s\<lparr>vmem := (vmem s)(screen + unat (cursor s) * 2 := c, screen + unat (cursor s) * 2 + 1 := color s),
              cursor := cursor s + 1\<rparr>))"

text \<open>\<open>console_puts\<close> on the characters the pointer points to.\<close>

fun console_puts :: "u8 list \<Rightarrow> 'z vga_scheme \<Rightarrow> 'z vga_scheme" where
  "console_puts [] s = s"
| "console_puts (c # cs) s = console_puts cs (console_putc c s)"

section \<open>The page as a list of cells\<close>

text \<open>What the code draws, over lists: \<open>term_putc\<close> acts on the 2000 cells of the page,
  the position of the cursor and the attribute byte.\<close>

type_synonym term_state = "(u8 \<times> u8) list \<times> nat \<times> u8"

fun term_scroll :: "term_state \<Rightarrow> term_state" where
  "term_scroll (cs, p, a) =
    (if 2000 \<le> p then (drop 80 cs @ replicate 80 (32, a), p - 80, a) else (cs, p, a))"

fun term_putc :: "u8 \<Rightarrow> term_state \<Rightarrow> term_state" where
  "term_putc c (cs, p, a) = term_scroll
    (if c = 10 then (cs, (p div 80 + 1) * 80, a)
     else if c = 13 then (cs, p div 80 * 80, a)
     else if c = 9 then
       let q = (p div 8 + 1) * 8
       in (map (\<lambda>i. if q \<le> i \<and> i < q + (q - p) then (32, a) else cs ! i) [0..<2000], q, a)
     else (cs[p := (c, a)], p + 1, a))"

definition cell :: "mem \<Rightarrow> nat \<Rightarrow> u8 \<times> u8" where
  "cell m i = (m (screen + 2 * i), m (screen + 2 * i + 1))"

definition page :: "mem \<Rightarrow> (u8 \<times> u8) list" where
  "page m = map (cell m) [0..<2000]"

definition term_of :: "'z vga_scheme \<Rightarrow> term_state" where
  "term_of s = (page (vmem s), unat (cursor s), color s)"

lemma stosw_val:
  "stosw n d v m a =
    (if d \<le> a \<and> a < d + 2 * n then if even (a - d) then ucast v else ucast (drop_bit 8 v) else m a)"
proof (induction n arbitrary: d m)
  case 0
  show ?case by auto
next
  case (Suc n)
  show ?case
  proof (cases "a = d \<or> a = d + 1 \<or> a < d")
    case True
    then show ?thesis using Suc.IH [of "d + 2"] by auto
  next
    case False
    then have "d + 2 \<le> a" by simp
    then have "even (a - (d + 2)) = even (a - d)" by presburger
    then show ?thesis using Suc.IH [of "d + 2"] False by auto
  qed
qed

lemma cell_stosw:
  assumes "d = screen + 2 * q"
  shows "cell (stosw n d v m) i =
    (if q \<le> i \<and> i < q + n then (ucast v, ucast (drop_bit 8 v)) else cell m i)"
  using assms by (auto simp: cell_def stosw_val)

lemma blank_bytes:
  "(ucast (blank_cell s) :: u8) = 32" "(ucast (drop_bit 8 (blank_cell s)) :: u8) = color s"
proof -
  have c: "unat (color s) < 256" by (rule order.strict_trans2 [OF unsigned_less]) simp
  have "unat (push_bit 8 (ucast (color s)) :: u16) = 256 * unat (color s)"
    using c by (simp add: push_bit_eq_mult unat_word_ariths unsigned_ucast_eq take_bit_eq_mod)
  then have u: "unat (blank_cell s) = 256 * unat (color s) + 32"
    using c by (simp add: blank_cell_def unat_word_ariths)
  show "(ucast (blank_cell s) :: u8) = 32"
    using u by (simp add: word_unat_eq_iff unsigned_ucast_eq take_bit_eq_mod)
  show "(ucast (drop_bit 8 (blank_cell s)) :: u8) = color s"
  proof -
    have "unat (drop_bit 8 (blank_cell s)) = unat (color s)"
      unfolding unat_drop_bit_eq u using c by (simp add: drop_bit_eq_div)
    then show ?thesis
      using c by (simp only: word_unat_eq_iff unsigned_ucast_eq) (simp add: take_bit_eq_mod)
  qed
qed

lemma page_nth [simp]: "i < 2000 \<Longrightarrow> page m ! i = cell m i" and length_page [simp]: "length (page m) = 2000"
  by (simp_all add: page_def)

lemma page_eqI: "length cs = 2000 \<Longrightarrow> (\<And>i. i < 2000 \<Longrightarrow> cell m i = cs ! i) \<Longrightarrow> page m = cs"
  by (rule nth_equalityI) simp_all

lemma scroll_cells:
  defines "m2 \<equiv> \<lambda>m b. stosw 80 (screen + 3840) b (movsb_up 3840 screen (screen + 160) m)"
  shows "cell (m2 m b) i =
    (if i < 1920 then cell m (i + 80) else if i < 2000 then (ucast b, ucast (drop_bit 8 b))
     else cell m i)"
proof -
  let ?m1 = "movsb_up 3840 screen (screen + 160) m"
  have low: "?m1 (screen + k) = m (screen + 160 + k)" if "k < 3840" for k
    by (rule movsb_up_copy) (use that in auto)
  have high: "?m1 a = m a" if "screen + 3840 \<le> a" for a
    by (rule movsb_up_above) (use that in simp)
  have "cell (m2 m b) i =
      (if 1920 \<le> i \<and> i < 1920 + 80 then (ucast b, ucast (drop_bit 8 b)) else cell ?m1 i)"
    unfolding m2_def by (rule cell_stosw) simp
  moreover have "cell ?m1 i = cell m (i + 80)" if "i < 1920"
    using that low [of "2 * i"] low [of "2 * i + 1"] by (simp add: cell_def algebra_simps)
  moreover have "cell ?m1 i = cell m i" if "2000 \<le> i"
    using that by (simp add: cell_def high)
  ultimately show ?thesis by auto
qed

lemma u32_small: "n < 4294967296 \<Longrightarrow> unat (of_nat n :: u32) = n"
  by (simp only: unat_of_nat) simp

lemma scroll_refines:
  assumes "unat (cursor s) < 2080"
  shows "term_of (scroll s) = term_scroll (term_of s)" "unat (cursor (scroll s)) < 2000"
    "out_log (scroll s) = out_log s" "color (scroll s) = color s"
proof -
  have dv: "unat (cursor s) div COLUMNS \<ge> ROWS \<longleftrightarrow> 2000 \<le> unat (cursor s)"
    by (auto simp: const_defs less_eq_div_iff_mult_less_eq)
  have "term_of (scroll s) = term_scroll (term_of s) \<and> unat (cursor (scroll s)) < 2000 \<and>
      out_log (scroll s) = out_log s \<and> color (scroll s) = color s"
  proof (cases "2000 \<le> unat (cursor s)")
    case False
    then show "term_of (scroll s) = term_scroll (term_of s) \<and> unat (cursor (scroll s)) < 2000 \<and>
      out_log (scroll s) = out_log s \<and> color (scroll s) = color s"
      using dv by (simp add: scroll_def term_of_def)
  next
    case True
    let ?m = "stosw 80 (screen + 3840) (blank_cell s) (movsb_up 3840 screen (screen + 160) (vmem s))"
    have sc: "scroll s = s\<lparr>cursor := cursor s - 80, vmem := ?m\<rparr>"
      using True dv by (simp add: scroll_def memmove_def memset16_def const_defs u32_small)
    have cu: "unat (cursor s - 80) = unat (cursor s) - 80"
      using True by (simp add: unat_sub word_le_nat_alt)
    have "page ?m = drop 80 (page (vmem s)) @ replicate 80 (32, color s)"
      by (rule page_eqI) (simp_all add: scroll_cells blank_bytes nth_append add.commute)
    then show "term_of (scroll s) = term_scroll (term_of s) \<and> unat (cursor (scroll s)) < 2000 \<and>
      out_log (scroll s) = out_log s \<and> color (scroll s) = color s"
      using True cu assms by (simp add: sc term_of_def)
  qed
  then show "term_of (scroll s) = term_scroll (term_of s)" "unat (cursor (scroll s)) < 2000"
    "out_log (scroll s) = out_log s" "color (scroll s) = color s" by simp_all
qed

lemma move_cursor_simps [simp]:
  "cursor (move_cursor s) = cursor s" "vmem (move_cursor s) = vmem s"
  "color (move_cursor s) = color s" "term_of (move_cursor s) = term_of s"
  by (simp_all add: move_cursor_def outb_def Let_def term_of_def)

lemma unat_u16_small: "n < 65536 \<Longrightarrow> unat (of_nat n :: u16) = n"
  by (simp only: unat_of_nat) simp

text \<open>The state before the scroll, for each kind of character.\<close>

definition putc_body :: "u8 \<Rightarrow> 'z vga_scheme \<Rightarrow> 'z vga_scheme" where
  "putc_body c s =
      (if c = 10 then s\<lparr>cursor := of_nat ((unat (cursor s) + COLUMNS) div COLUMNS * COLUMNS)\<rparr>
       else if c = 13 then s\<lparr>cursor := of_nat (unat (cursor s) div COLUMNS * COLUMNS)\<rparr>
       else if c = 9 then
         let tmp = (unat (cursor s) + 8) div 8 * 8 - unat (cursor s);
             s1 = s\<lparr>cursor := cursor s + of_nat tmp\<rparr>
         in s1\<lparr>vmem := snd (memset16 (screen + unat (cursor s1) * 2) (blank_cell s) (of_nat tmp) (vmem s1))\<rparr>
       else s\<lparr>vmem := (vmem s)(screen + unat (cursor s) * 2 := c, screen + unat (cursor s) * 2 + 1 := color s),
              cursor := cursor s + 1\<rparr>)"

lemma console_putc_body: "console_putc c s = move_cursor (scroll (putc_body c s))"
  by (simp only: console_putc_def putc_body_def)

lemma tab_body:
  assumes "unat (cursor s) < 2000"
  defines "q \<equiv> (unat (cursor s) div 8 + 1) * 8"
  shows "unat (cursor (putc_body 9 s)) = q" "unat (cursor s) < q" "q \<le> unat (cursor s) + 8"
    "vmem (putc_body 9 s) = stosw (q - unat (cursor s)) (screen + 2 * q) (blank_cell s) (vmem s)"
    "color (putc_body 9 s) = color s" "out_log (putc_body 9 s) = out_log s"
proof -
  let ?p = "unat (cursor s)"
  have q: "(?p + 8) div 8 * 8 = q" using div_add_self2 [of 8 ?p] by (simp add: q_def)
  show b: "?p < q" "q \<le> ?p + 8" unfolding q_def by presburger+
  then have c: "unat (cursor s + of_nat (q - ?p)) = q"
    using assms(1) by (simp add: unat_word_ariths unat_u16_small)
  show "unat (cursor (putc_body 9 s)) = q" using c q by (simp add: putc_body_def Let_def)
  have "unat (of_nat (q - ?p) :: u32) = q - ?p" by (rule u32_small) (use b assms(1) in simp)
  then show "vmem (putc_body 9 s) = stosw (q - ?p) (screen + 2 * q) (blank_cell s) (vmem s)"
    using c q by (simp add: putc_body_def Let_def memset16_def mult.commute)
  show "color (putc_body 9 s) = color s" "out_log (putc_body 9 s) = out_log s"
    by (simp_all add: putc_body_def Let_def)
qed

lemma putc_body_refines:
  assumes p: "unat (cursor s) < 2000"
  shows "term_scroll (term_of (putc_body c s)) = term_putc c (term_of s)"
    "unat (cursor (putc_body c s)) < 2080" "out_log (putc_body c s) = out_log s"
proof -
  let ?p = "unat (cursor s)"
  have "?p div 80 < 25" using p by (simp add: less_mult_imp_div_less)
  then have b: "(?p div 80 + 1) * 80 \<le> 2000" by simp
  have e: "(?p + 80) div 80 * 80 = (?p div 80 + 1) * 80"
    using div_add_self2 [of 80 ?p] by simp
  have nl1: "unat (of_nat ((?p + 80) div 80 * 80) :: u16) = (?p div 80 + 1) * 80"
    unfolding e by (rule unat_u16_small) (use b in simp)
  have nl2: "unat (of_nat (?p div 80 * 80) :: u16) = ?p div 80 * 80"
    by (rule unat_u16_small) (use b in simp)
  consider "c = 10" | "c = 13" | "c = 9" | "c \<noteq> 10" "c \<noteq> 13" "c \<noteq> 9" by blast
  then have "term_scroll (term_of (putc_body c s)) = term_putc c (term_of s) \<and>
      unat (cursor (putc_body c s)) < 2080 \<and> out_log (putc_body c s) = out_log s"
  proof cases
    case 3
    note t = tab_body [OF p]
    let ?q = "(?p div 8 + 1) * 8"
    have cl: "cell (vmem (putc_body 9 s)) i =
        (if ?q \<le> i \<and> i < ?q + (?q - ?p) then (32, color s) else cell (vmem s) i)" for i
      unfolding t(4) cell_stosw [OF refl] blank_bytes ..
    have "page (vmem (putc_body 9 s)) = map (\<lambda>i. if ?q \<le> i \<and> i < ?q + (?q - ?p)
        then (32, color s) else page (vmem s) ! i) [0..<2000]"
      by (rule page_eqI) (simp_all add: cl del: mult_Suc)
    then show "term_scroll (term_of (putc_body c s)) = term_putc c (term_of s) \<and>
      unat (cursor (putc_body c s)) < 2080 \<and> out_log (putc_body c s) = out_log s"
      using 3 t p by (simp add: term_of_def Let_def)
  next
    case 4
    have "unat (cursor s + 1) = ?p + 1" using p by (simp add: unat_word_ariths)
    moreover have "page ((vmem s)(screen + ?p * 2 := c, screen + ?p * 2 + 1 := color s)) =
        (page (vmem s))[?p := (c, color s)]"
    proof (rule page_eqI)
      fix i :: nat assume i: "i < 2000"
      have "2 * i \<noteq> ?p * 2 + 1" "2 * i + 1 \<noteq> ?p * 2" by presburger+
      then show "cell ((vmem s)(screen + ?p * 2 := c, screen + ?p * 2 + 1 := color s)) i =
          (page (vmem s))[?p := (c, color s)] ! i"
        using i by (cases "i = ?p") (auto simp: cell_def)
    qed simp
    ultimately show "term_scroll (term_of (putc_body c s)) = term_putc c (term_of s) \<and>
      unat (cursor (putc_body c s)) < 2080 \<and> out_log (putc_body c s) = out_log s"
      using 4 p by (simp add: term_of_def putc_body_def)
  next
    case 1
    then have "putc_body c s = s\<lparr>cursor := of_nat ((?p + 80) div 80 * 80)\<rparr>"
      by (simp only: putc_body_def COLUMNS_def) simp
    then show ?thesis using 1 b by (simp add: term_of_def nl1 del: of_nat_mult)
  next
    case 2
    then have "putc_body c s = s\<lparr>cursor := of_nat (?p div 80 * 80)\<rparr>"
      by (simp only: putc_body_def COLUMNS_def) simp
    then show ?thesis using 2 b by (simp add: term_of_def nl2 del: of_nat_mult)
  qed
  then show "term_scroll (term_of (putc_body c s)) = term_putc c (term_of s)"
    "unat (cursor (putc_body c s)) < 2080" "out_log (putc_body c s) = out_log s" by simp_all
qed

section \<open>Properties\<close>

text \<open>C33: with the cursor on the page, \<open>console_putc\<close> does to video memory, cursor
  and attribute what \<open>term_putc\<close> does to the list of cells (line feed, return, tab, plain
  characters and scrolling), leaves the cursor on the page, and then tells the controller the
  new position, low byte first.\<close>

theorem console_putc_refines:
  assumes "unat (cursor s) < 2000"
  shows "term_of (console_putc c s) = term_putc c (term_of s) \<and>
    unat (cursor (console_putc c s)) < 2000 \<and>
    out_log (console_putc c s) = out_log s @
      [(0x3D4, 0x0F), (0x3D5, ucast (ucast (cursor (console_putc c s) AND 0xFF) :: u8)),
       (0x3D4, 0x0E), (0x3D5, ucast (ucast (drop_bit 8 (cursor (console_putc c s))) :: u8))]"
proof -
  note b = putc_body_refines [OF assms, of c]
  note sc = scroll_refines [OF b(2)]
  show ?thesis
    unfolding console_putc_body using b sc by (simp add: move_cursor_def outb_def Let_def term_of_def)
qed

definition vga_demo :: vga where
  "vga_demo = \<lparr>out_log = [], device = (\<lambda>_ _. 0), rflags = 0, msrs = (\<lambda>_. 0), masked_irqs = 0,
     irqs = (\<lambda>_. \<lparr>handler = None, irq_data = 0, irq_count = 0\<rparr>), jiffies = 7,
     cursor = 1999, color = 7, vmem = (\<lambda>_. 0)\<rparr>"

theorem console_putc_refines_witness:
  "unat (cursor (console_putc 65 vga_demo)) < 2000 \<and>
    fst (snd (term_of (console_putc 65 vga_demo))) = 1920"
  using console_putc_refines [of vga_demo 65] by (simp add: vga_demo_def term_of_def)

text \<open>except for a tab in the last eight columns of the page, \<open>console_putc\<close>
  writes no byte outside the page; that tab blanks the cells behind the end of the page.\<close>

theorem console_putc_in_page:
  assumes p: "unat (cursor s) < 2000" and c: "c \<noteq> 9 \<or> unat (cursor s) < 1992"
    and a: "a < screen \<or> screen + 4000 \<le> a"
  shows "vmem (console_putc c s) a = vmem s a"
proof -
  have sc: "vmem (scroll s') a = vmem s' a" for s' :: "'z vga_scheme"
  proof (cases "unat (cursor s') div COLUMNS \<ge> ROWS")
    case True
    have "movsb_up 3840 screen (screen + 160) m a = m a" for m
      using a movsb_up_below [of a screen] movsb_up_above [of screen 3840 a] by auto
    then have "stosw 80 (screen + 3840) b (movsb_up 3840 screen (screen + 160) m) a = m a" for b m
      using a by (auto simp: stosw_val)
    then show ?thesis
      using True by (simp add: scroll_def memmove_def memset16_def const_defs u32_small)
  qed (simp add: scroll_def)
  have "vmem (putc_body c s) a = vmem s a"
  proof (cases "c = 9")
    case True
    note t = tab_body [OF p]
    let ?q = "(unat (cursor s) div 8 + 1) * 8"
    have "?q \<le> 1992"
    proof -
      have "unat (cursor s) div 8 < 249" using c True by (simp add: less_mult_imp_div_less)
      then show ?thesis by simp
    qed
    then have "screen + 2 * ?q + 2 * (?q - unat (cursor s)) \<le> screen + 4000" using t(3) by simp
    then show ?thesis unfolding True t(4) stosw_val using a by auto
  next
    case False
    then show ?thesis using p a by (auto simp: putc_body_def)
  qed
  then show ?thesis unfolding console_putc_body by (simp add: sc)
qed

theorem console_putc_in_page_witness:
  "vmem (console_putc 65 vga_demo) (screen + 4000) = 0"
  using console_putc_in_page [of vga_demo 65 "screen + 4000"] by (simp add: vga_demo_def)

end
