(* ===== verification/Printf.thy ===== *)
theory Printf
  imports Vga
begin

text \<open>
  Formatted output, \<open>src/src/kernel/printf.c\<close>: the state machine \<open>do_printf\<close> that walks
  the format string one character at a time, and its callers \<open>printk\<close>, \<open>sprintf\<close> and
  \<open>snprintf\<close>.

  A format is the list of its characters up to the terminating zero byte.  An argument is a
  64-bit slot or, for \<open>%s\<close>, the string pointed to (\<open>None\<close> for a null pointer).
  \<open>None\<close> as a result stands for behaviour the C standard leaves undefined: a missing or
  mistyped argument, or a format that ends in the middle of a conversion, where the loop steps
  over the terminator.  The output function \<open>fn\<close> returns whether it failed and its new
  state.  The flags \<open>PR_32\<close>, \<open>PR_FP\<close> and \<open>PR_0x\<close> are never set or never read by
  the code and are left out.
\<close>

section \<open>Flags and arguments\<close>

record pflags =
  PR_LJ :: bool
  PR_CA :: bool
  PR_SG :: bool
  PR_64 :: bool
  PR_16 :: bool
  PR_WS :: bool
  PR_LZ :: bool

definition no_flags :: pflags where
  "no_flags = \<lparr>PR_LJ = False, PR_CA = False, PR_SG = False, PR_64 = False, PR_16 = False,
     PR_WS = False, PR_LZ = False\<rparr>"

definition PR_BUFLEN :: nat where "PR_BUFLEN = 27"

datatype arg = Num u64 | Text "string option"

datatype radix = R8 | R10 | R16

fun radix_val :: "radix \<Rightarrow> nat" where
  "radix_val R8 = 8" | "radix_val R10 = 10" | "radix_val R16 = 16"

section \<open>Numbers\<close>

definition digit_char :: "bool \<Rightarrow> nat \<Rightarrow> char" where
  "digit_char ca d =
    (if d < 10 then char_of (d + 48) else if ca then char_of (d - 10 + 65) else char_of (d - 10 + 97))"

lemma unat_div_radix: "unat (num div of_nat (radix_val r) :: u64) = unat num div radix_val r"
  by (cases r) (simp_all add: unat_div)

text \<open>The loop \<open>do { ... } while (num != 0)\<close>; digits are stored towards lower addresses,
  so each one goes in front of \<open>where\<close>.\<close>

function to_ascii :: "radix \<Rightarrow> bool \<Rightarrow> u64 \<Rightarrow> string \<Rightarrow> string" where
  "to_ascii radix ca num wher =
    (let wher1 = digit_char ca (unat num mod radix_val radix) # wher;
         num1 = num div of_nat (radix_val radix)
     in if num1 \<noteq> 0 then to_ascii radix ca num1 wher1 else wher1)"
  by pat_completeness auto
termination
proof (relation "measure (\<lambda>(radix, ca, num, wher). unat num)")
  fix r :: radix and ca :: bool and num :: u64 and wher wher1 :: string and num1
  assume "num1 = num div of_nat (radix_val r)" "num1 \<noteq> 0"
  then have "0 < unat num div radix_val r" using unat_div_radix [of num r]
    by (metis unat_gt_0)
  then have "0 < unat num" by (cases "unat num") auto
  moreover have "1 < radix_val r" by (cases r) simp_all
  ultimately show "((r, ca, num1, wher1), r, ca, num, wher) \<in>
      measure (\<lambda>(radix, ca, num, wher). unat num)"
    using \<open>num1 = _\<close> by (simp add: unat_div_radix div_less_dividend)
qed simp

declare to_ascii.simps [simp del]

text \<open>\<open>DO_NUM\<close>: which part of the argument is read; narrow unsigned values are zero
  extended, a signed \<open>int\<close> is sign extended.\<close>

definition load_num :: "pflags \<Rightarrow> u64 \<Rightarrow> u64" where
  "load_num fl v =
    (if PR_64 fl then v
     else if PR_16 fl then ucast (ucast v AND (0xFFFF :: u32))
     else if PR_SG fl then scast (ucast v :: u32)
     else ucast (ucast v :: u32))"

definition take_sign :: "pflags \<Rightarrow> u64 \<Rightarrow> pflags \<times> u64" where
  "take_sign fl num =
    (if PR_SG fl \<and> sint num < 0 then (fl\<lparr>PR_WS := True\<rparr>, - num) else (fl, num))"

section \<open>Conversions\<close>

text \<open>What is emitted from the label \<open>EMIT\<close> (\<open>EMIT2\<close> for a character) to the end
  of the conversion, \<open>c\<close> being the conversion character.\<close>

definition emit2 :: "pflags \<Rightarrow> u32 \<Rightarrow> u32 \<Rightarrow> string \<Rightarrow> string" where
  "emit2 fl given_wd actual_wd wher =
    (let left = (if PR_LJ fl then 0 else unat given_wd - unat actual_wd);
         wd1 = given_wd - of_nat left;
         wd2 = (if wd1 < actual_wd then 0 else wd1 - actual_wd)
     in replicate left (if PR_LZ fl then CHR ''0'' else CHR '' '')
        @ (if PR_WS fl \<and> \<not> PR_LZ fl then ''-'' else [])
        @ wher @ replicate (unat wd2) (CHR '' ''))"

definition emit_conv :: "char \<Rightarrow> pflags \<Rightarrow> u32 \<Rightarrow> string \<Rightarrow> string" where
  "emit_conv c fl given_wd wher =
    (let actual_wd = of_nat (length wher) + (if PR_WS fl then 1 else 0)
     in (if PR_WS fl \<and> PR_LZ fl then [c] else []) @ emit2 fl given_wd actual_wd wher)"

definition conv_num :: "char \<Rightarrow> radix \<Rightarrow> pflags \<Rightarrow> u32 \<Rightarrow> arg list \<Rightarrow> (string \<times> arg list) option" where
  "conv_num c radix fl given_wd args =
    (case args of
       Num v # rest \<Rightarrow>
         (let (fl1, num) = take_sign fl (load_num fl v)
          in Some (emit_conv c fl1 given_wd (to_ascii radix (PR_CA fl1) num []), rest))
     | _ \<Rightarrow> None)"

text \<open>State 4: the conversion character.  A zero byte as character ends the string
  \<open>where\<close> points to.\<close>

definition conversion :: "char \<Rightarrow> pflags \<Rightarrow> u32 \<Rightarrow> arg list \<Rightarrow> (string \<times> arg list) option" where
  "conversion c fl given_wd args =
    (if c = CHR ''X'' then conv_num c R16 (fl\<lparr>PR_CA := True\<rparr>) given_wd args
     else if c = CHR ''x'' \<or> c = CHR ''n'' then conv_num c R16 fl given_wd args
     else if c = CHR ''p'' then conv_num c R16 (fl\<lparr>PR_64 := True\<rparr>) given_wd args
     else if c = CHR ''d'' \<or> c = CHR ''i'' then conv_num c R10 (fl\<lparr>PR_SG := True\<rparr>) given_wd args
     else if c = CHR ''u'' then conv_num c R10 fl given_wd args
     else if c = CHR ''o'' then conv_num c R8 fl given_wd args
     else if c = CHR ''c'' then
       (case args of
          Num v # rest \<Rightarrow>
            (let ch = char_of (unat (ucast v :: u8))
             in Some (emit2 (fl\<lparr>PR_LZ := False\<rparr>) given_wd 1
                  (if ch = CHR 0x00 then [] else [ch]), rest))
        | _ \<Rightarrow> None)
     else if c = CHR ''s'' then
       (case args of
          Text t # rest \<Rightarrow>
            (let wher = (case t of None \<Rightarrow> ''(NULL)'' | Some s \<Rightarrow> takeWhile (\<lambda>x. x \<noteq> CHR 0x00) s)
             in Some (emit_conv c (fl\<lparr>PR_LZ := False\<rparr>) given_wd wher, rest))
        | _ \<Rightarrow> None)
     else Some ([], args))"

section \<open>The state machine\<close>

text \<open>One iteration of the loop: the new state, flags and width, the arguments left, the
  characters emitted, and how many characters \<open>fmt\<close> moved inside the loop body.\<close>

record pstate =
  pst :: nat
  pfl :: pflags
  pwd :: u32
  pargs :: "arg list"

definition start :: "arg list \<Rightarrow> pstate" where
  "start args = \<lparr>pst = 0, pfl = no_flags, pwd = 0, pargs = args\<rparr>"

definition cur :: "string \<Rightarrow> char" where
  "cur fmt = (case fmt of [] \<Rightarrow> CHR 0x00 | c # _ \<Rightarrow> c)"

definition is_digit :: "char \<Rightarrow> bool" where
  "is_digit c \<longleftrightarrow> 48 \<le> (of_char c :: nat) \<and> (of_char c :: nat) \<le> 57"

definition state4 :: "char \<Rightarrow> pstate \<Rightarrow> (pstate \<times> string) option" where
  "state4 c s =
    do {
      (out, args1) \<leftarrow> conversion c (pfl s) (pwd s) (pargs s);
      Some (start args1, out)
    }"

definition state3 :: "char \<Rightarrow> pstate \<Rightarrow> (pstate \<times> string) option" where
  "state3 c s =
    (if c = CHR ''F'' \<or> c = CHR ''N'' then Some (s\<lparr>pst := 3\<rparr>, [])
     else if c = CHR ''l'' \<or> c = CHR ''L'' then
       Some (s\<lparr>pst := 3, pfl := (pfl s)\<lparr>PR_64 := True\<rparr>\<rparr>, [])
     else if c = CHR ''h'' then Some (s\<lparr>pst := 3, pfl := (pfl s)\<lparr>PR_16 := True\<rparr>\<rparr>, [])
     else state4 c s)"

definition state2 :: "char \<Rightarrow> pstate \<Rightarrow> (pstate \<times> string) option" where
  "state2 c s =
    (if is_digit c then
       Some (s\<lparr>pst := 2, pwd := 10 * pwd s + of_nat (of_char c - 48)\<rparr>, [])
     else state3 c s)"

definition state1 :: "string \<Rightarrow> pstate \<Rightarrow> (pstate \<times> string \<times> nat) option" where
  "state1 fmt s =
    (if cur fmt = CHR ''%'' then Some (start (pargs s), ''%'', 0)
     else if cur fmt = CHR ''-'' then
       (if PR_LJ (pfl s) then Some (start (pargs s), [], 0)
        else Some (s\<lparr>pst := 1, pfl := (pfl s)\<lparr>PR_LJ := True\<rparr>\<rparr>, [], 0))
     else if cur fmt = CHR ''0'' then
       map_option (\<lambda>(s1, out). (s1, out, 1))
         (state2 (cur (tl fmt)) (s\<lparr>pfl := (pfl s)\<lparr>PR_LZ := True\<rparr>\<rparr>))
     else map_option (\<lambda>(s1, out). (s1, out, 0)) (state2 (cur fmt) s))"

definition body :: "string \<Rightarrow> pstate \<Rightarrow> (pstate \<times> string \<times> nat) option" where
  "body fmt s =
    (if pst s = 0 then
       (if cur fmt \<noteq> CHR ''%'' then Some (s, [cur fmt], 0)
        else map_option (\<lambda>(s1, out, k). (s1, out, Suc k)) (state1 (tl fmt) s))
     else if pst s = 1 then state1 fmt s
     else map_option (\<lambda>(s1, out). (s1, out, 0))
       (if pst s = 2 then state2 (cur fmt) s
        else if pst s = 3 then state3 (cur fmt) s else state4 (cur fmt) s))"

fun emit :: "(char \<Rightarrow> 's \<Rightarrow> bool \<times> 's) \<Rightarrow> string \<Rightarrow> u32 \<Rightarrow> 's \<Rightarrow> bool \<times> u32 \<times> 's" where
  "emit fn [] count p = (False, count, p)"
| "emit fn (c # cs) count p =
    (let (failed, p1) = fn c p
     in if failed then (True, count, p1) else emit fn cs (count + 1) p1)"

text \<open>The loop.  When the body left \<open>fmt\<close> at the terminator, the increment would step
  over it.\<close>

function printf_loop ::
  "(char \<Rightarrow> 's \<Rightarrow> bool \<times> 's) \<Rightarrow> string \<Rightarrow> pstate \<Rightarrow> u32 \<Rightarrow> 's \<Rightarrow> (u32 \<times> 's) option" where
  "printf_loop fn [] s count p = Some (count, p)"
| "printf_loop fn (c # cs) s count p =
    (case body (c # cs) s of
       None \<Rightarrow> None
     | Some (s1, out, k) \<Rightarrow>
         (case emit fn out count p of
            (True, count1, p1) \<Rightarrow> Some (count1, p1)
          | (False, count1, p1) \<Rightarrow>
              if length cs < k then None else printf_loop fn (drop k cs) s1 count1 p1))"
  by pat_completeness auto
termination
  by (relation "measure (\<lambda>(fn, fmt, s, count, p). length fmt)") auto

definition do_printf ::
  "string \<Rightarrow> arg list \<Rightarrow> (char \<Rightarrow> 's \<Rightarrow> bool \<times> 's) \<Rightarrow> 's \<Rightarrow> (u32 \<times> 's) option" where
  "do_printf fmt args fn p = printf_loop fn fmt (start args) 0 p"

section \<open>Callers\<close>

definition printf_helper :: "char \<Rightarrow> 'z vga_scheme \<Rightarrow> bool \<times> 'z vga_scheme" where
  "printf_helper c s = (False, console_putc (of_nat (of_char c)) s)"

definition printk :: "string \<Rightarrow> arg list \<Rightarrow> 'z vga_scheme \<Rightarrow> (u32 \<times> 'z vga_scheme) option" where
  "printk fmt args s = do_printf fmt args printf_helper s"

text \<open>\<open>sprintf_data\<close>, with the memory the buffer lies in.\<close>

record sprintf_data =
  sp_str :: nat
  sp_size :: nat
  sp_off :: nat
  sp_mem :: mem

definition sprintf_helper :: "char \<Rightarrow> sprintf_data \<Rightarrow> bool \<times> sprintf_data" where
  "sprintf_helper c d =
    (False, (if sp_off d < sp_size d
             then d\<lparr>sp_mem := (sp_mem d)(sp_str d + sp_off d := of_nat (of_char c))\<rparr> else d)
       \<lparr>sp_off := sp_off d + 1\<rparr>)"

definition vsnprintf :: "nat \<Rightarrow> nat \<Rightarrow> string \<Rightarrow> arg list \<Rightarrow> mem \<Rightarrow> (nat \<times> mem) option" where
  "vsnprintf str sz fmt args m =
    (if sz = 0 then Some (0, m)
     else do {
       (count, d) \<leftarrow> do_printf fmt args sprintf_helper
         \<lparr>sp_str = str, sp_size = sz - 1, sp_off = 0, sp_mem = m\<rparr>;
       Some (sp_off d,
         (if sp_off d < sp_size d then (sp_mem d)(str + sp_off d := 0)
          else (sp_mem d)(str + sp_size d - 1 := 0)))
     })"

definition sprintf :: "nat \<Rightarrow> string \<Rightarrow> arg list \<Rightarrow> mem \<Rightarrow> (nat \<times> mem) option" where
  "sprintf str fmt args m = vsnprintf str 0xFFFFFFFF fmt args m"

definition snprintf :: "nat \<Rightarrow> nat \<Rightarrow> string \<Rightarrow> arg list \<Rightarrow> mem \<Rightarrow> (nat \<times> mem) option" where
  "snprintf str sz fmt args m = vsnprintf str sz fmt args m"

section \<open>Digits\<close>

definition digit_val :: "char \<Rightarrow> nat" where
  "digit_val c =
    (let n = of_char c in if n < 58 then n - 48 else if n < 97 then n - 55 else n - 87)"

definition value_of :: "nat \<Rightarrow> string \<Rightarrow> nat" where
  "value_of b ds = foldl (\<lambda>a c. a * b + digit_val c) 0 ds"

lemma digit_val_char: "d < 16 \<Longrightarrow> digit_val (digit_char ca d) = d"
  by (auto simp: digit_val_def digit_char_def Let_def)

lemma radix_val_bounds: "2 \<le> radix_val r" "radix_val r \<le> 16" "8 \<le> radix_val r"
  by (cases r; simp)+

text \<open>The digits without the buffer.\<close>

function digits :: "radix \<Rightarrow> bool \<Rightarrow> nat \<Rightarrow> string" where
  "digits r ca n = (if n < radix_val r then [] else digits r ca (n div radix_val r)) @
     [digit_char ca (n mod radix_val r)]"
  by pat_completeness auto
termination
proof (relation "measure (\<lambda>(r, ca, n). n)")
  fix r ca and n :: nat
  assume "\<not> n < radix_val r"
  moreover have "2 \<le> radix_val r" by (rule radix_val_bounds)
  ultimately show "((r, ca, n div radix_val r), r, ca, n) \<in> measure (\<lambda>(r, ca, n). n)"
    by simp
qed simp

declare digits.simps [simp del]

lemma to_ascii_digits: "to_ascii r ca num acc = digits r ca (unat num) @ acc"
proof (induction r ca num acc rule: to_ascii.induct)
  case (1 r ca num acc)
  let ?q = "num div of_nat (radix_val r)"
  have z: "?q = 0 \<longleftrightarrow> unat num < radix_val r"
    using unat_div_radix [of num r] radix_val_bounds(1) [of r]
    by (metis div_less div_greater_zero_iff gr_implies_not0 not_less numeral_2_eq_2 unat_0
        unat_eq_zero zero_less_Suc order_less_le_trans)
  show ?case
  proof (cases "?q = 0")
    case True
    then show ?thesis using z by (subst to_ascii.simps, subst digits.simps) (simp add: Let_def)
  next
    case False
    then show ?thesis
      using z "1.IH" [OF refl refl False] unat_div_radix [of num r]
      by (subst to_ascii.simps, subst digits.simps) (simp add: Let_def)
  qed
qed

lemma value_of_snoc [simp]: "value_of b (ds @ [c]) = value_of b ds * b + digit_val c"
  by (simp add: value_of_def)

lemma value_of_digits: "value_of (radix_val r) (digits r ca n) = n"
proof (induction r ca n rule: digits.induct)
  case (1 r ca n)
  have "n mod radix_val r < 16"
    using radix_val_bounds(1,2) [of r] by (meson mod_less_divisor order_less_le_trans zero_less_numeral)
  then have d: "digit_val (digit_char ca (n mod radix_val r)) = n mod radix_val r"
    by (rule digit_val_char)
  show ?case
  proof (cases "n < radix_val r")
    case True
    then show ?thesis using d by (subst digits.simps) (simp add: value_of_def)
  next
    case False
    then show ?thesis using d "1.IH" [OF False] by (subst digits.simps) simp
  qed
qed

lemma digits_length: "n < radix_val r ^ Suc k \<Longrightarrow> length (digits r ca n) \<le> Suc k"
proof (induction k arbitrary: n)
  case 0
  then show ?case by (subst digits.simps) simp
next
  case (Suc k)
  have "n div radix_val r < radix_val r ^ Suc k"
    using Suc.prems radix_val_bounds(1) [of r] by (simp add: less_mult_imp_div_less mult.commute)
  then show ?case using Suc.IH by (subst digits.simps) simp
qed

lemma digits_no_leading_zero: "0 < n \<Longrightarrow> digit_val (hd (digits r ca n)) \<noteq> 0 \<and> digits r ca n \<noteq> []"
proof (induction r ca n rule: digits.induct)
  case (1 r ca n)
  show ?case
  proof (cases "n < radix_val r")
    case True
    then have "n < 16" using radix_val_bounds(2) [of r] by simp
    then show ?thesis using True "1.prems" by (subst (1 2) digits.simps) (simp add: digit_val_char)
  next
    case False
    then have "0 < n div radix_val r" using radix_val_bounds(1) [of r] by (simp add: div_greater_zero_iff)
    then show ?thesis using False "1.IH" [OF False] by (subst (1 2) digits.simps) simp
  qed
qed

section \<open>Output as a string\<close>

function printf_out :: "string \<Rightarrow> pstate \<Rightarrow> string option" where
  "printf_out [] s = Some []"
| "printf_out (c # cs) s =
    (case body (c # cs) s of
       None \<Rightarrow> None
     | Some (s1, out, k) \<Rightarrow>
         if length cs < k then None else map_option (append out) (printf_out (drop k cs) s1))"
  by pat_completeness auto
termination by (relation "measure (\<lambda>(fmt, s). length fmt)") auto

lemma emit_total:
  assumes "\<And>c p. \<not> fst (fn c p)"
  shows "emit fn out count p =
    (False, count + of_nat (length out), fold (\<lambda>c p. snd (fn c p)) out p)"
proof (induction out arbitrary: count p)
  case Nil
  then show ?case by simp
next
  case (Cons c out)
  then show ?case using assms [of c p] by (cases "fn c p") (simp add: add.assoc)
qed

text \<open>An output function that never fails gets exactly the characters of \<open>printf_out\<close>.\<close>

lemma printf_loop_out:
  assumes fn: "\<And>c p. \<not> fst (fn c p)"
  shows "printf_loop fn fmt s count p =
    map_option (\<lambda>out. (count + of_nat (length out), fold (\<lambda>c p. snd (fn c p)) out p))
      (printf_out fmt s)"
proof (induction fmt s arbitrary: count p rule: printf_out.induct)
  case (1 s)
  then show ?case by simp
next
  case (2 c cs s)
  show ?case
  proof (cases "body (c # cs) s")
    case None
    then show ?thesis by simp
  next
    case (Some r)
    obtain s1 out k where r: "r = (s1, out, k)" by (cases r)
    show ?thesis
    proof (cases "length cs < k")
      case True
      then show ?thesis using Some r by (simp add: emit_total [OF fn])
    next
      case False
      let ?p = "fold (\<lambda>c p. snd (fn c p)) out p" and ?n = "count + of_nat (length out)"
      have IH: "printf_loop fn (drop k cs) s1 ?n ?p =
        map_option (\<lambda>out. (?n + of_nat (length out), fold (\<lambda>c p. snd (fn c p)) out ?p))
          (printf_out (drop k cs) s1)"
        by (rule 2 [of r s1 "(out, k)" out k]) (simp_all add: Some r False)
      have l: "printf_loop fn (c # cs) s count p = printf_loop fn (drop k cs) s1 ?n ?p"
        using Some r False by (simp add: emit_total [OF fn])
      show ?thesis
        unfolding l IH using Some r False
        by (cases "printf_out (drop k cs) s1") (simp_all add: add.assoc)
    qed
  qed
qed

section \<open>Formats as lists of items\<close>

text \<open>The abstract syntax of a format, how it is written, and what it produces.\<close>

datatype item =
    Lit char
  | Percent
  | Spec (left_just: bool) (zero_pad: bool) (width: string) (mods: string) (conv: char)

fun unparse :: "item \<Rightarrow> string" where
  "unparse (Lit c) = [c]"
| "unparse Percent = ''%%''"
| "unparse (Spec lj lz w ms c) =
    ''%'' @ (if lj then ''-'' else []) @ (if lz then ''0'' else []) @ w @ ms @ [c]"

fun good_item :: "item \<Rightarrow> bool" where
  "good_item (Lit c) \<longleftrightarrow> c \<noteq> CHR ''%''"
| "good_item Percent \<longleftrightarrow> True"
| "good_item (Spec lj lz w ms c) \<longleftrightarrow>
     (\<forall>x \<in> set w. is_digit x) \<and> (lz \<or> w = [] \<or> hd w \<noteq> CHR ''0'') \<and>
     (\<forall>x \<in> set ms. x \<in> set ''FNlLh'') \<and> c \<in> set ''Xxnpdiuocs''"

definition item_flags :: "bool \<Rightarrow> bool \<Rightarrow> string \<Rightarrow> pflags" where
  "item_flags lj lz ms = no_flags\<lparr>PR_LJ := lj, PR_LZ := lz,
     PR_64 := (CHR ''l'' \<in> set ms \<or> CHR ''L'' \<in> set ms), PR_16 := (CHR ''h'' \<in> set ms)\<rparr>"

definition width_of :: "string \<Rightarrow> u32" where
  "width_of w = foldl (\<lambda>a c. 10 * a + of_nat (of_char c - 48)) 0 w"

text \<open>What a conversion prints, stated on numbers and strings: the kind of each conversion
  character, how many bits of the argument it reads, the number's digits, and the field they are
  put in.\<close>

datatype conv_kind = Unsigned nat bool | Signed | Character | Str

fun kind_of :: "char \<Rightarrow> conv_kind" where
  "kind_of c =
    (if c = CHR ''X'' then Unsigned 16 True
     else if c \<in> set ''xnp'' then Unsigned 16 False
     else if c \<in> set ''di'' then Signed
     else if c = CHR ''u'' then Unsigned 10 False
     else if c = CHR ''o'' then Unsigned 8 False
     else if c = CHR ''c'' then Character
     else Str)"

definition arg_bits :: "string \<Rightarrow> char \<Rightarrow> nat" where
  "arg_bits ms c =
    (if c = CHR ''p'' \<or> CHR ''l'' \<in> set ms \<or> CHR ''L'' \<in> set ms then 64
     else if CHR ''h'' \<in> set ms then 16 else 32)"

text \<open>A signed 16-bit argument is read without its sign.\<close>

definition unsigned_value :: "nat \<Rightarrow> u64 \<Rightarrow> int" where
  "unsigned_value k v = int (unat v) mod 2 ^ k"

definition signed_value :: "nat \<Rightarrow> u64 \<Rightarrow> int" where
  "signed_value k v =
    (if k = 16 then unsigned_value k v else (int (unat v) + 2 ^ (k - 1)) mod 2 ^ k - 2 ^ (k - 1))"

function numeral_text :: "nat \<Rightarrow> bool \<Rightarrow> nat \<Rightarrow> string" where
  "numeral_text b up n =
    (if b < 2 \<or> n < b then [] else numeral_text b up (n div b)) @
    [(if up then ''0123456789ABCDEF'' else ''0123456789abcdef'') ! (n mod b)]"
  by pat_completeness auto
termination by (relation "measure (\<lambda>(b, up, n). n)") (auto simp: div_less_dividend)

declare numeral_text.simps [simp del]

text \<open>The sign goes in front of the digits, blanks in front of the sign, zeros behind it.  In front of zeros
  the code prints the conversion character where the sign should be.\<close>

definition number_field :: "bool \<Rightarrow> bool \<Rightarrow> nat \<Rightarrow> char \<Rightarrow> nat \<Rightarrow> bool \<Rightarrow> int \<Rightarrow> string" where
  "number_field lj lz W c b up x =
    (let sgn = (if x < 0 then [if lz then c else CHR ''-''] else []);
         ds = numeral_text b up (nat \<bar>x\<bar>);
         n = W - (length sgn + length ds)
     in if lj then sgn @ ds @ replicate n (CHR '' '')
        else if lz then sgn @ replicate n (CHR ''0'') @ ds
        else replicate n (CHR '' '') @ sgn @ ds)"

definition text_field :: "bool \<Rightarrow> nat \<Rightarrow> nat \<Rightarrow> string \<Rightarrow> string" where
  "text_field lj W n t = (if lj then t @ replicate (W - n) (CHR '' '') else replicate (W - n) (CHR '' '') @ t)"

definition c_string :: "string option \<Rightarrow> string" where
  "c_string t = (case t of None \<Rightarrow> ''(NULL)'' | Some s \<Rightarrow> takeWhile (\<lambda>x. x \<noteq> CHR 0x00) s)"

text \<open>A zero byte counts as one character of the field and prints none; lengths are 32-bit numbers.\<close>

fun spec_text :: "bool \<Rightarrow> bool \<Rightarrow> nat \<Rightarrow> string \<Rightarrow> char \<Rightarrow> arg \<Rightarrow> string option" where
  "spec_text lj lz W ms c (Num v) =
    (case kind_of c of
       Unsigned b up \<Rightarrow> Some (number_field lj lz W c b up (unsigned_value (arg_bits ms c) v))
     | Signed \<Rightarrow> Some (number_field lj lz W c 10 False (signed_value (arg_bits ms c) v))
     | Character \<Rightarrow> Some (text_field lj W 1 (if unat v mod 256 = 0 then [] else [char_of (unat v mod 256)]))
     | Str \<Rightarrow> None)"
| "spec_text lj lz W ms c (Text t) =
    (case kind_of c of
       Str \<Rightarrow> Some (text_field lj W (length (c_string t) mod 2 ^ 32) (c_string t))
     | _ \<Rightarrow> None)"

fun render :: "item \<Rightarrow> arg list \<Rightarrow> (string \<times> arg list) option" where
  "render (Lit c) args = Some ([c], args)"
| "render Percent args = Some (''%'', args)"
| "render (Spec lj lz w ms c) [] = None"
| "render (Spec lj lz w ms c) (a # args) =
    map_option (\<lambda>out. (out, args)) (spec_text lj lz (unat (width_of w)) ms c a)"

fun render_all :: "item list \<Rightarrow> arg list \<Rightarrow> string option" where
  "render_all [] args = Some []"
| "render_all (it # its) args =
    do {
      (out, args1) \<leftarrow> render it args;
      rest \<leftarrow> render_all its args1;
      Some (out @ rest)
    }"

lemma out_lit: "c \<noteq> CHR ''%'' \<Longrightarrow>
    printf_out (c # cs) (start args) = map_option (append [c]) (printf_out cs (start args))"
  by (simp add: body_def start_def cur_def)

lemma map_append_Nil [simp]: "map_option ((@) []) x = x"
  by (cases x) simp_all

lemma state_pst [simp]:
  "state4 c (s\<lparr>pst := i\<rparr>) = state4 c s" "state3 c (s\<lparr>pst := i\<rparr>) = state3 c s"
  "state2 c (s\<lparr>pst := i\<rparr>) = state2 c s" "state1 fmt (s\<lparr>pst := i\<rparr>) = state1 fmt s"
proof -
  show 4: "state4 c (s\<lparr>pst := i\<rparr>) = state4 c s" for c and s :: pstate by (simp add: state4_def)
  show 3: "state3 c (s\<lparr>pst := i\<rparr>) = state3 c s" for c and s :: pstate by (simp add: state3_def 4)
  show 2: "state2 c (s\<lparr>pst := i\<rparr>) = state2 c s" for c and s :: pstate by (simp add: state2_def 3)
  have "state2 c (s\<lparr>pst := i, pfl := f\<rparr>) = state2 c (s\<lparr>pfl := f\<rparr>)" for c f
  proof -
    have "s\<lparr>pst := i, pfl := f\<rparr> = (s\<lparr>pfl := f\<rparr>)\<lparr>pst := i\<rparr>" by (cases s) simp
    then show ?thesis by (simp only: 2)
  qed
  with 2 show "state1 fmt (s\<lparr>pst := i\<rparr>) = state1 fmt s" by (simp add: state1_def)
qed

lemma out_percent:
  "printf_out (CHR ''%'' # x # cs) (start args) = printf_out (x # cs) ((start args)\<lparr>pst := 1\<rparr>)"
proof -
  have "pst (start args) = 0" by (simp add: start_def)
  then show ?thesis
    by (cases "state1 (x # cs) (start args)")
      (auto simp: body_def cur_def split: prod.splits)
qed

lemma out_minus:
  assumes "pst s = 1" "\<not> PR_LJ (pfl s)"
  shows "printf_out (CHR ''-'' # cs) s = printf_out cs (s\<lparr>pfl := (pfl s)\<lparr>PR_LJ := True\<rparr>\<rparr>)"
proof -
  have e: "s\<lparr>pst := Suc 0, pfl := f\<rparr> = s\<lparr>pfl := f\<rparr>" for f using assms(1) by (cases s) simp
  show ?thesis using assms by (simp add: body_def state1_def cur_def e)
qed

lemma out_zero:
  assumes "pst s = 1"
  shows "printf_out (CHR ''0'' # x # cs) s =
    printf_out (x # cs) (s\<lparr>pst := 2, pfl := (pfl s)\<lparr>PR_LZ := True\<rparr>\<rparr>)"
proof -
  let ?s = "s\<lparr>pfl := (pfl s)\<lparr>PR_LZ := True\<rparr>\<rparr>"
  have e: "s\<lparr>pst := 2, pfl := (pfl s)\<lparr>PR_LZ := True\<rparr>\<rparr> = ?s\<lparr>pst := 2\<rparr>" by (cases s) simp
  show ?thesis
    unfolding e using assms
    by (cases "state2 x ?s") (auto simp: body_def state1_def cur_def)
qed

lemma out_to2:
  assumes "pst s = 1" "x \<noteq> CHR ''%''" "x \<noteq> CHR ''-''" "x \<noteq> CHR ''0''"
  shows "printf_out (x # cs) s = printf_out (x # cs) (s\<lparr>pst := 2\<rparr>)"
  using assms by (simp add: body_def state1_def cur_def)

lemma out_digit:
  assumes "pst s = 2" "is_digit x"
  shows "printf_out (x # cs) s = printf_out cs (s\<lparr>pwd := 10 * pwd s + of_nat (of_char x - 48)\<rparr>)"
proof -
  have e: "s\<lparr>pst := 2, pwd := w\<rparr> = s\<lparr>pwd := w\<rparr>" for w using assms(1) by (cases s) simp
  show ?thesis using assms by (simp add: body_def state2_def cur_def e)
qed

lemma out_to3:
  assumes "pst s = 2" "\<not> is_digit x"
  shows "printf_out (x # cs) s = printf_out (x # cs) (s\<lparr>pst := 3\<rparr>)"
  using assms by (simp add: body_def state2_def cur_def)

lemma out_conv:
  assumes "pst s = 3" "c \<notin> set ''FNlLh''"
  shows "printf_out (c # cs) s =
    (case conversion c (pfl s) (pwd s) (pargs s) of None \<Rightarrow> None
     | Some (out, args) \<Rightarrow> map_option (append out) (printf_out cs (start args)))"
  using assms
  by (auto simp: body_def state3_def state4_def cur_def split: option.splits)

definition mod_flags :: "string \<Rightarrow> pflags \<Rightarrow> pflags" where
  "mod_flags ms fl = fl\<lparr>PR_64 := (PR_64 fl \<or> CHR ''l'' \<in> set ms \<or> CHR ''L'' \<in> set ms),
     PR_16 := (PR_16 fl \<or> CHR ''h'' \<in> set ms)\<rparr>"

lemma out_mods:
  assumes "pst s = 3" "\<forall>x \<in> set ms. x \<in> set ''FNlLh''"
  shows "printf_out (ms @ cs) s = printf_out cs (s\<lparr>pfl := mod_flags ms (pfl s)\<rparr>)"
  using assms
proof (induction ms arbitrary: s)
  case Nil
  then show ?case by (simp add: mod_flags_def)
next
  case (Cons m ms)
  define f where "f = (if m \<in> {CHR ''l'', CHR ''L''} then (pfl s)\<lparr>PR_64 := True\<rparr>
      else if m = CHR ''h'' then (pfl s)\<lparr>PR_16 := True\<rparr> else pfl s)"
  have id: "s\<lparr>pst := 3, pfl := g\<rparr> = s\<lparr>pfl := g\<rparr>" "s\<lparr>pst := 3\<rparr> = s" "s\<lparr>pfl := pfl s\<rparr> = s" for g
    using Cons.prems(1) by (cases s; simp)+
  have st: "printf_out ((m # ms) @ cs) s = printf_out (ms @ cs) (s\<lparr>pfl := f\<rparr>)"
  proof -
    have "m = CHR ''F'' \<or> m = CHR ''N'' \<or> m = CHR ''l'' \<or> m = CHR ''L'' \<or> m = CHR ''h''"
      using Cons.prems(2) by simp
    then show ?thesis
      by (elim disjE) (simp_all add: Cons.prems(1) body_def state3_def cur_def f_def id)
  qed
  also have "\<dots> = printf_out cs ((s\<lparr>pfl := f\<rparr>)\<lparr>pfl := mod_flags ms f\<rparr>)"
    using Cons.IH [of "s\<lparr>pfl := f\<rparr>"] Cons.prems by simp
  also have "mod_flags ms f = mod_flags (m # ms) (pfl s)"
    using Cons.prems by (cases "pfl s") (auto simp: f_def mod_flags_def)
  finally show ?case by simp
qed

lemma out_digits:
  assumes "pst s = 2" "\<forall>x \<in> set w. is_digit x"
  shows "printf_out (w @ cs) s =
    printf_out cs (s\<lparr>pwd := foldl (\<lambda>a c. 10 * a + of_nat (of_char c - 48)) (pwd s) w\<rparr>)"
  using assms
proof (induction w arbitrary: s)
  case Nil
  then show ?case by simp
next
  case (Cons x w)
  then show ?case using out_digit [of s x "w @ cs"] by simp
qed

text \<open>From state 2 on: width, modifiers, conversion.\<close>

lemma not_digit: "x \<in> set ''FNlLh'' \<or> x \<in> set ''Xxnpdiuocs'' \<Longrightarrow>
    \<not> is_digit x \<and> x \<noteq> CHR ''%'' \<and> x \<noteq> CHR ''-'' \<and> x \<noteq> CHR ''0''"
  by (auto simp: is_digit_def)

lemma out_tail:
  assumes "pst s = 2" "\<forall>x \<in> set w. is_digit x" "\<forall>x \<in> set ms. x \<in> set ''FNlLh''"
    and c: "c \<in> set ''Xxnpdiuocs''" and s: "pwd s = 0"
  shows "printf_out (w @ ms @ c # cs) s =
    (case conversion c (mod_flags ms (pfl s)) (width_of w) (pargs s) of None \<Rightarrow> None
     | Some (out, args) \<Rightarrow> map_option (append out) (printf_out cs (start args)))"
proof -
  let ?s = "s\<lparr>pwd := width_of w\<rparr>"
  have 1: "printf_out (w @ ms @ c # cs) s = printf_out (ms @ c # cs) ?s"
    using out_digits [OF assms(1,2)] s by (simp add: width_of_def)
  obtain x xs where x: "ms @ c # cs = x # xs" "x \<in> set ''FNlLh'' \<or> x \<in> set ''Xxnpdiuocs''"
    using assms(3) c by (cases ms) auto
  have "printf_out (ms @ c # cs) ?s = printf_out (ms @ c # cs) (?s\<lparr>pst := 3\<rparr>)"
    unfolding x(1) by (rule out_to3) (use assms(1) not_digit [OF x(2)] in simp_all)
  also have "\<dots> = printf_out (c # cs) ((?s\<lparr>pst := 3\<rparr>)\<lparr>pfl := mod_flags ms (pfl s)\<rparr>)"
    using out_mods [of "?s\<lparr>pst := 3\<rparr>" ms "c # cs"] assms(3) by simp
  also have "\<dots> = (case conversion c (mod_flags ms (pfl s)) (width_of w) (pargs s) of None \<Rightarrow> None
     | Some (out, args) \<Rightarrow> map_option (append out) (printf_out cs (start args)))"
    by (subst out_conv) (use c in auto)
  finally show ?thesis using 1 by simp
qed

section \<open>What the conversions print\<close>

lemma sint_u32_range: "- 2147483648 \<le> sint (w :: u32)" "sint (w :: u32) < 2147483648"
proof -
  show "- 2147483648 \<le> sint w" using sint_greater_eq [of w] by simp
  show "sint w < 2147483648" using sint_lt [of w] by simp
qed

lemma scast_facts:
  fixes w :: u32
  shows "sint (scast w :: u64) = sint w"
    "0 \<le> sint w \<Longrightarrow> unat (scast w :: u64) = nat (sint w)"
    "sint w < 0 \<Longrightarrow> unat (- scast w :: u64) = nat (- sint w)"
proof -
  have e: "scast w = (word_of_int (sint w) :: u64)" by (rule scast_eq)
  note r = sint_u32_range [of w]
  show "sint (scast w :: u64) = sint w"
    unfolding e int_word_sint using r by simp
  show "unat (scast w :: u64) = nat (sint w)" if "0 \<le> sint w"
    unfolding e unat_eq_nat_uint uint_word_of_int_eq using that r by (simp add: take_bit_eq_mod)
  show "unat (- scast w :: u64) = nat (- sint w)" if "sint w < 0"
  proof -
    have "- scast w = (word_of_int (- sint w) :: u64)" unfolding e by (rule wi_hom_neg)
    then have "unat (- scast w :: u64) = nat (take_bit 64 (- sint w))"
      by (simp only: unat_eq_nat_uint uint_word_of_int_eq) simp
    then show ?thesis using that r by (simp add: take_bit_eq_mod)
  qed
qed

lemma digits_numeral: "digits r ca n = numeral_text (radix_val r) ca n"
proof (induction r ca n rule: digits.induct)
  case (1 r ca n)
  have T: "\<forall>d \<in> set [0..<16]. digit_char True d = ''0123456789ABCDEF'' ! d" by code_simp
  have F: "\<forall>d \<in> set [0..<16]. digit_char False d = ''0123456789abcdef'' ! d" by code_simp
  have all: "digit_char up d = (if up then ''0123456789ABCDEF'' else ''0123456789abcdef'') ! d" if "d < 16" for up d
    using T F that by (cases up) (simp_all del: upt_Suc)
  have "n mod radix_val r < 16"
    using radix_val_bounds(1,2) [of r] by (meson mod_less_divisor order_less_le_trans zero_less_numeral)
  note d = all [OF this, of ca]
  have "\<not> radix_val r < 2" using radix_val_bounds(1) [of r] by simp
  then show ?case using "1.IH" by (subst digits.simps, subst numeral_text.simps) (simp add: d)
qed

lemma digits_short: "n < 2 ^ 64 \<Longrightarrow> length (digits r ca n) \<le> 22"
proof -
  assume "n < 2 ^ 64"
  also have "(2 :: nat) ^ 64 \<le> 8 ^ 22" by simp
  also have "(8 :: nat) ^ 22 \<le> radix_val r ^ 22"
    by (rule power_mono) (simp_all add: radix_val_bounds)
  finally show ?thesis using digits_length [of n r 21 ca] by (simp del: power_Suc)
qed

text \<open>Padding, with lengths that fit the width's 32 bits.\<close>

lemma emit2_eq:
  assumes "n < 4294967296"
  shows "emit2 fl wd (of_nat n) t =
    (if PR_LJ fl then [] else replicate (unat wd - n) (if PR_LZ fl then CHR ''0'' else CHR '' ''))
    @ (if PR_WS fl \<and> \<not> PR_LZ fl then ''-'' else [])
    @ t @ (if PR_LJ fl then replicate (unat wd - n) (CHR '' '') else [])"
proof -
  have n: "unat (of_nat n :: u32) = n" using assms by (rule u32_small)
  have lt: "wd < of_nat n \<longleftrightarrow> unat wd < n" by (simp add: word_less_nat_alt n)
  have sub: "unat (wd - of_nat n) = unat wd - n" if "n \<le> unat wd"
    using that n by (simp add: unat_sub word_le_nat_alt)
  have d: "unat (of_nat (unat wd - n) :: u32) = unat wd - n"
    by (rule u32_small) (use unat_u32_lt [of wd] in simp)
  have "wd - of_nat (unat wd - n) = of_nat n" if "n \<le> unat wd"
    using that by (simp add: of_nat_diff)
  then show ?thesis
    using n lt sub by (cases "n \<le> unat wd") (auto simp: emit2_def Let_def)
qed

text \<open>The absolute value of a 64-bit number.\<close>

lemma abs_word:
  fixes w :: u64
  shows "0 \<le> sint w \<Longrightarrow> unat w = nat \<bar>sint w\<bar>" and "sint w < 0 \<Longrightarrow> unat (- w) = nat \<bar>sint w\<bar>"
proof -
  have r: "- (2 ^ 63) \<le> sint w" "sint w < 2 ^ 63" using sint_greater_eq [of w] sint_lt [of w] by simp_all
  have e: "w = word_of_int (sint w)" by simp
  have u: "unat (word_of_int i :: u64) = nat (i mod 2 ^ 64)" for i
    by (simp add: unat_eq_nat_uint uint_word_of_int_eq take_bit_eq_mod)
  show "unat w = nat \<bar>sint w\<bar>" if "0 \<le> sint w" using r that by (subst e, subst u) simp
  have "- w = word_of_int (- sint w)" by simp
  then show "unat (- w) = nat \<bar>sint w\<bar>" if "sint w < 0" using r that u [of "- sint w"] by simp
qed

lemma number_emitted:
  assumes "PR_SG fl \<Longrightarrow> x = sint num" "\<not> PR_SG fl \<Longrightarrow> x = int (unat num)"
    and "\<not> PR_WS fl" "take_sign fl num = (fl1, num1)"
  shows "emit_conv c fl1 wd (to_ascii r (PR_CA fl1) num1 []) =
    number_field (PR_LJ fl) (PR_LZ fl) (unat wd) c (radix_val r) (PR_CA fl) x"
proof -
  have x: "x < 0 \<longleftrightarrow> PR_SG fl \<and> sint num < 0" using assms(1,2) by (cases "PR_SG fl") simp_all
  have n: "unat num1 = nat \<bar>x\<bar>"
  proof (cases "PR_SG fl")
    case True
    then show ?thesis using assms(1,4) abs_word [of num] by (auto simp: take_sign_def split: if_splits)
  next
    case False
    then show ?thesis using assms(2,4) by (simp add: take_sign_def)
  qed
  have f: "PR_LJ fl1 = PR_LJ fl" "PR_LZ fl1 = PR_LZ fl" "PR_CA fl1 = PR_CA fl" "PR_WS fl1 = (x < 0)"
    using assms(3,4) x by (auto simp: take_sign_def split: if_splits)
  let ?ds = "numeral_text (radix_val r) (PR_CA fl) (nat \<bar>x\<bar>)"
  have ta: "to_ascii r (PR_CA fl) num1 [] = ?ds" by (simp add: to_ascii_digits digits_numeral n)
  have "nat \<bar>x\<bar> < 2 ^ 64" using unat_u64_lt [of num1] n by simp
  from digits_short [OF this, of r "PR_CA fl"] have "length ?ds \<le> 22" by (simp only: digits_numeral)
  moreover have "(if x < 0 then 1 else 0) \<le> (1 :: nat)" by simp
  ultimately have l: "length ?ds + (if x < 0 then 1 else 0) < 4294967296" by linarith
  have w: "of_nat (length ?ds) + (if x < 0 then 1 else 0) = (of_nat (length ?ds + (if x < 0 then 1 else 0)) :: u32)" by simp
  show ?thesis
    unfolding emit_conv_def Let_def f ta w emit2_eq [OF l] by (auto simp: number_field_def Let_def)
qed

lemma half_loaded: "unat (ucast (ucast (v :: u64) AND (0xFFFF :: u32)) :: u64) = unat v mod 2 ^ 16"
proof -
  have "(0xFFFF :: u32) = mask 16" by (simp add: mask_eq_exp_minus_1)
  then have "ucast v AND (0xFFFF :: u32) = take_bit 16 (ucast v)" by (simp only: take_bit_eq_mask)
  then have "unat (ucast (ucast v AND (0xFFFF :: u32)) :: u64) = take_bit 64 (take_bit 16 (take_bit 32 (unat v)))"
    by (simp only: unsigned_take_bit_eq unsigned_ucast_eq) simp
  then show ?thesis by (simp add: take_bit_eq_mod mod_mod_cancel)
qed

lemma word_loaded: "unat (ucast (ucast (v :: u64) :: u32) :: u64) = unat v mod 2 ^ 32"
proof -
  have "unat (ucast (ucast v :: u32) :: u64) = take_bit 64 (take_bit 32 (unat v))"
    by (simp only: unsigned_ucast_eq) (simp add: unsigned_take_bit_eq)
  then show ?thesis by (simp add: take_bit_eq_mod)
qed

lemma unsigned_loaded:
  assumes "\<not> PR_SG fl"
  shows "int (unat (load_num fl v)) = unsigned_value (if PR_64 fl then 64 else if PR_16 fl then 16 else 32) v"
proof -
  note half_loaded [of v]
  moreover note word_loaded [of v]
  moreover have "unat v mod 2 ^ 64 = unat v" using unat_u64_lt [of v] by simp
  ultimately have "unat (load_num fl v) = unat v mod 2 ^ (if PR_64 fl then 64 else if PR_16 fl then 16 else 32)"
    using assms by (simp only: load_num_def if_True if_False split: if_split) simp
  then show ?thesis by (simp only: unsigned_value_def zmod_int of_nat_power of_nat_numeral)
qed

lemma signed_loaded:
  assumes "PR_SG fl"
  shows "sint (load_num fl v) = signed_value (if PR_64 fl then 64 else if PR_16 fl then 16 else 32) v"
proof -
  let ?h = "ucast (ucast v AND (0xFFFF :: u32)) :: u64"
  note h = half_loaded [of v]
  have s: "sint w = (int (unat w) + 2 ^ 63) mod 2 ^ 64 - 2 ^ 63" for w :: u64
    using int_word_sint [of "int (unat w)", where ?'a = 64] by simp
  define k where "k = unat ?h"
  have "k < 65536" unfolding k_def h by simp
  then have "sint ?h = int k" unfolding s k_def [symmetric] by simp
  then have "sint ?h = int (unat ?h)" by (simp only: k_def)
  then have "sint ?h = unsigned_value 16 v" by (simp add: h unsigned_value_def zmod_int)
  moreover have "sint (scast (ucast v :: u32) :: u64) = (int (unat v) + 2 ^ 31) mod 2 ^ 32 - 2 ^ 31"
  proof -
    define j where "j = int (unat v)"
    have e: "(ucast v :: u32) = word_of_int j" unfolding j_def by simp
    have "sint (word_of_int j :: u32) = (j + 2 ^ 31) mod 2 ^ 32 - 2 ^ 31"
      using int_word_sint [of j, where ?'a = 32] by simp
    then show ?thesis unfolding scast_facts(1) e unfolding j_def .
  qed
  ultimately show ?thesis using assms s [of v] by (simp add: load_num_def signed_value_def)
qed

lemma conv_num_spec:
  assumes "\<not> PR_WS fl"
  shows "conv_num c r fl wd (Num v # rest) = Some (number_field (PR_LJ fl) (PR_LZ fl) (unat wd) c (radix_val r) (PR_CA fl)
    ((if PR_SG fl then signed_value else unsigned_value) (if PR_64 fl then 64 else if PR_16 fl then 16 else 32) v), rest)"
proof -
  let ?x = "(if PR_SG fl then signed_value else unsigned_value) (if PR_64 fl then 64 else if PR_16 fl then 16 else 32) v"
  obtain fl1 num1 where t: "take_sign fl (load_num fl v) = (fl1, num1)" by (cases "take_sign fl (load_num fl v)")
  have x1: "PR_SG fl \<Longrightarrow> ?x = sint (load_num fl v)" using signed_loaded [of fl v] by (simp only: if_True)
  have x2: "\<not> PR_SG fl \<Longrightarrow> ?x = int (unat (load_num fl v))" using unsigned_loaded [of fl v] by (simp only: if_False simp_thms)
  have "emit_conv c fl1 wd (to_ascii r (PR_CA fl1) num1 []) =
      number_field (PR_LJ fl) (PR_LZ fl) (unat wd) c (radix_val r) (PR_CA fl) ?x"
    by (rule number_emitted [OF _ _ assms t]) (erule x1, erule x2)
  then show ?thesis by (simp only: conv_num_def list.case arg.case t Let_def prod.case)
qed

lemma char_emitted:
  "emit2 (fl\<lparr>PR_LZ := False\<rparr>) wd 1 t = text_field (PR_LJ fl) (unat wd) 1 t" if "\<not> PR_WS fl"
  using emit2_eq [of 1 "fl\<lparr>PR_LZ := False\<rparr>" wd t] that by (simp add: text_field_def)

lemma string_emitted:
  "emit_conv c (fl\<lparr>PR_LZ := False\<rparr>) wd t = text_field (PR_LJ fl) (unat wd) (length t mod 2 ^ 32) t" if "\<not> PR_WS fl"
proof -
  have "(of_nat (length t) :: u32) = of_nat (length t mod 2 ^ 32)" by (simp add: word_unat_eq_iff unat_of_nat)
  then show ?thesis
    using emit2_eq [of "length t mod 2 ^ 32" "fl\<lparr>PR_LZ := False\<rparr>" wd t] that
    by (simp add: emit_conv_def text_field_def)
qed

lemma char_byte: "char_of (unat (ucast (v :: u64) :: u8)) = (char_of (unat v) :: char)"
  "(char_of (unat (v :: u64)) = CHR 0x00) = (256 dvd unat v)"
proof -
  have "unat (ucast v :: u8) = unat v mod 256" by (simp add: unsigned_ucast_eq take_bit_eq_mod)
  then show "char_of (unat (ucast v :: u8)) = (char_of (unat v) :: char)" by simp
  have "(char_of (unat v) = CHR 0x00) = (of_char (char_of (unat v) :: char) = (of_char (CHR 0x00) :: nat))"
    by (rule of_char_eq_iff [symmetric])
  then show "(char_of (unat v) = CHR 0x00) = (256 dvd unat v)" by (simp add: mod_eq_0_iff_dvd)
qed

lemma conversion_spec:
  assumes c: "c \<in> set ''Xxnpdiuocs''"
  shows "conversion c (item_flags lj lz ms) wd args =
    (case args of [] \<Rightarrow> None | a # rest \<Rightarrow> map_option (\<lambda>out. (out, rest)) (spec_text lj lz (unat wd) ms c a))"
proof -
  let ?fl = "item_flags lj lz ms"
  have f: "\<not> PR_WS ?fl" "PR_LJ ?fl = lj" "PR_LZ ?fl = lz" "\<not> PR_CA ?fl" "\<not> PR_SG ?fl"
    "PR_64 ?fl = (CHR ''l'' \<in> set ms \<or> CHR ''L'' \<in> set ms)" "PR_16 ?fl = (CHR ''h'' \<in> set ms)"
    by (simp_all add: item_flags_def no_flags_def)
  have none: "conv_num c r fl wd [] = None" "conv_num c r fl wd (Text t # rest) = None" for c r fl t rest
    by (simp_all add: conv_num_def)
  note simps = conversion_def arg_bits_def conv_num_spec none f char_emitted string_emitted char_byte c_string_def
  have l: "c = CHR ''X'' \<or> c = CHR ''x'' \<or> c = CHR ''n'' \<or> c = CHR ''p'' \<or> c = CHR ''d'' \<or> c = CHR ''i'' \<or>
      c = CHR ''u'' \<or> c = CHR ''o'' \<or> c = CHR ''c'' \<or> c = CHR ''s''"
    using c by auto
  have "args = [] \<or> (\<exists>v rest. args = Num v # rest) \<or> (\<exists>t rest. args = Text t # rest)"
    by (metis arg.exhaust list.exhaust)
  then consider (no_arg) "args = []" | (num_arg) v rest where "args = Num v # rest" | (text_arg) t rest where "args = Text t # rest" by blast
  then show ?thesis
  proof cases
    case no_arg
    show ?thesis unfolding no_arg using l by (elim disjE; hypsubst; simp add: simps)
  next
    case num_arg
    show ?thesis unfolding num_arg using l by (elim disjE; hypsubst; simp add: simps Let_def dvd_eq_mod_eq_0)
  next
    case text_arg
    show ?thesis unfolding text_arg using l by (elim disjE; hypsubst; simp add: simps Let_def dvd_eq_mod_eq_0)
  qed
qed

lemma out_item:
  assumes "good_item it"
  shows "printf_out (unparse it @ cs) (start args) =
    (case render it args of None \<Rightarrow> None
     | Some (out, args1) \<Rightarrow> map_option (append out) (printf_out cs (start args1)))"
proof (cases it)
  case (Lit c)
  then show ?thesis using assms out_lit [of c cs args] by simp
next
  case Percent
  then show ?thesis
    by (simp add: out_percent) (simp add: body_def state1_def cur_def start_def)
next
  case (Spec lj lz w ms c)
  have g: "\<forall>x \<in> set w. is_digit x" "\<forall>x \<in> set ms. x \<in> set ''FNlLh''" "c \<in> set ''Xxnpdiuocs''"
    "lz \<or> w = [] \<or> hd w \<noteq> CHR ''0''"
    using assms Spec by auto
  let ?tl = "w @ ms @ c # cs"
  let ?s0 = "(start args)\<lparr>pst := 1\<rparr>"
  let ?s1 = "if lj then ?s0\<lparr>pfl := no_flags\<lparr>PR_LJ := True\<rparr>\<rparr> else ?s0"
  let ?z = "(if lz then ''0'' else []) @ ?tl"
  obtain y ys where y: "?tl = y # ys" by (cases ?tl) auto
  obtain z zs where z: "?z = z # zs" using y by (cases ?z) auto
  have "printf_out (unparse it @ cs) (start args) = printf_out ((if lj then ''-'' else []) @ ?z) ?s0"
    unfolding Spec using z out_percent by (cases lj) (auto simp: y)
  also have "\<dots> = printf_out ?z ?s1"
    using out_minus [of ?s0 ?z] by (auto simp: start_def no_flags_def)
  also have "\<dots> = printf_out ?tl (?s1\<lparr>pst := 2, pfl := item_flags lj lz []\<rparr>)"
  proof (cases lz)
    case True
    then show ?thesis
      using out_zero [of ?s1 y ys] y by (auto simp: start_def item_flags_def no_flags_def)
  next
    case False
    have "y \<noteq> CHR ''%'' \<and> y \<noteq> CHR ''-'' \<and> y \<noteq> CHR ''0''"
    proof (cases w)
      case Nil
      then have "y \<in> set ''FNlLh'' \<or> y \<in> set ''Xxnpdiuocs''" using y g(2,3) by (cases ms) auto
      then show ?thesis using not_digit by blast
    next
      case (Cons d w')
      then have "is_digit y" "y \<noteq> CHR ''0''" using y g(1,4) False by auto
      then show ?thesis by (auto simp: is_digit_def)
    qed
    then have "printf_out ?tl ?s1 = printf_out ?tl (?s1\<lparr>pst := 2\<rparr>)"
      unfolding y by (intro out_to2) (auto simp: start_def)
    moreover have "?s1\<lparr>pst := 2\<rparr> = ?s1\<lparr>pst := 2, pfl := item_flags lj lz []\<rparr>"
      using False by (auto simp: start_def item_flags_def no_flags_def)
    ultimately show ?thesis using False by simp
  qed
  also have "\<dots> = (case conversion c (mod_flags ms (item_flags lj lz [])) (width_of w) args of
      None \<Rightarrow> None | Some (out, args) \<Rightarrow> map_option (append out) (printf_out cs (start args)))"
    by (subst out_tail) (use g in \<open>auto simp: start_def\<close>)
  also have "mod_flags ms (item_flags lj lz []) = item_flags lj lz ms"
    by (simp add: mod_flags_def item_flags_def no_flags_def)
  finally show ?thesis unfolding Spec conversion_spec [OF g(3)] by (simp split: list.splits)
qed

lemma printf_out_items:
  assumes "\<forall>it \<in> set its. good_item it"
  shows "printf_out (concat (map unparse its)) (start args) = render_all its args"
  using assms
proof (induction its arbitrary: args)
  case Nil
  then show ?case by simp
next
  case (Cons it its)
  then show ?case
    by (auto simp: out_item map_option_case split: option.splits)
qed

section \<open>Bounded output\<close>

lemma sprintf_fold:
  defines "step \<equiv> \<lambda>c d. snd (sprintf_helper c d)"
  shows "sp_off (fold step out d) = sp_off d + length out"
    "sp_size (fold step out d) = sp_size d" "sp_str (fold step out d) = sp_str d"
    "sp_mem (fold step out d) a =
      (if sp_str d + sp_off d \<le> a \<and> a < sp_str d + min (sp_size d) (sp_off d + length out)
       then of_nat (of_char (out ! (a - sp_str d - sp_off d))) else sp_mem d a)"
proof -
  have s: "sp_off (step c d) = sp_off d + 1" "sp_size (step c d) = sp_size d"
    "sp_str (step c d) = sp_str d"
    "sp_mem (step c d) = (if sp_off d < sp_size d
      then (sp_mem d)(sp_str d + sp_off d := of_nat (of_char c)) else sp_mem d)" for c d
    by (simp_all add: step_def sprintf_helper_def)
  show "sp_off (fold step out d) = sp_off d + length out"
    "sp_size (fold step out d) = sp_size d" "sp_str (fold step out d) = sp_str d"
    by (induction out arbitrary: d) (simp_all add: s)
  show "sp_mem (fold step out d) a =
      (if sp_str d + sp_off d \<le> a \<and> a < sp_str d + min (sp_size d) (sp_off d + length out)
       then of_nat (of_char (out ! (a - sp_str d - sp_off d))) else sp_mem d a)"
  proof (induction out arbitrary: d)
    case Nil
    then show ?case by auto
  next
    case (Cons c out)
    show ?case
    proof (cases "a = sp_str d + sp_off d")
      case True
      then show ?thesis using Cons.IH [of "step c d"] by (auto simp: s)
    next
      case False
      then have "sp_str d + sp_off d < a \<Longrightarrow>
          a - sp_str d - sp_off d = Suc (a - sp_str d - (sp_off d + 1))" by simp
      then show ?thesis using False Cons.IH [of "step c d"] by (auto simp: s)
    qed
  qed
qed

lemma vsnprintf_one:
  assumes "printf_out fmt (start args) = Some out"
  shows "vsnprintf str 1 fmt args m = Some (length out, m(str - 1 := 0))"
proof -
  let ?init = "\<lparr>sp_str = str, sp_size = 0, sp_off = 0, sp_mem = m\<rparr>"
  let ?d = "fold (\<lambda>c d. snd (sprintf_helper c d)) out ?init"
  have "do_printf fmt args sprintf_helper ?init = Some (of_nat (length out), ?d)"
    using printf_loop_out [of sprintf_helper fmt "start args" 0 ?init] assms
    by (simp add: do_printf_def sprintf_helper_def)
  moreover have "sp_mem ?d a = m a" for a using sprintf_fold(4) [of out ?init a] by auto
  then have "sp_mem ?d = m" by (rule ext)
  moreover have "sp_off ?d = length out" "sp_size ?d = 0" using sprintf_fold [of out ?init] by simp_all
  ultimately show ?thesis by (simp add: vsnprintf_def)
qed

lemma vsnprintf_out:
  assumes "printf_out fmt (start args) = Some out" "2 \<le> sz"
  defines "n \<equiv> if length out < sz - 1 then length out else sz - 2"
  obtains m' where "vsnprintf str sz fmt args m = Some (length out, m')"
    "\<And>i. i < n \<Longrightarrow> m' (str + i) = of_nat (of_char (out ! i))" "m' (str + n) = 0"
    "\<And>a. a < str \<or> str + sz - 1 \<le> a \<Longrightarrow> m' a = m a"
proof -
  let ?init = "\<lparr>sp_str = str, sp_size = sz - 1, sp_off = 0, sp_mem = m\<rparr>"
  let ?d = "fold (\<lambda>c d. snd (sprintf_helper c d)) out ?init"
  have fn: "\<And>c d. \<not> fst (sprintf_helper c d)" by (simp add: sprintf_helper_def)
  have dp: "do_printf fmt args sprintf_helper ?init = Some (of_nat (length out), ?d)"
    using printf_loop_out [of sprintf_helper fmt "start args" 0 ?init] fn assms(1)
    by (simp add: do_printf_def)
  have d: "sp_off ?d = length out" "sp_size ?d = sz - 1"
    "\<And>a. sp_mem ?d a = (if str \<le> a \<and> a < str + min (sz - 1) (length out)
       then of_nat (of_char (out ! (a - str))) else m a)"
    using sprintf_fold [of out ?init] by simp_all
  let ?m' = "(sp_mem ?d)(str + n := 0)"
  have "str + (sz - 1) - 1 = str + (sz - 2)" using assms(2) by simp
  then have v: "vsnprintf str sz fmt args m = Some (length out, ?m')"
    using dp d(1,2) assms(2) by (simp add: vsnprintf_def n_def)
  show ?thesis
  proof (rule that [OF v])
    show "?m' (str + i) = of_nat (of_char (out ! i))" if "i < n" for i
      using that d(3) by (auto simp: n_def split: if_splits)
    show "?m' a = m a" if "a < str \<or> str + sz - 1 \<le> a" for a
      using that d(3) assms(2) by (auto simp: n_def split: if_splits)
  qed simp
qed

section \<open>Properties\<close>

text \<open>C14: for every format built from plain characters, percent signs and well-formed
  conversions, and every output function that does not fail, \<open>do_printf\<close> emits the
  rendering of the items one after the other, consuming the arguments in order, and returns the
  number of characters emitted.  A conversion is rendered as the numeral of the argument's value in the
  conversion's base, or as the character or string, put into a field of the width given.\<close>

theorem do_printf_items:
  assumes "\<forall>it \<in> set its. good_item it" "\<forall>c p. \<not> fst (fn c p)"
  shows "do_printf (concat (map unparse its)) args fn p =
    map_option (\<lambda>out. (of_nat (length out), fold (\<lambda>c p. snd (fn c p)) out p))
      (render_all its args)"
  using printf_loop_out [of fn "concat (map unparse its)" "start args" 0 p]
    printf_out_items [OF assms(1), of args] assms(2) by (simp add: do_printf_def)

theorem do_printf_items_witness:
  "do_printf ''a%%%5db'' [Num 42] (\<lambda>c p. (False, p @ [c])) [] = Some (8, ''a%   42b'')"
proof -
  let ?its = "[Lit CHR ''a'', Percent, Spec False False ''5'' [] CHR ''d'', Lit CHR ''b'']"
  have g: "\<forall>it \<in> set ?its. good_item it" by (simp add: is_digit_def)
  have u: "concat (map unparse ?its) = ''a%%%5db''" by simp
  have "render_all ?its [Num 42] = Some ''a%   42b''" by code_simp
  then show ?thesis
    using do_printf_items [OF g, of "\<lambda>c p. (False, p @ [c])" "[Num 42]" "[]"] unfolding u by simp
qed

text \<open>the digits \<open>to_ascii\<close> produces denote the number, in each radix the code
  uses; there is no leading zero, and even in octal they leave room in the buffer.\<close>

theorem to_ascii_correct:
  "value_of (radix_val r) (to_ascii r ca num []) = unat num \<and>
   length (to_ascii r ca num []) < PR_BUFLEN \<and>
   (num \<noteq> 0 \<longrightarrow> digit_val (hd (to_ascii r ca num [])) \<noteq> 0)"
  using value_of_digits [of r ca "unat num"] digits_short [of "unat num" r ca]
    digits_no_leading_zero [of "unat num" r ca] unat_u64_lt [of num]
  by (simp add: to_ascii_digits PR_BUFLEN_def unat_gt_0)

theorem to_ascii_correct_witness: "digit_val (hd (to_ascii R16 True 0xBEEF [])) \<noteq> 0"
  using to_ascii_correct [of R16 True "0xBEEF"] by simp

text \<open>C37: \<open>snprintf\<close> into a buffer of at least two bytes writes nothing outside it and
  leaves a terminated string: all of the output when it has fewer than \<open>size - 1\<close>
  characters, otherwise its first \<open>size - 2\<close>; the result is the untruncated length.  With size 0 it
  writes nothing and returns 0.  With size 1 it does not stay inside: it writes a zero into the byte
  in front of the buffer, and only there.\<close>

theorem snprintf_bounded:
  assumes "printf_out fmt (start args) = Some out"
  shows "\<exists>m'. snprintf str sz fmt args m = Some (if sz = 0 then 0 else length out, m') \<and>
    (sz = 0 \<longrightarrow> m' = m) \<and> (sz = 1 \<longrightarrow> m' = m(str - 1 := 0)) \<and>
    (2 \<le> sz \<longrightarrow>
      (let n = if length out < sz - 1 then length out else sz - 2
       in (\<forall>i < n. m' (str + i) = of_nat (of_char (out ! i))) \<and> m' (str + n) = 0) \<and>
      (\<forall>a. a < str \<or> str + sz - 1 \<le> a \<longrightarrow> m' a = m a))"
proof -
  consider "sz = 0" | "sz = 1" | "2 \<le> sz" by linarith
  then show ?thesis
  proof cases
    case 1
    then show ?thesis by (simp add: snprintf_def vsnprintf_def)
  next
    case 2
    then show ?thesis using vsnprintf_one [OF assms, of str m] by (simp add: snprintf_def)
  next
    case 3
    show ?thesis
      unfolding snprintf_def Let_def by (rule vsnprintf_out [OF assms 3, of str m]) (use 3 in auto)
  qed
qed

theorem snprintf_bounded_witness:
  "\<exists>m'. snprintf 100 3 ''abc'' [] (\<lambda>_. 1) = Some (3, m') \<and> m' 100 = 97 \<and> m' 101 = 0 \<and>
    (\<exists>m''. snprintf 100 1 ''abc'' [] (\<lambda>_. 1) = Some (3, m'') \<and> m'' 99 = 0)"
proof -
  have out: "printf_out ''abc'' (start []) = Some ''abc''"
    by (simp add: body_def start_def cur_def)
  from snprintf_bounded [OF out, of 100 3 "\<lambda>_. 1"]
  obtain m' where m: "snprintf 100 3 ''abc'' [] (\<lambda>_. 1) = Some (3, m')"
    "\<forall>i < 1. m' (100 + i) = of_nat (of_char (''abc'' ! i))" "m' 101 = 0"
    by (auto simp: Let_def)
  from m(2) have "m' 100 = 97" by simp
  moreover have "\<exists>m''. snprintf 100 1 ''abc'' [] (\<lambda>_. 1) = Some (3, m'') \<and> m'' 99 = 0"
    using snprintf_bounded [OF out, of 100 1 "\<lambda>_. 1"] by auto
  ultimately show ?thesis using m by blast
qed

end
