(* ===== verification/Fs.thy ===== *)
theory Fs
  imports Err CString
begin

text \<open>
  The objects of the file-system layer, \<open>src/src/include/fs.h\<close>, and the helpers every
  file system shares: reference counts, path components and directory records
  (\<open>src/src/fs/vfs.c\<close>).

  Objects live on the kernel heap: an object's address comes from \<open>kmalloc\<close> and a typed
  map holds its fields until \<open>kfree\<close>.  Following a pointer to an object that is not there
  (a null, freed or uninitialised pointer) gives \<open>None\<close>.  File contents and directory
  records are bytes in \<open>mem\<close>.  Functions that return a pointer or an error pointer return a
  sum; functions that return \<open>int\<close> return an integer, negative for an error.  A list of
  nodes linked through a member is the list of the nodes' addresses (the pointers are the
  subject of theory \<open>DList\<close>).
\<close>

section \<open>Constants\<close>

definition O_RDONLY :: u32 where [const_defs]: "O_RDONLY = 1"
definition O_WRONLY :: u32 where [const_defs]: "O_WRONLY = 2"
definition O_RDWR :: u32 where [const_defs]: "O_RDWR = 3"
definition O_APPEND :: u32 where [const_defs]: "O_APPEND = 4"
definition O_CREAT :: u32 where [const_defs]: "O_CREAT = 8"
definition O_EXCL :: u32 where [const_defs]: "O_EXCL = 16"
definition O_TRUNC :: u32 where [const_defs]: "O_TRUNC = 32"
definition PATH_MAX :: nat where [const_defs]: "PATH_MAX = 255"
definition SEEK_SET :: int where [const_defs]: "SEEK_SET = 0"
definition SEEK_CUR :: int where [const_defs]: "SEEK_CUR = 1"
definition SEEK_END :: int where [const_defs]: "SEEK_END = 2"
definition DIR_FILE :: u32 where [const_defs]: "DIR_FILE = 1"
definition DIR_DIR :: u32 where [const_defs]: "DIR_DIR = 2"

definition DIR_TYPE :: "u32 \<Rightarrow> u32" where "DIR_TYPE x = x AND 7"

datatype comp = COMP_NO_MORE | COMP_NORM | COMP_LAST | COMP_LAST_SLASH

section \<open>Objects\<close>

datatype fs_kind = Ramfs | Devfs

text \<open>\<open>rootfs\<close> is a static variable, every other superblock is allocated.\<close>

datatype sb_ref = Root_sb | Heap_sb nat

record superblock =
  sb_fs :: fs_kind
  root_dentry :: nat

record dentry =
  d_name :: string
  d_parent :: nat
  d_refcnt :: int
  d_sb :: sb_ref
  d_mnt :: "sb_ref option"
  d_priv :: nat
  d_mode :: u32
  d_size :: u32

record file_t =
  f_dentry :: nat
  f_openmode :: u32
  f_offset :: u32
  f_refcnt :: int

text \<open>The private data of a node, \<open>dpriv_t\<close> of \<open>ramfs.c\<close> and of \<open>devfs.c\<close>: the two
  structures begin with the same members (\<open>header\<close>, the link in the parent's list, is the
  node's place in \<open>p_children\<close> of its parent).  A device's operations are a pointer to the
  driver's table.\<close>

datatype priv_rest =
    Ramfs_data (alloc_size: u32) (data_ptr: nat)
  | Devfs_ops (ops_ptr: nat)

record dpriv =
  p_dentry :: nat
  p_children :: "nat list"
  p_rest :: priv_rest

text \<open>\<open>sizeof\<close> of the structures.\<close>

definition sizeof_dentry :: u32 where "sizeof_dentry = 304"
definition sizeof_superblock :: u32 where "sizeof_superblock = 24"
definition sizeof_file :: u32 where "sizeof_file = 32"
definition sizeof_ramfs_priv :: u32 where "sizeof_ramfs_priv = 56"
definition sizeof_devfs_priv :: u32 where "sizeof_devfs_priv = 48"
definition sizeof_user_dentry :: nat where "sizeof_user_dentry = 12"

record fstate = kmem +
  dents :: "nat \<Rightarrow> dentry option"
  sbs :: "nat \<Rightarrow> superblock option"
  files :: "nat \<Rightarrow> file_t option"
  privs :: "nat \<Rightarrow> dpriv option"
  names :: "nat \<Rightarrow> string option"
  fs_list :: "fs_kind list"
  rootfs :: "superblock option"
  devfs_root :: nat

definition get_sb :: "sb_ref \<Rightarrow> 'z fstate_scheme \<Rightarrow> superblock option" where
  "get_sb r s = (case r of Root_sb \<Rightarrow> rootfs s | Heap_sb a \<Rightarrow> sbs s a)"

definition set_dent :: "nat \<Rightarrow> (dentry \<Rightarrow> dentry) \<Rightarrow> 'z fstate_scheme \<Rightarrow> 'z fstate_scheme option" where
  "set_dent d f s = map_option (\<lambda>x. s\<lparr>dents := (dents s)(d \<mapsto> f x)\<rparr>) (dents s d)"

definition set_file :: "nat \<Rightarrow> (file_t \<Rightarrow> file_t) \<Rightarrow> 'z fstate_scheme \<Rightarrow> 'z fstate_scheme option" where
  "set_file a f s = map_option (\<lambda>x. s\<lparr>files := (files s)(a \<mapsto> f x)\<rparr>) (files s a)"

definition set_priv :: "nat \<Rightarrow> (dpriv \<Rightarrow> dpriv) \<Rightarrow> 'z fstate_scheme \<Rightarrow> 'z fstate_scheme option" where
  "set_priv a f s = map_option (\<lambda>x. s\<lparr>privs := (privs s)(a \<mapsto> f x)\<rparr>) (privs s a)"

definition set_sb ::
  "sb_ref \<Rightarrow> (superblock \<Rightarrow> superblock) \<Rightarrow> 'z fstate_scheme \<Rightarrow> 'z fstate_scheme option" where
  "set_sb r f s =
    (case r of
       Root_sb \<Rightarrow> map_option (\<lambda>x. s\<lparr>rootfs := Some (f x)\<rparr>) (rootfs s)
     | Heap_sb a \<Rightarrow> map_option (\<lambda>x. s\<lparr>sbs := (sbs s)(a \<mapsto> f x)\<rparr>) (sbs s a))"

text \<open>What \<open>kzalloc\<close> leaves in a structure, and \<open>kfree\<close> of an object: its fields are
  gone, whatever its type.\<close>

definition zero_dentry :: dentry where
  "zero_dentry = \<lparr>d_name = [], d_parent = 0, d_refcnt = 0, d_sb = Root_sb, d_mnt = None,
     d_priv = 0, d_mode = 0, d_size = 0\<rparr>"

definition free_obj :: "nat \<Rightarrow> 'z fstate_scheme \<Rightarrow> 'z fstate_scheme option" where
  "free_obj p s =
    do {
      s1 \<leftarrow> kfree p s;
      Some (if p = 0 then s1 else
        s1\<lparr>dents := (dents s1)(p := None), sbs := (sbs s1)(p := None),
           files := (files s1)(p := None), privs := (privs s1)(p := None),
           names := (names s1)(p := None)\<rparr>)
    }"

section \<open>Reference counts\<close>

definition dentry_get :: "nat \<Rightarrow> 'z fstate_scheme \<Rightarrow> (nat \<times> 'z fstate_scheme) option" where
  "dentry_get d s =
    do {
      s1 \<leftarrow> set_dent d (\<lambda>x. x\<lparr>d_refcnt := d_refcnt x + 1\<rparr>) s;
      Some (d, s1)
    }"

partial_function (option) dentry_put :: "nat \<Rightarrow> 'z fstate_scheme \<Rightarrow> 'z fstate_scheme option" where
  "dentry_put d s =
    do {
      s1 \<leftarrow> set_dent d (\<lambda>x. x\<lparr>d_refcnt := d_refcnt x - 1\<rparr>) s;
      x \<leftarrow> dents s1 d;
      if d_refcnt x = 0 then
        do {
          s2 \<leftarrow> (if d_parent x \<noteq> 0 then dentry_put (d_parent x) s1 else Some s1);
          y \<leftarrow> dents s2 d;
          s3 \<leftarrow> free_obj (d_priv y) s2;
          free_obj d s3
        }
      else Some s1
    }"

section \<open>Path components\<close>

text \<open>A \<open>const char *\<close> that walks along a path is the rest of the path.  The result is the
  kind of component, the rest, and the address of the component's copy.\<close>

definition get_next_component ::
  "string \<Rightarrow> 'z fstate_scheme \<Rightarrow> (comp \<times> string \<times> nat option \<times> 'z fstate_scheme) option" where
  "get_next_component path s =
    (if path = [] then Some (COMP_NO_MORE, path, None, s)
     else
       let component = takeWhile (\<lambda>c. c \<noteq> CHR ''/'') path;
           p = dropWhile (\<lambda>c. c \<noteq> CHR ''/'') path
       in do {
         (buf, s1) \<leftarrow> kmalloc (of_nat (length component + 1)) s;
         if buf = 0 then Some (COMP_NO_MORE, path, None, s1)
         else
           let s2 = s1\<lparr>names := (names s1)(buf \<mapsto> component)\<rparr>
           in if p = [] then Some (COMP_LAST, p, Some buf, s2)
              else
                let q = dropWhile (\<lambda>c. c = CHR ''/'') p
                in Some (if q = [] then COMP_LAST_SLASH else COMP_NORM, q, Some buf, s2)
       })"

section \<open>Directory records\<close>

text \<open>A \<open>user_dentry_t\<close>: three 32-bit words, lowest byte first, and the name with its
  terminator.\<close>

definition store32 :: "nat \<Rightarrow> u32 \<Rightarrow> mem \<Rightarrow> mem" where
  "store32 a v m = m(a := ucast v, a + 1 := ucast (drop_bit 8 v), a + 2 := ucast (drop_bit 16 v),
     a + 3 := ucast (drop_bit 24 v))"

definition load32 :: "nat \<Rightarrow> mem \<Rightarrow> u32" where
  "load32 a m = ucast (m a) OR push_bit 8 (ucast (m (a + 1))) OR push_bit 16 (ucast (m (a + 2))) OR
     push_bit 24 (ucast (m (a + 3)))"

definition bytes_of :: "string \<Rightarrow> u8 list" where
  "bytes_of = map (\<lambda>c. of_nat (of_char c))"

fun store_bytes :: "nat \<Rightarrow> u8 list \<Rightarrow> mem \<Rightarrow> mem" where
  "store_bytes a [] m = m"
| "store_bytes a (b # bs) m = store_bytes (a + 1) bs (m(a := b))"

definition reclen_of :: "string \<Rightarrow> u32" where
  "reclen_of name = (of_nat (sizeof_user_dentry + length name + 1) + 3) AND NOT 3"

definition vfs_add_dentry ::
  "nat \<Rightarrow> u32 \<Rightarrow> string \<Rightarrow> u32 \<Rightarrow> u32 \<Rightarrow> mem \<Rightarrow> bool \<times> nat \<times> u32 \<times> mem" where
  "vfs_add_dentry buffer bufsize name mode sz m =
    (let totallen = reclen_of name
     in if bufsize < totallen then (False, buffer, bufsize, m)
        else
          let m1 = store32 (buffer + 8) sz (store32 (buffer + 4) mode (store32 buffer totallen m));
              m2 = store_bytes (buffer + 12) (bytes_of name @ [0]) m1
          in (True, buffer + unat totallen, bufsize - totallen, m2))"

text \<open>The loop over a directory's children, the same in the two file systems.  \<open>start--\<close> is
  evaluated for every child, also after it was zero, and a skipped child is not looked at.\<close>

fun getdents_loop ::
  "nat list \<Rightarrow> nat \<Rightarrow> u32 \<Rightarrow> int \<Rightarrow> int \<Rightarrow> 'z fstate_scheme \<Rightarrow> (int \<times> 'z fstate_scheme) option" where
  "getdents_loop [] buf sz start count s = Some (count, s)"
| "getdents_loop (i # is) buf sz start count s =
    (if start \<noteq> 0 then getdents_loop is buf sz (start - 1) count s
     else do {
       p \<leftarrow> privs s i;
       x \<leftarrow> dents s (p_dentry p);
       let (ok, buf1, sz1, m1) = vfs_add_dentry buf sz (d_name x) (d_mode x) (d_size x) (mem s);
       if ok then getdents_loop is buf1 sz1 (start - 1) (count + 1) (s\<lparr>mem := m1\<rparr>)
       else if count = 0 then Some (- errno_code ENOMEM, s)
       else Some (count, s)
     })"

text \<open>The search through a directory's children, also the same in the two.\<close>

fun find_child :: "nat list \<Rightarrow> string \<Rightarrow> 'z fstate_scheme \<Rightarrow> nat option option" where
  "find_child [] name s = Some None"
| "find_child (i # is) name s =
    do {
      p \<leftarrow> privs s i;
      x \<leftarrow> dents s (p_dentry p);
      if d_name x = name then Some (Some (p_dentry p)) else find_child is name s
    }"

section \<open>Nodes\<close>

text \<open>\<open>make_node\<close> and \<open>mount\<close> differ in the two file systems only in the structure behind
  \<open>priv\<close>: its size and what follows the common members.  A name that does not fit
  \<open>d_name\<close> would be copied over the members behind it: no result.\<close>

definition make_node ::
  "u32 \<Rightarrow> priv_rest \<Rightarrow> nat \<Rightarrow> string \<Rightarrow> u32 \<Rightarrow> 'z fstate_scheme \<Rightarrow>
     ((errno + nat) \<times> 'z fstate_scheme) option" where
  "make_node priv_size rest parent name md s =
    do {
      (d, s1) \<leftarrow> kzalloc sizeof_dentry s;
      if d = 0 then Some (Inl ENOMEM, s1)
      else do {
        let s2 = s1\<lparr>dents := (dents s1)(d \<mapsto> zero_dentry)\<rparr>;
        (dp, s3) \<leftarrow> kzalloc priv_size s2;
        if dp = 0 then do { s4 \<leftarrow> free_obj d s3; Some (Inl ENOMEM, s4) }
        else do {
          BUG_ON (PATH_MAX \<le> length name);
          par \<leftarrow> dents s3 parent;
          s4 \<leftarrow> set_dent d (\<lambda>x. x\<lparr>d_name := name, d_mode := md, d_sb := d_sb par, d_priv := dp\<rparr>) s3;
          let s5 = s4\<lparr>privs := (privs s4)(dp \<mapsto> \<lparr>p_dentry = d, p_children = [], p_rest = rest\<rparr>)\<rparr>;
          s6 \<leftarrow> set_priv (d_priv par) (\<lambda>x. x\<lparr>p_children := p_children x @ [dp]\<rparr>) s5;
          (r, s7) \<leftarrow> dentry_get d s6;
          Some (Inr r, s7)
        }
      }
    }"

definition mount_root ::
  "u32 \<Rightarrow> priv_rest \<Rightarrow> sb_ref \<Rightarrow> 'z fstate_scheme \<Rightarrow> (int \<times> nat \<times> 'z fstate_scheme) option" where
  "mount_root priv_size rest sb s =
    do {
      (d, s1) \<leftarrow> kzalloc sizeof_dentry s;
      if d = 0 then Some (- errno_code ENOMEM, 0, s1)
      else do {
        (r, s2) \<leftarrow> dentry_get d (s1\<lparr>dents := (dents s1)(d \<mapsto> zero_dentry)\<rparr>);
        s3 \<leftarrow> set_sb sb (\<lambda>x. x\<lparr>root_dentry := r\<rparr>) s2;
        s4 \<leftarrow> set_dent d (\<lambda>x. x\<lparr>d_name := ''/'', d_mode := DIR_DIR, d_parent := 0, d_sb := sb\<rparr>) s3;
        (dp, s5) \<leftarrow> kzalloc priv_size s4;
        if dp = 0 then do { s6 \<leftarrow> free_obj d s5; Some (- errno_code ENOMEM, 0, s6) }
        else do {
          let s6 = s5\<lparr>privs := (privs s5)(dp \<mapsto> \<lparr>p_dentry = d, p_children = [], p_rest = rest\<rparr>)\<rparr>;
          s7 \<leftarrow> set_dent d (\<lambda>x. x\<lparr>d_priv := dp\<rparr>) s6;
          Some (0, dp, s7)
        }
      }
    }"

text \<open>\<open>list_del\<close> of a node's \<open>header\<close>: it leaves the list it is in.\<close>

definition list_del_child :: "nat \<Rightarrow> 'z fstate_scheme \<Rightarrow> 'z fstate_scheme" where
  "list_del_child dp s =
    s\<lparr>privs := (\<lambda>a. map_option (\<lambda>x. x\<lparr>p_children := filter (\<lambda>c. c \<noteq> dp) (p_children x)\<rparr>) (privs s a))\<rparr>"

definition lookup_node ::
  "nat \<Rightarrow> string \<Rightarrow> 'z fstate_scheme \<Rightarrow> ((errno + nat) \<times> 'z fstate_scheme) option" where
  "lookup_node d name s =
    do {
      x \<leftarrow> dents s d;
      if DIR_TYPE (d_mode x) \<noteq> DIR_DIR then Some (Inl ENOTDIR, s)
      else do {
        p \<leftarrow> privs s (d_priv x);
        c \<leftarrow> find_child (p_children p) name s;
        (case c of
           Some e \<Rightarrow> do { (r, s1) \<leftarrow> dentry_get e s; Some (Inr r, s1) }
         | None \<Rightarrow> Some (Inl ENOENT, s))
      }
    }"

definition getdents_node ::
  "nat \<Rightarrow> nat \<Rightarrow> u32 \<Rightarrow> int \<Rightarrow> 'z fstate_scheme \<Rightarrow> (int \<times> 'z fstate_scheme) option" where
  "getdents_node d buf sz start s =
    do {
      x \<leftarrow> dents s d;
      if DIR_TYPE (d_mode x) \<noteq> DIR_DIR then Some (- errno_code ENOTDIR, s)
      else do {
        p \<leftarrow> privs s (d_priv x);
        getdents_loop (p_children p) buf sz start 0 s
      }
    }"

end
