(* ===== verification/Ramfs.thy ===== *)
theory Ramfs
  imports Fs
begin

text \<open>
  The in-memory file system, \<open>src/src/fs/ramfs/ramfs.c\<close>.  A node's data is a heap block of
  \<open>alloc_size\<close> bytes; sizes and offsets are 32-bit and wrap around where the code's do.
\<close>

section \<open>Operations\<close>

definition ROUND_CHUNK :: "u32 \<Rightarrow> u32" where
  "ROUND_CHUNK x = (x + 4095) AND NOT 4095"

definition ramfs_make_node ::
  "nat \<Rightarrow> string \<Rightarrow> u32 \<Rightarrow> 'z fstate_scheme \<Rightarrow> ((errno + nat) \<times> 'z fstate_scheme) option" where
  "ramfs_make_node = make_node sizeof_ramfs_priv (Ramfs_data 0 0)"

definition ramfs_mount :: "sb_ref \<Rightarrow> 'z fstate_scheme \<Rightarrow> (int \<times> 'z fstate_scheme) option" where
  "ramfs_mount sb s =
    do { (r, dp, s1) \<leftarrow> mount_root sizeof_ramfs_priv (Ramfs_data 0 0) sb s; Some (r, s1) }"

definition ramfs_lookup ::
  "nat \<Rightarrow> string \<Rightarrow> 'z fstate_scheme \<Rightarrow> ((errno + nat) \<times> 'z fstate_scheme) option" where
  "ramfs_lookup = lookup_node"

definition ramfs_getdents ::
  "nat \<Rightarrow> nat \<Rightarrow> u32 \<Rightarrow> int \<Rightarrow> 'z fstate_scheme \<Rightarrow> (int \<times> 'z fstate_scheme) option" where
  "ramfs_getdents = getdents_node"

definition ramfs_mkdir :: "nat \<Rightarrow> string \<Rightarrow> 'z fstate_scheme \<Rightarrow> (int \<times> 'z fstate_scheme) option" where
  "ramfs_mkdir d name s =
    do {
      (r, s1) \<leftarrow> ramfs_make_node d name DIR_DIR s;
      (case r of Inl e \<Rightarrow> Some (- errno_code e, s1) | Inr _ \<Rightarrow> Some (0, s1))
    }"

definition ramfs_rmdir :: "nat \<Rightarrow> 'z fstate_scheme \<Rightarrow> (int \<times> 'z fstate_scheme) option" where
  "ramfs_rmdir d s =
    do {
      x \<leftarrow> dents s d;
      p \<leftarrow> privs s (d_priv x);
      if p_children p \<noteq> [] then Some (- errno_code ENOTEMPTY, s)
      else do { s1 \<leftarrow> dentry_put d (list_del_child (d_priv x) s); Some (0, s1) }
    }"

definition ramfs_create :: "nat \<Rightarrow> string \<Rightarrow> 'z fstate_scheme \<Rightarrow> (int \<times> 'z fstate_scheme) option" where
  "ramfs_create d name s =
    do {
      (r, s1) \<leftarrow> ramfs_make_node d name DIR_FILE s;
      (case r of Inl e \<Rightarrow> Some (- errno_code e, s1) | Inr _ \<Rightarrow> Some (0, s1))
    }"

definition ramfs_read ::
  "nat \<Rightarrow> u32 \<Rightarrow> nat \<Rightarrow> u32 \<Rightarrow> 'z fstate_scheme \<Rightarrow> (int \<times> 'z fstate_scheme) option" where
  "ramfs_read f offset buf sz s =
    do {
      fl \<leftarrow> files s f;
      x \<leftarrow> dents s (f_dentry fl);
      if d_size x \<le> offset then Some (0, s)
      else do {
        let sz1 = (if d_size x < offset + sz then d_size x - offset else sz);
        p \<leftarrow> privs s (d_priv x);
        Some (sint sz1, s\<lparr>mem := snd (memcpy buf (data_ptr (p_rest p) + unat offset) sz1 (mem s))\<rparr>)
      }
    }"

text \<open>The part of \<open>ramfs_write\<close> that makes room for \<open>need = offset + size\<close> bytes.\<close>

definition ramfs_grow :: "nat \<Rightarrow> u32 \<Rightarrow> u32 \<Rightarrow> 'z fstate_scheme \<Rightarrow> (bool \<times> 'z fstate_scheme) option" where
  "ramfs_grow pr fsize need s =
    do {
      p \<leftarrow> privs s pr;
      if alloc_size (p_rest p) < need then
        if data_ptr (p_rest p) = 0 then do {
          let asz = ROUND_CHUNK need;
          (q, s1) \<leftarrow> kmalloc asz s;
          if q = 0 then Some (False, s1)
          else do { s2 \<leftarrow> set_priv pr (\<lambda>y. y\<lparr>p_rest := Ramfs_data asz q\<rparr>) s1; Some (True, s2) }
        }
        else do {
          let asz = (if alloc_size (p_rest p) * 2 < need then ROUND_CHUNK need
                     else alloc_size (p_rest p) * 2);
          (q, s1) \<leftarrow> kmalloc asz s;
          if q = 0 then Some (False, s1)
          else do {
            let s2 = s1\<lparr>mem := snd (memcpy q (data_ptr (p_rest p)) fsize (mem s1))\<rparr>;
            s3 \<leftarrow> kfree (data_ptr (p_rest p)) s2;
            s4 \<leftarrow> set_priv pr (\<lambda>y. y\<lparr>p_rest := Ramfs_data asz q\<rparr>) s3;
            Some (True, s4)
          }
        }
      else Some (True, s)
    }"

definition ramfs_write ::
  "nat \<Rightarrow> u32 \<Rightarrow> nat \<Rightarrow> u32 \<Rightarrow> 'z fstate_scheme \<Rightarrow> (int \<times> 'z fstate_scheme) option" where
  "ramfs_write f offset buf sz s =
    do {
      fl \<leftarrow> files s f;
      x \<leftarrow> dents s (f_dentry fl);
      (ok, s1) \<leftarrow> ramfs_grow (d_priv x) (d_size x) (offset + sz) s;
      if \<not> ok then Some (- errno_code ENOMEM, s1)
      else do {
        s2 \<leftarrow> set_dent (f_dentry fl)
                (\<lambda>y. if d_size y < offset + sz then y\<lparr>d_size := offset + sz\<rparr> else y) s1;
        p \<leftarrow> privs s2 (d_priv x);
        Some (sint sz, s2\<lparr>mem := snd (memcpy (data_ptr (p_rest p) + unat offset) buf sz (mem s2))\<rparr>)
      }
    }"

definition ramfs_truncate :: "nat \<Rightarrow> 'z fstate_scheme \<Rightarrow> (int \<times> 'z fstate_scheme) option" where
  "ramfs_truncate f s =
    do {
      fl \<leftarrow> files s f;
      s1 \<leftarrow> set_dent (f_dentry fl) (\<lambda>y. y\<lparr>d_size := f_offset fl\<rparr>) s;
      x \<leftarrow> dents s1 (f_dentry fl);
      p \<leftarrow> privs s1 (d_priv x);
      s2 \<leftarrow> set_priv (d_priv x) (\<lambda>y. y\<lparr>p_rest := Ramfs_data (f_offset fl) (data_ptr (p_rest y))\<rparr>) s1;
      if f_offset fl = 0 then do {
        s3 \<leftarrow> kfree (data_ptr (p_rest p)) s2;
        s4 \<leftarrow> set_priv (d_priv x) (\<lambda>y. y\<lparr>p_rest := Ramfs_data (f_offset fl) 0\<rparr>) s3;
        Some (0, s4)
      }
      else Some (0, s2)
    }"

definition ramfs_unlink :: "nat \<Rightarrow> 'z fstate_scheme \<Rightarrow> (int \<times> 'z fstate_scheme) option" where
  "ramfs_unlink d s =
    do {
      x \<leftarrow> dents s d;
      p \<leftarrow> privs s (d_priv x);
      s1 \<leftarrow> kfree (data_ptr (p_rest p)) (list_del_child (d_priv x) s);
      s2 \<leftarrow> dentry_put d s1;
      Some (0, s2)
    }"

end
