(* ===== verification/Devfs.thy ===== *)
theory Devfs
  imports Fs
begin

text \<open>
  The device file system, \<open>src/src/fs/devfs.c\<close> and \<open>src/src/include/devfs.h\<close>: directories
  made while drivers register, and one file \<open>dev\<close> per device that forwards to the driver.
  The drivers are a parameter: a table from the address of a \<open>devfs_ops_t\<close> to its functions,
  each of which may be missing.
\<close>

section \<open>Drivers\<close>

record 's devfs_ops =
  dev_open :: "(nat \<Rightarrow> u32 \<Rightarrow> 's \<Rightarrow> (int \<times> 's) option) option"
  dev_close :: "(nat \<Rightarrow> 's \<Rightarrow> (int \<times> 's) option) option"
  dev_read :: "(nat \<Rightarrow> u32 \<Rightarrow> nat \<Rightarrow> u32 \<Rightarrow> 's \<Rightarrow> (int \<times> 's) option) option"
  dev_write :: "(nat \<Rightarrow> u32 \<Rightarrow> nat \<Rightarrow> u32 \<Rightarrow> 's \<Rightarrow> (int \<times> 's) option) option"

type_synonym 's drivers = "nat \<Rightarrow> 's devfs_ops option"

section \<open>Operations\<close>

definition devfs_make_node ::
  "nat \<Rightarrow> string \<Rightarrow> u32 \<Rightarrow> 'z fstate_scheme \<Rightarrow> ((errno + nat) \<times> 'z fstate_scheme) option" where
  "devfs_make_node = make_node sizeof_devfs_priv (Devfs_ops 0)"

definition devfs_mount :: "sb_ref \<Rightarrow> 'z fstate_scheme \<Rightarrow> (int \<times> 'z fstate_scheme) option" where
  "devfs_mount sb s =
    do {
      (r, dp, s1) \<leftarrow> mount_root sizeof_devfs_priv (Devfs_ops 0) sb s;
      Some (r, if r = 0 then s1\<lparr>devfs_root := dp\<rparr> else s1)
    }"

definition devfs_lookup ::
  "nat \<Rightarrow> string \<Rightarrow> 'z fstate_scheme \<Rightarrow> ((errno + nat) \<times> 'z fstate_scheme) option" where
  "devfs_lookup = lookup_node"

definition devfs_getdents ::
  "nat \<Rightarrow> nat \<Rightarrow> u32 \<Rightarrow> int \<Rightarrow> 'z fstate_scheme \<Rightarrow> (int \<times> 'z fstate_scheme) option" where
  "devfs_getdents = getdents_node"

text \<open>\<open>((dpriv_t *)f->dentry->priv)->ops\<close>; the table of a node without a device is a null
  pointer, and following it gives no result.\<close>

definition dev_ops :: "'z fstate_scheme drivers \<Rightarrow> nat \<Rightarrow> 'z fstate_scheme \<Rightarrow> 'z fstate_scheme devfs_ops option" where
  "dev_ops drv f s =
    do {
      fl \<leftarrow> files s f;
      x \<leftarrow> dents s (f_dentry fl);
      p \<leftarrow> privs s (d_priv x);
      if ops_ptr (p_rest p) = 0 then None else drv (ops_ptr (p_rest p))
    }"

definition devfs_open ::
  "'z fstate_scheme drivers \<Rightarrow> nat \<Rightarrow> u32 \<Rightarrow> 'z fstate_scheme \<Rightarrow> (int \<times> 'z fstate_scheme) option" where
  "devfs_open drv f flags s =
    do {
      ops \<leftarrow> dev_ops drv f s;
      if (flags AND O_RDONLY \<noteq> 0 \<and> dev_read ops = None) \<or>
         (flags AND O_WRONLY \<noteq> 0 \<and> dev_write ops = None)
      then Some (- errno_code EACCES, s)
      else do { g \<leftarrow> dev_open ops; g f flags s }
    }"

definition devfs_close ::
  "'z fstate_scheme drivers \<Rightarrow> nat \<Rightarrow> 'z fstate_scheme \<Rightarrow> (int \<times> 'z fstate_scheme) option" where
  "devfs_close drv f s = do { ops \<leftarrow> dev_ops drv f s; g \<leftarrow> dev_close ops; g f s }"

definition devfs_read ::
  "'z fstate_scheme drivers \<Rightarrow> nat \<Rightarrow> u32 \<Rightarrow> nat \<Rightarrow> u32 \<Rightarrow> 'z fstate_scheme \<Rightarrow>
     (int \<times> 'z fstate_scheme) option" where
  "devfs_read drv f offset buf sz s =
    do { ops \<leftarrow> dev_ops drv f s; g \<leftarrow> dev_read ops; g f offset buf sz s }"

definition devfs_write ::
  "'z fstate_scheme drivers \<Rightarrow> nat \<Rightarrow> u32 \<Rightarrow> nat \<Rightarrow> u32 \<Rightarrow> 'z fstate_scheme \<Rightarrow>
     (int \<times> 'z fstate_scheme) option" where
  "devfs_write drv f offset buf sz s =
    do { ops \<leftarrow> dev_ops drv f s; g \<leftarrow> dev_write ops; g f offset buf sz s }"

section \<open>Registering a device\<close>

text \<open>The loop over the path returns the parent directory and the copy of the last
  component.\<close>

partial_function (option) devfs_register_loop ::
  "nat \<Rightarrow> string \<Rightarrow> 'z fstate_scheme \<Rightarrow> ((errno + nat \<times> nat) \<times> 'z fstate_scheme) option" where
  "devfs_register_loop parent path s =
    do {
      (comp, rest, nameo, s1) \<leftarrow> get_next_component path s;
      BUG_ON (comp = COMP_NO_MORE);
      name \<leftarrow> nameo;
      if comp \<noteq> COMP_NORM then Some (Inr (parent, name), s1)
      else do {
        str \<leftarrow> names s1 name;
        (r, s2) \<leftarrow> devfs_lookup parent str s1;
        (r2, s3) \<leftarrow> (case r of Inl _ \<Rightarrow> devfs_make_node parent str DIR_DIR s2 | Inr d \<Rightarrow> Some (r, s2));
        s4 \<leftarrow> free_obj name s3;
        (case r2 of Inl e \<Rightarrow> Some (Inl e, s4) | Inr d \<Rightarrow> devfs_register_loop d rest s4)
      }
    }"

definition devfs_register :: "string \<Rightarrow> nat \<Rightarrow> 'z fstate_scheme \<Rightarrow> (int \<times> 'z fstate_scheme) option" where
  "devfs_register path ops s =
    do {
      root \<leftarrow> privs s (devfs_root s);
      (r, s1) \<leftarrow> devfs_register_loop (p_dentry root) path s;
      (case r of
         Inl e \<Rightarrow> Some (- errno_code e, s1)
       | Inr (parent, name) \<Rightarrow> do {
           str \<leftarrow> names s1 name;
           (r2, s2) \<leftarrow> devfs_make_node parent str DIR_DIR s1;
           s3 \<leftarrow> free_obj name s2;
           (case r2 of
              Inl e \<Rightarrow> Some (- errno_code e, s3)
            | Inr d \<Rightarrow> do {
                (r3, s4) \<leftarrow> devfs_make_node d ''dev'' DIR_FILE s3;
                (case r3 of
                   Inl e \<Rightarrow> None
                 | Inr dev \<Rightarrow> do {
                     x \<leftarrow> dents s4 dev;
                     s5 \<leftarrow> set_priv (d_priv x) (\<lambda>y. y\<lparr>p_rest := Devfs_ops ops\<rparr>) s4;
                     Some (0, s5)
                   })
              })
         })
    }"

end
