(* ===== verification/Vfs.thy ===== *)
theory Vfs
  imports Ramfs Devfs
begin

text \<open>
  The virtual file system, \<open>src/src/fs/vfs.c\<close>: the table of file systems, mounting, path
  lookup and the operations on paths, directories and open files.  The device drivers are a
  parameter, handed to devfs.
\<close>

section \<open>The operations of a file system\<close>

text \<open>The tables \<open>ramfs_fs\<close> and \<open>devfs_fs\<close>.  A call of a member that a table does not have is
  a call through a null pointer.\<close>

fun fs_name :: "fs_kind \<Rightarrow> string" where
  "fs_name Ramfs = ''ramfs''"
| "fs_name Devfs = ''devfs''"

fun fs_mount :: "fs_kind \<Rightarrow> sb_ref \<Rightarrow> 'z fstate_scheme \<Rightarrow> (int \<times> 'z fstate_scheme) option" where
  "fs_mount Ramfs = ramfs_mount"
| "fs_mount Devfs = devfs_mount"

fun fs_lookup ::
  "fs_kind \<Rightarrow> nat \<Rightarrow> string \<Rightarrow> 'z fstate_scheme \<Rightarrow> ((errno + nat) \<times> 'z fstate_scheme) option" where
  "fs_lookup Ramfs = ramfs_lookup"
| "fs_lookup Devfs = devfs_lookup"

fun fs_getdents ::
  "fs_kind \<Rightarrow> nat \<Rightarrow> nat \<Rightarrow> u32 \<Rightarrow> int \<Rightarrow> 'z fstate_scheme \<Rightarrow> (int \<times> 'z fstate_scheme) option" where
  "fs_getdents Ramfs = ramfs_getdents"
| "fs_getdents Devfs = devfs_getdents"

fun fs_mkdir :: "fs_kind \<Rightarrow> nat \<Rightarrow> string \<Rightarrow> 'z fstate_scheme \<Rightarrow> (int \<times> 'z fstate_scheme) option" where
  "fs_mkdir Ramfs d name s = ramfs_mkdir d name s"
| "fs_mkdir Devfs d name s = None"

fun fs_rmdir :: "fs_kind \<Rightarrow> nat \<Rightarrow> 'z fstate_scheme \<Rightarrow> (int \<times> 'z fstate_scheme) option" where
  "fs_rmdir Ramfs d s = ramfs_rmdir d s"
| "fs_rmdir Devfs d s = None"

text \<open>Members the callers test before calling are \<open>None\<close> when the table has none.\<close>

fun fs_create :: "fs_kind \<Rightarrow> (nat \<Rightarrow> string \<Rightarrow> 'z fstate_scheme \<Rightarrow> (int \<times> 'z fstate_scheme) option) option" where
  "fs_create Ramfs = Some ramfs_create"
| "fs_create Devfs = None"

fun fs_unlink :: "fs_kind \<Rightarrow> (nat \<Rightarrow> 'z fstate_scheme \<Rightarrow> (int \<times> 'z fstate_scheme) option) option" where
  "fs_unlink Ramfs = Some ramfs_unlink"
| "fs_unlink Devfs = None"

fun fs_open ::
  "'z fstate_scheme drivers \<Rightarrow> fs_kind \<Rightarrow>
     (nat \<Rightarrow> u32 \<Rightarrow> 'z fstate_scheme \<Rightarrow> (int \<times> 'z fstate_scheme) option) option" where
  "fs_open drv Ramfs = None"
| "fs_open drv Devfs = Some (devfs_open drv)"

fun fs_truncate :: "fs_kind \<Rightarrow> (nat \<Rightarrow> 'z fstate_scheme \<Rightarrow> (int \<times> 'z fstate_scheme) option) option" where
  "fs_truncate Ramfs = Some ramfs_truncate"
| "fs_truncate Devfs = None"

fun fs_close ::
  "'z fstate_scheme drivers \<Rightarrow> fs_kind \<Rightarrow> (nat \<Rightarrow> 'z fstate_scheme \<Rightarrow> (int \<times> 'z fstate_scheme) option) option" where
  "fs_close drv Ramfs = None"
| "fs_close drv Devfs = Some (devfs_close drv)"

fun fs_read ::
  "'z fstate_scheme drivers \<Rightarrow> fs_kind \<Rightarrow> nat \<Rightarrow> u32 \<Rightarrow> nat \<Rightarrow> u32 \<Rightarrow> 'z fstate_scheme \<Rightarrow>
     (int \<times> 'z fstate_scheme) option" where
  "fs_read drv Ramfs = ramfs_read"
| "fs_read drv Devfs = devfs_read drv"

fun fs_write ::
  "'z fstate_scheme drivers \<Rightarrow> fs_kind \<Rightarrow> nat \<Rightarrow> u32 \<Rightarrow> nat \<Rightarrow> u32 \<Rightarrow> 'z fstate_scheme \<Rightarrow>
     (int \<times> 'z fstate_scheme) option" where
  "fs_write drv Ramfs = ramfs_write"
| "fs_write drv Devfs = devfs_write drv"

section \<open>The table of file systems\<close>

definition MAX_FS_COUNT :: nat where [const_defs]: "MAX_FS_COUNT = 4"

definition register_fs :: "fs_kind \<Rightarrow> 'z fstate_scheme \<Rightarrow> int \<times> 'z fstate_scheme" where
  "register_fs fs s =
    (if MAX_FS_COUNT \<le> length (fs_list s) then (- errno_code ENOMEM, s)
     else (0, s\<lparr>fs_list := fs_list s @ [fs]\<rparr>))"

definition init_ramfs :: "'z fstate_scheme \<Rightarrow> int \<times> 'z fstate_scheme" where
  "init_ramfs s = register_fs Ramfs s"

definition init_devfs :: "'z fstate_scheme \<Rightarrow> int \<times> 'z fstate_scheme" where
  "init_devfs s = register_fs Devfs s"

fun find_fs_from :: "int \<Rightarrow> fs_kind list \<Rightarrow> string \<Rightarrow> int" where
  "find_fs_from i [] name = - 1"
| "find_fs_from i (k # ks) name = (if fs_name k = name then i else find_fs_from (i + 1) ks name)"

definition find_fs :: "string \<Rightarrow> 'z fstate_scheme \<Rightarrow> int" where
  "find_fs name s = find_fs_from 0 (fs_list s) name"

section \<open>Path lookup\<close>

definition LAST_MUST_NOT_EXIST :: u32 where [const_defs]: "LAST_MUST_NOT_EXIST = 1"
definition LAST_MUST_BE_DIR :: u32 where [const_defs]: "LAST_MUST_BE_DIR = 2"
definition LAST_NO_SLASHES :: u32 where [const_defs]: "LAST_NO_SLASHES = 4"
definition LAST_RETURN :: u32 where [const_defs]: "LAST_RETURN = 8"

text \<open>The file system and the directory to ask: those mounted on the node, or its own.\<close>

definition through_mount :: "nat \<Rightarrow> 'z fstate_scheme \<Rightarrow> (fs_kind \<times> nat) option" where
  "through_mount d s =
    do {
      x \<leftarrow> dents s d;
      (case d_mnt x of
         Some m \<Rightarrow> do { sb \<leftarrow> get_sb m s; Some (sb_fs sb, root_dentry sb) }
       | None \<Rightarrow> do { sb \<leftarrow> get_sb (d_sb x) s; Some (sb_fs sb, d) })
    }"

definition is_last :: "comp \<Rightarrow> u32 \<Rightarrow> bool" where
  "is_last ty flags \<longleftrightarrow>
     ty = COMP_LAST \<or> (ty = COMP_LAST_SLASH \<and> flags AND NOT LAST_NO_SLASHES \<noteq> 0)"

text \<open>What follows the loop: the last component goes to the caller or is freed.\<close>

definition lookup_done ::
  "bool \<Rightarrow> nat \<Rightarrow> nat \<Rightarrow> 'z fstate_scheme \<Rightarrow> ((errno + nat) \<times> nat option \<times> 'z fstate_scheme) option" where
  "lookup_done want d name s =
    (if want then Some (Inr d, Some name, s)
     else do { s1 \<leftarrow> free_obj name s; Some (Inr d, None, s1) })"

text \<open>\<open>kfree(name); dentry_put(d); return ERR_PTR(e)\<close>.\<close>

definition lookup_fail ::
  "errno \<Rightarrow> nat \<Rightarrow> nat \<Rightarrow> 'z fstate_scheme \<Rightarrow> ((errno + nat) \<times> nat option \<times> 'z fstate_scheme) option" where
  "lookup_fail e d name s =
    do { s1 \<leftarrow> free_obj name s; s2 \<leftarrow> dentry_put d s1; Some (Inl e, None, s2) }"

partial_function (option) lookup_loop ::
  "u32 \<Rightarrow> bool \<Rightarrow> string \<Rightarrow> nat \<Rightarrow> 'z fstate_scheme \<Rightarrow>
     ((errno + nat) \<times> nat option \<times> 'z fstate_scheme) option" where
  "lookup_loop flags want path d s =
    do {
      (ty, rest, nameo, s1) \<leftarrow> get_next_component path s;
      if ty = COMP_NO_MORE then do { s2 \<leftarrow> dentry_put d s1; Some (Inl ENOMEM, None, s2) }
      else do {
        name \<leftarrow> nameo;
        if is_last ty flags \<and> flags AND LAST_RETURN \<noteq> 0 then lookup_done want d name s1
        else do {
          str \<leftarrow> names s1 name;
          (fs, dir) \<leftarrow> through_mount d s1;
          (r, s2) \<leftarrow> fs_lookup fs dir str s1;
          (case r of
             Inl e \<Rightarrow>
               if e = ENOENT \<and> is_last ty flags \<and> flags AND LAST_MUST_NOT_EXIST \<noteq> 0
               then lookup_done want d name s2
               else lookup_fail e d name s2
           | Inr nd \<Rightarrow> do {
               s3 \<leftarrow> set_dent nd (\<lambda>x. x\<lparr>d_parent := d\<rparr>) s2;
               x \<leftarrow> dents s3 nd;
               if is_last ty flags \<and> flags AND LAST_MUST_NOT_EXIST \<noteq> 0
               then lookup_fail EEXIST nd name s3
               else if DIR_TYPE (d_mode x) \<noteq> DIR_DIR then
                 if ty = COMP_NORM \<or> ty = COMP_LAST_SLASH \<or> flags AND LAST_MUST_BE_DIR \<noteq> 0
                 then lookup_fail ENOTDIR nd name s3
                 else lookup_done want nd name s3
               else if ty = COMP_LAST \<or> ty = COMP_LAST_SLASH then lookup_done want nd name s3
               else do { s4 \<leftarrow> free_obj name s3; lookup_loop flags want rest nd s4 }
             })
        }
      }
    }"

definition lookup_path_common ::
  "string \<Rightarrow> u32 \<Rightarrow> bool \<Rightarrow> 'z fstate_scheme \<Rightarrow>
     ((errno + nat) \<times> nat option \<times> 'z fstate_scheme) option" where
  "lookup_path_common path flags want s =
    do {
      sb \<leftarrow> rootfs s;
      (d, s1) \<leftarrow> dentry_get (root_dentry sb) s;
      BUG_ON (path = [] \<or> hd path \<noteq> CHR ''/'');
      let rest = dropWhile (\<lambda>c. c = CHR ''/'') path;
      if rest = [] then Some (Inr d, None, s1) else lookup_loop flags want rest d s1
    }"

definition lookup_path :: "string \<Rightarrow> 'z fstate_scheme \<Rightarrow> ((errno + nat) \<times> nat option \<times> 'z fstate_scheme) option" where
  "lookup_path path s = lookup_path_common path 0 False s"

definition lookup_path_dir :: "string \<Rightarrow> 'z fstate_scheme \<Rightarrow> ((errno + nat) \<times> nat option \<times> 'z fstate_scheme) option" where
  "lookup_path_dir path s = lookup_path_common path LAST_MUST_BE_DIR False s"

definition lookup_path_for_create_file ::
  "string \<Rightarrow> 'z fstate_scheme \<Rightarrow> ((errno + nat) \<times> nat option \<times> 'z fstate_scheme) option" where
  "lookup_path_for_create_file path s =
     lookup_path_common path (LAST_MUST_NOT_EXIST OR LAST_NO_SLASHES) True s"

definition lookup_path_for_create_dir ::
  "string \<Rightarrow> 'z fstate_scheme \<Rightarrow> ((errno + nat) \<times> nat option \<times> 'z fstate_scheme) option" where
  "lookup_path_for_create_dir path s = lookup_path_common path LAST_MUST_NOT_EXIST True s"

section \<open>Mounting\<close>

definition vfs_mount :: "string \<Rightarrow> string \<Rightarrow> 'z fstate_scheme \<Rightarrow> (int \<times> 'z fstate_scheme) option" where
  "vfs_mount fstype path s =
    (let fs = find_fs fstype s
     in if fs = - 1 then Some (- errno_code ENODEV, s)
        else if rootfs s = None \<or> root_dentry (the (rootfs s)) = 0 then
          if path \<noteq> ''/'' then Some (- errno_code ENODEV, s)
          else
            let k = fs_list s ! nat fs
            in fs_mount k Root_sb (s\<lparr>rootfs := Some \<lparr>sb_fs = k, root_dentry = 0\<rparr>\<rparr>)
        else do {
          (r, _, s1) \<leftarrow> lookup_path_dir path s;
          (case r of
             Inl e \<Rightarrow> Some (- errno_code e, s1)
           | Inr d \<Rightarrow> do {
               x \<leftarrow> dents s1 d;
               if DIR_TYPE (d_mode x) \<noteq> DIR_DIR
               then do { s2 \<leftarrow> dentry_put d s1; Some (- errno_code ENOTDIR, s2) }
               else if d_mnt x \<noteq> None
               then do { s2 \<leftarrow> dentry_put d s1; Some (- errno_code EBUSY, s2) }
               else do {
                 (sb, s2) \<leftarrow> kzalloc sizeof_superblock s1;
                 if sb = 0 then do { s3 \<leftarrow> dentry_put d s2; Some (- errno_code ENOMEM, s3) }
                 else do {
                   let k = fs_list s2 ! nat fs;
                   (ret, s3) \<leftarrow> fs_mount k (Heap_sb sb)
                     (s2\<lparr>sbs := (sbs s2)(sb \<mapsto> \<lparr>sb_fs = k, root_dentry = 0\<rparr>)\<rparr>);
                   if ret < 0
                   then do { s4 \<leftarrow> dentry_put d s3; s5 \<leftarrow> free_obj sb s4; Some (ret, s5) }
                   else do { s4 \<leftarrow> set_dent d (\<lambda>y. y\<lparr>d_mnt := Some (Heap_sb sb)\<rparr>) s3; Some (0, s4) }
                 }
               }
             })
        })"

section \<open>Operations on directory entries\<close>

definition vfs_dgetdents ::
  "nat \<Rightarrow> nat \<Rightarrow> u32 \<Rightarrow> int \<Rightarrow> 'z fstate_scheme \<Rightarrow> (int \<times> 'z fstate_scheme) option" where
  "vfs_dgetdents d buf sz start s =
    do { (fs, dir) \<leftarrow> through_mount d s; fs_getdents fs dir buf sz start s }"

definition vfs_dmkdir :: "nat \<Rightarrow> string \<Rightarrow> 'z fstate_scheme \<Rightarrow> (int \<times> 'z fstate_scheme) option" where
  "vfs_dmkdir d name s =
    do {
      BUG_ON (CHR ''/'' \<in> set name);
      x \<leftarrow> dents s d;
      if DIR_TYPE (d_mode x) \<noteq> DIR_DIR then Some (- errno_code ENOTDIR, s)
      else do { (fs, dir) \<leftarrow> through_mount d s; fs_mkdir fs dir name s }
    }"

definition vfs_drmdir :: "nat \<Rightarrow> 'z fstate_scheme \<Rightarrow> (int \<times> 'z fstate_scheme) option" where
  "vfs_drmdir d s =
    do {
      x \<leftarrow> dents s d;
      if DIR_TYPE (d_mode x) \<noteq> DIR_DIR then Some (- errno_code ENOTDIR, s)
      else if d_mnt x \<noteq> None \<or> d_parent x = 0 then Some (- errno_code EBUSY, s)
      else do { sb \<leftarrow> get_sb (d_sb x) s; fs_rmdir (sb_fs sb) d s }
    }"

definition vfs_dunlink :: "nat \<Rightarrow> 'z fstate_scheme \<Rightarrow> (int \<times> 'z fstate_scheme) option" where
  "vfs_dunlink d s =
    do {
      x \<leftarrow> dents s d;
      if DIR_TYPE (d_mode x) = DIR_DIR then Some (- errno_code EISDIR, s)
      else do {
        sb \<leftarrow> get_sb (d_sb x) s;
        (case fs_unlink (sb_fs sb) of
           None \<Rightarrow> Some (- errno_code ENOSYS, s)
         | Some g \<Rightarrow> g d s)
      }
    }"

section \<open>Operations on paths\<close>

definition vfs_getdents ::
  "string \<Rightarrow> nat \<Rightarrow> u32 \<Rightarrow> int \<Rightarrow> 'z fstate_scheme \<Rightarrow> (int \<times> 'z fstate_scheme) option" where
  "vfs_getdents path buf sz start s =
    do {
      (r, _, s1) \<leftarrow> lookup_path_dir path s;
      (case r of
         Inl e \<Rightarrow> Some (- errno_code e, s1)
       | Inr d \<Rightarrow> do {
           (ret, s2) \<leftarrow> vfs_dgetdents d buf sz start s1;
           s3 \<leftarrow> dentry_put d s2;
           Some (ret, s3)
         })
    }"

definition vfs_mkdir :: "string \<Rightarrow> 'z fstate_scheme \<Rightarrow> (int \<times> 'z fstate_scheme) option" where
  "vfs_mkdir path s =
    do {
      (r, nameo, s1) \<leftarrow> lookup_path_for_create_dir path s;
      (case r of
         Inl e \<Rightarrow> Some (- errno_code e, s1)
       | Inr d \<Rightarrow> do {
           name \<leftarrow> nameo;
           str \<leftarrow> names s1 name;
           (ret, s2) \<leftarrow> vfs_dmkdir d str s1;
           s3 \<leftarrow> dentry_put d s2;
           s4 \<leftarrow> free_obj name s3;
           Some (ret, s4)
         })
    }"

definition vfs_rmdir :: "string \<Rightarrow> 'z fstate_scheme \<Rightarrow> (int \<times> 'z fstate_scheme) option" where
  "vfs_rmdir path s =
    do {
      (r, _, s1) \<leftarrow> lookup_path_dir path s;
      (case r of
         Inl e \<Rightarrow> Some (- errno_code e, s1)
       | Inr d \<Rightarrow> do {
           (ret, s2) \<leftarrow> vfs_drmdir d s1;
           s3 \<leftarrow> dentry_put d s2;
           Some (ret, s3)
         })
    }"

definition vfs_unlink :: "string \<Rightarrow> 'z fstate_scheme \<Rightarrow> (int \<times> 'z fstate_scheme) option" where
  "vfs_unlink path s =
    do {
      (r, _, s1) \<leftarrow> lookup_path_common path LAST_NO_SLASHES False s;
      (case r of
         Inl e \<Rightarrow> Some (- errno_code e, s1)
       | Inr d \<Rightarrow> do {
           (ret, s2) \<leftarrow> vfs_dunlink d s1;
           s3 \<leftarrow> dentry_put d s2;
           Some (ret, s3)
         })
    }"

section \<open>Open files\<close>

text \<open>A file's operations may return any negative code, so opening gives the code itself.\<close>

definition err_int :: "errno + nat \<Rightarrow> int + nat" where
  "err_int r = (case r of Inl e \<Rightarrow> Inl (- errno_code e) | Inr p \<Rightarrow> Inr p)"

text \<open>The first part of \<open>vfs_dopen\<close>: find the file, or create it when asked to.\<close>

definition dopen_dentry ::
  "nat \<Rightarrow> string \<Rightarrow> u32 \<Rightarrow> 'z fstate_scheme \<Rightarrow> ((int + nat) \<times> 'z fstate_scheme) option" where
  "dopen_dentry d name flags s =
    do {
      x \<leftarrow> dents s d;
      sb \<leftarrow> get_sb (d_sb x) s;
      (r, s1) \<leftarrow> fs_lookup (sb_fs sb) d name s;
      (case r of
         Inl e \<Rightarrow>
           if flags AND O_CREAT = 0 then Some (err_int r, s1)
           else
             (case fs_create (sb_fs sb) of
                None \<Rightarrow> Some (Inl (- errno_code ENOSYS), s1)
              | Some create \<Rightarrow> do {
                  (ret, s2) \<leftarrow> create d name s1;
                  if ret < 0 then Some (Inl ret, s2)
                  else do { (r2, s3) \<leftarrow> fs_lookup (sb_fs sb) d name s2; Some (err_int r2, s3) }
                })
       | Inr fd \<Rightarrow> do {
           y \<leftarrow> dents s1 fd;
           if DIR_TYPE (d_mode y) = DIR_DIR
           then do { s2 \<leftarrow> dentry_put fd s1; Some (Inl (- errno_code EISDIR), s2) }
           else if flags AND O_CREAT \<noteq> 0 \<and> flags AND O_EXCL \<noteq> 0
           then do { s2 \<leftarrow> dentry_put fd s1; Some (Inl (- errno_code EEXIST), s2) }
           else Some (err_int r, s1)
         })
    }"

definition vfs_dopen ::
  "'z fstate_scheme drivers \<Rightarrow> nat \<Rightarrow> string \<Rightarrow> u32 \<Rightarrow> 'z fstate_scheme \<Rightarrow>
     ((int + nat) \<times> 'z fstate_scheme) option" where
  "vfs_dopen drv d0 name flags s =
    do {
      x0 \<leftarrow> dents s d0;
      d \<leftarrow> (case d_mnt x0 of
              None \<Rightarrow> Some d0
            | Some m \<Rightarrow> do { sb \<leftarrow> get_sb m s; Some (root_dentry sb) });
      (r, s1) \<leftarrow> dopen_dentry d name flags s;
      (case r of
         Inl e \<Rightarrow> Some (Inl e, s1)
       | Inr fd \<Rightarrow> do {
           (f, s2) \<leftarrow> kzalloc sizeof_file s1;
           if f = 0 then do { s3 \<leftarrow> dentry_put fd s2; Some (Inl (- errno_code ENOMEM), s3) }
           else do {
             x \<leftarrow> dents s2 fd;
             sb \<leftarrow> get_sb (d_sb x) s2;
             let s3 = s2\<lparr>files := (files s2)(f \<mapsto>
               \<lparr>f_dentry = fd, f_openmode = flags AND O_RDWR,
                f_offset = (if flags AND O_APPEND \<noteq> 0 then d_size x else 0), f_refcnt = 1\<rparr>)\<rparr>;
             (ret, s4) \<leftarrow> (case fs_open drv (sb_fs sb) of
                             None \<Rightarrow> Some (0, s3) | Some g \<Rightarrow> g f flags s3);
             if ret < 0
             then do { s5 \<leftarrow> free_obj f s4; s6 \<leftarrow> dentry_put fd s5; Some (Inl ret, s6) }
             else do {
               (ret2, s5) \<leftarrow> (case fs_truncate (sb_fs sb) of
                  Some g \<Rightarrow> if flags AND O_TRUNC \<noteq> 0 then g f s4 else Some (0, s4)
                | None \<Rightarrow> Some (0, s4));
               if ret2 < 0 then do {
                 (_, s6) \<leftarrow> (case fs_close drv (sb_fs sb) of None \<Rightarrow> Some (0, s5) | Some g \<Rightarrow> g f s5);
                 s7 \<leftarrow> free_obj f s6;
                 s8 \<leftarrow> dentry_put fd s7;
                 Some (Inl ret2, s8)
               }
               else Some (Inr f, s5)
             }
           }
         })
    }"

definition vfs_open ::
  "'z fstate_scheme drivers \<Rightarrow> string \<Rightarrow> u32 \<Rightarrow> 'z fstate_scheme \<Rightarrow>
     ((int + nat) \<times> 'z fstate_scheme) option" where
  "vfs_open drv path flags s =
    do {
      (r, nameo, s1) \<leftarrow> lookup_path_common path (LAST_RETURN OR LAST_NO_SLASHES) True s;
      (case r of
         Inl e \<Rightarrow> Some (Inl (- errno_code e), s1)
       | Inr d \<Rightarrow> do {
           name \<leftarrow> nameo;
           str \<leftarrow> names s1 name;
           (ret, s2) \<leftarrow> vfs_dopen drv d str flags s1;
           s3 \<leftarrow> free_obj name s2;
           s4 \<leftarrow> dentry_put d s3;
           Some (ret, s4)
         })
    }"

text \<open>The file system of an open file.\<close>

definition file_fs :: "nat \<Rightarrow> 'z fstate_scheme \<Rightarrow> fs_kind option" where
  "file_fs f s =
    do {
      fl \<leftarrow> files s f;
      x \<leftarrow> dents s (f_dentry fl);
      sb \<leftarrow> get_sb (d_sb x) s;
      Some (sb_fs sb)
    }"

definition vfs_close ::
  "'z fstate_scheme drivers \<Rightarrow> nat \<Rightarrow> 'z fstate_scheme \<Rightarrow> (int \<times> 'z fstate_scheme) option" where
  "vfs_close drv f s =
    do {
      s1 \<leftarrow> set_file f (\<lambda>y. y\<lparr>f_refcnt := f_refcnt y - 1\<rparr>) s;
      fl \<leftarrow> files s1 f;
      if f_refcnt fl \<noteq> 0 then Some (0, s1)
      else do {
        fs \<leftarrow> file_fs f s1;
        (ret, s2) \<leftarrow> (case fs_close drv fs of None \<Rightarrow> Some (0, s1) | Some g \<Rightarrow> g f s1);
        s3 \<leftarrow> dentry_put (f_dentry fl) s2;
        s4 \<leftarrow> free_obj f s3;
        Some (ret, s4)
      }
    }"

text \<open>\<open>f->offset += count\<close> for a positive count.\<close>

definition advance :: "nat \<Rightarrow> int \<Rightarrow> 'z fstate_scheme \<Rightarrow> 'z fstate_scheme option" where
  "advance f count s =
    (if 0 < count then set_file f (\<lambda>y. y\<lparr>f_offset := f_offset y + word_of_int count\<rparr>) s else Some s)"

definition vfs_read ::
  "'z fstate_scheme drivers \<Rightarrow> nat \<Rightarrow> nat \<Rightarrow> u32 \<Rightarrow> 'z fstate_scheme \<Rightarrow> (int \<times> 'z fstate_scheme) option" where
  "vfs_read drv f buf sz s =
    do {
      fl \<leftarrow> files s f;
      if f_openmode fl AND O_RDONLY = 0 then Some (- errno_code EINVAL, s)
      else do {
        fs \<leftarrow> file_fs f s;
        if sz = 0 then Some (0, s)
        else do {
          (count, s1) \<leftarrow> fs_read drv fs f (f_offset fl) buf sz s;
          s2 \<leftarrow> advance f count s1;
          Some (count, s2)
        }
      }
    }"

definition vfs_write ::
  "'z fstate_scheme drivers \<Rightarrow> nat \<Rightarrow> nat \<Rightarrow> u32 \<Rightarrow> 'z fstate_scheme \<Rightarrow> (int \<times> 'z fstate_scheme) option" where
  "vfs_write drv f buf sz s =
    do {
      fl \<leftarrow> files s f;
      if f_openmode fl AND O_WRONLY = 0 then Some (- errno_code EINVAL, s)
      else do {
        fs \<leftarrow> file_fs f s;
        if sz = 0 then Some (0, s)
        else do {
          (count, s1) \<leftarrow> fs_write drv fs f (f_offset fl) buf sz s;
          s2 \<leftarrow> advance f count s1;
          Some (count, s2)
        }
      }
    }"

text \<open>No file system has an \<open>lseek\<close> of its own.\<close>

definition vfs_lseek :: "nat \<Rightarrow> u32 \<Rightarrow> int \<Rightarrow> 'z fstate_scheme \<Rightarrow> (int \<times> 'z fstate_scheme) option" where
  "vfs_lseek f offset whence s =
    do {
      fl \<leftarrow> files s f;
      x \<leftarrow> dents s (f_dentry fl);
      let o1 = (if whence = SEEK_END then offset + (d_size x - f_offset fl) else offset);
      let o2 = (if whence = SEEK_END \<or> whence = SEEK_CUR then o1 + f_offset fl else o1);
      if whence = SEEK_END \<or> whence = SEEK_CUR \<or> whence = SEEK_SET then
        if d_size x < o2 then Some (- errno_code EINVAL, s)
        else do { s1 \<leftarrow> set_file f (\<lambda>y. y\<lparr>f_offset := o2\<rparr>) s; Some (sint o2, s1) }
      else Some (- errno_code EINVAL, s)
    }"

end
