(* ===== verification/FsTree.thy ===== *)
theory FsTree
  imports Vfs
begin

text \<open>
  Well-formed file-system states and what a path denotes in them: the invariant of the nodes,
  their private data and the superblocks, and the proof that \<open>lookup_path_common\<close>
  (\<open>src/src/fs/vfs.c\<close>) computes, for all its flags, what a pure walk through the tree computes.
\<close>

section \<open>Views of the state\<close>

lemma fstate_view [simp]:
  "heap_inv (dents_update f s) = heap_inv s" "live (dents_update f s) = live s"
  "grow_ready k (dents_update f s) = grow_ready k s"
  "heap_inv (sbs_update g s) = heap_inv s" "live (sbs_update g s) = live s"
  "grow_ready k (sbs_update g s) = grow_ready k s"
  "heap_inv (files_update h s) = heap_inv s" "live (files_update h s) = live s"
  "grow_ready k (files_update h s) = grow_ready k s"
  "heap_inv (privs_update i s) = heap_inv s" "live (privs_update i s) = live s"
  "grow_ready k (privs_update i s) = grow_ready k s"
  "heap_inv (names_update j s) = heap_inv s" "live (names_update j s) = live s"
  "grow_ready k (names_update j s) = grow_ready k s"
  "heap_inv (rootfs_update l s) = heap_inv s" "live (rootfs_update l s) = live s"
  "grow_ready k (rootfs_update l s) = grow_ready k s"
  "heap_inv (devfs_root_update n s) = heap_inv s" "live (devfs_root_update n s) = live s"
  "grow_ready k (devfs_root_update n s) = grow_ready k s"
  by (simp_all add: pmm_inv_def free_frames_def used_frames_def managed_def nframes_def
      pt_inv_def translate_def no_large_def heap_inv_def heap_blocks_def live_def
      grow_ready_def small_heap_def fun_eq_iff)

lemma same_fsD:
  assumes "kmem.more s' = kmem.more s"
  shows "dents s' = dents s" "sbs s' = sbs s" "files s' = files s" "privs s' = privs s"
    "names s' = names s" "fs_list s' = fs_list s" "rootfs s' = rootfs s"
    "devfs_root s' = devfs_root s" "fstate.more s' = fstate.more s"
  using assms by (cases s; cases s'; simp)+

lemma kmem_moreD: "heap.more s' = heap.more s \<Longrightarrow> kmem.more s' = kmem.more s \<and> mem s' = mem s"
  by (cases s; cases s'; simp)


section \<open>Well-formed file-system states\<close>

definition is_dir :: "dentry \<Rightarrow> bool" where
  "is_dir x \<longleftrightarrow> DIR_TYPE (d_mode x) = DIR_DIR"

text \<open>The heap blocks that hold file data.\<close>

definition data_blocks :: "'z fstate_scheme \<Rightarrow> nat set" where
  "data_blocks s = {q. q \<noteq> 0 \<and> (\<exists>a p n. privs s a = Some p \<and> p_rest p = Ramfs_data n q)}"

definition objects :: "'z fstate_scheme \<Rightarrow> nat set" where
  "objects s = dom (dents s) \<union> dom (sbs s) \<union> dom (files s) \<union> dom (privs s) \<union> dom (names s) \<union>
     data_blocks s"

text \<open>No address holds objects of two types.\<close>

definition one_kind :: "'z fstate_scheme \<Rightarrow> nat \<Rightarrow> bool" where
  "one_kind s a \<longleftrightarrow>
     length (filter id [dents s a \<noteq> None, sbs s a \<noteq> None, files s a \<noteq> None, privs s a \<noteq> None,
       names s a \<noteq> None, a \<in> data_blocks s]) \<le> 1"

definition dent_ok :: "'z fstate_scheme \<Rightarrow> nat \<Rightarrow> dentry \<Rightarrow> bool" where
  "dent_ok s d x \<longleftrightarrow> 0 < d_refcnt x \<and>
     (\<exists>p sb. privs s (d_priv x) = Some p \<and> p_dentry p = d \<and> get_sb (d_sb x) s = Some sb \<and>
        (case p_rest p of Ramfs_data _ _ \<Rightarrow> sb_fs sb = Ramfs | Devfs_ops _ \<Rightarrow> sb_fs sb = Devfs)) \<and>
     (\<forall>m. d_mnt x = Some m \<longrightarrow> get_sb m s \<noteq> None)"

definition priv_ok :: "'z fstate_scheme \<Rightarrow> nat \<Rightarrow> dpriv \<Rightarrow> bool" where
  "priv_ok s a p \<longleftrightarrow>
     (\<exists>x. dents s (p_dentry p) = Some x \<and> d_priv x = a) \<and> distinct (p_children p) \<and>
     (\<forall>c \<in> set (p_children p). privs s c \<noteq> None) \<and>
     (\<forall>b q. privs s b = Some q \<longrightarrow> set (p_children p) \<inter> set (p_children q) \<noteq> {} \<longrightarrow> a = b) \<and>
     (\<forall>n q. p_rest p = Ramfs_data n q \<longrightarrow> q \<noteq> 0 \<longrightarrow>
        (\<exists>m. (q, m) \<in> live s \<and> unat n \<le> m) \<and>
        (\<forall>b r n'. privs s b = Some r \<longrightarrow> p_rest r = Ramfs_data n' q \<longrightarrow> a = b))"

definition sb_ok :: "'z fstate_scheme \<Rightarrow> sb_ref \<Rightarrow> superblock \<Rightarrow> bool" where
  "sb_ok s m sb \<longleftrightarrow> (\<exists>y. dents s (root_dentry sb) = Some y \<and> is_dir y \<and> d_sb y = m)"

definition fs_inv :: "'z fstate_scheme \<Rightarrow> bool" where
  "fs_inv s \<longleftrightarrow> heap_inv s \<and> objects s \<subseteq> fst ` live s \<and> (\<forall>a. one_kind s a) \<and>
     (\<forall>d x. dents s d = Some x \<longrightarrow> dent_ok s d x) \<and>
     (\<forall>a p. privs s a = Some p \<longrightarrow> priv_ok s a p) \<and>
     (\<forall>m sb. get_sb m s = Some sb \<longrightarrow> sb_ok s m sb) \<and>
     rootfs s \<noteq> None"

lemma fs_invI:
  assumes "heap_inv s" "objects s \<subseteq> fst ` live s" "\<And>a. one_kind s a"
    "\<And>d x. dents s d = Some x \<Longrightarrow> dent_ok s d x" "\<And>a p. privs s a = Some p \<Longrightarrow> priv_ok s a p"
    "\<And>m sb. get_sb m s = Some sb \<Longrightarrow> sb_ok s m sb" "rootfs s \<noteq> None"
  shows "fs_inv s"
  using assms unfolding fs_inv_def by blast

lemma fs_invD:
  assumes "fs_inv s"
  shows "heap_inv s" "objects s \<subseteq> fst ` live s" "one_kind s a"
    "dents s d = Some x \<Longrightarrow> dent_ok s d x" "privs s a = Some p \<Longrightarrow> priv_ok s a p"
    "get_sb m s = Some sb \<Longrightarrow> sb_ok s m sb" "rootfs s \<noteq> None"
  using assms unfolding fs_inv_def by blast+

section \<open>Memory for names\<close>

lemma kmalloc_small:
  fixes s :: "'z heap_scheme"
  assumes inv: "heap_inv s" and rdy: "grow_ready (Suc k) s" and n: "unat (align8 n) + 4 \<le> 4096"
  obtains p and s' :: "'z heap_scheme" where "kmalloc n s = Some (p, s')" "p \<noteq> 0" "p \<notin> fst ` live s"
    "heap_inv s'" "grow_ready k s'" "live s' = insert (p, unat (align8 n)) (live s)"
    "heap.more s' = heap.more s"
proof -
  obtain p and s' :: "'z heap_scheme" where a: "kmalloc n s = Some (p, s')" "p \<noteq> 0" "grow_ready k s'"
    using kmalloc_total_ready [of s 1 k n] inv rdy n by auto
  then show ?thesis
    using that kheap.alloc_block [OF inv a(1,2)] kheap.alloc_fresh [OF inv a(1,2)] kmalloc_more [OF a(1)]
    by blast
qed

lemma align8_bound: "unat n \<le> m \<Longrightarrow> m < 2 ^ 32 - 8 \<Longrightarrow> unat (align8 n) \<le> m + 7"
  using align8_ge(2) [of n] by simp

text \<open>The type and the rest that \<open>get_next_component\<close> computes.\<close>

definition first_comp :: "string \<Rightarrow> string" where
  "first_comp path = takeWhile (\<lambda>c. c \<noteq> CHR ''/'') path"

definition next_path :: "string \<Rightarrow> string" where
  "next_path path = dropWhile (\<lambda>c. c = CHR ''/'') (dropWhile (\<lambda>c. c \<noteq> CHR ''/'') path)"

definition comp_type :: "string \<Rightarrow> comp" where
  "comp_type path =
    (if next_path path \<noteq> [] then COMP_NORM
     else if CHR ''/'' \<in> set path then COMP_LAST_SLASH else COMP_LAST)"

lemma get_next_component_spec:
  fixes s :: "'z fstate_scheme"
  assumes inv: "heap_inv s" and rdy: "grow_ready (Suc k) s"
    and p: "path \<noteq> []" "length (first_comp path) \<le> 4000"
  obtains buf and s1 :: "'z fstate_scheme" where
    "get_next_component path s =
       Some (comp_type path, next_path path, Some buf, s1\<lparr>names := (names s)(buf \<mapsto> first_comp path)\<rparr>)"
    "buf \<noteq> 0" "buf \<notin> fst ` live s" "heap_inv s1" "grow_ready k s1" "live s \<subseteq> live s1" "buf \<in> fst ` live s1"
    "heap.more s1 = heap.more s"
proof -
  let ?n = "of_nat (length (first_comp path) + 1) :: u32"
  have "unat ?n \<le> 4001" using p(2) by (simp only: unat_of_nat) simp
  then have n: "unat (align8 ?n) + 4 \<le> 4096" using align8_bound [of ?n 4001] by simp
  obtain buf and s1 :: "'z fstate_scheme" where a: "kmalloc ?n s = Some (buf, s1)" "buf \<noteq> 0"
    "buf \<notin> fst ` live s" "heap_inv s1" "grow_ready k s1"
    "live s1 = insert (buf, unat (align8 ?n)) (live s)" "heap.more s1 = heap.more s"
    using kmalloc_small [OF inv rdy n] .
  have nm: "names s1 = names s" using same_fsD(5) kmem_moreD a(7) by blast
  define p where "p = dropWhile (\<lambda>c. c \<noteq> CHR ''/'') path"
  have sl: "CHR ''/'' \<in> set path \<longleftrightarrow> p \<noteq> []"
    by (auto simp: p_def dropWhile_eq_Nil_conv)
  define q where "q = dropWhile (\<lambda>c. c = CHR ''/'') p"
  have a1: "kmalloc (of_nat (Suc (length (first_comp path)))) s = Some (buf, s1)"
    using a(1) by (simp only: Suc_eq_plus1)
  have "get_next_component path s =
     Some (comp_type path, next_path path, Some buf, s1\<lparr>names := (names s)(buf \<mapsto> first_comp path)\<rparr>)"
    unfolding get_next_component_def comp_type_def sl next_path_def
      p_def [symmetric] first_comp_def [symmetric] q_def [symmetric] Let_def Suc_eq_plus1 [symmetric]
    using p(1) a(2) by (cases "p = []"; cases "q = []") (simp_all add: a1 nm q_def del: of_nat_Suc)
  moreover have "live s \<subseteq> live s1" "buf \<in> fst ` live s1" unfolding a(6) by auto
  ultimately show ?thesis using that [OF _ a(2,3,4,5) _ _ a(7)] by blast
qed


section \<open>Small steps keep the invariant\<close>

lemma get_sb_cong: "sbs s' = sbs s \<Longrightarrow> rootfs s' = rootfs s \<Longrightarrow> get_sb m s' = get_sb m s"
  by (cases m) (simp_all add: get_sb_def)

lemma data_blocks_cong: "privs s' = privs s \<Longrightarrow> data_blocks s' = data_blocks s"
  by (simp add: data_blocks_def)

lemma priv_ok_transfer:
  assumes p: "priv_ok s a p" "privs s a = Some p" and eq: "privs s' = privs s" "dents s' = dents s"
    and l: "\<And>q m. q \<in> data_blocks s \<Longrightarrow> (q, m) \<in> live s \<Longrightarrow> (q, m) \<in> live s'"
  shows "priv_ok s' a p"
proof -
  have "\<exists>m. (q, m) \<in> live s' \<and> unat n \<le> m" if q: "p_rest p = Ramfs_data n q" "q \<noteq> 0" for n q
  proof -
    have "q \<in> data_blocks s" using p(2) q by (auto simp: data_blocks_def)
    moreover obtain m where "(q, m) \<in> live s" "unat n \<le> m"
      using p(1) q unfolding priv_ok_def by blast
    ultimately show ?thesis using l by blast
  qed
  then show ?thesis using p(1) unfolding priv_ok_def eq by metis
qed

text \<open>The nodes and superblocks are the same and the blocks of everything else are still
  allocated.\<close>

lemma fs_inv_transfer:
  assumes inv: "fs_inv s" and eq: "dents s' = dents s" "sbs s' = sbs s" "privs s' = privs s"
      "rootfs s' = rootfs s"
    and h: "heap_inv s'" "\<And>a. one_kind s' a" "objects s' \<subseteq> fst ` live s'"
    and l: "\<And>q m. q \<in> data_blocks s \<Longrightarrow> (q, m) \<in> live s \<Longrightarrow> (q, m) \<in> live s'"
  shows "fs_inv s'"
proof (rule fs_invI [OF h(1,3,2)])
  note g = get_sb_cong [OF eq(2,4)]
  show "dent_ok s' e z" if "dents s' e = Some z" for e z
    using fs_invD(4) [OF inv, of e z] that unfolding dent_ok_def g eq .
  show "priv_ok s' a p" if "privs s' a = Some p" for a p
  proof -
    have p: "privs s a = Some p" using that eq by simp
    show ?thesis by (rule priv_ok_transfer [OF fs_invD(5) [OF inv p] p eq(3,1)]) (rule l)
  qed
  show "sb_ok s' m sb" if "get_sb m s' = Some sb" for m sb
    using fs_invD(6) [OF inv, of m sb] that unfolding g sb_ok_def eq .
  show "rootfs s' \<noteq> None" using fs_invD(7) [OF inv] eq by simp
qed

lemma fs_inv_upd_dent:
  assumes inv: "fs_inv s" and d: "dents s d = Some x"
    and y: "d_priv y = d_priv x" "d_sb y = d_sb x" "d_mnt y = d_mnt x" "d_mode y = d_mode x" "0 < d_refcnt y"
  shows "fs_inv (s\<lparr>dents := (dents s)(d \<mapsto> y)\<rparr>)" (is "fs_inv ?s")
proof (rule fs_invI)
  have g: "get_sb m ?s = get_sb m s" for m by (rule get_sb_cong) simp_all
  have b: "data_blocks ?s = data_blocks s" by (rule data_blocks_cong) simp
  have "dom (dents ?s) = dom (dents s)" using d by auto
  then have "objects ?s = objects s" by (simp add: objects_def b)
  then show "objects ?s \<subseteq> fst ` live ?s" using fs_invD(2) [OF inv] by simp
  show "one_kind ?s a" for a
    using fs_invD(3) [OF inv, of a] d by (cases "a = d") (simp_all add: one_kind_def b)
  show "dent_ok ?s e z" if "dents ?s e = Some z" for e z
    using that d y fs_invD(4) [OF inv, of e] fs_invD(4) [OF inv d]
    unfolding dent_ok_def g by (cases "e = d") simp_all
  show "priv_ok ?s a p" if "privs ?s a = Some p" for a p
  proof -
    have "priv_ok s a p" using inv that by (simp add: fs_invD)
    then show ?thesis using d y(1) unfolding priv_ok_def by auto
  qed
  show "sb_ok ?s m sb" if "get_sb m ?s = Some sb" for m sb
    using fs_invD(6) [OF inv, of m sb] that d y unfolding g sb_ok_def is_dir_def by auto
  show "heap_inv ?s" "rootfs ?s \<noteq> None" using fs_invD(1,7) [OF inv] by simp_all
qed

lemma fs_inv_add_name:
  fixes s s1 :: "'z fstate_scheme"
  assumes inv: "fs_inv s" and m: "heap.more s1 = heap.more s" and h: "heap_inv s1"
    and l: "live s \<subseteq> live s1" "buf \<in> fst ` live s1" "buf \<notin> fst ` live s"
  shows "fs_inv (s1\<lparr>names := (names s)(buf \<mapsto> str)\<rparr>)" (is "fs_inv ?s")
proof (rule fs_inv_transfer [OF inv])
  note eq = same_fsD [OF conjunct1 [OF kmem_moreD [OF m]]]
  have b: "data_blocks ?s = data_blocks s" by (rule data_blocks_cong) (simp add: eq)
  have o: "objects ?s = insert buf (objects s)" unfolding objects_def b by (auto simp: eq)
  have "objects s \<subseteq> fst ` live s1"
    using fs_invD(2) [OF inv] image_mono [OF l(1), of fst] by (rule order.trans)
  then show "objects ?s \<subseteq> fst ` live ?s" using l(2) unfolding o by simp
  have nb: "buf \<notin> objects s" using fs_invD(2) [OF inv] l(3) by auto
  show "one_kind ?s a" for a
    using fs_invD(3) [OF inv, of a] nb by (cases "a = buf") (auto simp: one_kind_def b eq objects_def)
  show "dents ?s = dents s" "sbs ?s = sbs s" "privs ?s = privs s" "rootfs ?s = rootfs s" "heap_inv ?s"
    using h by (simp_all add: eq)
  show "(q, m) \<in> live ?s" if "(q, m) \<in> live s" for q m using that l(1) by auto
qed

lemma free_name:
  fixes s :: "'z fstate_scheme"
  assumes inv: "fs_inv s" and n: "names s buf = Some str"
  obtains h where "free_obj buf s = Some (s\<lparr>hdr := h, names := (names s)(buf := None)\<rparr>)"
    "fs_inv (s\<lparr>hdr := h, names := (names s)(buf := None)\<rparr>)"
proof -
  have ob: "buf \<in> objects s" using n by (auto simp: objects_def)
  then obtain sz where lv: "(buf, sz) \<in> live s" using fs_invD(2) [OF inv] by auto
  obtain s1 :: "'z fstate_scheme" where k: "kfree buf s = Some s1" "heap_inv s1"
    "live s1 = live s - {(buf, sz)}" "4 \<le> buf"
    using kfree_spec [OF fs_invD(1) [OF inv] lv] by metis
  obtain h where h: "s1 = s\<lparr>hdr := h\<rparr>" using kfree_hdr [OF k(1)] .
  have no: "dents s buf = None" "sbs s buf = None" "files s buf = None" "privs s buf = None"
    "buf \<notin> data_blocks s"
    using n fs_invD(3) [OF inv, of buf] by (auto simp: one_kind_def split: if_splits)
  let ?s = "s\<lparr>hdr := h, names := (names s)(buf := None)\<rparr>"
  have "s\<lparr>hdr := h, dents := dents s, sbs := sbs s, files := files s, privs := privs s,
      names := (names s)(buf := None)\<rparr> = ?s" by simp
  then have f: "free_obj buf s = Some ?s"
    using k(1,4) no by (simp add: free_obj_def h fun_upd_idem)
  have lv': "live ?s = live s - {(buf, sz)}" using k(3) unfolding h by simp
  have "fs_inv ?s"
  proof (rule fs_inv_transfer [OF inv])
    have b: "data_blocks ?s = data_blocks s" by (rule data_blocks_cong) simp
    have "objects ?s \<subseteq> objects s - {buf}" using no unfolding objects_def b by auto
    also have "\<dots> \<subseteq> fst ` live s - {buf}" using fs_invD(2) [OF inv] by blast
    also have "\<dots> \<subseteq> fst ` live ?s" unfolding lv' by force
    finally show "objects ?s \<subseteq> fst ` live ?s" .
    show "one_kind ?s a" for a
      using fs_invD(3) [OF inv, of a] by (cases "a = buf") (auto simp: one_kind_def b split: if_splits)
    show "heap_inv ?s" using k(2) unfolding h by simp
    show "(q, m) \<in> live ?s" if "q \<in> data_blocks s" "(q, m) \<in> live s" for q m
      using that no(5) unfolding lv' by auto
  qed simp_all
  then show ?thesis using that f by blast
qed

lemma set_dent_eq: "dents s d = Some x \<Longrightarrow> set_dent d f s = Some (s\<lparr>dents := (dents s)(d \<mapsto> f x)\<rparr>)"
  by (simp add: set_dent_def)

lemma dentry_get_eq:
  "dents s d = Some x \<Longrightarrow>
    dentry_get d s = Some (d, s\<lparr>dents := (dents s)(d \<mapsto> x\<lparr>d_refcnt := d_refcnt x + 1\<rparr>)\<rparr>)"
  by (simp add: dentry_get_def set_dent_eq)

lemma dentry_put_shared:
  "dents s d = Some x \<Longrightarrow> 1 < d_refcnt x \<Longrightarrow>
    dentry_put d s = Some (s\<lparr>dents := (dents s)(d \<mapsto> x\<lparr>d_refcnt := d_refcnt x - 1\<rparr>)\<rparr>)"
  by (simp add: dentry_put.simps set_dent_eq)


section \<open>The tree\<close>

text \<open>Two states have the same tree when they differ only in reference counts, remembered
  parents, names being worked on and the heap's headers.\<close>

definition tree_part :: "dentry \<Rightarrow> dentry" where
  "tree_part x = x\<lparr>d_refcnt := 0, d_parent := 0\<rparr>"

definition same_tree :: "'z fstate_scheme \<Rightarrow> 'z fstate_scheme \<Rightarrow> bool" where
  "same_tree s s' \<longleftrightarrow>
     (\<forall>d. map_option tree_part (dents s' d) = map_option tree_part (dents s d)) \<and>
     sbs s' = sbs s \<and> files s' = files s \<and> privs s' = privs s \<and> rootfs s' = rootfs s \<and>
     fs_list s' = fs_list s \<and> devfs_root s' = devfs_root s \<and> mem s' = mem s \<and>
     fstate.more s' = fstate.more s"

lemma same_tree_refl [simp, intro]: "same_tree s s"
  by (simp add: same_tree_def)

lemma same_tree_trans [trans]: "same_tree s s' \<Longrightarrow> same_tree s' s'' \<Longrightarrow> same_tree s s''"
  by (simp add: same_tree_def)

lemma same_tree_upd:
  "dents s d = Some x \<Longrightarrow> tree_part y = tree_part x \<Longrightarrow> same_tree s (s\<lparr>dents := (dents s)(d \<mapsto> y)\<rparr>)"
  by (simp add: same_tree_def)

lemma same_tree_names [simp]: "same_tree s (s\<lparr>hdr := h, names := n\<rparr>)"
  by (simp add: same_tree_def)

lemma same_tree_more: "heap.more s' = heap.more s \<Longrightarrow> same_tree s (s'\<lparr>names := n\<rparr>)"
  using same_fsD [of s' s] kmem_moreD [of s' s] by (simp add: same_tree_def)

text \<open>The directory a node stands for, its entries, and the entry of a given name.\<close>

definition mnt_dir :: "'z fstate_scheme \<Rightarrow> nat \<Rightarrow> nat" where
  "mnt_dir s d =
    (case d_mnt (the (dents s d)) of None \<Rightarrow> d | Some m \<Rightarrow> root_dentry (the (get_sb m s)))"

definition entries :: "'z fstate_scheme \<Rightarrow> nat \<Rightarrow> nat list" where
  "entries s d = map (\<lambda>c. p_dentry (the (privs s c)))
     (p_children (the (privs s (d_priv (the (dents s d))))))"

definition child :: "'z fstate_scheme \<Rightarrow> nat \<Rightarrow> string \<Rightarrow> nat option" where
  "child s d name = List.find (\<lambda>e. d_name (the (dents s e)) = name) (entries s (mnt_dir s d))"

definition dir_at :: "'z fstate_scheme \<Rightarrow> nat \<Rightarrow> bool" where
  "dir_at s d \<longleftrightarrow> is_dir (the (dents s d))"

lemma tree_partD:
  "tree_part x = tree_part y \<Longrightarrow> d_name x = d_name y \<and> d_sb x = d_sb y \<and> d_mnt x = d_mnt y \<and>
     d_priv x = d_priv y \<and> d_mode x = d_mode y \<and> d_size x = d_size y"
  by (cases x; cases y) (simp add: tree_part_def)

lemma same_tree_dent:
  assumes "same_tree s s'" "dents s d = Some x"
  obtains x' where "dents s' d = Some x'" "tree_part x' = tree_part x"
  using assms by (auto simp: same_tree_def dest!: spec [of _ d])

lemma entries_same_tree:
  assumes st: "same_tree s s'" and d: "dents s d = Some x"
  shows "entries s' d = entries s d"
proof -
  obtain x' where "dents s' d = Some x'" "d_priv x' = d_priv x"
    using same_tree_dent [OF st d] tree_partD by metis
  then show ?thesis using st d by (simp add: entries_def same_tree_def)
qed

lemma mnt_dir_same_tree:
  assumes st: "same_tree s s'" and d: "dents s d = Some x"
  shows "mnt_dir s' d = mnt_dir s d"
proof -
  have "get_sb m s' = get_sb m s" for m by (rule get_sb_cong) (use st in \<open>auto simp: same_tree_def\<close>)
  moreover obtain x' where "dents s' d = Some x'" "d_mnt x' = d_mnt x"
    using same_tree_dent [OF st d] tree_partD by metis
  ultimately show ?thesis using d by (cases "d_mnt x") (simp_all add: mnt_dir_def)
qed

lemma dir_at_same_tree:
  assumes st: "same_tree s s'" and d: "dents s d = Some x"
  shows "dir_at s' d = dir_at s d"
proof -
  obtain x' where "dents s' d = Some x'" "d_mode x' = d_mode x"
    using same_tree_dent [OF st d] tree_partD by metis
  then show ?thesis using d by (simp add: dir_at_def is_dir_def)
qed

section \<open>Looking for a name in a directory\<close>

lemma mnt_dir_facts:
  assumes inv: "fs_inv s" and d: "dents s d = Some x" "is_dir x"
  obtains y where "dents s (mnt_dir s d) = Some y" "is_dir y"
    "\<exists>fs sb. through_mount d s = Some (fs, mnt_dir s d) \<and> get_sb (d_sb y) s = Some sb \<and> sb_fs sb = fs"
proof (cases "d_mnt x")
  case None
  obtain sb where "get_sb (d_sb x) s = Some sb" using fs_invD(4) [OF inv d(1)] by (auto simp: dent_ok_def)
  then show ?thesis using that [of x] d None by (simp add: mnt_dir_def through_mount_def)
next
  case (Some m)
  then obtain sb where sb: "get_sb m s = Some sb"
    using fs_invD(4) [OF inv d(1)] by (auto simp: dent_ok_def)
  obtain y where "dents s (root_dentry sb) = Some y" "is_dir y" "d_sb y = m"
    using fs_invD(6) [OF inv sb] by (auto simp: sb_ok_def)
  then show ?thesis using that [of y] d Some sb by (simp add: mnt_dir_def through_mount_def)
qed

lemma find_child_eq:
  assumes inv: "fs_inv s" and c: "\<forall>c \<in> set cs. privs s c \<noteq> None"
  shows "find_child cs name s =
    Some (List.find (\<lambda>e. d_name (the (dents s e)) = name) (map (\<lambda>c. p_dentry (the (privs s c))) cs))"
  using c
proof (induction cs)
  case (Cons c cs)
  obtain p where p: "privs s c = Some p" using Cons.prems by auto
  obtain x where "dents s (p_dentry p) = Some x" using fs_invD(5) [OF inv p] by (auto simp: priv_ok_def)
  then show ?case using Cons p by simp
qed simp

lemma entries_dents:
  assumes inv: "fs_inv s" and d: "dents s d = Some x" and e: "e \<in> set (entries s d)"
  obtains y where "dents s e = Some y"
proof -
  obtain p where p: "privs s (d_priv x) = Some p" using fs_invD(4) [OF inv d] by (auto simp: dent_ok_def)
  obtain c where c: "c \<in> set (p_children p)" "e = p_dentry (the (privs s c))"
    using e d p by (auto simp: entries_def)
  obtain q where q: "privs s c = Some q" using fs_invD(5) [OF inv p] c(1) by (auto simp: priv_ok_def)
  then show ?thesis using that fs_invD(5) [OF inv q] c(2) by (auto simp: priv_ok_def)
qed

lemma child_dents:
  assumes inv: "fs_inv s" and d: "dents s d = Some x" "is_dir x" and e: "child s d name = Some e"
  obtains y where "dents s e = Some y" "d_name y = name"
proof -
  obtain z where z: "dents s (mnt_dir s d) = Some z" using mnt_dir_facts [OF inv d] .
  have e: "e \<in> set (entries s (mnt_dir s d))" "d_name (the (dents s e)) = name"
    using e by (auto simp: child_def find_Some_iff)
  obtain y where "dents s e = Some y" using entries_dents [OF inv z e(1)] .
  then show ?thesis using that e(2) by simp
qed

lemma fs_lookup_eq:
  assumes inv: "fs_inv s" and d: "dents s d = Some x" "is_dir x"
  shows "\<exists>fs. through_mount d s = Some (fs, mnt_dir s d) \<and>
    fs_lookup fs (mnt_dir s d) name s =
      Some (case child s d name of
          None \<Rightarrow> (Inl ENOENT, s)
        | Some e \<Rightarrow> (Inr e, s\<lparr>dents := (dents s)(e \<mapsto> (the (dents s e))\<lparr>d_refcnt := d_refcnt (the (dents s e)) + 1\<rparr>)\<rparr>))"
proof -
  obtain y fs sb where y: "dents s (mnt_dir s d) = Some y" "is_dir y"
    "through_mount d s = Some (fs, mnt_dir s d)"
    using mnt_dir_facts [OF inv d] by metis
  obtain p where p: "privs s (d_priv y) = Some p" using fs_invD(4) [OF inv y(1)] by (auto simp: dent_ok_def)
  have c: "\<forall>c \<in> set (p_children p). privs s c \<noteq> None" using fs_invD(5) [OF inv p] by (simp add: priv_ok_def)
  have f: "find_child (p_children p) name s = Some (child s d name)"
    using find_child_eq [OF inv c] y(1) p by (simp add: child_def entries_def)
  have "fs_lookup fs (mnt_dir s d) name s = lookup_node (mnt_dir s d) name s"
    by (cases fs) (simp_all add: ramfs_lookup_def devfs_lookup_def)
  moreover have "lookup_node (mnt_dir s d) name s =
      Some (case child s d name of
          None \<Rightarrow> (Inl ENOENT, s)
        | Some e \<Rightarrow> (Inr e, s\<lparr>dents := (dents s)(e \<mapsto> (the (dents s e))\<lparr>d_refcnt := d_refcnt (the (dents s e)) + 1\<rparr>)\<rparr>))"
  proof (cases "child s d name")
    case None
    then show ?thesis using y p f by (simp add: lookup_node_def is_dir_def)
  next
    case (Some e)
    then obtain z where "dents s e = Some z" using child_dents [OF inv d] by metis
    then show ?thesis using Some y p f by (simp add: lookup_node_def is_dir_def dentry_get_eq)
  qed
  ultimately show ?thesis using y(3) by auto
qed


lemma find_cong: "(\<And>x. x \<in> set xs \<Longrightarrow> P x = Q x) \<Longrightarrow> List.find P xs = List.find Q xs"
  by (induction xs) auto

lemma child_same_tree:
  assumes st: "same_tree s s'" and inv: "fs_inv s" and d: "dents s d = Some x" "is_dir x"
  shows "child s' d name = child s d name"
proof -
  obtain y where y: "dents s (mnt_dir s d) = Some y" using mnt_dir_facts [OF inv d] by metis
  have nm: "d_name (the (dents s' e)) = d_name (the (dents s e))" if e: "e \<in> set (entries s (mnt_dir s d))" for e
  proof -
    obtain z where "dents s e = Some z" using entries_dents [OF inv y e] .
    then obtain z' where "dents s' e = Some z'" "tree_part z' = tree_part z" "dents s e = Some z"
      using same_tree_dent [OF st] by metis
    then show ?thesis using tree_partD by (metis option.sel)
  qed
  show ?thesis
    unfolding child_def mnt_dir_same_tree [OF st d(1)] entries_same_tree [OF st y]
    by (rule find_cong) (simp add: nm)
qed

section \<open>What a path denotes\<close>

function components :: "string \<Rightarrow> string list" where
  "components path = (if path = [] then [] else first_comp path # components (next_path path))"
  by auto
termination
proof (relation "measure length")
  fix path :: string
  assume "path \<noteq> []"
  then show "(next_path path, path) \<in> measure length"
    using length_dropWhile_le [of "\<lambda>c. c = CHR ''/''" "dropWhile (\<lambda>c. c \<noteq> CHR ''/'') path"]
      length_dropWhile_le [of "\<lambda>c. c \<noteq> CHR ''/''" "tl path"]
      length_dropWhile_le [of "\<lambda>c. c = CHR ''/''" "tl path"]
    by (cases path) (auto simp: next_path_def)
qed simp

declare components.simps [simp del]

fun resolve ::
  "u32 \<Rightarrow> bool \<Rightarrow> 'z fstate_scheme \<Rightarrow> string list \<Rightarrow> nat \<Rightarrow> errno + nat" where
  "resolve fl sl s [] d = Inr d"
| "resolve fl sl s (c # cs) d =
    (let ty = (if cs \<noteq> [] then COMP_NORM else if sl then COMP_LAST_SLASH else COMP_LAST)
     in if is_last ty fl \<and> fl AND LAST_RETURN \<noteq> 0 then Inr d
        else
          case child s d c of
            None \<Rightarrow> if is_last ty fl \<and> fl AND LAST_MUST_NOT_EXIST \<noteq> 0 then Inr d else Inl ENOENT
          | Some e \<Rightarrow>
              if is_last ty fl \<and> fl AND LAST_MUST_NOT_EXIST \<noteq> 0 then Inl EEXIST
              else if dir_at s e then resolve fl sl s cs e
              else if ty \<noteq> COMP_LAST \<or> fl AND LAST_MUST_BE_DIR \<noteq> 0 then Inl ENOTDIR
              else Inr e)"

definition ends_in_slash :: "string \<Rightarrow> bool" where
  "ends_in_slash path \<longleftrightarrow> path \<noteq> [] \<and> last path = CHR ''/''"

lemma resolve_same_tree:
  assumes st: "same_tree s s'" and inv: "fs_inv s" and d: "dents s d = Some x" "is_dir x"
  shows "resolve fl sl s' cs d = resolve fl sl s cs d"
  using d
proof (induction cs arbitrary: d x)
  case (Cons c cs)
  note ch = child_same_tree [OF st inv Cons.prems, of c]
  show ?case
  proof (cases "child s d c")
    case None
    then show ?thesis using ch by (simp add: Let_def)
  next
    case (Some e)
    obtain y where y: "dents s e = Some y" using child_dents [OF inv Cons.prems Some] .
    have da: "dir_at s' e = dir_at s e" by (rule dir_at_same_tree [OF st y])
    show ?thesis
    proof (cases "dir_at s e")
      case True
      then have "resolve fl sl s' cs e = resolve fl sl s cs e" using Cons.IH [OF y] y by (simp add: dir_at_def)
      then show ?thesis using ch Some da True unfolding resolve.simps Let_def by simp
    next
      case False
      then show ?thesis using ch Some da unfolding resolve.simps Let_def by simp
    qed
  qed
qed simp

lemma comp_type_eq:
  assumes "path \<noteq> []"
  shows "comp_type path = (if components (next_path path) \<noteq> [] then COMP_NORM
    else if ends_in_slash path then COMP_LAST_SLASH else COMP_LAST)"
proof -
  have n: "components (next_path path) \<noteq> [] \<longleftrightarrow> next_path path \<noteq> []"
    by (subst components.simps) simp
  have "CHR ''/'' \<in> set path \<longleftrightarrow> ends_in_slash path" if e: "next_path path = []"
  proof -
    let ?t = "takeWhile (\<lambda>c. c \<noteq> CHR ''/'') path" and ?p = "dropWhile (\<lambda>c. c \<noteq> CHR ''/'') path"
    have p: "\<forall>c \<in> set ?p. c = CHR ''/''" using e unfolding next_path_def dropWhile_eq_Nil_conv .
    have eq: "path = ?t @ ?p" by simp
    show ?thesis
    proof (cases "?p = []")
      case True
      have "CHR ''/'' \<notin> set path" using True by (auto simp: dropWhile_eq_Nil_conv)
      then show ?thesis using assms by (metis ends_in_slash_def last_in_set)
    next
      case False
      have "last path = last ?p" using eq False by (metis last_appendR)
      then have "last path = CHR ''/''" using p False last_in_set by metis
      moreover have "CHR ''/'' \<in> set path" using calculation assms last_in_set by metis
      ultimately show ?thesis using assms by (simp add: ends_in_slash_def)
    qed
  qed
  then show ?thesis unfolding comp_type_def n by simp
qed

lemma ends_in_slash_next:
  assumes "next_path path \<noteq> []"
  shows "ends_in_slash (next_path path) = ends_in_slash path"
proof -
  have "\<exists>xs. path = xs @ next_path path"
  proof -
    let ?p = "dropWhile (\<lambda>c. c \<noteq> CHR ''/'') path"
    have "path = takeWhile (\<lambda>c. c \<noteq> CHR ''/'') path @ takeWhile (\<lambda>c. c = CHR ''/'') ?p @ next_path path"
      unfolding next_path_def takeWhile_dropWhile_id by simp
    then show ?thesis by (metis append_assoc)
  qed
  then have "last path = last (next_path path)" "path \<noteq> []" using assms by (metis last_appendR, auto)
  then show ?thesis using assms by (simp add: ends_in_slash_def)
qed


section \<open>Path lookup finds what the path denotes\<close>

text \<open>What a lookup leaves behind: the same tree, a reference to the node it returns, and the
  copy of the last component if the caller asked for it.\<close>

definition looked_up ::
  "bool \<Rightarrow> string \<Rightarrow> 'z fstate_scheme \<Rightarrow> nat \<Rightarrow> errno + nat \<Rightarrow> nat option \<Rightarrow> 'z fstate_scheme \<Rightarrow> bool" where
  "looked_up want str s j r nm s' \<longleftrightarrow> fs_inv s' \<and> same_tree s s' \<and> grow_ready j s' \<and>
     (case r of
        Inl e \<Rightarrow> nm = None \<and> names s' = names s
      | Inr e \<Rightarrow> (\<exists>y. dents s' e = Some y \<and> 1 < d_refcnt y) \<and>
          (if want then \<exists>n. nm = Some n \<and> names s n = None \<and> names s' = (names s)(n \<mapsto> str)
           else nm = None \<and> names s' = names s))"

lemma ready_hdr_names: "grow_ready k (s\<lparr>hdr := h, names := n\<rparr>) = grow_ready k (s :: 'z fstate_scheme)"
  by simp

lemma lookup_done_ok:
  fixes s t :: "'z fstate_scheme"
  assumes inv: "fs_inv t" and st: "same_tree s t" and rdy: "grow_ready j t"
    and n: "names t = (names s)(n \<mapsto> str)" "names s n = None"
    and e: "dents t e = Some y" "1 < d_refcnt y"
  shows "\<exists>nm s'. lookup_done want e n t = Some (Inr e, nm, s') \<and> looked_up want str s j (Inr e) nm s'"
proof (cases want)
  case True
  then show ?thesis using assms by (auto simp: lookup_done_def looked_up_def)
next
  case False
  have "names t n = Some str" using n by simp
  then obtain h where f: "free_obj n t = Some (t\<lparr>hdr := h, names := (names t)(n := None)\<rparr>)"
    "fs_inv (t\<lparr>hdr := h, names := (names t)(n := None)\<rparr>)"
    using free_name [OF inv] by metis
  have "(names t)(n := None) = names s" using n by auto
  moreover have "same_tree s (t\<lparr>hdr := h, names := (names t)(n := None)\<rparr>)"
    using same_tree_trans [OF st same_tree_names] .
  ultimately show ?thesis using f e rdy False by (auto simp: lookup_done_def looked_up_def)
qed

lemma lookup_fail_ok:
  fixes s t :: "'z fstate_scheme"
  assumes inv: "fs_inv t" and st: "same_tree s t" and rdy: "grow_ready j t"
    and n: "names t = (names s)(n \<mapsto> str)" "names s n = None"
    and d: "dents t d = Some y" "1 < d_refcnt y"
  shows "\<exists>s'. lookup_fail e d n t = Some (Inl e, None, s') \<and> looked_up want str s j (Inl e) None s'"
proof -
  have "names t n = Some str" using n by simp
  then obtain h where f: "free_obj n t = Some (t\<lparr>hdr := h, names := (names t)(n := None)\<rparr>)"
    "fs_inv (t\<lparr>hdr := h, names := (names t)(n := None)\<rparr>)"
    using free_name [OF inv] by metis
  let ?t = "t\<lparr>hdr := h, names := (names t)(n := None)\<rparr>"
  let ?y = "y\<lparr>d_refcnt := d_refcnt y - 1\<rparr>"
  let ?u = "?t\<lparr>dents := (dents ?t)(d \<mapsto> ?y)\<rparr>"
  have dt: "dents ?t d = Some y" using d by simp
  have p: "dentry_put d ?t = Some ?u" using dentry_put_shared [OF dt d(2)] .
  have i: "fs_inv ?u" by (rule fs_inv_upd_dent [OF f(2) dt]) (use d(2) in simp_all)
  have "same_tree s ?u"
    using same_tree_trans [OF same_tree_trans [OF st same_tree_names] same_tree_upd [OF dt]]
    by (simp add: tree_part_def)
  moreover have "(names t)(n := None) = names s" using n by auto
  ultimately show ?thesis using f p i rdy by (simp add: lookup_fail_def looked_up_def)
qed

text \<open>A node that was looked up has one more reference; its parent is remembered.\<close>

lemma looked_up_node:
  fixes t :: "'z fstate_scheme"
  assumes inv: "fs_inv t" and e: "dents t e = Some y"
  defines "t2 \<equiv> t\<lparr>dents := (dents t)(e \<mapsto> y\<lparr>d_refcnt := d_refcnt y + 1\<rparr>)\<rparr>"
  obtains t3 z where "set_dent e (\<lambda>x. x\<lparr>d_parent := d\<rparr>) t2 = Some t3" "fs_inv t3" "same_tree t t3"
    "names t3 = names t" "dents t3 e = Some z" "1 < d_refcnt z" "is_dir z = is_dir y"
    "\<And>k. grow_ready k t3 = grow_ready k t"
proof -
  have r: "0 < d_refcnt y" using fs_invD(4) [OF inv e] by (simp add: dent_ok_def)
  have i2: "fs_inv t2" unfolding t2_def by (rule fs_inv_upd_dent [OF inv e]) (use r in simp_all)
  have e2: "dents t2 e = Some (y\<lparr>d_refcnt := d_refcnt y + 1\<rparr>)" by (simp add: t2_def)
  let ?z = "y\<lparr>d_refcnt := d_refcnt y + 1, d_parent := d\<rparr>"
  let ?t3 = "t2\<lparr>dents := (dents t2)(e \<mapsto> ?z)\<rparr>"
  have s: "set_dent e (\<lambda>x. x\<lparr>d_parent := d\<rparr>) t2 = Some ?t3" using set_dent_eq [OF e2] by simp
  have i3: "fs_inv ?t3" by (rule fs_inv_upd_dent [OF i2 e2]) (use r in simp_all)
  have "same_tree t t2" unfolding t2_def by (rule same_tree_upd [OF e]) (simp add: tree_part_def)
  also have "same_tree t2 ?t3" by (rule same_tree_upd [OF e2]) (simp add: tree_part_def)
  finally show ?thesis
    using that [OF s i3] r by (simp add: t2_def is_dir_def)
qed


lemma looked_up_later:
  assumes "looked_up want str t j r nm s'" "same_tree s t" "names t = names s"
  shows "looked_up want str s j r nm s'"
  using assms same_tree_trans [OF assms(2)] unfolding looked_up_def by (cases r) auto

lemma components_cons: "path \<noteq> [] \<Longrightarrow> components path = first_comp path # components (next_path path)"
  by (subst components.simps) simp

lemma components_nil [simp]: "components path = [] \<longleftrightarrow> path = []" "components [] = []"
  by (subst components.simps, simp)+

lemma resolve_path:
  assumes "path \<noteq> []"
  shows "resolve fl (ends_in_slash path) s (components path) d =
    (if is_last (comp_type path) fl \<and> fl AND LAST_RETURN \<noteq> 0 then Inr d
     else
       case child s d (first_comp path) of
         None \<Rightarrow> if is_last (comp_type path) fl \<and> fl AND LAST_MUST_NOT_EXIST \<noteq> 0 then Inr d else Inl ENOENT
       | Some e \<Rightarrow>
           if is_last (comp_type path) fl \<and> fl AND LAST_MUST_NOT_EXIST \<noteq> 0 then Inl EEXIST
           else if dir_at s e then resolve fl (ends_in_slash path) s (components (next_path path)) e
           else if comp_type path \<noteq> COMP_LAST \<or> fl AND LAST_MUST_BE_DIR \<noteq> 0 then Inl ENOTDIR
           else Inr e)"
  unfolding components_cons [OF assms] resolve.simps Let_def comp_type_eq [OF assms, symmetric] by simp

text \<open>One component that is in the directory.\<close>

lemma lookup_loop_found:
  fixes s t :: "'z fstate_scheme"
  assumes inv: "fs_inv t" and st: "same_tree s t" and rdy: "grow_ready (length (components (next_path path)) + j) t"
    and n: "names t = (names s)(n \<mapsto> first_comp path)" "names s n = None"
    and d: "dents t d = Some x" "is_dir x" and p: "path \<noteq> []"
    and e: "child t d (first_comp path) = Some e" "dents t e = Some y"
    and get: "get_next_component path s = Some (comp_type path, next_path path, Some n, t)"
    and nr: "\<not> (is_last (comp_type path) fl \<and> fl AND LAST_RETURN \<noteq> 0)"
    and IH: "\<And>(u :: 'z fstate_scheme) z. is_dir y \<Longrightarrow> next_path path \<noteq> [] \<Longrightarrow> fs_inv u \<Longrightarrow>
      grow_ready (length (components (next_path path)) + j) u \<Longrightarrow> dents u e = Some z \<Longrightarrow> is_dir z \<Longrightarrow>
      1 < d_refcnt z \<Longrightarrow>
      \<exists>nm s'. lookup_loop fl want (next_path path) e u =
          Some (resolve fl (ends_in_slash (next_path path)) u (components (next_path path)) e, nm, s') \<and>
        looked_up want (last (components (next_path path))) u j
          (resolve fl (ends_in_slash (next_path path)) u (components (next_path path)) e) nm s'"
  shows "\<exists>nm s'. lookup_loop fl want path d s =
        Some (resolve fl (ends_in_slash path) t (components path) d, nm, s') \<and>
      looked_up want (last (components path)) s j (resolve fl (ends_in_slash path) t (components path) d) nm s'"
proof -
  obtain fs where tm: "through_mount d t = Some (fs, mnt_dir t d)"
    "fs_lookup fs (mnt_dir t d) (first_comp path) t =
      Some (Inr e, t\<lparr>dents := (dents t)(e \<mapsto> y\<lparr>d_refcnt := d_refcnt y + 1\<rparr>)\<rparr>)"
    using fs_lookup_eq [OF inv d, of "first_comp path"] e by auto
  obtain t3 z where t3: "set_dent e (\<lambda>x. x\<lparr>d_parent := d\<rparr>)
      (t\<lparr>dents := (dents t)(e \<mapsto> y\<lparr>d_refcnt := d_refcnt y + 1\<rparr>)\<rparr>) = Some t3" "fs_inv t3" "same_tree t t3"
    "names t3 = names t" "dents t3 e = Some z" "1 < d_refcnt z" "is_dir z = is_dir y"
    "\<And>k. grow_ready k t3 = grow_ready k t"
    using looked_up_node [OF inv e(2)] by metis
  have st3: "same_tree s t3" using same_tree_trans [OF st t3(3)] .
  have n3: "names t3 = (names s)(n \<mapsto> first_comp path)" using n t3(4) by simp
  have nt: "names t n = Some (first_comp path)" using n by simp
  have r3: "grow_ready (length (components (next_path path)) + j) t3" using rdy t3(8) by simp
  have rj: "grow_ready j t3" using grow_ready_mono [OF r3] .
  have ty: "comp_type path \<noteq> COMP_NO_MORE" by (simp add: comp_type_def)
  have dz: "DIR_TYPE (d_mode z) = DIR_DIR \<longleftrightarrow> is_dir y" using t3(7) by (simp add: is_dir_def)
  note cs = components_cons [OF p]
  have da: "dir_at t e = is_dir y" using e(2) by (simp add: dir_at_def)
  note body = lookup_loop.simps [of fl want path d s] get ty nr nt tm t3(1,5) dz
  note res = resolve_path [OF p] nr e(1) da
  let ?k = "is_last (comp_type path) fl \<and> fl AND LAST_MUST_NOT_EXIST \<noteq> 0"
  consider (exists) "?k" | (plain) "\<not> ?k" "\<not> is_dir y" | (dir) "\<not> ?k" "is_dir y" "next_path path = []"
    | (more) "\<not> ?k" "is_dir y" "next_path path \<noteq> []" by blast
  then show ?thesis
  proof cases
    case exists
    have r: "resolve fl (ends_in_slash path) t (components path) d = Inl EEXIST" using exists nr by (auto simp: res)
    have b: "lookup_loop fl want path d s = lookup_fail EEXIST e n t3" using exists nr by (auto simp add: body)
    show ?thesis
      using lookup_fail_ok [OF t3(2) st3 rj n3 n(2) t3(5,6), of EEXIST] unfolding r b looked_up_def by auto
  next
    case plain
    show ?thesis
    proof (cases "comp_type path \<noteq> COMP_LAST \<or> fl AND LAST_MUST_BE_DIR \<noteq> 0")
      case True
      have r: "resolve fl (ends_in_slash path) t (components path) d = Inl ENOTDIR"
        using plain True using nr by (auto simp: res)
      have "comp_type path = COMP_NORM \<or> comp_type path = COMP_LAST_SLASH \<or> fl AND LAST_MUST_BE_DIR \<noteq> 0"
        using True by (cases "comp_type path") (simp_all add: ty)
      then have b: "lookup_loop fl want path d s = lookup_fail ENOTDIR e n t3" using plain using nr by (auto simp: body)
      show ?thesis
        using lookup_fail_ok [OF t3(2) st3 rj n3 n(2) t3(5,6), of ENOTDIR] unfolding r b looked_up_def by auto
    next
      case False
      then have l: "comp_type path = COMP_LAST" "next_path path = []"
        by (simp_all add: comp_type_def split: if_splits)
      have r: "resolve fl (ends_in_slash path) t (components path) d = Inr e" using plain False using nr by (auto simp: res)
      have b: "lookup_loop fl want path d s = lookup_done want e n t3" using plain False l using nr by (auto simp: body)
      have la: "last (components path) = first_comp path" using l by (simp add: cs)
      show ?thesis
        using lookup_done_ok [OF t3(2) st3 rj n3 n(2) t3(5,6)] unfolding r b la by blast
    qed
  next
    case dir
    have l: "comp_type path = COMP_LAST \<or> comp_type path = COMP_LAST_SLASH"
      using dir by (simp add: comp_type_def)
    have r: "resolve fl (ends_in_slash path) t (components path) d = Inr e" using dir using nr by (auto simp: res)
    have b: "lookup_loop fl want path d s = lookup_done want e n t3" using dir l using nr by (auto simp: body)
    have la: "last (components path) = first_comp path" using dir by (simp add: cs)
    show ?thesis
      using lookup_done_ok [OF t3(2) st3 rj n3 n(2) t3(5,6)] unfolding r b la by blast
  next
    case more
    have l: "comp_type path = COMP_NORM" using more by (simp add: comp_type_def)
    have "names t3 n = Some (first_comp path)" using n3 by simp
    then obtain h where f: "free_obj n t3 = Some (t3\<lparr>hdr := h, names := (names t3)(n := None)\<rparr>)"
      "fs_inv (t3\<lparr>hdr := h, names := (names t3)(n := None)\<rparr>)"
      using free_name [OF t3(2)] by metis
    let ?u = "t3\<lparr>hdr := h, names := (names t3)(n := None)\<rparr>"
    have su: "same_tree s ?u" using same_tree_trans [OF st3 same_tree_names] .
    have tu: "same_tree t ?u" using same_tree_trans [OF t3(3) same_tree_names] .
    have nu: "names ?u = names s" using n3 n(2) by auto
    have ru: "resolve fl (ends_in_slash (next_path path)) ?u (components (next_path path)) e =
        resolve fl (ends_in_slash path) t (components path) d"
      using resolve_same_tree [OF tu inv e(2) more(2)] more l ends_in_slash_next [OF more(3)]
      using nr by (auto simp: res)
    have b: "lookup_loop fl want path d s = lookup_loop fl want (next_path path) e ?u"
      using more l f using nr by (auto simp: body)
    have la: "last (components path) = last (components (next_path path))" using more by (simp add: cs)
    have "is_dir z" using t3(7) more by simp
    from IH [OF more(2,3) f(2), of z] this r3 t3(5,6)
    show ?thesis unfolding b la ru using looked_up_later [OF _ su nu] by auto
  qed
qed

lemma lookup_loop_resolves:
  fixes s :: "'z fstate_scheme"
  assumes "fs_inv s" "grow_ready (length (components path) + j) s" "path \<noteq> []"
    "\<forall>c \<in> set (components path). length c \<le> 4000"
    "dents s d = Some x" "is_dir x" "1 < d_refcnt x"
  shows "\<exists>nm s'. lookup_loop fl want path d s =
        Some (resolve fl (ends_in_slash path) s (components path) d, nm, s') \<and>
      looked_up want (last (components path)) s j (resolve fl (ends_in_slash path) s (components path) d) nm s'"
  using assms
proof (induction path arbitrary: s d x rule: components.induct)
  case (1 path)
  note inv = \<open>fs_inv s\<close> and p = \<open>path \<noteq> []\<close> and d = \<open>dents s d = Some x\<close> \<open>is_dir x\<close> \<open>1 < d_refcnt x\<close>
  note cs = components_cons [OF p]
  let ?k = "length (components (next_path path)) + j"
  have rdy: "grow_ready (Suc ?k) s" and len: "length (first_comp path) \<le> 4000"
    using 1 by (simp_all add: cs)
  obtain n and s1 :: "'z fstate_scheme" where g: "get_next_component path s =
       Some (comp_type path, next_path path, Some n, s1\<lparr>names := (names s)(n \<mapsto> first_comp path)\<rparr>)"
    "n \<noteq> 0" "n \<notin> fst ` live s" "heap_inv s1" "grow_ready ?k s1" "live s \<subseteq> live s1" "n \<in> fst ` live s1"
    "heap.more s1 = heap.more s"
    using get_next_component_spec [OF fs_invD(1) [OF inv] rdy p len] by metis
  define t where "t = s1\<lparr>names := (names s)(n \<mapsto> first_comp path)\<rparr>"
  have it: "fs_inv t" unfolding t_def by (rule fs_inv_add_name [OF inv g(8,4,6,7,3)])
  have st: "same_tree s t" unfolding t_def by (rule same_tree_more [OF g(8)])
  have n: "names t = (names s)(n \<mapsto> first_comp path)" by (simp add: t_def)
  have n0: "names s n = None"
    using fs_invD(2) [OF inv] g(3) by (auto simp: objects_def)
  have rt: "grow_ready ?k t" using g(5) by (simp add: t_def)
  have dt: "dents t = dents s"
    using same_fsD(1) [of s1 s] kmem_moreD [OF g(8)] by (simp add: t_def)
  have d2: "dents t d = Some x" using d dt by simp
  note g1 = g(1) [folded t_def]
  have rj: "grow_ready j t" using grow_ready_mono [OF rt] .
  have ch: "child t d c = child s d c" for c by (rule child_same_tree [OF st inv d(1,2)])
  have rs: "resolve fl (ends_in_slash path) t (components path) d =
      resolve fl (ends_in_slash path) s (components path) d"
    by (rule resolve_same_tree [OF st inv d(1,2)])
  have ty: "comp_type path \<noteq> COMP_NO_MORE" by (simp add: comp_type_def)
  have nt: "names t n = Some (first_comp path)" using n by simp
  have la: "last (components path) = first_comp path" if "comp_type path \<noteq> COMP_NORM"
    using that by (simp add: cs comp_type_def split: if_splits)
  have lastn: "is_last ty' f \<Longrightarrow> ty' \<noteq> COMP_NORM" for ty' f by (auto simp: is_last_def)
  show ?case
  proof (cases "is_last (comp_type path) fl \<and> fl AND LAST_RETURN \<noteq> 0")
    case True
    have r: "resolve fl (ends_in_slash path) s (components path) d = Inr d"
      using True by (simp add: resolve_path [OF p])
    have b: "lookup_loop fl want path d s = lookup_done want d n t"
      using True by (simp add: lookup_loop.simps [of fl want path d s] g1 ty)
    show ?thesis
      using lookup_done_ok [OF it st rj n n0 d2 d(3)] la lastn True unfolding r b by auto
  next
    case nr: False
    show ?thesis
    proof (cases "child s d (first_comp path)")
      case (Some e)
      obtain y where y: "dents s e = Some y" using child_dents [OF inv d(1,2) Some] .
      show ?thesis
        unfolding rs [symmetric]
      proof (rule lookup_loop_found [OF it st rt n n0 d2 d(2) p _ _ g1 nr])
        show "child t d (first_comp path) = Some e" using Some ch by simp
        show "dents t e = Some y" using y dt by simp
      qed (rule "1.IH" [OF p], use "1.prems" in \<open>simp_all add: cs\<close>)
    next
      case None
      obtain fs where tm: "through_mount d t = Some (fs, mnt_dir t d)"
        "fs_lookup fs (mnt_dir t d) (first_comp path) t = Some (Inl ENOENT, t)"
        using fs_lookup_eq [OF it d2 d(2), of "first_comp path"] None ch by auto
      let ?k = "is_last (comp_type path) fl \<and> fl AND LAST_MUST_NOT_EXIST \<noteq> 0"
      note body = lookup_loop.simps [of fl want path d s] g1 ty nr nt tm
      note res = resolve_path [OF p] nr None
      show ?thesis
      proof (cases ?k)
        case True
        have r: "resolve fl (ends_in_slash path) s (components path) d = Inr d" using True by (simp add: res)
        have b: "lookup_loop fl want path d s = lookup_done want d n t" using True by (simp add: body)
        show ?thesis
          using lookup_done_ok [OF it st rj n n0 d2 d(3)] la lastn True unfolding r b by auto
      next
        case False
        have r: "resolve fl (ends_in_slash path) s (components path) d = Inl ENOENT" using False by (simp add: res)
        have b: "lookup_loop fl want path d s = lookup_fail ENOENT d n t" using False by (auto simp: body)
        show ?thesis
          using lookup_fail_ok [OF it st rj n n0 d2 d(3), of ENOENT] unfolding r b looked_up_def by auto
      qed
    qed
  qed
qed

end
