(* ===== verification/FsDir.thy ===== *)
theory FsDir
  imports FsTree
begin

text \<open>
  Mounting the root file system and creating directories (\<open>src/src/fs/vfs.c\<close>,
  \<open>src/src/fs/ramfs/ramfs.c\<close>) on well-formed states: what \<open>make_node\<close> adds to the tree, and
  the whole-operation theorems for \<open>vfs_mount\<close>, path lookup and \<open>vfs_mkdir\<close>.
\<close>

section \<open>Making nodes\<close>

lemma kzalloc_small:
  fixes s :: "'z kmem_scheme"
  assumes inv: "heap_inv s" and rdy: "grow_ready (Suc k) s" and n: "unat (align8 n) + 4 \<le> 4096"
  obtains p and s' :: "'z kmem_scheme" where "kzalloc n s = Some (p, s')" "p \<noteq> 0" "p \<notin> fst ` live s"
    "heap_inv s'" "grow_ready k s'" "live s' = insert (p, unat (align8 n)) (live s)"
    "kmem.more s' = kmem.more s" "\<forall>a. a < p \<or> p + unat n \<le> a \<longrightarrow> mem s' a = mem s a"
    "\<forall>(q, m) \<in> live s. p + unat (align8 n) < q \<or> q + m < p"
proof -
  obtain p and s1 :: "'z kmem_scheme" where a: "kmalloc n s = Some (p, s1)" "p \<noteq> 0" "p \<notin> fst ` live s"
    "heap_inv s1" "grow_ready k s1" "live s1 = insert (p, unat (align8 n)) (live s)"
    "heap.more s1 = heap.more s"
    using kmalloc_small [OF inv rdy n] .
  have m: "kmem.more s1 = kmem.more s" "mem s1 = mem s" using a(7) by (cases s; cases s1; simp)+
  have d: "\<forall>(q, m) \<in> live s. p + unat (align8 n) < q \<or> q + m < p"
    using kheap.alloc_block [OF inv a(1,2)] by blast
  show ?thesis
    by (rule that [of p "s1\<lparr>mem := snd (memset p 0 n (mem s1))\<rparr>"])
      (use a m d in \<open>auto simp: kzalloc_def memset_def stosb_val\<close>)
qed

lemma fs_inv_new_node:
  fixes s t :: "'z fstate_scheme"
  assumes inv: "fs_inv s" and par: "dents s pa = Some par" and pp: "privs s (d_priv par) = Some pp"
    and h: "heap_inv t" and l: "live s \<subseteq> live t" "d \<in> fst ` live t" "dp \<in> fst ` live t"
    and fr: "d \<notin> fst ` live s" "dp \<notin> fst ` live s" "d \<noteq> dp"
    and eq: "dents t = (dents s)(d \<mapsto> D)"
      "privs t = (privs s)(d_priv par \<mapsto> pp\<lparr>p_children := p_children pp @ [dp]\<rparr>,
         dp \<mapsto> \<lparr>p_dentry = d, p_children = [], p_rest = rest\<rparr>)"
      "sbs t = sbs s" "files t = files s" "names t = names s" "rootfs t = rootfs s"
    and D: "d_priv D = dp" "d_sb D = d_sb par" "d_mnt D = None" "0 < d_refcnt D"
    and rest: "get_sb (d_sb par) s = Some sb"
      "case rest of Ramfs_data n q \<Rightarrow> q = 0 \<and> sb_fs sb = Ramfs | Devfs_ops _ \<Rightarrow> sb_fs sb = Devfs"
  shows "fs_inv t"
proof (rule fs_invI [OF h])
  note g = get_sb_cong [OF eq(3,6)]
  have no: "d \<notin> objects s" "dp \<notin> objects s" using fs_invD(2) [OF inv] fr by auto
  then have nd: "dents s d = None" "privs s dp = None" "dents s dp = None" "privs s d = None"
    by (auto simp: objects_def)
  have ne: "d_priv par \<noteq> dp" using pp nd by auto
  have np: "pa \<noteq> d" using par nd by auto
  have b: "data_blocks t = data_blocks s"
  proof -
    have "(\<exists>p. privs t a = Some p \<and> p_rest p = Ramfs_data n q) \<longleftrightarrow>
        (\<exists>p. privs s a = Some p \<and> p_rest p = Ramfs_data n q)" if "q \<noteq> 0" for a n q
      using rest(2) that nd pp unfolding eq by auto
    then show ?thesis unfolding data_blocks_def by blast
  qed
  have o: "objects t \<subseteq> insert d (insert dp (objects s))"
    unfolding objects_def b using pp by (auto simp: eq)
  have "objects s \<subseteq> fst ` live t"
    using fs_invD(2) [OF inv] image_mono [OF l(1), of fst] by (rule order.trans)
  then show "objects t \<subseteq> fst ` live t" using o l(2,3) by auto
  show "one_kind t a" for a
    using fs_invD(3) [OF inv, of a] no fr(3) pp ne
    by (cases "a = d"; cases "a = dp"; cases "a = d_priv par")
      (auto simp: one_kind_def b eq objects_def split: if_splits)
  show "dent_ok t e z" if z: "dents t e = Some z" for e z
  proof (cases "e = d")
    case True
    then show ?thesis using z D rest ne by (auto simp: dent_ok_def eq g split: priv_rest.splits)
  next
    case False
    then have z: "dents s e = Some z" using z by (simp add: eq)
    obtain p sb' where p: "privs s (d_priv z) = Some p" "p_dentry p = e" "get_sb (d_sb z) s = Some sb'"
      "case p_rest p of Ramfs_data _ _ \<Rightarrow> sb_fs sb' = Ramfs | Devfs_ops _ \<Rightarrow> sb_fs sb' = Devfs"
      using fs_invD(4) [OF inv z] by (auto simp: dent_ok_def)
    have "d_priv z \<noteq> dp" using p nd by auto
    then have "\<exists>p'. privs t (d_priv z) = Some p' \<and> p_dentry p' = e \<and> p_rest p' = p_rest p"
      using p pp by (auto simp: eq)
    then show ?thesis using fs_invD(4) [OF inv z] p by (auto simp: dent_ok_def g)
  qed
  show "sb_ok t m sb'" if "get_sb m t = Some sb'" for m sb'
  proof -
    have "sb_ok s m sb'" using fs_invD(6) [OF inv] that g by metis
    then show ?thesis using nd by (auto simp: sb_ok_def eq)
  qed
  show "rootfs t \<noteq> None" using fs_invD(7) [OF inv] eq by simp
  show "priv_ok t a p" if p: "privs t a = Some p" for a p
  proof (cases "a = dp")
    case True
    then have "p = \<lparr>p_dentry = d, p_children = [], p_rest = rest\<rparr>" using p by (simp add: eq)
    then show ?thesis using True D rest(2) by (auto simp: priv_ok_def eq split: priv_rest.splits)
  next
    case False
    obtain p0 where p0: "privs s a = Some p0" "p_dentry p = p_dentry p0" "p_rest p = p_rest p0"
      "p_children p = p_children p0 @ (if a = d_priv par then [dp] else [])"
      using p False pp by (auto simp: eq split: if_splits)
    have ok: "priv_ok s a p0" by (rule fs_invD(5) [OF inv p0(1)])
    have nc: "dp \<notin> set (p_children q)" if "privs s c = Some q" for c q
      using fs_invD(5) [OF inv that] nd by (auto simp: priv_ok_def)
    have one: "a = c" if q: "privs t c = Some q" "set (p_children p) \<inter> set (p_children q) \<noteq> {}" for c q
    proof (cases "c = dp")
      case True
      then show ?thesis using q by (auto simp: eq)
    next
      case cd: False
      obtain q0 where q0: "privs s c = Some q0"
        "p_children q = p_children q0 @ (if c = d_priv par then [dp] else [])"
        using q cd pp by (auto simp: eq split: if_splits)
      have "dp \<notin> set (p_children p0)" "dp \<notin> set (p_children q0)" using nc p0(1) q0(1) by blast+
      then have "a = c \<or> set (p_children p0) \<inter> set (p_children q0) \<noteq> {}"
        using q(2) p0(4) q0(2) by (auto split: if_splits)
      then show ?thesis using ok q0(1) by (auto simp: priv_ok_def)
    qed
    have dat: "a = c" if q: "p_rest p = Ramfs_data n q" "q \<noteq> 0" "privs t c = Some r" "p_rest r = Ramfs_data n' q"
      for n n' q c r
    proof -
      have "c \<noteq> dp" using q rest(2) by (auto simp: eq)
      then obtain r0 where "privs s c = Some r0" "p_rest r0 = p_rest r"
        using q(3) pp by (auto simp: eq split: if_splits)
      then show ?thesis using ok q p0(3) by (auto simp: priv_ok_def)
    qed
    have "\<exists>x. dents t (p_dentry p) = Some x \<and> d_priv x = a"
      using ok p0(2) nd by (auto simp: priv_ok_def eq)
    moreover have "distinct (p_children p)" using ok nc [OF p0(1)] p0(4) by (simp add: priv_ok_def)
    moreover have "\<forall>c \<in> set (p_children p). privs t c \<noteq> None"
      using ok p0(4) by (auto simp: priv_ok_def eq split: if_splits)
    moreover have "\<exists>m. (q, m) \<in> live t \<and> unat n \<le> m" if "p_rest p = Ramfs_data n q" "q \<noteq> 0" for n q
      using ok p0(3) that l(1) unfolding priv_ok_def by (metis subsetD)
    ultimately show ?thesis using one dat unfolding priv_ok_def by blast
  qed
qed


definition new_dentry :: "string \<Rightarrow> u32 \<Rightarrow> sb_ref \<Rightarrow> nat \<Rightarrow> dentry" where
  "new_dentry name md sb dp = \<lparr>d_name = name, d_parent = 0, d_refcnt = 1, d_sb = sb, d_mnt = None,
     d_priv = dp, d_mode = md, d_size = 0\<rparr>"

text \<open>What \<open>make_node\<close> does to the tree: one more entry at the end of the directory.\<close>

definition node_added ::
  "'z fstate_scheme \<Rightarrow> nat \<Rightarrow> string \<Rightarrow> u32 \<Rightarrow> priv_rest \<Rightarrow> nat \<Rightarrow> 'z fstate_scheme \<Rightarrow> bool" where
  "node_added s pa name md rest d t \<longleftrightarrow>
     (\<exists>dp. dents s d = None \<and> privs s dp = None \<and>
       dents t = (dents s)(d \<mapsto> new_dentry name md (d_sb (the (dents s pa))) dp) \<and>
       privs t = (privs s)(d_priv (the (dents s pa)) \<mapsto>
           (the (privs s (d_priv (the (dents s pa)))))\<lparr>p_children :=
              p_children (the (privs s (d_priv (the (dents s pa))))) @ [dp]\<rparr>,
         dp \<mapsto> \<lparr>p_dentry = d, p_children = [], p_rest = rest\<rparr>)) \<and>
     sbs t = sbs s \<and> files t = files s \<and> names t = names s \<and> rootfs t = rootfs s \<and>
     fs_list t = fs_list s \<and> devfs_root t = devfs_root s \<and> fstate.more t = fstate.more s"

lemma make_node_spec:
  fixes s :: "'z fstate_scheme"
  assumes inv: "fs_inv s" and rdy: "grow_ready (Suc (Suc k)) s"
    and par: "dents s pa = Some par" and len: "length name < PATH_MAX" and sz: "unat psize \<le> 4000"
    and rest: "get_sb (d_sb par) s = Some sb"
      "case rest of Ramfs_data n q \<Rightarrow> q = 0 \<and> sb_fs sb = Ramfs | Devfs_ops _ \<Rightarrow> sb_fs sb = Devfs"
  obtains d t where "make_node psize rest pa name md s = Some (Inr d, t)" "fs_inv t"
    "node_added s pa name md rest d t" "grow_ready k t" "d \<noteq> pa"
    "\<forall>a q m. (q, m) \<in> live s \<longrightarrow> q \<le> a \<longrightarrow> a < q + m \<longrightarrow> mem t a = mem s a"
proof -
  note hi = fs_invD(1) [OF inv]
  have n1: "unat (align8 sizeof_dentry) + 4 \<le> 4096" by (simp add: align8_def sizeof_dentry_def)
  have n2: "unat (align8 psize) + 4 \<le> 4096" using align8_bound [OF sz] by simp
  obtain d and s1 :: "'z fstate_scheme" where a: "kzalloc sizeof_dentry s = Some (d, s1)" "d \<noteq> 0" "d \<notin> fst ` live s"
    "heap_inv s1" "grow_ready (Suc k) s1" "live s1 = insert (d, unat (align8 sizeof_dentry)) (live s)"
    "kmem.more s1 = kmem.more s" "\<forall>a. a < d \<or> d + unat sizeof_dentry \<le> a \<longrightarrow> mem s1 a = mem s a"
    "\<forall>(q, m) \<in> live s. d + unat (align8 sizeof_dentry) < q \<or> q + m < d"
    using kzalloc_small [OF hi rdy n1] .
  define s2 where "s2 = s1\<lparr>dents := (dents s1)(d \<mapsto> zero_dentry)\<rparr>"
  have h2: "heap_inv s2" "grow_ready (Suc k) s2" "live s2 = live s1" using a by (simp_all add: s2_def)
  obtain dp and s3 :: "'z fstate_scheme" where b: "kzalloc psize s2 = Some (dp, s3)" "dp \<noteq> 0" "dp \<notin> fst ` live s2"
    "heap_inv s3" "grow_ready k s3" "live s3 = insert (dp, unat (align8 psize)) (live s2)"
    "kmem.more s3 = kmem.more s2" "\<forall>a. a < dp \<or> dp + unat psize \<le> a \<longrightarrow> mem s3 a = mem s2 a"
    "\<forall>(q, m) \<in> live s2. dp + unat (align8 psize) < q \<or> q + m < dp"
    using kzalloc_small [OF h2(1,2) n2] .
  note e1 = same_fsD [OF a(7)] and e3 = same_fsD [OF b(7)]
  have ndp: "d \<noteq> dp" "dp \<notin> fst ` live s" using b(3) h2(3) a(6) by auto
  have no: "dents s d = None" "privs s dp = None" "privs s d = None" "dents s dp = None"
    using fs_invD(2) [OF inv] a(3) ndp by (auto simp: objects_def)
  have npa: "pa \<noteq> d" using no par by auto
  obtain pp where pp: "privs s (d_priv par) = Some pp"
    using fs_invD(4) [OF inv par] by (auto simp: dent_ok_def)
  have ndpp: "d_priv par \<noteq> dp" using pp no by auto
  define D where "D = new_dentry name md (d_sb par) dp"
  define t where "t = s3\<lparr>dents := (dents s)(d \<mapsto> D),
    privs := (privs s)(d_priv par \<mapsto> pp\<lparr>p_children := p_children pp @ [dp]\<rparr>,
         dp \<mapsto> \<lparr>p_dentry = d, p_children = [], p_rest = rest\<rparr>)\<rparr>"
  have d3: "dents s3 = (dents s)(d \<mapsto> zero_dentry)" using e1 e3 by (simp add: s2_def)
  have p3: "privs s3 = privs s" using e1 e3 by (simp add: s2_def)
  define s4 where "s4 = s3\<lparr>dents := (dents s)(d \<mapsto> D\<lparr>d_refcnt := 0\<rparr>)\<rparr>"
  define s5 where "s5 = s4\<lparr>privs := (privs s)(dp \<mapsto> \<lparr>p_dentry = d, p_children = [], p_rest = rest\<rparr>)\<rparr>"
  define s6 where "s6 = t\<lparr>dents := dents s4\<rparr>"
  have s4: "set_dent d (\<lambda>x. x\<lparr>d_name := name, d_mode := md, d_sb := d_sb par, d_priv := dp\<rparr>) s3 = Some s4"
    by (simp add: set_dent_def d3 s4_def D_def new_dentry_def zero_dentry_def)
  have p4: "privs s4 = privs s" by (simp add: s4_def p3)
  have s6: "set_priv (d_priv par) (\<lambda>x. x\<lparr>p_children := p_children x @ [dp]\<rparr>) s5 = Some s6"
    using pp ndpp
    by (simp add: set_priv_def s5_def s4_def s6_def t_def fun_upd_twist [OF ndpp])
  have s7: "dentry_get d s6 = Some (d, t)"
    by (simp add: dentry_get_def set_dent_def s6_def s4_def t_def D_def new_dentry_def)
  have par3: "dents s3 pa = Some par" using par npa d3 by simp
  have "make_node psize rest pa name md s = Some (Inr d, t)"
    using len unfolding make_node_def
    by (simp add: a(1,2) b(1,2) s2_def [symmetric] par3 s4 p4 s5_def [symmetric] s6 s7 not_le)
  moreover have "fs_inv t"
  proof (rule fs_inv_new_node [OF inv par pp _ _ _ _ a(3) ndp(2,1) _ _ _ _ _ _ _ _ _ _ rest])
    show "heap_inv t" using b(4) by (simp add: t_def)
    show "live s \<subseteq> live t" using a(6) b(6) h2(3) by (auto simp: t_def)
    show "d \<in> fst ` live t" "dp \<in> fst ` live t" using a(6) b(6) h2(3) by (simp_all add: t_def)
    show "dents t = (dents s)(d \<mapsto> D)" by (simp add: t_def)
    show "d_priv D = dp" "d_sb D = d_sb par" "d_mnt D = None" "0 < d_refcnt D"
      by (simp_all add: D_def new_dentry_def)
  qed (use e1 e3 in \<open>simp_all add: t_def s2_def\<close>)
  moreover have "node_added s pa name md rest d t"
    using no e1 e3 par pp unfolding node_added_def
    by (intro conjI exI [of _ dp]) (simp_all add: t_def s2_def D_def)
  moreover have "grow_ready k t" using b(5) by (simp add: t_def)
  moreover have "mem t a = mem s a" if q: "(q, m) \<in> live s" "q \<le> a" "a < q + m" for a q m
  proof -
    have i: "unat sizeof_dentry \<le> unat (align8 sizeof_dentry)" "unat psize \<le> unat (align8 psize)"
      using align8_ge [of sizeof_dentry] align8_ge [of psize] sz by (simp_all add: sizeof_dentry_def)
    have "(q, m) \<in> live s2" using q(1) h2(3) a(6) by simp
    then have "dp + unat (align8 psize) < q \<or> q + m < dp" using b(9) by blast
    then have "mem s3 a = mem s2 a" using b(8) q i by auto
    moreover have "d + unat (align8 sizeof_dentry) < q \<or> q + m < d" using a(9) q(1) by blast
    then have "mem s1 a = mem s a" using a(8) q i by auto
    ultimately show ?thesis by (simp add: t_def s2_def)
  qed
  ultimately show ?thesis using that npa by metis
qed


section \<open>Absolute paths\<close>

definition path_comps :: "string \<Rightarrow> string list" where
  "path_comps path = components (dropWhile (\<lambda>c. c = CHR ''/'') path)"

definition root_of :: "'z fstate_scheme \<Rightarrow> nat" where
  "root_of s = root_dentry (the (rootfs s))"

definition denotes :: "u32 \<Rightarrow> string \<Rightarrow> 'z fstate_scheme \<Rightarrow> errno + nat" where
  "denotes fl path s = resolve fl (ends_in_slash path) s (path_comps path) (root_of s)"

definition good_path :: "string \<Rightarrow> bool" where
  "good_path path \<longleftrightarrow> path \<noteq> [] \<and> hd path = CHR ''/'' \<and> (\<forall>c \<in> set (path_comps path). length c \<le> 4000)"

lemma root_facts:
  assumes inv: "fs_inv s"
  obtains x where "dents s (root_of s) = Some x" "is_dir x" "rootfs s = Some (the (rootfs s))"
proof -
  obtain sb where sb: "rootfs s = Some sb" using fs_invD(7) [OF inv] by auto
  then have "sb_ok s Root_sb sb" using fs_invD(6) [OF inv, of Root_sb sb] by (simp add: get_sb_def)
  then show ?thesis using that sb by (auto simp: sb_ok_def root_of_def)
qed

lemma root_of_same_tree: "same_tree s s' \<Longrightarrow> root_of s' = root_of s"
  by (simp add: root_of_def same_tree_def)

lemma denotes_same_tree: "same_tree s s' \<Longrightarrow> fs_inv s \<Longrightarrow> denotes fl path s' = denotes fl path s"
  unfolding denotes_def by (metis root_facts root_of_same_tree resolve_same_tree)

lemma lookup_path_common_spec:
  fixes s :: "'z fstate_scheme"
  assumes inv: "fs_inv s" and rdy: "grow_ready (length (path_comps path) + j) s" and p: "good_path path"
  shows "\<exists>nm s'. lookup_path_common path fl want s = Some (denotes fl path s, nm, s') \<and>
    looked_up (want \<and> path_comps path \<noteq> []) (last (path_comps path)) s j (denotes fl path s) nm s'"
proof -
  let ?r = "dropWhile (\<lambda>c. c = CHR ''/'') path"
  obtain x where x: "dents s (root_of s) = Some x" "is_dir x" "rootfs s = Some (the (rootfs s))"
    using root_facts [OF inv] .
  let ?x = "x\<lparr>d_refcnt := d_refcnt x + 1\<rparr>"
  define s1 where "s1 = s\<lparr>dents := (dents s)(root_of s \<mapsto> ?x)\<rparr>"
  have r: "0 < d_refcnt x" using fs_invD(4) [OF inv x(1)] by (simp add: dent_ok_def)
  have g: "dentry_get (root_of s) s = Some (root_of s, s1)" using dentry_get_eq [OF x(1)] by (simp add: s1_def)
  have i1: "fs_inv s1" unfolding s1_def by (rule fs_inv_upd_dent [OF inv x(1)]) (use r in simp_all)
  have st: "same_tree s s1" unfolding s1_def by (rule same_tree_upd [OF x(1)]) (simp add: tree_part_def)
  have n1: "names s1 = names s" and r1: "\<And>k. grow_ready k s1 = grow_ready k s" by (simp_all add: s1_def)
  have x1: "dents s1 (root_of s) = Some ?x" "is_dir ?x" "1 < d_refcnt ?x"
    using x r by (simp_all add: s1_def is_dir_def)
  have b: "lookup_path_common path fl want s =
      (if ?r = [] then Some (Inr (root_of s), None, s1) else lookup_loop fl want ?r (root_of s) s1)"
  proof -
    obtain sb where "rootfs s = Some sb" "root_of s = root_dentry sb" using x(3) by (auto simp: root_of_def)
    then show ?thesis using p g by (simp add: lookup_path_common_def good_path_def)
  qed
  show ?thesis
  proof (cases "?r = []")
    case True
    then have "path_comps path = []" by (simp add: path_comps_def)
    then show ?thesis
      using b True i1 st n1 x1 rdy r1 unfolding denotes_def looked_up_def by simp
  next
    case False
    have "\<exists>xs. path = xs @ ?r" by (metis takeWhile_dropWhile_id)
    then have sl: "ends_in_slash ?r = ends_in_slash path"
      using False by (metis append_is_Nil_conv ends_in_slash_def last_appendR)
    have "resolve fl (ends_in_slash ?r) s1 (components ?r) (root_of s) = denotes fl path s"
      using resolve_same_tree [OF st inv x(1,2)] by (simp add: sl denotes_def path_comps_def)
    then show ?thesis
      using lookup_loop_resolves [OF i1 _ False _ x1, of j fl want] rdy r1 p b False
        looked_up_later [OF _ st n1]
      unfolding path_comps_def good_path_def by auto
  qed
qed

section \<open>A new entry\<close>

lemma entries_added:
  assumes inv: "fs_inv s" and ad: "node_added s pa name md rest d t" and e: "dents s e = Some x"
    and pa: "dents s pa = Some par"
  shows "entries t e = entries s e @ (if e = pa then [d] else [])"
proof -
  obtain dp where a: "dents s d = None" "privs s dp = None"
    "dents t = (dents s)(d \<mapsto> new_dentry name md (d_sb par) dp)"
    "privs t = (privs s)(d_priv par \<mapsto> (the (privs s (d_priv par)))\<lparr>p_children :=
              p_children (the (privs s (d_priv par))) @ [dp]\<rparr>,
         dp \<mapsto> \<lparr>p_dentry = d, p_children = [], p_rest = rest\<rparr>)"
    using ad pa unfolding node_added_def by auto
  obtain p where p: "privs s (d_priv x) = Some p" "p_dentry p = e" using fs_invD(4) [OF inv e] by (auto simp: dent_ok_def)
  obtain pp where pp: "privs s (d_priv par) = Some pp" "p_dentry pp = pa"
    using fs_invD(4) [OF inv pa] by (auto simp: dent_ok_def)
  have ne: "d_priv x \<noteq> dp" "d_priv par \<noteq> dp" "e \<noteq> d" using p pp a e by auto
  have ex: "d_priv x = d_priv par \<longleftrightarrow> e = pa" using p pp e pa by auto
  have old: "p_dentry (the (privs t c)) = p_dentry (the (privs s c))" if "privs s c \<noteq> None" for c
  proof -
    have "c \<noteq> dp" using that a(2) by auto
    then show ?thesis unfolding a(4) by simp
  qed
  have cs: "\<forall>c \<in> set (p_children p). privs s c \<noteq> None"
    using fs_invD(5) [OF inv p(1)] by (simp add: priv_ok_def)
  have te: "dents t e = Some x" using e a ne by simp
  have ch: "p_children (the (privs t (d_priv x))) = p_children p @ (if e = pa then [dp] else [])"
  proof (cases "e = pa")
    case True
    then have "x = par" using e pa by simp
    then show ?thesis using True ne(2) p(1) unfolding a(4) by simp
  next
    case False
    then show ?thesis using ne ex p(1) unfolding a(4) by simp
  qed
  have nd: "p_dentry (the (privs t dp)) = d" by (simp add: a(4))
  have ol: "map (\<lambda>c. p_dentry (the (privs t c))) (p_children p) = map (\<lambda>c. p_dentry (the (privs s c))) (p_children p)"
    using cs old by simp
  show ?thesis
    unfolding entries_def te e p(1) option.sel ch map_append ol by (simp add: nd)
qed

lemma mnt_dir_added:
  assumes ad: "node_added s pa name md rest d t" and e: "dents s e = Some x"
  shows "mnt_dir t e = mnt_dir s e"
proof -
  have "get_sb m t = get_sb m s" for m by (rule get_sb_cong) (use ad in \<open>auto simp: node_added_def\<close>)
  moreover have "dents t e = Some x" using ad e by (auto simp: node_added_def)
  ultimately show ?thesis using e by (cases "d_mnt x") (simp_all add: mnt_dir_def)
qed

lemma find_append: "List.find P (xs @ ys) = (case List.find P xs of None \<Rightarrow> List.find P ys | Some x \<Rightarrow> Some x)"
  by (induction xs) auto

lemma child_added:
  assumes inv: "fs_inv s" and ad: "node_added s pa name md rest d t" and pa: "dents s pa = Some par"
    and e: "dents s e = Some x" "is_dir x"
  shows "child t e c =
    (case child s e c of
       Some y \<Rightarrow> Some y
     | None \<Rightarrow> if mnt_dir s e = pa \<and> c = name then Some d else None)"
proof -
  obtain y where y: "dents s (mnt_dir s e) = Some y" using mnt_dir_facts [OF inv e] by metis
  have nm: "d_name (the (dents t z)) = d_name (the (dents s z))" if z: "z \<in> set (entries s (mnt_dir s e))" for z
  proof -
    obtain w where "dents s z = Some w" using entries_dents [OF inv y z] .
    then show ?thesis using ad by (auto simp: node_added_def)
  qed
  have f: "List.find (\<lambda>e. d_name (the (dents t e)) = c) (entries s (mnt_dir s e)) = child s e c"
    unfolding child_def by (rule find_cong) (simp add: nm)
  have nd: "d_name (the (dents t d)) = name" using ad by (auto simp: node_added_def new_dentry_def)
  show ?thesis
    unfolding child_def [of t] mnt_dir_added [OF ad e(1)] entries_added [OF inv ad y pa] find_append f
    by (auto simp: nd split: option.splits)
qed


section \<open>Creating a directory\<close>

lemma is_last_create [simp]:
  "is_last COMP_LAST fl" "\<not> is_last COMP_NORM fl" "is_last COMP_LAST_SLASH LAST_MUST_NOT_EXIST"
  by (simp_all add: is_last_def const_defs)

lemma create_flags [simp]:
  "LAST_MUST_NOT_EXIST AND LAST_RETURN = 0" "LAST_MUST_NOT_EXIST AND LAST_MUST_NOT_EXIST \<noteq> 0"
  "LAST_MUST_NOT_EXIST \<noteq> 0"
  by (simp_all add: const_defs)

lemma resolve_create_parent:
  assumes inv: "fs_inv s" and r: "resolve LAST_MUST_NOT_EXIST sl s cs d = Inr e" and cs: "cs \<noteq> []"
    and d: "dents s d = Some x" "is_dir x"
  shows "\<exists>y. dents s e = Some y \<and> is_dir y \<and> child s e (last cs) = None"
  using r cs d
proof (induction cs arbitrary: d x)
  case (Cons c cs)
  show ?case
  proof (cases "child s d c")
    case None
    then show ?thesis using Cons.prems by (auto simp: Let_def split: if_splits)
  next
    case (Some b)
    obtain z where z: "dents s b = Some z" using child_dents [OF inv Cons.prems(3,4) Some] .
    have "cs \<noteq> []" "dir_at s b" "resolve LAST_MUST_NOT_EXIST sl s cs b = Inr e"
      using Cons.prems(1) Some by (auto simp: Let_def split: if_splits)
    then show ?thesis using Cons.IH [of b z] z by (simp add: dir_at_def)
  qed
qed simp

lemma resolve_created:
  assumes inv: "fs_inv s" and r: "resolve LAST_MUST_NOT_EXIST sl s cs d = Inr e" and cs: "cs \<noteq> []"
    and d: "dents s d = Some x" "is_dir x" and pa: "dents s (mnt_dir s e) = Some par"
    and ad: "node_added s (mnt_dir s e) (last cs) DIR_DIR rest n t"
  shows "resolve 0 sl t cs d = Inr n"
  using r cs d ad
proof (induction cs arbitrary: d x)
  case (Cons c cs)
  note ch = child_added [OF inv Cons.prems(5) pa Cons.prems(3,4), of c]
  have dn: "dir_at t n" using ad by (auto simp: node_added_def new_dentry_def dir_at_def is_dir_def DIR_TYPE_def const_defs)
  show ?case
  proof (cases "child s d c")
    case None
    then have "cs = []" "d = e" using Cons.prems(1) by (auto simp: Let_def split: if_splits)
    then show ?thesis using None ch dn by (simp add: Let_def)
  next
    case (Some b)
    obtain z where z: "dents s b = Some z" using child_dents [OF inv Cons.prems(3,4) Some] .
    have b: "cs \<noteq> []" "dir_at s b" "resolve LAST_MUST_NOT_EXIST sl s cs b = Inr e"
      using Cons.prems(1) Some by (auto simp: Let_def split: if_splits)
    have "dents t b = Some z" using z Cons.prems(5) by (auto simp: node_added_def)
    then have "dir_at t b" using b(2) z by (simp add: dir_at_def)
    moreover have "resolve 0 sl t cs b = Inr n"
      using Cons.IH [OF b(3,1) z] b z Cons.prems(5) by (simp add: dir_at_def)
    ultimately show ?thesis using Some ch by (simp add: Let_def)
  qed
qed simp

lemma first_comp_no_slash: "CHR ''/'' \<notin> set (first_comp path)"
  by (auto simp: first_comp_def dest: set_takeWhileD)

lemma components_no_slash: "c \<in> set (components path) \<Longrightarrow> CHR ''/'' \<notin> set c"
proof (induction path rule: components.induct)
  case (1 path)
  then show ?case using first_comp_no_slash components_cons [of path] by (cases "path = []") auto
qed

text \<open>The file system that a directory's new entries belong to.\<close>

definition fs_of :: "'z fstate_scheme \<Rightarrow> nat \<Rightarrow> fs_kind option" where
  "fs_of s d = map_option fst (through_mount d s)"

definition mkdir_result :: "string \<Rightarrow> 'z fstate_scheme \<Rightarrow> int \<Rightarrow> 'z fstate_scheme \<Rightarrow> bool" where
  "mkdir_result path s r s' \<longleftrightarrow> fs_inv s' \<and>
     (case denotes LAST_MUST_NOT_EXIST path s of
        Inl e \<Rightarrow> r = - errno_code e \<and> same_tree s s'
      | Inr d \<Rightarrow> r = 0 \<and>
          (\<exists>n. dents s n = None \<and> denotes 0 path s' = Inr n \<and> dir_at s' n \<and> entries s' n = [] \<and>
             entries s' (mnt_dir s d) = entries s (mnt_dir s d) @ [n] \<and>
             (\<forall>e. dents s e \<noteq> None \<longrightarrow> e \<noteq> mnt_dir s d \<longrightarrow> entries s' e = entries s e)))"

lemma free_name_tree:
  fixes s :: "'z fstate_scheme"
  assumes inv: "fs_inv s" and n: "names s buf = Some str"
  obtains s' where "free_obj buf s = Some s'" "fs_inv s'" "same_tree s s'"
    "names s' = (names s)(buf := None)" "\<And>k. grow_ready k s' = grow_ready k s"
proof -
  obtain h where "free_obj buf s = Some (s\<lparr>hdr := h, names := (names s)(buf := None)\<rparr>)"
    "fs_inv (s\<lparr>hdr := h, names := (names s)(buf := None)\<rparr>)"
    using free_name [OF inv n] .
  then show ?thesis by (rule that) simp_all
qed


lemma path_comps_last:
  assumes "path_comps path \<noteq> []"
  shows "CHR ''/'' \<notin> set (last (path_comps path))"
  using assms components_no_slash last_in_set unfolding path_comps_def by blast

text \<open>\<open>vfs_dmkdir\<close> in a directory of a ramfs.\<close>

lemma vfs_dmkdir_spec:
  fixes s :: "'z fstate_scheme"
  assumes inv: "fs_inv s" and rdy: "grow_ready (Suc (Suc k)) s" and d: "dents s d = Some x" "is_dir x"
    and fs: "fs_of s d = Some Ramfs" and name: "CHR ''/'' \<notin> set name" "length name < PATH_MAX"
  obtains n t where "vfs_dmkdir d name s = Some (0, t)" "fs_inv t" "grow_ready k t"
    "node_added s (mnt_dir s d) name DIR_DIR (Ramfs_data 0 0) n t"
proof -
  obtain y fs sb where y: "dents s (mnt_dir s d) = Some y" "is_dir y"
    "through_mount d s = Some (fs, mnt_dir s d)" "get_sb (d_sb y) s = Some sb" "sb_fs sb = fs"
    using mnt_dir_facts [OF inv d] by metis
  have k: "fs = Ramfs" using fs y(3) by (simp add: fs_of_def)
  have sz: "unat sizeof_ramfs_priv \<le> 4000" by (simp add: sizeof_ramfs_priv_def)
  have rest: "case Ramfs_data 0 0 of Ramfs_data n q \<Rightarrow> q = 0 \<and> sb_fs sb = Ramfs
      | Devfs_ops _ \<Rightarrow> sb_fs sb = Devfs" using y(5) k by simp
  show ?thesis
  proof (rule make_node_spec [OF inv rdy y(1) name(2) sz y(4) rest, of DIR_DIR])
    fix n and t :: "'z fstate_scheme"
    assume m: "make_node sizeof_ramfs_priv (Ramfs_data 0 0) (mnt_dir s d) name DIR_DIR s = Some (Inr n, t)"
      "fs_inv t" "node_added s (mnt_dir s d) name DIR_DIR (Ramfs_data 0 0) n t" "grow_ready k t"
    have "vfs_dmkdir d name s = Some (0, t)"
      using m(1) d y(3) k name by (simp add: vfs_dmkdir_def ramfs_mkdir_def ramfs_make_node_def is_dir_def)
    then show thesis using that m by blast
  qed
qed

theorem vfs_mkdir_correct:
  assumes inv: "fs_inv s" and rdy: "grow_ready (length (path_comps path) + 2) s"
    and p: "good_path path" "path_comps path \<noteq> []" "length (last (path_comps path)) < PATH_MAX"
    and fs: "\<And>d. denotes LAST_MUST_NOT_EXIST path s = Inr d \<Longrightarrow> fs_of s d = Some Ramfs"
  shows "\<exists>r s'. vfs_mkdir path s = Some (r, s') \<and> mkdir_result path s r s'"
proof -
  obtain nm s1 where l: "lookup_path_common path LAST_MUST_NOT_EXIST True s =
      Some (denotes LAST_MUST_NOT_EXIST path s, nm, s1)"
    "looked_up True (last (path_comps path)) s 2 (denotes LAST_MUST_NOT_EXIST path s) nm s1"
    using lookup_path_common_spec [OF inv rdy p(1), of LAST_MUST_NOT_EXIST True] p(2) by auto
  show ?thesis
  proof (cases "denotes LAST_MUST_NOT_EXIST path s")
    case (Inl e)
    then show ?thesis
      using l unfolding vfs_mkdir_def lookup_path_for_create_dir_def
      by (simp add: looked_up_def mkdir_result_def)
  next
    case (Inr d)
    obtain n y where n: "nm = Some n" "names s1 = (names s)(n \<mapsto> last (path_comps path))"
      and y: "dents s1 d = Some y" "1 < d_refcnt y"
      and i1: "fs_inv s1" "same_tree s s1" "grow_ready 2 s1"
      using l(2) Inr by (auto simp: looked_up_def)
    obtain rt where rt: "dents s (root_of s) = Some rt" "is_dir rt" using root_facts [OF inv] .
    obtain x where x: "dents s d = Some x" "is_dir x" "child s d (last (path_comps path)) = None"
      using resolve_create_parent [OF inv _ p(2) rt] Inr unfolding denotes_def by blast
    have dy: "is_dir y" using same_tree_dent [OF i1(2) x(1)] y(1) x(2) tree_partD by (metis is_dir_def option.sel)
    have md: "mnt_dir s1 d = mnt_dir s d" by (rule mnt_dir_same_tree [OF i1(2) x(1)])
    obtain w fs sb where w: "dents s (mnt_dir s d) = Some w" "through_mount d s = Some (fs, mnt_dir s d)"
      using mnt_dir_facts [OF inv x(1,2)] by metis
    have "through_mount d s1 = through_mount d s"
    proof -
      have g: "get_sb m s1 = get_sb m s" for m by (rule get_sb_cong) (use i1 in \<open>auto simp: same_tree_def\<close>)
      obtain x' where "dents s1 d = Some x'" "tree_part x' = tree_part x" using same_tree_dent [OF i1(2) x(1)] .
      then show ?thesis using x(1) tree_partD [of x' x] by (cases "d_mnt x") (simp_all add: through_mount_def g)
    qed
    then have fs1: "fs_of s1 d = Some Ramfs" using fs [OF Inr] by (simp add: fs_of_def)
    obtain m t where t: "vfs_dmkdir d (last (path_comps path)) s1 = Some (0, t)" "fs_inv t"
      "node_added s1 (mnt_dir s1 d) (last (path_comps path)) DIR_DIR (Ramfs_data 0 0) m t"
      using vfs_dmkdir_spec [OF i1(1) _ y(1) dy fs1 path_comps_last [OF p(2)] p(3), of 0] i1(3)
      by (metis Suc_1 One_nat_def)
    have td: "dents t d = Some y" "names t = names s1" using t(3) y by (auto simp: node_added_def)
    let ?u = "t\<lparr>dents := (dents t)(d \<mapsto> y\<lparr>d_refcnt := d_refcnt y - 1\<rparr>)\<rparr>"
    have pu: "dentry_put d t = Some ?u" by (rule dentry_put_shared [OF td(1) y(2)])
    have iu: "fs_inv ?u" by (rule fs_inv_upd_dent [OF t(2) td(1)]) (use y(2) in simp_all)
    have su: "same_tree t ?u" by (rule same_tree_upd [OF td(1)]) (simp add: tree_part_def)
    have "names ?u n = Some (last (path_comps path))" using td n by simp
    then obtain v where v: "free_obj n ?u = Some v" "fs_inv v" "same_tree ?u v"
      using free_name_tree [OF iu] by metis
    have sv: "same_tree t v" using same_tree_trans [OF su v(3)] .
    have run: "vfs_mkdir path s = Some (0, v)"
      using l(1) Inr n(1,2) t(1) pu v(1) unfolding vfs_mkdir_def lookup_path_for_create_dir_def by simp
    have w1: "\<exists>w1. dents s1 (mnt_dir s1 d) = Some w1" using same_tree_dent [OF i1(2) w(1)] md by metis
    then obtain w1 where w1: "dents s1 (mnt_dir s1 d) = Some w1" ..
    have r1: "denotes LAST_MUST_NOT_EXIST path s1 = Inr d" using denotes_same_tree [OF i1(2) inv] Inr by simp
    obtain rt1 where rt1: "dents s1 (root_of s1) = Some rt1" "is_dir rt1" using root_facts [OF i1(1)] .
    have "resolve 0 (ends_in_slash path) t (path_comps path) (root_of s1) = Inr m"
      by (rule resolve_created [OF i1(1) _ p(2) rt1 w1 t(3)]) (use r1 in \<open>simp add: denotes_def\<close>)
    moreover have "root_of t = root_of s1" using t(3) by (simp add: node_added_def root_of_def)
    ultimately have "denotes 0 path t = Inr m" by (simp add: denotes_def)
    then have rv: "denotes 0 path v = Inr m" using denotes_same_tree [OF sv t(2)] by simp
    have nm: "dents s m = None"
    proof -
      have "dents s1 m = None" using t(3) by (auto simp: node_added_def)
      then show ?thesis using same_tree_dent [OF i1(2)] by (metis option.exhaust option.distinct(1))
    qed
    have en: "entries v e = entries s e @ (if e = mnt_dir s d then [m] else [])" if z: "dents s e = Some z" for e z
    proof -
      obtain z1 where z1: "dents s1 e = Some z1" using same_tree_dent [OF i1(2) z] .
      then have "dents t e \<noteq> None" using t(3) by (auto simp: node_added_def)
      then have "entries v e = entries t e" using entries_same_tree [OF sv] by auto
      also have "\<dots> = entries s1 e @ (if e = mnt_dir s1 d then [m] else [])"
        by (rule entries_added [OF i1(1) t(3) z1 w1])
      finally show ?thesis using entries_same_tree [OF i1(2) z] md by simp
    qed
    have "entries v m = []"
    proof -
      obtain q where q: "dents t m = Some q" "entries t m = []"
        using t(3) by (auto simp: node_added_def entries_def new_dentry_def)
      then show ?thesis using entries_same_tree [OF sv q(1)] by simp
    qed
    moreover have "dir_at v m"
    proof -
      obtain q where q: "dents t m = Some q" "is_dir q"
        using t(3) by (auto simp: node_added_def new_dentry_def is_dir_def DIR_TYPE_def const_defs)
      obtain q' where "dents v m = Some q'" "tree_part q' = tree_part q" using same_tree_dent [OF sv q(1)] .
      then show ?thesis using q(2) tree_partD [of q' q] by (simp add: dir_at_def is_dir_def)
    qed
    ultimately show ?thesis
      using run v(2) Inr nm rv en w(1) by (auto simp: mkdir_result_def)
  qed
qed


section \<open>Mounting the root\<close>

text \<open>No file system is mounted and no object exists.\<close>

definition fs_blank :: "'z fstate_scheme \<Rightarrow> bool" where
  "fs_blank s \<longleftrightarrow> dents s = Map.empty \<and> sbs s = Map.empty \<and> files s = Map.empty \<and> privs s = Map.empty \<and>
     names s = Map.empty \<and> rootfs s = None \<and> fs_list s = []"

lemma fs_inv_root:
  assumes h: "heap_inv t" and l: "d \<in> fst ` live t" "dp \<in> fst ` live t" "d \<noteq> dp"
    and eq: "dents t = [d \<mapsto> D]" "privs t = [dp \<mapsto> \<lparr>p_dentry = d, p_children = [], p_rest = Ramfs_data 0 0\<rparr>]"
      "sbs t = Map.empty" "files t = Map.empty" "names t = Map.empty"
      "rootfs t = Some \<lparr>sb_fs = Ramfs, root_dentry = d\<rparr>"
    and D: "d_priv D = dp" "d_sb D = Root_sb" "d_mnt D = None" "0 < d_refcnt D" "is_dir D"
  shows "fs_inv t"
proof (rule fs_invI [OF h])
  have b: "data_blocks t = {}" by (auto simp: data_blocks_def eq split: if_splits)
  show "objects t \<subseteq> fst ` live t" using l by (auto simp: objects_def b eq split: if_splits)
  show "one_kind t a" for a using l(3) by (auto simp: one_kind_def b eq)
  show "dent_ok t e z" if "dents t e = Some z" for e z
    using that D by (auto simp: dent_ok_def eq get_sb_def split: if_splits)
  show "priv_ok t a p" if "privs t a = Some p" for a p
    using that D by (auto simp: priv_ok_def eq split: if_splits)
  show "sb_ok t m sb" if "get_sb m t = Some sb" for m sb
    using that D by (cases m) (auto simp: sb_ok_def eq get_sb_def)
  show "rootfs t \<noteq> None" by (simp add: eq)
qed

lemma mount_ramfs_root:
  fixes s :: "'z fstate_scheme"
  assumes bl: "fs_blank s" and h: "heap_inv s" and rdy: "grow_ready (Suc (Suc k)) s"
  obtains s' where "vfs_mount ''ramfs'' ''/'' (snd (init_ramfs s)) = Some (0, s')" "fs_inv s'"
    "entries s' (root_of s') = []" "fs_of s' (root_of s') = Some Ramfs" "mnt_dir s' (root_of s') = root_of s'"
    "grow_ready k s'"
    "files s' = Map.empty" "names s' = Map.empty" "fs_list s' = [Ramfs]" "fstate.more s' = fstate.more s"
proof -
  define s0 where "s0 = s\<lparr>fs_list := [Ramfs], rootfs := Some \<lparr>sb_fs = Ramfs, root_dentry = 0\<rparr>\<rparr>"
  have i: "snd (init_ramfs s) = s\<lparr>fs_list := [Ramfs]\<rparr>"
    using bl by (simp add: init_ramfs_def register_fs_def fs_blank_def MAX_FS_COUNT_def)
  have fl: "heap_inv (fs_list_update f u) = heap_inv u" "live (fs_list_update f u) = live u"
    "grow_ready k (fs_list_update f u) = grow_ready k u" for f k and u :: "'z fstate_scheme"
    by (simp_all add: pmm_inv_def free_frames_def used_frames_def managed_def nframes_def
      pt_inv_def translate_def no_large_def heap_inv_def heap_blocks_def live_def
      grow_ready_def small_heap_def fun_eq_iff)
  have m: "vfs_mount ''ramfs'' ''/'' (snd (init_ramfs s)) = ramfs_mount Root_sb s0"
    using bl by (simp add: i vfs_mount_def find_fs_def fs_blank_def s0_def Let_def)
  have h0: "heap_inv s0" "grow_ready (Suc (Suc k)) s0" "live s0 = live s"
    using h rdy by (simp_all add: s0_def fl)
  have n1: "unat (align8 sizeof_dentry) + 4 \<le> 4096" by (simp add: align8_def sizeof_dentry_def)
  have n2: "unat (align8 sizeof_ramfs_priv) + 4 \<le> 4096" by (simp add: align8_def sizeof_ramfs_priv_def)
  obtain d and s1 :: "'z fstate_scheme" where a: "kzalloc sizeof_dentry s0 = Some (d, s1)" "d \<noteq> 0" "d \<notin> fst ` live s0"
    "heap_inv s1" "grow_ready (Suc k) s1" "live s1 = insert (d, unat (align8 sizeof_dentry)) (live s0)"
    "kmem.more s1 = kmem.more s0" "\<forall>a. a < d \<or> d + unat sizeof_dentry \<le> a \<longrightarrow> mem s1 a = mem s0 a"
    "\<forall>(q, m) \<in> live s0. d + unat (align8 sizeof_dentry) < q \<or> q + m < d"
    using kzalloc_small [OF h0(1,2) n1] .
  define D where "D = \<lparr>d_name = ''/'', d_parent = 0, d_refcnt = 1, d_sb = Root_sb, d_mnt = None,
    d_priv = 0, d_mode = DIR_DIR, d_size = 0\<rparr>"
  define s4 where "s4 = s1\<lparr>dents := [d \<mapsto> D], rootfs := Some \<lparr>sb_fs = Ramfs, root_dentry = d\<rparr>\<rparr>"
  have h4: "heap_inv s4" "grow_ready (Suc k) s4" "live s4 = live s1" using a by (simp_all add: s4_def)
  obtain dp and s5 :: "'z fstate_scheme" where b: "kzalloc sizeof_ramfs_priv s4 = Some (dp, s5)" "dp \<noteq> 0" "dp \<notin> fst ` live s4"
    "heap_inv s5" "grow_ready k s5" "live s5 = insert (dp, unat (align8 sizeof_ramfs_priv)) (live s4)"
    "kmem.more s5 = kmem.more s4" "\<forall>a. a < dp \<or> dp + unat sizeof_ramfs_priv \<le> a \<longrightarrow> mem s5 a = mem s4 a"
    "\<forall>(q, m) \<in> live s4. dp + unat (align8 sizeof_ramfs_priv) < q \<or> q + m < dp"
    using kzalloc_small [OF h4(1,2) n2] .
  note e1 = same_fsD [OF a(7)] and e5 = same_fsD [OF b(7)]
  have bl1: "dents s1 = Map.empty" "sbs s1 = Map.empty" "files s1 = Map.empty" "privs s1 = Map.empty"
    "names s1 = Map.empty" "rootfs s1 = Some \<lparr>sb_fs = Ramfs, root_dentry = 0\<rparr>" "fs_list s1 = [Ramfs]"
    "fstate.more s1 = fstate.more s"
    using bl by (simp_all add: e1 s0_def fs_blank_def)
  define v where "v = s5\<lparr>dents := [d \<mapsto> D\<lparr>d_priv := dp\<rparr>],
     privs := [dp \<mapsto> \<lparr>p_dentry = d, p_children = [], p_rest = Ramfs_data 0 0\<rparr>]\<rparr>"
  have nd: "d \<noteq> dp" using b(3) h4(3) a(6) by auto
  define s2 where "s2 = s1\<lparr>dents := [d \<mapsto> zero_dentry\<lparr>d_refcnt := 1\<rparr>]\<rparr>"
  define s3 where "s3 = s4\<lparr>dents := dents s2\<rparr>"
  have g2: "dentry_get d (s1\<lparr>dents := (dents s1)(d \<mapsto> zero_dentry)\<rparr>) = Some (d, s2)"
    by (simp add: dentry_get_def set_dent_def zero_dentry_def s2_def bl1)
  have g3: "set_sb Root_sb (\<lambda>x. x\<lparr>root_dentry := d\<rparr>) s2 = Some s3"
    by (simp add: set_sb_def s2_def s3_def s4_def bl1)
  have g4: "set_dent d (\<lambda>x. x\<lparr>d_name := ''/'', d_mode := DIR_DIR, d_parent := 0, d_sb := Root_sb\<rparr>) s3 = Some s4"
    by (simp add: set_dent_def s2_def s3_def s4_def D_def zero_dentry_def)
  have g6: "set_dent d (\<lambda>x. x\<lparr>d_priv := dp\<rparr>)
      (s5\<lparr>privs := (privs s5)(dp \<mapsto> \<lparr>p_dentry = d, p_children = [], p_rest = Ramfs_data 0 0\<rparr>)\<rparr>) = Some v"
    using bl1 by (simp add: set_dent_def e5 s4_def v_def)
  have "mount_root sizeof_ramfs_priv (Ramfs_data 0 0) Root_sb s0 = Some (0, dp, v)"
    unfolding mount_root_def by (simp add: a(1,2) b(1,2) g2 g3 g4 g6)
  then have r: "ramfs_mount Root_sb s0 = Some (0, v)" by (simp add: ramfs_mount_def)
  have eq: "dents v = [d \<mapsto> D\<lparr>d_priv := dp\<rparr>]" "sbs v = Map.empty" "files v = Map.empty"
    "privs v = [dp \<mapsto> \<lparr>p_dentry = d, p_children = [], p_rest = Ramfs_data 0 0\<rparr>]"
    "names v = Map.empty" "rootfs v = Some \<lparr>sb_fs = Ramfs, root_dentry = d\<rparr>" "fs_list v = [Ramfs]"
    "fstate.more v = fstate.more s"
    using bl1 by (simp_all add: v_def e5 s4_def)
  have iv: "fs_inv v"
    by (rule fs_inv_root [OF _ _ _ nd eq(1,4,2,3,5,6)])
      (use a b h4 in \<open>auto simp: v_def D_def is_dir_def DIR_TYPE_def const_defs\<close>)
  have rd: "root_of v = d" by (simp add: root_of_def eq)
  have md: "mnt_dir v d = d" by (simp add: mnt_dir_def eq D_def)
  have "entries v d = []" by (simp add: entries_def eq)
  moreover have "fs_of v d = Some Ramfs" by (simp add: fs_of_def through_mount_def eq D_def get_sb_def)
  moreover have "grow_ready k v" using b(5) by (simp add: v_def)
  ultimately show ?thesis using that m r iv rd md eq by simp
qed


section \<open>A mounted file system exists\<close>

lemma fs_demo_exists:
  obtains s :: "'z fstate_scheme" where "fs_blank s" "heap_inv s" "grow_ready 10 s" "fstate.more s = x"
    "mem s = m"
proof -
  obtain s :: "'z fstate_scheme" where "heap_inv s" "grow_ready 10 s"
    "heap.more s = kmem_ext m (fstate_ext Map.empty Map.empty Map.empty Map.empty Map.empty [] None 0 x)"
    by (rule heap_with_rest)
  moreover have "fs_blank s \<and> fstate.more s = x \<and> mem s = m" using calculation(3) by (cases s) (simp add: fs_blank_def)
  ultimately show ?thesis using that by blast
qed

text \<open>C36: Starting from a kernel without any mounted file system, \<open>init_ramfs\<close> followed by
  \<open>vfs_mount("ramfs", "/")\<close> succeeds and gives a well-formed state whose root is an empty
  directory, provided the heap can serve the two allocations.\<close>

theorem vfs_mount_root_correct:
  assumes "fs_blank s" "heap_inv s" "grow_ready 2 s"
  shows "\<exists>s'. vfs_mount ''ramfs'' ''/'' (snd (init_ramfs s)) = Some (0, s') \<and> fs_inv s' \<and>
    entries s' (root_of s') = []"
proof -
  have "grow_ready (Suc (Suc 0)) s" using assms(3) by (simp add: numeral_2_eq_2)
  then show ?thesis using mount_ramfs_root [OF assms(1,2), of 0] by metis
qed

theorem vfs_mount_root_correct_witness:
  "\<exists>s s' :: fstate. vfs_mount ''ramfs'' ''/'' (snd (init_ramfs s)) = Some (0, s') \<and> fs_inv s' \<and>
    entries s' (root_of s') = []"
proof -
  obtain s :: fstate where s: "fs_blank s" "heap_inv s" "grow_ready 10 s" by (rule fs_demo_exists)
  have "grow_ready 2 s" using s(3) grow_ready_mono [of 8 2] by simp
  then show ?thesis using vfs_mount_root_correct [OF s(1,2)] by blast
qed

text \<open>C1: \<open>lookup_path_common\<close>, with any flags, returns exactly the node or the error that the
  pure walk through the tree gives for the path's components; it leaves the tree unchanged, hands
  the caller a reference to the node and, when asked, a copy of the last component, and frees
  every other component.\<close>

theorem lookup_path_refines:
  assumes "fs_inv s" "grow_ready (length (path_comps path) + j) s" "good_path path"
  shows "\<exists>nm s'. lookup_path_common path fl want s = Some (denotes fl path s, nm, s') \<and>
    looked_up (want \<and> path_comps path \<noteq> []) (last (path_comps path)) s j (denotes fl path s) nm s'"
  by (rule lookup_path_common_spec [OF assms])

lemma demo_path: "good_path ''/a/b''" "path_comps ''/a/b'' = [''a'', ''b'']" "ends_in_slash ''/a/b'' = False"
  by (simp_all add: good_path_def path_comps_def components.simps first_comp_def next_path_def ends_in_slash_def)

lemma mounted_demo_exists:
  obtains s :: "'z fstate_scheme" where "fs_inv s" "grow_ready 8 s" "entries s (root_of s) = []"
    "fs_of s (root_of s) = Some Ramfs" "mnt_dir s (root_of s) = root_of s" "files s = Map.empty"
    "names s = Map.empty" "fs_list s = [Ramfs]" "fstate.more s = x"
proof -
  obtain s :: "'z fstate_scheme" where s: "fs_blank s" "heap_inv s" "grow_ready 10 s" "fstate.more s = x"
    by (rule fs_demo_exists)
  have "grow_ready (Suc (Suc 8)) s" using s(3) by simp
  from mount_ramfs_root [OF s(1,2) this] show ?thesis using that s(4) by metis
qed

theorem lookup_path_refines_witness:
  "\<exists>(s :: fstate) s'. lookup_path_common ''/a/b'' 0 False s = Some (Inl ENOENT, None, s') \<and> same_tree s s'"
proof -
  obtain s :: fstate where s: "fs_inv s" "grow_ready 8 s" "entries s (root_of s) = []"
    "mnt_dir s (root_of s) = root_of s" by (rule mounted_demo_exists)
  have r: "grow_ready (length (path_comps ''/a/b'') + 6) s" using s(2) by (simp add: demo_path)
  have "denotes 0 ''/a/b'' s = Inl ENOENT"
    by (simp add: denotes_def demo_path Let_def child_def s)
  then show ?thesis
    using lookup_path_refines [OF s(1) r demo_path(1), of 0 False] by (auto simp: looked_up_def)
qed

text \<open>C16: \<open>vfs_mkdir\<close> below a ramfs: either the path cannot name a new directory, and the
  error the walk gives is returned with the tree unchanged; or 0 is returned, the path now
  denotes a new empty directory, the last entry of its parent, and every other directory has the
  entries it had.\<close>

theorem vfs_mkdir_creates:
  assumes "fs_inv s" "grow_ready (length (path_comps path) + 2) s"
    "good_path path" "path_comps path \<noteq> []" "length (last (path_comps path)) < PATH_MAX"
    "\<And>d. denotes LAST_MUST_NOT_EXIST path s = Inr d \<Longrightarrow> fs_of s d = Some Ramfs"
  shows "\<exists>r s'. vfs_mkdir path s = Some (r, s') \<and> mkdir_result path s r s'"
  by (rule vfs_mkdir_correct [OF assms])

lemma demo_path2: "good_path ''/a''" "path_comps ''/a'' = [''a'']" "ends_in_slash ''/a'' = False"
  by (simp_all add: good_path_def path_comps_def components.simps first_comp_def next_path_def ends_in_slash_def)

theorem vfs_mkdir_creates_witness:
  "\<exists>(s :: fstate) s' n. vfs_mkdir ''/a'' s = Some (0, s') \<and> denotes 0 ''/a'' s' = Inr n \<and> fs_inv s'"
proof -
  obtain s :: fstate where s: "fs_inv s" "grow_ready 8 s" "entries s (root_of s) = []"
    "fs_of s (root_of s) = Some Ramfs" "mnt_dir s (root_of s) = root_of s" by (rule mounted_demo_exists)
  have r: "grow_ready (length (path_comps ''/a'') + 2) s" using grow_ready_mono [of 5 3 s] s(2) by (simp add: demo_path2 numeral_3_eq_3)
  have d: "denotes LAST_MUST_NOT_EXIST ''/a'' s = Inr (root_of s)"
    by (simp add: denotes_def demo_path2 Let_def child_def s)
  then show ?thesis
    using vfs_mkdir_creates [OF s(1) r demo_path2(1)] s(4)
    by (auto simp: mkdir_result_def demo_path2 PATH_MAX_def)
qed

end
