(* ===== verification/FsFile.thy ===== *)
theory FsFile
  imports FsDir
begin

text \<open>
  Open files of a ramfs (\<open>src/src/fs/vfs.c\<close>, \<open>src/src/fs/ramfs/ramfs.c\<close>): creating one with
  \<open>vfs_open\<close>, and the proof that \<open>vfs_write\<close>, \<open>vfs_read\<close> and \<open>vfs_lseek\<close> refine an abstract file,
  a list of bytes and a position, with the growth and the copying of the data block behind it.
\<close>

section \<open>Where heap blocks are\<close>

lemma chain_allocs_ge: "chain h n bs tp \<Longrightarrow> (q, m) \<in> set (allocs n bs) \<Longrightarrow> n + 4 \<le> q"
proof (induction bs arbitrary: n)
  case (Cons b bs)
  then show ?case by (cases b) (force split: if_splits)
qed simp

lemma live_ge: "(q, m) \<in> live s \<Longrightarrow> heap_start + 4 \<le> q"
  unfolding live_def using chain_allocs_ge by blast

lemma live_disjoint:
  assumes inv: "heap_inv s" and a: "(p, m) \<in> live s" "(q, n) \<in> live s"
  shows "p = q \<and> m = n \<or> p + m < q \<or> q + n < p"
proof -
  obtain bs where bs: "chain (hdr s) heap_start bs (heap_top s)" "live s = set (allocs heap_start bs)"
    using heap_at_start [OF inv] by (metis heap_blocks_def)
  have "chain h k cs tp \<Longrightarrow> (p, m) \<in> set (allocs k cs) \<Longrightarrow> (q, n) \<in> set (allocs k cs) \<Longrightarrow>
      p = q \<and> m = n \<or> p + m < q \<or> q + n < p" for h k cs tp
  proof (induction cs arbitrary: k)
    case (Cons b cs)
    obtain z u where b: "b = (z, u)" by (cases b)
    have c: "chain h (k + 4 + z) cs tp" using Cons.prems(1) b by simp
    note ge = chain_allocs_ge [OF c]
    show ?case
      using Cons.IH [OF c] Cons.prems(2,3) ge [of p m] ge [of q n] b by (auto split: if_splits)
  qed simp
  then show ?thesis using bs a by metis
qed

lemma round_chunk_ge:
  assumes "unat x + 4095 < 2 ^ 32"
  shows "unat x \<le> unat (ROUND_CHUNK x)" "unat (ROUND_CHUNK x) \<le> unat x + 4095"
proof -
  let ?y = "x + 4095"
  have y: "unat ?y = unat x + 4095" using assms by (simp add: unat_word_ariths)
  have "unat (ROUND_CHUNK x) = unat ?y - unat ?y mod 4096"
    using unat_and_not_mask [of ?y 12] by (simp add: ROUND_CHUNK_def mask_eq_exp_minus_1)
  moreover have "unat ?y mod 4096 \<le> 4095" by (simp add: less_Suc_eq_le [symmetric])
  ultimately show "unat x \<le> unat (ROUND_CHUNK x)" "unat (ROUND_CHUNK x) \<le> unat x + 4095"
    using y by linarith+
qed


section \<open>A file gets a new data block\<close>

lemma fs_inv_mem [simp]: "fs_inv (mem_update f s) = fs_inv s"
proof -
  have "fs_inv (mem_update f s)" if i: "fs_inv s" for f and s :: "'a fstate_scheme"
  proof (rule fs_inv_transfer [OF i])
    have b: "data_blocks (mem_update f s) = data_blocks s" by (rule data_blocks_cong) simp
    show "objects (mem_update f s) \<subseteq> fst ` live (mem_update f s)"
      using fs_invD(2) [OF i] by (simp add: objects_def b)
    show "one_kind (mem_update f s) a" for a using fs_invD(3) [OF i, of a] by (simp add: one_kind_def b)
    show "heap_inv (mem_update f s)" using fs_invD(1) [OF i] by simp
  qed simp_all
  from this [of s f] this [of "mem_update f s" "\<lambda>_. mem s"] show ?thesis by auto
qed

lemma fs_inv_new_data:
  fixes s t :: "'z fstate_scheme"
  assumes inv: "fs_inv s" and p: "privs s a = Some p" "p_rest p = Ramfs_data n q"
    and h: "heap_inv t" and q': "(q', m') \<in> live t" "unat n' \<le> m'" "q' \<noteq> 0" "q' \<notin> fst ` live s"
    and l: "\<And>r m. (r, m) \<in> live s \<Longrightarrow> r \<noteq> q \<Longrightarrow> (r, m) \<in> live t"
    and eq: "privs t = (privs s)(a \<mapsto> p\<lparr>p_rest := Ramfs_data n' q'\<rparr>)" "dents t = dents s"
      "sbs t = sbs s" "files t = files s" "names t = names s" "rootfs t = rootfs s"
  shows "fs_inv t"
proof (rule fs_invI [OF h])
  note g = get_sb_cong [OF eq(3,6)]
  have uniq: "b = a" if "privs s b = Some r" "p_rest r = Ramfs_data k q" "q \<noteq> 0" for b r k
    using fs_invD(5) [OF inv p(1)] p(2) that unfolding priv_ok_def by blast
  have b: "data_blocks t = insert q' (data_blocks s - {q})"
  proof (rule set_eqI)
    fix r
    have "r \<in> data_blocks t \<longleftrightarrow> r = q' \<or> (r \<noteq> 0 \<and> (\<exists>b pr k. b \<noteq> a \<and> privs s b = Some pr \<and> p_rest pr = Ramfs_data k r))"
      using q'(3) p by (auto simp: data_blocks_def eq split: if_splits)
    also have "(r \<noteq> 0 \<and> (\<exists>b pr k. b \<noteq> a \<and> privs s b = Some pr \<and> p_rest pr = Ramfs_data k r)) \<longleftrightarrow>
        r \<in> data_blocks s - {q}" (is "?L = ?R")
    proof
      assume ?L
      then show ?R using uniq by (auto simp: data_blocks_def)
    next
      assume r: ?R
      then obtain b pr k where x: "privs s b = Some pr" "p_rest pr = Ramfs_data k r" "r \<noteq> 0" "r \<noteq> q"
        by (auto simp: data_blocks_def)
      have "b \<noteq> a" using x p by auto
      then show ?L using x by blast
    qed
    finally show "r \<in> data_blocks t \<longleftrightarrow> r \<in> insert q' (data_blocks s - {q})" by simp
  qed
  have no: "q' \<notin> objects s" using fs_invD(2) [OF inv] q'(4) by auto
  have qd: "q = 0 \<or> q \<in> data_blocks s" using p by (auto simp: data_blocks_def)
  have h0: "(0, m) \<notin> live s" for m using live_ge [of 0 m s] by (auto simp: heap_start_def)
  have pk: "q \<notin> dom (dents s) \<union> dom (sbs s) \<union> dom (files s) \<union> dom (privs s) \<union> dom (names s)"
  proof (cases "q = 0")
    case True
    then show ?thesis using fs_invD(2) [OF inv] h0 by (force simp: objects_def)
  next
    case False
    then show ?thesis using fs_invD(3) [OF inv, of q] qd by (auto simp: one_kind_def split: if_splits)
  qed
  have "objects t \<subseteq> insert q' (objects s - {q})"
    unfolding objects_def b using pk p by (auto simp: eq)
  moreover have "objects s - {q} \<subseteq> fst ` live t"
    using fs_invD(2) [OF inv] l by force
  ultimately show "objects t \<subseteq> fst ` live t" using q'(1) by force
  show "one_kind t b" for b
    using fs_invD(3) [OF inv, of b] no p unfolding one_kind_def b
    by (cases "b = q'"; cases "b = a") (auto simp: eq objects_def split: if_splits)
  show "dent_ok t e z" if z: "dents t e = Some z" for e z
  proof -
    have "dent_ok s e z" using z eq fs_invD(4) [OF inv] by simp
    then show ?thesis using p unfolding dent_ok_def g by (auto simp: eq)
  qed
  show "sb_ok t m sb" if "get_sb m t = Some sb" for m sb
    using fs_invD(6) [OF inv, of m sb] that unfolding g sb_ok_def eq .
  show "rootfs t \<noteq> None" using fs_invD(7) [OF inv] eq by simp
  show "priv_ok t b pr" if pr: "privs t b = Some pr" for b pr
  proof -
    obtain p0 where p0: "privs s b = Some p0" "p_dentry pr = p_dentry p0" "p_children pr = p_children p0"
      "p_rest pr = (if b = a then Ramfs_data n' q' else p_rest p0)"
      using pr p by (auto simp: eq split: if_splits)
    have ok: "priv_ok s b p0" by (rule fs_invD(5) [OF inv p0(1)])
    have sub: "\<exists>r0. privs s c = Some r0 \<and> p_children r = p_children r0 \<and>
        p_rest r = (if c = a then Ramfs_data n' q' else p_rest r0)" if "privs t c = Some r" for c r
      using that p by (auto simp: eq split: if_splits)
    have nq: "q0 \<noteq> q'" if "privs s c = Some r0" "p_rest r0 = Ramfs_data k q0" "q0 \<noteq> 0" for c r0 k q0
      using no that by (auto simp: objects_def data_blocks_def)
    have one: "b = c" if "privs t c = Some r" "set (p_children pr) \<inter> set (p_children r) \<noteq> {}" for c r
      using sub [OF that(1)] that(2) ok p0(3) unfolding priv_ok_def by metis
    have dat: "b = c" if x: "p_rest pr = Ramfs_data k q0" "q0 \<noteq> 0" "privs t c = Some r" "p_rest r = Ramfs_data k' q0"
      for k k' q0 c r
    proof -
      obtain r0 where r0: "privs s c = Some r0" "p_rest r = (if c = a then Ramfs_data n' q' else p_rest r0)"
        using sub [OF x(3)] by blast
      show ?thesis
      proof (cases "b = a"; cases "c = a")
        assume "b \<noteq> a" "c \<noteq> a"
        then show ?thesis using ok x r0 p0(4) unfolding priv_ok_def by simp
      next
        assume "b = a" "c \<noteq> a"
        then show ?thesis using nq [OF r0(1)] x r0(2) p0(4) by auto
      next
        assume "b \<noteq> a" "c = a"
        then show ?thesis using nq [OF p0(1)] x r0(2) p0(4) by auto
      qed simp
    qed
    have alloc: "\<exists>m. (q0, m) \<in> live t \<and> unat k \<le> m" if x: "p_rest pr = Ramfs_data k q0" "q0 \<noteq> 0" for k q0
    proof (cases "b = a")
      case True
      then show ?thesis using q' x p0(4) by auto
    next
      case False
      then have k: "p_rest p0 = Ramfs_data k q0" using x p0(4) by simp
      then obtain m where m: "(q0, m) \<in> live s" "unat k \<le> m" using ok x(2) unfolding priv_ok_def by blast
      have "q0 \<noteq> q" using uniq [of b p0 k] p0(1) k x(2) False by auto
      then show ?thesis using l m by blast
    qed
    have "\<exists>x. dents t (p_dentry pr) = Some x \<and> d_priv x = b"
      using ok p0(2) unfolding priv_ok_def eq by simp
    moreover have "distinct (p_children pr)" using ok p0(3) unfolding priv_ok_def by simp
    moreover have "\<forall>c \<in> set (p_children pr). privs t c \<noteq> None"
      using ok p0(3) p(1) unfolding priv_ok_def eq by auto
    ultimately show ?thesis using one dat alloc unfolding priv_ok_def by blast
  qed
qed


section \<open>Room for a write\<close>

text \<open>The file behind a node: its size, its block and the block's capacity.\<close>

definition file_at :: "'z fstate_scheme \<Rightarrow> nat \<Rightarrow> dentry \<Rightarrow> dpriv \<Rightarrow> u32 \<Rightarrow> nat \<Rightarrow> bool" where
  "file_at s d x p n q \<longleftrightarrow> dents s d = Some x \<and> privs s (d_priv x) = Some p \<and> p_rest p = Ramfs_data n q \<and>
     d_size x \<le> n \<and> (q = 0 \<longrightarrow> n = 0)"

definition file_bytes :: "'z fstate_scheme \<Rightarrow> nat \<Rightarrow> u8 list" where
  "file_bytes s d =
    (let x = the (dents s d)
     in map (\<lambda>i. mem s (data_ptr (p_rest (the (privs s (d_priv x)))) + i)) [0 ..< unat (d_size x)])"

lemma kmalloc_blocks:
  fixes s :: "'z heap_scheme"
  assumes inv: "heap_inv s" and rdy: "grow_ready (k + j) s" and n: "unat (align8 n) + 4 \<le> 4096 * k"
  obtains p and s' :: "'z heap_scheme" where "kmalloc n s = Some (p, s')" "p \<noteq> 0" "p \<notin> fst ` live s"
    "heap_inv s'" "grow_ready j s'" "live s' = insert (p, unat (align8 n)) (live s)"
    "heap.more s' = heap.more s"
proof -
  obtain p and s' :: "'z heap_scheme" where a: "kmalloc n s = Some (p, s')" "p \<noteq> 0" "grow_ready j s'"
    using kmalloc_total_ready [of s k j n] inv rdy n by auto
  then show ?thesis
    using that kheap.alloc_block [OF inv a(1,2)] kheap.alloc_fresh [OF inv a(1,2)] kmalloc_more [OF a(1)]
    by blast
qed

text \<open>What growing promises.\<close>

definition grown ::
  "'z fstate_scheme \<Rightarrow> nat \<Rightarrow> dpriv \<Rightarrow> u32 \<Rightarrow> u32 \<Rightarrow> nat \<Rightarrow> nat \<Rightarrow> 'z fstate_scheme \<Rightarrow> u32 \<Rightarrow> nat \<Rightarrow> bool" where
  "grown s a p sz need q j t n' q' \<longleftrightarrow>
     fs_inv t \<and> grow_ready j t \<and> privs t = (privs s)(a \<mapsto> p\<lparr>p_rest := Ramfs_data n' q'\<rparr>) \<and>
     dents t = dents s \<and> sbs t = sbs s \<and> files t = files s \<and> names t = names s \<and> rootfs t = rootfs s \<and>
     fs_list t = fs_list s \<and> devfs_root t = devfs_root s \<and> fstate.more t = fstate.more s \<and>
     need \<le> n' \<and> sz \<le> n' \<and> (q' = 0 \<longrightarrow> n' = 0) \<and>
     (\<forall>i < unat sz. mem t (q' + i) = mem s (q + i)) \<and>
     (\<forall>b < heap_start. mem t b = mem s b) \<and>
     (\<forall>r m. (r, m) \<in> live s \<longrightarrow> r \<noteq> q \<longrightarrow>
        (r, m) \<in> live t \<and> (\<forall>b. r \<le> b \<longrightarrow> b < r + m \<longrightarrow> mem t b = mem s b))"

lemma grown_new:
  fixes s s1 t :: "'z fstate_scheme"
  assumes inv: "fs_inv s" and p: "privs s a = Some p" "p_rest p = Ramfs_data n q"
    and k: "kmalloc asz s = Some (q', s1)" "q' \<noteq> 0" "q' \<notin> fst ` live s" "heap_inv s1" "grow_ready j s1"
      "live s1 = insert (q', unat (align8 asz)) (live s)" "heap.more s1 = heap.more s"
    and asz: "need \<le> asz" "sz \<le> asz" "unat asz \<le> 4294967288"
    and t: "t = s1\<lparr>hdr := h, mem := m', privs := (privs s)(a \<mapsto> p\<lparr>p_rest := Ramfs_data asz q'\<rparr>)\<rparr>"
    and ht: "heap_inv t" "\<And>r m. (r, m) \<in> live s1 \<Longrightarrow> r \<noteq> q \<Longrightarrow> (r, m) \<in> live t"
    and m: "\<And>i. i < unat sz \<Longrightarrow> m' (q' + i) = mem s (q + i)"
      "\<And>b. b < q' \<or> q' + unat asz \<le> b \<Longrightarrow> m' b = mem s b"
  shows "grown s a p sz need q j t asz q'"
proof -
  note eq = same_fsD [OF conjunct1 [OF kmem_moreD [OF k(7)]]] kmem_moreD [OF k(7)]
  have al: "unat asz \<le> unat (align8 asz)" by (rule align8_ge(1) [OF asz(3)])
  have te: "privs t = (privs s)(a \<mapsto> p\<lparr>p_rest := Ramfs_data asz q'\<rparr>)" "dents t = dents s"
    "sbs t = sbs s" "files t = files s" "names t = names s" "rootfs t = rootfs s" "fs_list t = fs_list s"
    "devfs_root t = devfs_root s" "fstate.more t = fstate.more s" "mem t = m'"
    by (simp_all add: t eq)
  have in1: "(q', unat (align8 asz)) \<in> live s1" using k(6) by simp
  have qq: "q' \<noteq> q"
  proof
    assume "q' = q"
    then have "q \<in> data_blocks s" using p k(2) by (auto simp: data_blocks_def)
    then show False using fs_invD(2) [OF inv] k(3) \<open>q' = q\<close> by (auto simp: objects_def)
  qed
  have keep: "(r, l) \<in> live t" if "(r, l) \<in> live s" "r \<noteq> q" for r l using ht(2) that k(6) by auto
  have "fs_inv t"
    by (rule fs_inv_new_data [OF inv p ht(1) ht(2) [OF in1 qq] al k(2,3) keep te(1-6)])
  moreover have "grow_ready j t" using k(5) by (simp add: t)
  moreover have "m' b = mem s b" if "b < heap_start" for b
    using m(2) live_ge [OF in1] that by simp
  moreover have "m' b = mem s b" if r: "(r, l) \<in> live s" "r \<le> b" "b < r + l" for r l b
  proof -
    have "r \<noteq> q'" using k(3) r(1) by force
    then have "q' + unat (align8 asz) < r \<or> r + l < q'"
      using live_disjoint [OF k(4) in1, of r l] r(1) k(6) by auto
    then show ?thesis using m(2) r al by auto
  qed
  ultimately show ?thesis
    unfolding grown_def using te asz k(2) m(1) keep by auto
qed

lemma ramfs_grow_spec:
  fixes s :: "'z fstate_scheme"
  assumes inv: "fs_inv s" and f: "file_at s d x p n q" and N: "unat need \<le> N" "unat n \<le> N" "N < 2 ^ 30"
    and k: "2 * N + 8192 \<le> 4096 * k" and rdy: "grow_ready (k + j) s"
  obtains t n' q' where "ramfs_grow (d_priv x) (d_size x) need s = Some (True, t)"
    "grown s (d_priv x) p (d_size x) need q j t n' q'"
proof -
  let ?a = "d_priv x"
  have p: "privs s ?a = Some p" "p_rest p = Ramfs_data n q" "d_size x \<le> n" "q = 0 \<Longrightarrow> n = 0"
    using f by (auto simp: file_at_def)
  have hi: "heap_inv s" by (rule fs_invD(1) [OF inv])
  show ?thesis
  proof (cases "n < need")
    case False
    have "(privs s)(?a \<mapsto> p\<lparr>p_rest := Ramfs_data n q\<rparr>) = privs s"
      using p(1,2) by (metis (no_types, lifting) dpriv.surjective dpriv.update_convs(3) dpriv.select_convs(3) fun_upd_triv)
    then have "grown s ?a p (d_size x) need q j s n q"
      using False p inv grow_ready_mono [OF rdy] by (auto simp: grown_def)
    then show ?thesis using that [of s n q] False p by (simp add: ramfs_grow_def)
  next
    case True
    define asz where "asz = (if q = 0 then ROUND_CHUNK need
      else if n * 2 < need then ROUND_CHUNK need else n * 2)"
    have two: "unat (n * 2) = 2 * unat n" using N by (simp add: unat_word_ariths)
    have rc: "unat need \<le> unat (ROUND_CHUNK need)" "unat (ROUND_CHUNK need) \<le> unat need + 4095"
      using round_chunk_ge [of need] N by auto
    have asz: "need \<le> asz" "n \<le> asz" "unat asz \<le> 2 * N + 4095"
      using True two rc N unfolding asz_def by (auto simp: word_le_nat_alt word_less_nat_alt not_less split: if_splits)
    have lim: "unat asz \<le> 4294967288" using asz(3) N by simp
    have al: "unat (align8 asz) + 4 \<le> 4096 * k" using align8_ge(2) [OF lim] asz(3) k by simp
    obtain q' and s1 :: "'z fstate_scheme" where a: "kmalloc asz s = Some (q', s1)" "q' \<noteq> 0" "q' \<notin> fst ` live s"
      "heap_inv s1" "grow_ready j s1" "live s1 = insert (q', unat (align8 asz)) (live s)"
      "heap.more s1 = heap.more s"
      using kmalloc_blocks [OF hi rdy al] .
    note eq = same_fsD [OF conjunct1 [OF kmem_moreD [OF a(7)]]] kmem_moreD [OF a(7)]
    have sz: "d_size x \<le> asz" using p(3) asz(2) by simp
    show ?thesis
    proof (cases "q = 0")
      case q0: True
      let ?t = "s1\<lparr>hdr := hdr s1, mem := mem s, privs := (privs s)(?a \<mapsto> p\<lparr>p_rest := Ramfs_data asz q'\<rparr>)\<rparr>"
      have "d_size x = 0" using p q0 by simp
      then have g: "grown s ?a p (d_size x) need q j ?t asz q'"
        by (intro grown_new [OF inv p(1,2) a asz(1) sz lim refl]) (use a in simp_all)
      have te: "?t = s1\<lparr>privs := (privs s)(?a \<mapsto> p\<lparr>p_rest := Ramfs_data asz q'\<rparr>)\<rparr>"
        using eq by (cases s1) simp
      have "ramfs_grow ?a (d_size x) need s = Some (True, ?t)"
        unfolding te using True p q0 a(1,2) eq by (simp add: ramfs_grow_def asz_def Let_def set_priv_def)
      then show ?thesis using that g by blast
    next
      case q0: False
      have dq: "q \<in> data_blocks s" using p q0 by (auto simp: data_blocks_def)
      obtain m where m: "(q, m) \<in> live s" "unat n \<le> m"
        using fs_invD(5) [OF inv p(1)] p(2) q0 unfolding priv_ok_def by blast
      define m' where "m' = snd (memcpy q' q (d_size x) (mem s))"
      let ?s2 = "s1\<lparr>mem := m'\<rparr>"
      have h2: "heap_inv ?s2" "(q, m) \<in> live ?s2" using a m by simp_all
      obtain s3 :: "'z fstate_scheme" where k3: "kfree q ?s2 = Some s3" "heap_inv s3" "live s3 = live ?s2 - {(q, m)}"
        using kfree_spec [OF h2] by metis
      obtain h where h: "s3 = ?s2\<lparr>hdr := h\<rparr>" using kfree_hdr [OF k3(1)] .
      let ?t = "s1\<lparr>hdr := h, mem := m', privs := (privs s)(?a \<mapsto> p\<lparr>p_rest := Ramfs_data asz q'\<rparr>)\<rparr>"
      have te: "?t = s3\<lparr>privs := (privs s)(?a \<mapsto> p\<lparr>p_rest := Ramfs_data asz q'\<rparr>)\<rparr>" by (simp add: h)
      have lt: "live ?t = live s1 - {(q, m)}" unfolding te using k3(3) by simp
      have qq: "q' \<noteq> q" using a(3) m(1) by force
      have dis: "q' + unat (align8 asz) < q \<or> q + m < q'"
        using live_disjoint [OF a(4), of q' "unat (align8 asz)" q m] a(6) m(1) qq by auto
      have le: "unat (d_size x) \<le> m" "unat (d_size x) \<le> unat (align8 asz)" "unat (d_size x) \<le> unat asz"
        using p(3) m(2) sz align8_ge(1) [OF lim] by (auto simp: word_le_nat_alt)
      have ord: "q' \<le> q \<or> q + unat (d_size x) \<le> q'" using dis le by linarith
      have g: "grown s ?a p (d_size x) need q j ?t asz q'"
      proof (rule grown_new [OF inv p(1,2) a asz(1) sz lim refl])
        show "heap_inv ?t" unfolding te using k3(2) by simp
        show "(r, l) \<in> live ?t" if "(r, l) \<in> live s1" "r \<noteq> q" for r l using that unfolding lt by simp
        show "m' (q' + i) = mem s (q + i)" if "i < unat (d_size x)" for i
          unfolding m'_def memcpy_def using movsb_up_copy [OF that ord, of "mem s"] by simp
        show "m' b = mem s b" if "b < q' \<or> q' + unat asz \<le> b" for b
          unfolding m'_def memcpy_def using that movsb_up_below [of b q'] movsb_up_above [of q' _ b] le(3) by auto
      qed
      have av: "(if n * 2 < need then ROUND_CHUNK need else alloc_size (p_rest p) * 2) = asz"
        using q0 p(2) by (simp add: asz_def)
      have p3: "privs s3 = privs s" by (simp add: h eq)
      have "ramfs_grow ?a (d_size x) need s = Some (True, ?t)"
        unfolding te using True p q0 a(1,2) eq(10) k3(1) p3
        by (simp add: ramfs_grow_def av Let_def set_priv_def m'_def [symmetric] split del: if_split)
      then show ?thesis using that g by blast
    qed
  qed
qed


section \<open>Writing\<close>

lemma sint_small: "unat (w :: u32) < 2 ^ 31 \<Longrightarrow> sint w = int (unat w)"
proof -
  assume a: "unat w < 2 ^ 31"
  have u: "int (unat w) = uint w" by simp
  have "unat w < 2147483648" using a by simp
  then have "uint w < 2147483648" using u by linarith
  moreover have "- 2147483648 \<le> uint w" using uint_ge_0 [of w] by linarith
  ultimately have "signed_take_bit 31 (uint w) = uint w" by (intro signed_take_bit_int_eq_self) simp_all
  then show ?thesis unfolding u by (simp add: sint_uint)
qed

lemma file_fs_ramfs:
  assumes inv: "fs_inv s" and fl: "files s f = Some fl" and fa: "file_at s (f_dentry fl) x p n q"
  shows "file_fs f s = Some Ramfs"
proof -
  have x: "dents s (f_dentry fl) = Some x" "privs s (d_priv x) = Some p" "p_rest p = Ramfs_data n q"
    using fa by (auto simp: file_at_def)
  then show ?thesis using fs_invD(4) [OF inv x(1)] fl by (auto simp: dent_ok_def file_fs_def)
qed

lemma file_bytes_at: "file_at s d x p n q \<Longrightarrow> file_bytes s d = map (\<lambda>i. mem s (q + i)) [0 ..< unat (d_size x)]"
  by (simp add: file_bytes_def file_at_def Let_def)

lemma ramfs_write_spec:
  fixes s :: "'z fstate_scheme"
  assumes inv: "fs_inv s" and fl: "files s f = Some fl" and fa: "file_at s (f_dentry fl) x p n q"
    and N: "unat off + unat sz \<le> N" "unat n \<le> N" "N < 2 ^ 30" and k: "2 * N + 8192 \<le> 4096 * k"
    and rdy: "grow_ready (k + j) s" and off: "off \<le> d_size x" and sz: "sz \<noteq> 0"
    and buf: "buf + unat sz \<le> heap_start"
  obtains t x' p' n' q' where "ramfs_write f off buf sz s = Some (int (unat sz), t)"
    "fs_inv t" "grow_ready j t" "file_at t (f_dentry fl) x' p' n' q'" "files t = files s"
    "file_bytes t (f_dentry fl) =
       take (unat off) (file_bytes s (f_dentry fl)) @ map (mem s) [buf ..< buf + unat sz] @
       drop (unat off + unat sz) (file_bytes s (f_dentry fl))"
    "\<And>e y pe ne qe. e \<noteq> f_dentry fl \<Longrightarrow> file_at s e y pe ne qe \<Longrightarrow>
       file_at t e y pe ne qe \<and> file_bytes t e = file_bytes s e"
    "\<And>b. b < heap_start \<Longrightarrow> mem t b = mem s b"
proof -
  let ?d = "f_dentry fl" and ?need = "off + sz" and ?a = "d_priv x"
  have x: "dents s ?d = Some x" "privs s ?a = Some p" "p_rest p = Ramfs_data n q" "d_size x \<le> n"
    "q = 0 \<Longrightarrow> n = 0" using fa by (auto simp: file_at_def)
  have nd: "unat ?need = unat off + unat sz" using N by (simp add: unat_word_ariths)
  have nN: "unat ?need \<le> N" using nd N by simp
  obtain t0 n' q' where g: "ramfs_grow ?a (d_size x) ?need s = Some (True, t0)"
    "grown s ?a p (d_size x) ?need q j t0 n' q'"
    using ramfs_grow_spec [OF inv fa nN N(2,3) k rdy] .
  define x' where "x' = (if d_size x < ?need then x\<lparr>d_size := ?need\<rparr> else x)"
  define p' where "p' = p\<lparr>p_rest := Ramfs_data n' q'\<rparr>"
  define m where "m = snd (memcpy (q' + unat off) buf sz (mem t0))"
  define t where "t = t0\<lparr>dents := (dents s)(?d \<mapsto> x'), mem := m\<rparr>"
  have gr: "fs_inv t0" "grow_ready j t0" "privs t0 = (privs s)(?a \<mapsto> p')" "dents t0 = dents s" "files t0 = files s"
    "?need \<le> n'" "d_size x \<le> n'" "q' = 0 \<Longrightarrow> n' = 0" "\<And>i. i < unat (d_size x) \<Longrightarrow> mem t0 (q' + i) = mem s (q + i)"
    "\<And>b. b < heap_start \<Longrightarrow> mem t0 b = mem s b"
    "\<And>r l. (r, l) \<in> live s \<Longrightarrow> r \<noteq> q \<Longrightarrow> (r, l) \<in> live t0 \<and> (\<forall>b. r \<le> b \<longrightarrow> b < r + l \<longrightarrow> mem t0 b = mem s b)"
    using g(2) unfolding grown_def p'_def by auto
  have sz0: "0 < unat sz" using sz by (simp add: unat_gt_0)
  have "unat ?need \<le> unat n'" using gr(6) by (simp add: word_le_nat_alt)
  then have n0: "unat off + unat sz \<le> unat n'" "n' \<noteq> 0" using nd sz0 by auto
  have q0: "q' \<noteq> 0" using gr(8) n0 by blast
  have pt: "privs t0 ?a = Some p'" "p_rest p' = Ramfs_data n' q'" using gr(3) by (simp_all add: p'_def)
  obtain l where l: "(q', l) \<in> live t0" "unat n' \<le> l"
    using fs_invD(5) [OF gr(1) pt(1)] pt(2) q0 unfolding priv_ok_def by blast
  have qh: "heap_start < q'" using live_ge [OF l(1)] by simp
  have r: "ramfs_write f off buf sz s = Some (int (unat sz), t)"
    using fl x(1) g(1) gr(4) pt sint_small [of sz] N
    by (simp add: ramfs_write_def set_dent_def x'_def [symmetric] t_def m_def del: of_nat_unat)
  have i1: "fs_inv (t0\<lparr>dents := (dents t0)(?d \<mapsto> x')\<rparr>)"
    by (rule fs_inv_upd_dent [OF gr(1), of ?d x]) (use x gr(4) fs_invD(4) [OF inv x(1)] in \<open>auto simp: x'_def dent_ok_def\<close>)
  have it: "fs_inv t"
  proof -
    have "t = (t0\<lparr>dents := (dents t0)(?d \<mapsto> x')\<rparr>)\<lparr>mem := m\<rparr>" by (simp add: t_def gr(4))
    then show ?thesis using i1 by simp
  qed
  have xs: "unat (d_size x') = max (unat (d_size x)) (unat off + unat sz)" "d_priv x' = ?a" "d_size x' \<le> n'"
    using nd gr(6,7) by (auto simp: x'_def word_less_nat_alt max_def)
  have ft: "file_at t ?d x' p' n' q'"
    using pt gr(8) xs by (simp add: file_at_def t_def)
  have mo: "m b = mem t0 b" if "b < q' + unat off \<or> q' + unat off + unat sz \<le> b" for b
    using that movsb_up_below [of b] movsb_up_above [of "q' + unat off" "unat sz" b] by (auto simp: m_def memcpy_def)
  have mc: "m (q' + unat off + i) = mem s (buf + i)" if "i < unat sz" for i
    using movsb_up_copy [OF that, of "q' + unat off" buf "mem t0"] buf qh gr(10) [of "buf + i"] that
    by (simp add: m_def memcpy_def)
  have bytes: "file_bytes t ?d =
       take (unat off) (file_bytes s ?d) @ map (mem s) [buf ..< buf + unat sz] @
       drop (unat off + unat sz) (file_bytes s ?d)"
  proof (rule nth_equalityI)
    have o: "unat off \<le> unat (d_size x)" using off by (simp add: word_le_nat_alt)
    show "length (file_bytes t ?d) = length (take (unat off) (file_bytes s ?d) @ map (mem s) [buf ..< buf + unat sz] @
       drop (unat off + unat sz) (file_bytes s ?d))"
      using o xs(1) by (simp add: file_bytes_at [OF ft] file_bytes_at [OF fa])
    fix i
    assume "i < length (file_bytes t ?d)"
    then have i: "i < max (unat (d_size x)) (unat off + unat sz)" using xs(1) by (simp add: file_bytes_at [OF ft])
    have tm: "mem t = m" by (simp add: t_def)
    have lhs: "file_bytes t ?d ! i = m (q' + i)" using i xs(1) by (simp add: file_bytes_at [OF ft] tm)
    consider (before) "i < unat off" | (new) "unat off \<le> i" "i < unat off + unat sz" | (after) "unat off + unat sz \<le> i"
      by linarith
    then show "file_bytes t ?d ! i = (take (unat off) (file_bytes s ?d) @ map (mem s) [buf ..< buf + unat sz] @
       drop (unat off + unat sz) (file_bytes s ?d)) ! i"
    proof cases
      case before
      then show ?thesis using o mo gr(9) unfolding lhs by (simp add: nth_append file_bytes_at [OF fa])
    next
      case new
      then have "i - unat off < unat sz" by linarith
      then show ?thesis using new o mc [of "i - unat off"] unfolding lhs by (simp add: nth_append file_bytes_at [OF fa])
    next
      case after
      then have "i < unat (d_size x)" "\<not> i - unat off < unat sz" using i by linarith+
      then show ?thesis using after o mo gr(9) unfolding lhs by (simp add: nth_append file_bytes_at [OF fa])
    qed
  qed
  have others: "file_at t e y pe ne qe \<and> file_bytes t e = file_bytes s e"
    if e: "e \<noteq> ?d" "file_at s e y pe ne qe" for e y pe ne qe
  proof -
    have y: "dents s e = Some y" "privs s (d_priv y) = Some pe" "p_rest pe = Ramfs_data ne qe" "d_size y \<le> ne"
      "qe = 0 \<Longrightarrow> ne = 0" using e(2) by (auto simp: file_at_def)
    have "p_dentry pe = e" "p_dentry p = ?d"
      using fs_invD(4) [OF inv y(1)] fs_invD(4) [OF inv x(1)] x(2) y(2) by (auto simp: dent_ok_def)
    then have ne: "d_priv y \<noteq> ?a" using e(1) x(2) y(2) by auto
    have fe: "file_at t e y pe ne qe" using y ne e(1) gr(3) by (simp add: file_at_def t_def)
    have "mem t (qe + i) = mem s (qe + i)" if i: "i < unat (d_size y)" for i
    proof -
      have i': "i < unat ne" using i y(4) by (simp add: word_le_nat_alt)
      then have "qe \<noteq> 0" using y(5) by (cases "qe = 0") auto
      then obtain l' where l': "(qe, l') \<in> live s" "unat ne \<le> l'" "q \<noteq> qe"
        using fs_invD(5) [OF inv y(2)] y(3) x(2,3) ne unfolding priv_ok_def by metis
      then have b: "(qe, l') \<in> live t0" "mem t0 (qe + i) = mem s (qe + i)" using gr(11) [of qe l'] i' by auto
      have "q' \<noteq> qe"
      proof
        assume "q' = qe"
        have "privs t0 (d_priv y) = Some pe" using gr(3) ne y(2) by simp
        then have "d_priv y = ?a"
          using fs_invD(5) [OF gr(1) pt(1)] pt(2) q0 y(3) \<open>q' = qe\<close> unfolding priv_ok_def by metis
        then show False using ne by simp
      qed
      then have "q' + l < qe \<or> qe + l' < q'" using live_disjoint [OF fs_invD(1) [OF gr(1)] l(1) b(1)] by simp
      then have "qe + i < q' + unat off \<or> q' + unat off + unat sz \<le> qe + i" using l(2) l'(2) i' n0(1) by auto
      then show ?thesis using mo b(2) by (simp add: t_def)
    qed
    then show ?thesis using fe by (simp add: file_bytes_at [OF fe] file_bytes_at [OF e(2)])
  qed
  have low: "mem t b = mem s b" if "b < heap_start" for b
    using that mo [of b] gr(10) qh by (simp add: t_def)
  show ?thesis
    by (rule that [OF r it _ ft _ bytes others low]) (use gr in \<open>simp_all add: t_def\<close>)
qed


section \<open>Opening a new file\<close>

lemma fs_inv_add_file:
  fixes s t :: "'z fstate_scheme"
  assumes inv: "fs_inv s" and h: "heap_inv t" and l: "live s \<subseteq> live t" "f \<in> fst ` live t" "f \<notin> fst ` live s"
    and eq: "dents t = dents s" "sbs t = sbs s" "privs t = privs s" "rootfs t = rootfs s" "names t = names s"
      "files t = (files s)(f \<mapsto> fl)"
  shows "fs_inv t"
proof (rule fs_inv_transfer [OF inv eq(1-4) h])
  have b: "data_blocks t = data_blocks s" by (rule data_blocks_cong) (rule eq)
  have o: "objects t = insert f (objects s)" unfolding objects_def b by (auto simp: eq)
  have "objects s \<subseteq> fst ` live t"
    using fs_invD(2) [OF inv] image_mono [OF l(1), of fst] by (rule order.trans)
  then show "objects t \<subseteq> fst ` live t" using l(2) unfolding o by simp
  have nb: "f \<notin> objects s" using fs_invD(2) [OF inv] l(3) by auto
  show "one_kind t a" for a
    using fs_invD(3) [OF inv, of a] nb by (cases "a = f") (auto simp: one_kind_def b eq objects_def)
  show "(q, m) \<in> live t" if "(q, m) \<in> live s" for q m using that l(1) by auto
qed

lemma child_mnt_dir:
  assumes inv: "fs_inv s" and d: "dents s d = Some x" "is_dir x" and fs: "fs_of s d = Some Ramfs"
  obtains y sb where "dents s (mnt_dir s d) = Some y" "is_dir y" "get_sb (d_sb y) s = Some sb" "sb_fs sb = Ramfs"
    "\<And>name. ramfs_lookup (mnt_dir s d) name s =
      Some (case child s d name of
          None \<Rightarrow> (Inl ENOENT, s)
        | Some e \<Rightarrow> (Inr e, s\<lparr>dents := (dents s)(e \<mapsto> (the (dents s e))\<lparr>d_refcnt := d_refcnt (the (dents s e)) + 1\<rparr>)\<rparr>))"
proof -
  obtain y where y: "dents s (mnt_dir s d) = Some y" "is_dir y"
    "\<exists>fs sb. through_mount d s = Some (fs, mnt_dir s d) \<and> get_sb (d_sb y) s = Some sb \<and> sb_fs sb = fs"
    using mnt_dir_facts [OF inv d] .
  moreover have "through_mount d s = Some (Ramfs, mnt_dir s d)"
    using y(3) fs by (auto simp: fs_of_def)
  ultimately show ?thesis using that fs_lookup_eq [OF inv d] by auto
qed

lemma dopen_new:
  fixes s :: "'z fstate_scheme"
  assumes inv: "fs_inv s" and rdy: "grow_ready (Suc (Suc k)) s" and d: "dents s d = Some x" "is_dir x"
    and fs: "fs_of s d = Some Ramfs" and name: "length name < PATH_MAX" and new: "child s d name = None"
    and fl: "flags AND O_CREAT \<noteq> 0"
  obtains e t z where "dopen_dentry (mnt_dir s d) name flags s = Some (Inr e, t)" "fs_inv t" "grow_ready k t"
    "dents t e = Some z" "1 < d_refcnt z" "d_size z = 0" "child t d name = Some e" "dents s e = None"
    "\<exists>sb. get_sb (d_sb z) t = Some sb \<and> sb_fs sb = Ramfs"
    "\<exists>p. privs t (d_priv z) = Some p \<and> p_rest p = Ramfs_data 0 0"
    "files t = files s" "names t = names s" "\<And>b y. dents s b = Some y \<Longrightarrow> dents t b = Some y"
    "rootfs t = rootfs s" "sbs t = sbs s" "fstate.more t = fstate.more s" "d_mode z = DIR_FILE"
proof -
  let ?m = "mnt_dir s d"
  obtain y sb where y: "dents s ?m = Some y" "is_dir y" "get_sb (d_sb y) s = Some sb" "sb_fs sb = Ramfs"
    and lk: "\<And>name. ramfs_lookup ?m name s =
      Some (case child s d name of
          None \<Rightarrow> (Inl ENOENT, s)
        | Some e \<Rightarrow> (Inr e, s\<lparr>dents := (dents s)(e \<mapsto> (the (dents s e))\<lparr>d_refcnt := d_refcnt (the (dents s e)) + 1\<rparr>)\<rparr>))"
    using child_mnt_dir [OF inv d fs] by blast
  have sz: "unat sizeof_ramfs_priv \<le> 4000" by (simp add: sizeof_ramfs_priv_def)
  have rest: "case Ramfs_data 0 0 of Ramfs_data n q \<Rightarrow> q = 0 \<and> sb_fs sb = Ramfs
      | Devfs_ops _ \<Rightarrow> sb_fs sb = Devfs" using y(4) by simp
  obtain e and t0 :: "'z fstate_scheme" where m: "make_node sizeof_ramfs_priv (Ramfs_data 0 0) ?m name DIR_FILE s = Some (Inr e, t0)"
    "fs_inv t0" "node_added s ?m name DIR_FILE (Ramfs_data 0 0) e t0" "grow_ready k t0" "e \<noteq> ?m"
    "\<forall>a q m. (q, m) \<in> live s \<longrightarrow> q \<le> a \<longrightarrow> a < q + m \<longrightarrow> mem t0 a = mem s a"
    using make_node_spec [OF inv rdy y(1) name sz y(3) rest, of DIR_FILE] .
  obtain dp where a: "dents s e = None" "dents t0 = (dents s)(e \<mapsto> new_dentry name DIR_FILE (d_sb y) dp)"
    "privs t0 dp = Some \<lparr>p_dentry = e, p_children = [], p_rest = Ramfs_data 0 0\<rparr>" "sbs t0 = sbs s"
    "files t0 = files s" "names t0 = names s" "rootfs t0 = rootfs s"
    "fstate.more t0 = fstate.more s"
    using m(3) y(1) unfolding node_added_def by auto
  have d0: "dents t0 d = Some x" using a d by auto
  have md: "mnt_dir t0 d = ?m" by (rule mnt_dir_added [OF m(3) d(1)])
  have g: "get_sb b t0 = get_sb b s" for b by (rule get_sb_cong) (use a in simp_all)
  have fs0: "fs_of t0 d = Some Ramfs"
  proof -
    have "through_mount d t0 = through_mount d s" using d d0 by (cases "d_mnt x") (simp_all add: through_mount_def g)
    then show ?thesis using fs by (simp add: fs_of_def)
  qed
  have ch: "child t0 d name = Some e" using child_added [OF inv m(3) y(1) d] new by simp
  let ?w = "new_dentry name DIR_FILE (d_sb y) dp"
  let ?z = "?w\<lparr>d_refcnt := 2\<rparr>"
  let ?t = "t0\<lparr>dents := (dents t0)(e \<mapsto> ?z)\<rparr>"
  have e0: "dents t0 e = Some ?w" by (simp add: a)
  have lk0: "ramfs_lookup ?m name t0 = Some (Inr e, ?t)"
  proof -
    have "ramfs_lookup (mnt_dir t0 d) name t0 = Some (Inr e, t0\<lparr>dents := (dents t0)(e \<mapsto>
        (the (dents t0 e))\<lparr>d_refcnt := d_refcnt (the (dents t0 e)) + 1\<rparr>)\<rparr>)"
      by (rule child_mnt_dir [OF m(2) d0 d(2) fs0]) (simp add: ch)
    then show ?thesis unfolding md e0 by (simp add: new_dentry_def)
  qed
  have r: "dopen_dentry ?m name flags s = Some (Inr e, ?t)"
    using y lk [of name] new fl m(1) lk0
    by (simp add: dopen_dentry_def ramfs_create_def ramfs_make_node_def err_int_def)
  have it: "fs_inv ?t" by (rule fs_inv_upd_dent [OF m(2) e0]) (simp_all add: new_dentry_def)
  have st: "same_tree t0 ?t" by (rule same_tree_upd [OF e0]) (simp add: tree_part_def)
  have "child ?t d name = Some e" using child_same_tree [OF st m(2) d0 d(2)] ch by simp
  moreover have "dents ?t b = Some w" if "dents s b = Some w" for b w using that a by auto
  moreover have "get_sb (d_sb y) ?t = Some sb" using y(3) g get_sb_cong [of ?t t0] by simp
  ultimately show ?thesis
    by (intro that [OF r it, of ?z]) (use m(4) a y(4) in \<open>simp_all add: new_dentry_def\<close>)
qed


section \<open>Reading and writing refine a file with a position\<close>

type_synonym afile = "u8 list \<times> nat"

definition afile_write :: "u8 list \<Rightarrow> afile \<Rightarrow> afile" where
  "afile_write xs a = (case a of (bs, pos) \<Rightarrow>
     (take pos bs @ xs @ drop (pos + length xs) bs, pos + length xs))"

definition afile_read :: "nat \<Rightarrow> afile \<Rightarrow> u8 list \<times> afile" where
  "afile_read n a = (case a of (bs, pos) \<Rightarrow>
     let xs = take n (drop pos bs) in (xs, (bs, pos + length xs)))"

definition afile_of :: "'z fstate_scheme \<Rightarrow> nat \<Rightarrow> afile" where
  "afile_of s f = (file_bytes s (f_dentry (the (files s f))), unat (f_offset (the (files s f))))"

text \<open>An open regular file of a ramfs, positioned inside its contents.\<close>

definition open_at :: "'z fstate_scheme \<Rightarrow> nat \<Rightarrow> file_t \<Rightarrow> nat \<Rightarrow> bool" where
  "open_at s f fl N \<longleftrightarrow> files s f = Some fl \<and>
     (\<exists>x p n q. file_at s (f_dentry fl) x p n q \<and> f_offset fl \<le> d_size x \<and> unat n \<le> N)"

definition user_bytes :: "'z fstate_scheme \<Rightarrow> nat \<Rightarrow> u32 \<Rightarrow> u8 list" where
  "user_bytes s buf sz = map (mem s) [buf ..< buf + unat sz]"

lemma fs_inv_files:
  assumes inv: "fs_inv s" and f: "files s f = Some fl"
  shows "fs_inv (s\<lparr>files := (files s)(f \<mapsto> fl')\<rparr>)" (is "fs_inv ?s")
proof (rule fs_inv_transfer [OF inv])
  have b: "data_blocks ?s = data_blocks s" by (rule data_blocks_cong) simp
  have "dom (files ?s) = dom (files s)" using f by auto
  then have "objects ?s = objects s" by (simp add: objects_def b)
  then show "objects ?s \<subseteq> fst ` live ?s" using fs_invD(2) [OF inv] by simp
  show "one_kind ?s a" for a
    using fs_invD(3) [OF inv, of a] f by (cases "a = f") (simp_all add: one_kind_def b)
  show "heap_inv ?s" using fs_invD(1) [OF inv] by simp
qed simp_all

lemma file_bytes_cong:
  "dents t = dents s \<Longrightarrow> privs t = privs s \<Longrightarrow> mem t = mem s \<Longrightarrow> file_bytes t d = file_bytes s d"
  by (simp add: file_bytes_def)

lemma vfs_write_spec:
  fixes s :: "'z fstate_scheme"
  assumes inv: "fs_inv s" and op: "open_at s f fl N" and md: "f_openmode fl AND O_WRONLY \<noteq> 0"
    and N: "unat (f_offset fl) + unat sz \<le> N" "N < 2 ^ 30" and k: "2 * N + 8192 \<le> 4096 * k"
    and rdy: "grow_ready (k + j) s" and buf: "buf + unat sz \<le> heap_start"
  shows "\<exists>s'. vfs_write drv f buf sz s = Some (int (unat sz), s') \<and> fs_inv s' \<and> grow_ready j s' \<and>
    afile_of s' f = afile_write (user_bytes s buf sz) (afile_of s f) \<and>
    (\<exists>M. open_at s' f (fl\<lparr>f_offset := f_offset fl + sz\<rparr>) M) \<and>
    (\<forall>b < heap_start. mem s' b = mem s b) \<and>
    (\<forall>e y p n q. e \<noteq> f_dentry fl \<longrightarrow> file_at s e y p n q \<longrightarrow> file_bytes s' e = file_bytes s e)"
proof -
  obtain x p n q where fa: "file_at s (f_dentry fl) x p n q" "f_offset fl \<le> d_size x" "unat n \<le> N"
    and fl: "files s f = Some fl" using op by (auto simp: open_at_def)
  note fs = file_fs_ramfs [OF inv fl fa(1)]
  show ?thesis
  proof (cases "sz = 0")
    case True
    have "fl\<lparr>f_offset := f_offset fl\<rparr> = fl" by simp
    then have "open_at s f (fl\<lparr>f_offset := f_offset fl + sz\<rparr>) N" using op True by simp
    moreover have "afile_of s f = afile_write (user_bytes s buf sz) (afile_of s f)"
      using True by (simp add: afile_of_def afile_write_def user_bytes_def)
    moreover have "vfs_write drv f buf sz s = Some (int (unat sz), s)"
      using True fl md fs by (simp add: vfs_write_def)
    ultimately show ?thesis using inv grow_ready_mono [OF rdy] by blast
  next
    case False
    obtain t x' p' n' q' where w: "ramfs_write f (f_offset fl) buf sz s = Some (int (unat sz), t)"
      "fs_inv t" "grow_ready j t" "file_at t (f_dentry fl) x' p' n' q'" "files t = files s"
      and wb: "file_bytes t (f_dentry fl) =
         take (unat (f_offset fl)) (file_bytes s (f_dentry fl)) @ map (mem s) [buf ..< buf + unat sz] @
         drop (unat (f_offset fl) + unat sz) (file_bytes s (f_dentry fl))"
      and wo: "\<And>e y pe ne qe. e \<noteq> f_dentry fl \<Longrightarrow> file_at s e y pe ne qe \<Longrightarrow>
         file_at t e y pe ne qe \<and> file_bytes t e = file_bytes s e"
      and wl: "\<And>b. b < heap_start \<Longrightarrow> mem t b = mem s b"
      by (rule ramfs_write_spec [OF inv fl fa(1) N(1) fa(3) N(2) k rdy fa(2) False buf]) blast
    have sz0: "0 < unat sz" using False by (simp add: unat_gt_0)
    have "int (unat sz) = uint sz" by simp
    then have u0: "0 < uint sz" using sz0 by linarith
    define fl' where "fl' = fl\<lparr>f_offset := f_offset fl + sz\<rparr>"
    define s' where "s' = t\<lparr>files := (files s)(f \<mapsto> fl')\<rparr>"
    have adv: "advance f (int (unat sz)) t = Some s'"
      using u0 fl w(5) by (simp add: advance_def set_file_def s'_def fl'_def)
    have r: "vfs_write drv f buf sz s = Some (int (unat sz), s')"
      using fl md fs False w(1) adv by (simp add: vfs_write_def)
    have i': "fs_inv s'" unfolding s'_def w(5) [symmetric]
      by (rule fs_inv_files [OF w(2), of f fl]) (simp add: w(5) fl)
    have b': "file_bytes s' e = file_bytes t e" for e by (rule file_bytes_cong) (simp_all add: s'_def)
    have off: "unat (f_offset fl') = unat (f_offset fl) + unat sz"
      using N by (simp add: fl'_def unat_word_ariths)
    have fa': "file_at s' (f_dentry fl') x' p' n' q'" using w(4) by (simp add: file_at_def s'_def fl'_def)
    have len: "length (file_bytes t (f_dentry fl)) = unat (d_size x')" by (simp add: file_bytes_at [OF w(4)])
    have "unat (f_offset fl') \<le> unat (d_size x')"
      using fa(2) unfolding off len [symmetric] wb
      by (simp add: file_bytes_at [OF fa(1)] word_le_nat_alt)
    then have "open_at s' f fl' (unat n')"
      using fa' unfolding open_at_def by (auto simp: s'_def word_le_nat_alt)
    moreover have "afile_of s' f = afile_write (user_bytes s buf sz) (afile_of s f)"
    proof -
      have "f_dentry fl' = f_dentry fl" "files s' f = Some fl'" by (simp_all add: fl'_def s'_def)
      then show ?thesis
        using fl off by (simp add: afile_of_def b' wb afile_write_def user_bytes_def)
    qed
    moreover have "mem s' b = mem s b" if "b < heap_start" for b using wl [OF that] by (simp add: s'_def)
    moreover have "grow_ready j s'" using w(3) by (simp add: s'_def)
    ultimately show ?thesis using r i' b' wo unfolding fl'_def by metis
  qed
qed


lemma vfs_read_spec:
  fixes s :: "'z fstate_scheme"
  assumes inv: "fs_inv s" and op: "open_at s f fl N" and md: "f_openmode fl AND O_RDONLY \<noteq> 0"
    and N: "unat (f_offset fl) + unat sz < 2 ^ 31" and buf: "buf + unat sz \<le> heap_start"
  shows "\<exists>s'. vfs_read drv f buf sz s = Some (int (length (fst (afile_read (unat sz) (afile_of s f)))), s') \<and>
    fs_inv s' \<and> afile_of s' f = snd (afile_read (unat sz) (afile_of s f)) \<and>
    (\<forall>i < length (fst (afile_read (unat sz) (afile_of s f))).
       mem s' (buf + i) = fst (afile_read (unat sz) (afile_of s f)) ! i) \<and>
    (\<forall>b. b < buf \<or> buf + unat sz \<le> b \<longrightarrow> mem s' b = mem s b)"
proof -
  obtain x p n q where fa: "file_at s (f_dentry fl) x p n q" "f_offset fl \<le> d_size x"
    and fl: "files s f = Some fl" using op by (auto simp: open_at_def)
  note fs = file_fs_ramfs [OF inv fl fa(1)]
  have x: "dents s (f_dentry fl) = Some x" "privs s (d_priv x) = Some p" "p_rest p = Ramfs_data n q"
    "d_size x \<le> n" "q = 0 \<Longrightarrow> n = 0" using fa(1) by (auto simp: file_at_def)
  let ?o = "unat (f_offset fl)" and ?z = "unat (d_size x)"
  have oz: "?o \<le> ?z" using fa(2) by (simp add: word_le_nat_alt)
  define k where "k = min (unat sz) (?z - ?o)"
  define data where "data = map (\<lambda>i. mem s (q + ?o + i)) [0 ..< k]"
  have rd: "afile_read (unat sz) (afile_of s f) = (data, (file_bytes s (f_dentry fl), ?o + k))"
  proof -
    have "take (unat sz) (drop ?o (file_bytes s (f_dentry fl))) = data"
      by (rule nth_equalityI) (use oz in \<open>simp_all add: file_bytes_at [OF fa(1)] data_def k_def ac_simps less_diff_conv\<close>)
    moreover have "length data = k" by (simp add: data_def)
    ultimately show ?thesis using fl unfolding afile_read_def afile_of_def by (simp add: Let_def del: length_take length_drop)
  qed
  have len: "length data = k" by (simp add: data_def)
  show ?thesis
  proof (cases "k = 0")
    case True
    have "vfs_read drv f buf sz s = Some (0, s)"
    proof (cases "sz = 0")
      case False
      then have "0 < unat sz" by (simp add: unat_gt_0)
      then have "?z \<le> ?o" using True by (simp add: k_def)
      then have "d_size x \<le> f_offset fl" by (simp add: word_le_nat_alt)
      then show ?thesis using fl md fs x(1) by (simp add: vfs_read_def ramfs_read_def advance_def)
    qed (use fl md fs in \<open>simp add: vfs_read_def\<close>)
    then show ?thesis using inv fl True len unfolding rd by (simp add: afile_of_def)
  next
    case False
    then have k0: "0 < k" "k \<le> unat sz" "k \<le> ?z - ?o" "?o < ?z" by (auto simp: k_def)
    have q0: "q \<noteq> 0"
    proof
      assume "q = 0"
      then have "d_size x = 0" using x(4,5) by simp
      then show False using k0(4) by simp
    qed
    obtain m where m: "(q, m) \<in> live s" "unat n \<le> m"
      using fs_invD(5) [OF inv x(2)] x(3) q0 unfolding priv_ok_def by blast
    have qh: "heap_start < q" using live_ge [OF m(1)] by simp
    define sz1 where "sz1 = (if d_size x < f_offset fl + sz then d_size x - f_offset fl else sz)"
    have add: "unat (f_offset fl + sz) = ?o + unat sz" using N by (simp add: unat_word_ariths)
    have sub: "unat (d_size x - f_offset fl) = ?z - ?o" using fa(2) by (rule unat_sub)
    have k1: "unat sz1 = k"
      using add sub k0 by (auto simp: sz1_def k_def word_less_nat_alt min_def)
    have "k < 2 ^ 31" using k0 N by linarith
    then have si: "sint sz1 = int k" using sint_small [of sz1] k1 by simp
    define t where "t = s\<lparr>mem := snd (memcpy buf (q + ?o) sz1 (mem s))\<rparr>"
    define fl' where "fl' = fl\<lparr>f_offset := f_offset fl + sz1\<rparr>"
    define s' where "s' = t\<lparr>files := (files s)(f \<mapsto> fl')\<rparr>"
    have nle: "\<not> d_size x \<le> f_offset fl" using k0(4) by (simp add: word_le_nat_alt)
    have rr: "ramfs_read f (f_offset fl) buf sz s = Some (int k, t)"
      using fl x nle si unfolding ramfs_read_def sz1_def [symmetric] t_def
      by (simp add: sz1_def [symmetric] Let_def)
    have wk: "word_of_int (int k) = sz1" unfolding k1 [symmetric] by simp
    have adv: "advance f (int k) t = Some s'"
      using k0(1) fl wk by (simp add: advance_def set_file_def s'_def fl'_def t_def)
    have nz: "sz \<noteq> 0" using k0 by auto
    have r: "vfs_read drv f buf sz s = Some (int k, s')"
      using fl md fs rr adv nz by (simp add: vfs_read_def)
    have i': "fs_inv s'"
    proof -
      have "fs_inv t" using inv by (simp add: t_def)
      moreover have "files t = files s" by (simp add: t_def)
      ultimately show ?thesis unfolding s'_def using fs_inv_files [of t f fl fl'] fl by simp
    qed
    have mo: "mem s' b = mem s b" if "b < buf \<or> buf + k \<le> b" for b
      using that movsb_up_below [of b] movsb_up_above [of buf k b] by (auto simp: s'_def t_def memcpy_def k1)
    have mc: "mem s' (buf + i) = mem s (q + ?o + i)" if "i < k" for i
      using movsb_up_copy [OF that, of buf "q + ?o" "mem s"] buf qh k0(2) by (simp add: s'_def t_def memcpy_def k1)
    have "file_bytes s' (f_dentry fl) = file_bytes s (f_dentry fl)"
    proof -
      have "mem s' (q + i) = mem s (q + i)" for i using mo buf qh k0(2) by simp
      moreover have fa': "file_at s' (f_dentry fl) x p n q" using fa(1) by (simp add: file_at_def s'_def t_def)
      ultimately show ?thesis by (simp add: file_bytes_at [OF fa'] file_bytes_at [OF fa(1)])
    qed
    moreover have "unat (f_offset fl') = ?o + k"
    proof -
      have "?o + unat sz1 < 2 ^ 32" using k1 k0 N by simp
      then show ?thesis using k1 by (simp add: fl'_def unat_word_ariths)
    qed
    ultimately have "afile_of s' f = (file_bytes s (f_dentry fl), ?o + k)"
      by (simp add: afile_of_def s'_def fl'_def)
    then show ?thesis
      unfolding rd using r i' mo mc k0(2) by (auto simp: len data_def)
  qed
qed


section \<open>Opening with \<open>O_CREAT\<close>\<close>

text \<open>What a successful creating \<open>open\<close> leaves behind: a node new to the directory \<open>d\<close> whose mode is
  that of a regular file (\<open>DIR_FILE\<close>), empty, with the object \<open>f\<close> as the one open file on it.\<close>

definition opened ::
  "string \<Rightarrow> u32 \<Rightarrow> 'z fstate_scheme \<Rightarrow> nat \<Rightarrow> nat \<Rightarrow> 'z fstate_scheme \<Rightarrow> nat \<Rightarrow> bool" where
  "opened name flags s d f s' j \<longleftrightarrow> fs_inv s' \<and> grow_ready j s' \<and> files s f = None \<and>
     (\<exists>e. dents s e = None \<and> child s' d name = Some e \<and>
       map_option d_mode (dents s' e) = Some DIR_FILE \<and>
       files s' = (files s)(f \<mapsto> \<lparr>f_dentry = e, f_openmode = flags AND O_RDWR, f_offset = 0, f_refcnt = 1\<rparr>)) \<and>
     open_at s' f (the (files s' f)) 0 \<and> afile_of s' f = ([], 0) \<and>
     fstate.more s' = fstate.more s"

lemma through_mount_same_tree:
  assumes st: "same_tree s t" and d: "dents s d = Some x"
  shows "through_mount d t = through_mount d s"
proof -
  have g: "get_sb m t = get_sb m s" for m by (rule get_sb_cong) (use st in \<open>auto simp: same_tree_def\<close>)
  obtain x' where "dents t d = Some x'" "tree_part x' = tree_part x" using same_tree_dent [OF st d] .
  then show ?thesis using d tree_partD [of x' x] by (cases "d_mnt x") (simp_all add: through_mount_def g)
qed

lemma vfs_dopen_new:
  fixes s :: "'z fstate_scheme"
  assumes inv: "fs_inv s" and rdy: "grow_ready (Suc (Suc (Suc k))) s" and d: "dents s d = Some x" "is_dir x"
    and fs: "fs_of s d = Some Ramfs" and name: "length name < PATH_MAX" and new: "child s d name = None"
    and fl: "flags AND O_CREAT \<noteq> 0" "flags AND O_TRUNC = 0"
  obtains f t where "vfs_dopen drv d name flags s = Some (Inr f, t)" "opened name flags s d f t k"
    "names t = names s" "dents t d = Some x"
proof -
  obtain e t z where t: "dopen_dentry (mnt_dir s d) name flags s = Some (Inr e, t)" "fs_inv t" "grow_ready (Suc k) t"
    "dents t e = Some z" "1 < d_refcnt z" "d_size z = 0" "child t d name = Some e" "dents s e = None"
    "\<exists>sb. get_sb (d_sb z) t = Some sb \<and> sb_fs sb = Ramfs"
    "\<exists>p. privs t (d_priv z) = Some p \<and> p_rest p = Ramfs_data 0 0"
    "files t = files s" "names t = names s" "\<And>b y. dents s b = Some y \<Longrightarrow> dents t b = Some y"
    "rootfs t = rootfs s" "sbs t = sbs s" "fstate.more t = fstate.more s" "d_mode z = DIR_FILE"
    by (rule dopen_new [OF inv rdy d fs name new fl(1)]) blast
  have n1: "unat (align8 sizeof_file) + 4 \<le> 4096" by (simp add: align8_def sizeof_file_def)
  obtain f and s2 :: "'z fstate_scheme" where a: "kzalloc sizeof_file t = Some (f, s2)" "f \<noteq> 0" "f \<notin> fst ` live t"
    "heap_inv s2" "grow_ready k s2" "live s2 = insert (f, unat (align8 sizeof_file)) (live t)"
    "kmem.more s2 = kmem.more t" "\<forall>a. a < f \<or> f + unat sizeof_file \<le> a \<longrightarrow> mem s2 a = mem t a"
    "\<forall>(q, m) \<in> live t. f + unat (align8 sizeof_file) < q \<or> q + m < f"
    using kzalloc_small [OF fs_invD(1) [OF t(2)] t(3) n1] .
  note eq = same_fsD [OF a(7)]
  define fl' where "fl' = \<lparr>f_dentry = e, f_openmode = flags AND O_RDWR, f_offset = 0 :: u32, f_refcnt = 1\<rparr>"
  define u where "u = s2\<lparr>files := (files s2)(f \<mapsto> fl')\<rparr>"
  obtain sb where sb: "get_sb (d_sb z) t = Some sb" "sb_fs sb = Ramfs" using t(9) by blast
  have g2: "get_sb m s2 = get_sb m t" for m by (rule get_sb_cong) (simp_all add: eq)
  obtain y where y: "dents s (mnt_dir s d) = Some y" using mnt_dir_facts [OF inv d] by metis
  have md: "(case d_mnt x of None \<Rightarrow> Some d | Some m \<Rightarrow> get_sb m s \<bind> (\<lambda>sb. Some (root_dentry sb))) = Some (mnt_dir s d)"
  proof (cases "d_mnt x")
    case (Some m)
    then obtain sb' where "get_sb m s = Some sb'" using fs_invD(4) [OF inv d(1)] by (auto simp: dent_ok_def)
    then show ?thesis using Some d by (simp add: mnt_dir_def)
  qed (use d in \<open>simp add: mnt_dir_def\<close>)
  have off: "(if flags AND O_APPEND \<noteq> 0 then d_size z else 0) = 0" using t(6) by simp
  have r: "vfs_dopen drv d name flags s = Some (Inr f, u)"
    using d(1) md t(1,4) a(1,2) eq(1) sb g2 fl(2) off
    by (simp add: vfs_dopen_def u_def fl'_def Let_def)
  have iu: "fs_inv u"
    by (rule fs_inv_add_file [OF t(2), of _ f fl']) (use a eq in \<open>auto simp: u_def\<close>)
  have du: "dents u = dents t" "privs u = privs t" by (simp_all add: u_def eq)
  have ch: "child u d name = child t d name"
  proof -
    have "get_sb m u = get_sb m t" for m by (rule get_sb_cong) (simp_all add: u_def eq)
    then have "mnt_dir u d = mnt_dir t d" unfolding mnt_dir_def du by (simp split: option.split)
    then show ?thesis by (simp add: child_def entries_def du)
  qed
  obtain p where p: "privs t (d_priv z) = Some p" "p_rest p = Ramfs_data 0 0" using t(10) by blast
  have fa: "file_at u e z p 0 0" using p t(4,6) by (simp add: file_at_def du)
  have fu: "files u = (files s)(f \<mapsto> fl')" using eq(3) t(11) by (simp add: u_def)
  have "files s f = None"
  proof -
    have "f \<notin> objects t" using fs_invD(2) [OF t(2)] a(3) by auto
    then show ?thesis using t(11) by (auto simp: objects_def)
  qed
  moreover have "open_at u f (the (files u f)) 0"
    using fa unfolding open_at_def by (simp add: fu fl'_def) (metis unsigned_0)
  moreover have "afile_of u f = ([], 0)"
    using file_bytes_at [OF fa] t(6) by (simp add: afile_of_def fu fl'_def)
  moreover have "grow_ready k u" using a(5) by (simp add: u_def)
  moreover have "fstate.more u = fstate.more s" using eq(9) t(16) by (simp add: u_def)
  ultimately have "opened name flags s d f u k"
    using iu ch t(4,7,8,17) du fu unfolding opened_def fl'_def by auto
  moreover have "names u = names s" using eq(5) t(12) by (simp add: u_def)
  moreover have "dents u d = Some x" using t(13) d(1) du by simp
  ultimately show ?thesis using that r by blast
qed

definition OPEN_FLAGS :: u32 where "OPEN_FLAGS = LAST_RETURN OR LAST_NO_SLASHES"

lemma resolve_return_parent:
  assumes inv: "fs_inv s" and r: "resolve OPEN_FLAGS sl s cs d = Inr e" and cs: "cs \<noteq> []"
    and d: "dents s d = Some x" "is_dir x"
  shows "\<exists>y. dents s e = Some y \<and> is_dir y"
  using r cs d
proof (induction cs arbitrary: d x)
  case (Cons c cs)
  show ?case
  proof (cases "cs = []")
    case True
    have "is_last (if sl then COMP_LAST_SLASH else COMP_LAST) OPEN_FLAGS" "OPEN_FLAGS AND LAST_RETURN \<noteq> 0"
      by (simp_all add: is_last_def OPEN_FLAGS_def const_defs)
    then show ?thesis using Cons.prems True by (simp add: Let_def)
  next
    case False
    then obtain b where b: "child s d c = Some b" "dir_at s b" "resolve OPEN_FLAGS sl s cs b = Inr e"
      using Cons.prems(1) by (auto simp: Let_def split: option.splits if_splits)
    obtain z where z: "dents s b = Some z" using child_dents [OF inv Cons.prems(3,4) b(1)] .
    then show ?thesis using Cons.IH [OF b(3) False z] b(2) by (simp add: dir_at_def)
  qed
qed simp

lemma vfs_open_new:
  fixes s :: "'z fstate_scheme"
  assumes inv: "fs_inv s" and rdy: "grow_ready (length (path_comps path) + (k + 3)) s"
    and p: "good_path path" "path_comps path \<noteq> []" "length (last (path_comps path)) < PATH_MAX"
    and d: "denotes OPEN_FLAGS path s = Inr d" "fs_of s d = Some Ramfs" "child s d (last (path_comps path)) = None"
    and fl: "flags AND O_CREAT \<noteq> 0" "flags AND O_TRUNC = 0"
  shows "\<exists>f s'. vfs_open drv path flags s = Some (Inr f, s') \<and> opened (last (path_comps path)) flags s d f s' k"
proof -
  let ?name = "last (path_comps path)"
  obtain nm s1 where l: "lookup_path_common path OPEN_FLAGS True s = Some (Inr d, nm, s1)"
    "looked_up True ?name s (k + 3) (Inr d) nm s1"
    using lookup_path_common_spec [OF inv rdy p(1), of OPEN_FLAGS True] p(2) d(1) by auto
  obtain n y where n: "nm = Some n" "names s1 = (names s)(n \<mapsto> ?name)" "names s n = None"
    and y: "dents s1 d = Some y" "1 < d_refcnt y"
    and i1: "fs_inv s1" "same_tree s s1" "grow_ready (Suc (Suc (Suc k))) s1"
    using l(2) by (auto simp: looked_up_def numeral_3_eq_3)
  obtain rt where rt: "dents s (root_of s) = Some rt" "is_dir rt" using root_facts [OF inv] .
  obtain x where x: "dents s d = Some x" "is_dir x"
    using resolve_return_parent [OF inv _ p(2) rt] d(1) unfolding denotes_def by blast
  have dy: "is_dir y" using same_tree_dent [OF i1(2) x(1)] y(1) x(2) tree_partD by (metis is_dir_def option.sel)
  have fs1: "fs_of s1 d = Some Ramfs" using through_mount_same_tree [OF i1(2) x(1)] d(2) by (simp add: fs_of_def)
  have ch1: "child s1 d ?name = None" using child_same_tree [OF i1(2) inv x] d(3) by simp
  obtain f t where t: "vfs_dopen drv d ?name flags s1 = Some (Inr f, t)" "opened ?name flags s1 d f t k"
    "names t = names s1" "dents t d = Some y"
    using vfs_dopen_new [OF i1(1,3) y(1) dy fs1 p(3) ch1 fl] by metis
  have it: "fs_inv t" using t(2) by (simp add: opened_def)
  have "names t n = Some ?name" using t(3) n by simp
  then obtain u where u: "free_obj n t = Some u" "fs_inv u" "same_tree t u" "names u = (names t)(n := None)"
    "\<And>k. grow_ready k u = grow_ready k t" using free_name_tree [OF it] by metis
  obtain y' where y': "dents u d = Some y'" "d_refcnt y' = d_refcnt y"
  proof -
    obtain h where "u = t\<lparr>hdr := h, names := (names t)(n := None)\<rparr>"
      using free_name [OF it \<open>names t n = Some ?name\<close>] u(1) by (metis option.sel)
    then show ?thesis using that t(4) by simp
  qed
  let ?v = "u\<lparr>dents := (dents u)(d \<mapsto> y'\<lparr>d_refcnt := d_refcnt y' - 1\<rparr>)\<rparr>"
  have pv: "dentry_put d u = Some ?v" by (rule dentry_put_shared [OF y'(1)]) (use y y' in simp)
  have iv: "fs_inv ?v" by (rule fs_inv_upd_dent [OF u(2) y'(1)]) (use y y' in simp_all)
  have sv: "same_tree t ?v"
    using same_tree_trans [OF u(3) same_tree_upd [OF y'(1)]] by (simp add: tree_part_def)
  have run: "vfs_open drv path flags s = Some (Inr f, ?v)"
    using l(1) n(1,2) t(1) u(1) pv unfolding vfs_open_def OPEN_FLAGS_def by simp
  obtain e where e: "dents s1 e = None" "child t d ?name = Some e"
    and em: "map_option d_mode (dents t e) = Some DIR_FILE"
    and e3: "files t = (files s1)(f \<mapsto> \<lparr>f_dentry = e, f_openmode = flags AND O_RDWR, f_offset = 0, f_refcnt = 1\<rparr>)"
    and op: "open_at t f (the (files t f)) 0" "afile_of t f = ([], 0)" "files s1 f = None" "grow_ready k t"
    and mr: "fstate.more t = fstate.more s1"
    using t(2) unfolding opened_def by auto
  note e = e e3
  have dt: "is_dir y" by (rule dy)
  have chv: "child ?v d ?name = Some e" using child_same_tree [OF sv it t(4) dy] e(2) by simp
  have se: "dents s e = None" using same_tree_dent [OF i1(2)] e(1) by (metis option.exhaust option.distinct(1))
  have fv: "files ?v = files t" "files s1 = files s" "mem ?v = mem t" "privs ?v = privs t"
    using sv i1(2) by (auto simp: same_tree_def)
  have same_file: "file_at ?v b w' pe ne qe" if b: "file_at t b w pe ne qe" "dents ?v b = Some w'" for b w w' pe ne qe
  proof -
    have "tree_part w' = tree_part w"
      using same_tree_dent [OF sv] b by (metis file_at_def option.sel)
    then show ?thesis using b fv tree_partD [of w' w] by (simp add: file_at_def)
  qed
  obtain w pe ne qe where w: "file_at t e w pe ne qe" "unat ne \<le> 0" using op(1) e(3) by (auto simp: open_at_def)
  obtain w' where w': "dents ?v e = Some w'" "tree_part w' = tree_part w"
    using same_tree_dent [OF sv] w(1) unfolding file_at_def by blast
  have fa: "file_at ?v e w' pe ne qe" by (rule same_file [OF w(1) w'(1)])
  have ov: "open_at ?v f (the (files ?v f)) 0"
    using fa w(2) fv e(3) by (auto simp: open_at_def)
  have md: "map_option d_mode (dents ?v e) = Some DIR_FILE"
    using em w(1) w' tree_partD [OF w'(2)] by (simp add: file_at_def del: fun_upd_apply)
  have "ne = 0" using w(2) by (simp add: word_unat_eq_iff)
  then have "d_size w' = 0" using fa by (simp add: file_at_def)
  then have "afile_of ?v f = ([], 0)" using file_bytes_at [OF fa] fv e(3) by (simp add: afile_of_def)
  moreover have "fstate.more ?v = fstate.more s" using sv i1(2) mr by (simp add: same_tree_def)
  ultimately have "opened ?name flags s d f ?v k"
    using iv op(3,4) fv(1,2) se chv md e(3) ov u(5) unfolding opened_def by auto
  then show ?thesis using run by blast
qed


section \<open>Properties\<close>

text \<open>C22: \<open>vfs_open\<close> with \<open>O_CREAT\<close> on a path whose last component does not exist yet in a ramfs
  directory creates an empty node of type \<open>DIR_FILE\<close> (a regular file) there and returns an open file for it: position 0, the
  requested access mode, one reference, nothing else opened or closed, and the rest of the
  kernel's state as it was.\<close>

theorem vfs_open_creates:
  fixes s :: "'z fstate_scheme"
  assumes "fs_inv s" "grow_ready (length (path_comps path) + (k + 3)) s"
    "good_path path" "path_comps path \<noteq> []" "length (last (path_comps path)) < PATH_MAX"
    "denotes OPEN_FLAGS path s = Inr d" "fs_of s d = Some Ramfs" "child s d (last (path_comps path)) = None"
    "flags AND O_CREAT \<noteq> 0" "flags AND O_TRUNC = 0"
  shows "\<exists>f s'. vfs_open drv path flags s = Some (Inr f, s') \<and> opened (last (path_comps path)) flags s d f s' k"
  by (rule vfs_open_new [OF assms])

lemma open_demo:
  obtains s :: "'z fstate_scheme" where "fs_inv s" "grow_ready (length (path_comps ''/a'') + (3 + 3)) s"
    "denotes OPEN_FLAGS ''/a'' s = Inr (root_of s)" "fs_of s (root_of s) = Some Ramfs"
    "child s (root_of s) (last (path_comps ''/a'')) = None" "files s = Map.empty" "fstate.more s = x"
proof -
  obtain s :: "'z fstate_scheme" where s: "fs_inv s" "grow_ready 8 s" "entries s (root_of s) = []"
    "fs_of s (root_of s) = Some Ramfs" "mnt_dir s (root_of s) = root_of s" "files s = Map.empty"
    "names s = Map.empty" "fs_list s = [Ramfs]" "fstate.more s = x" by (rule mounted_demo_exists)
  have "grow_ready (length (path_comps ''/a'') + (3 + 3)) s"
    using grow_ready_mono [of 1 7 s] s(2) by (simp add: demo_path2)
  moreover have "denotes OPEN_FLAGS ''/a'' s = Inr (root_of s)"
    by (simp add: denotes_def demo_path2 Let_def OPEN_FLAGS_def const_defs)
  moreover have "child s (root_of s) (last (path_comps ''/a'')) = None" by (simp add: child_def s)
  ultimately show ?thesis using that s by blast
qed

theorem vfs_open_creates_witness:
  "\<exists>(s :: fstate) f s'. vfs_open Map.empty ''/a'' (O_CREAT OR O_RDWR) s = Some (Inr f, s') \<and>
    afile_of s' f = ([], 0) \<and> fs_inv s'"
proof -
  obtain s :: fstate where s: "fs_inv s" "grow_ready (length (path_comps ''/a'') + (3 + 3)) s"
    "denotes OPEN_FLAGS ''/a'' s = Inr (root_of s)" "fs_of s (root_of s) = Some Ramfs"
    "child s (root_of s) (last (path_comps ''/a'')) = None" by (rule open_demo)
  have f: "(O_CREAT OR O_RDWR) AND O_CREAT \<noteq> 0" "(O_CREAT OR O_RDWR) AND O_TRUNC = 0"
    by (simp_all add: const_defs)
  have p: "path_comps ''/a'' \<noteq> []" "length (last (path_comps ''/a'')) < PATH_MAX"
    by (simp_all add: demo_path2 PATH_MAX_def)
  show ?thesis
    using vfs_open_creates [OF s(1,2) demo_path2(1) p s(3,4,5) f, of Map.empty]
    unfolding opened_def by blast
qed

text \<open>C2: \<open>vfs_write\<close> on an open ramfs file refines writing at the position of an abstract file
  (its bytes and a position): it returns the full count, the new contents are the old ones with
  the buffer's bytes put at the position, growing the file if needed, the position moves behind
  them, and no other file's contents and no memory below the heap changes.\<close>

theorem vfs_write_refines:
  fixes s :: "'z fstate_scheme"
  assumes "fs_inv s" "open_at s f fl N" "f_openmode fl AND O_WRONLY \<noteq> 0"
    "unat (f_offset fl) + unat sz \<le> N" "N < 2 ^ 30" "2 * N + 8192 \<le> 4096 * k"
    "grow_ready (k + j) s" "buf + unat sz \<le> heap_start"
  shows "\<exists>s'. vfs_write drv f buf sz s = Some (int (unat sz), s') \<and> fs_inv s' \<and> grow_ready j s' \<and>
    afile_of s' f = afile_write (user_bytes s buf sz) (afile_of s f) \<and>
    (\<exists>M. open_at s' f (fl\<lparr>f_offset := f_offset fl + sz\<rparr>) M) \<and>
    (\<forall>b < heap_start. mem s' b = mem s b) \<and>
    (\<forall>e y p n q. e \<noteq> f_dentry fl \<longrightarrow> file_at s e y p n q \<longrightarrow> file_bytes s' e = file_bytes s e)"
  by (rule vfs_write_spec [OF assms])

lemma open_at_mono: "open_at s f fl N \<Longrightarrow> N \<le> M \<Longrightarrow> open_at s f fl M"
  unfolding open_at_def by (meson order.trans)

lemma rdwr_demo:
  obtains s :: fstate and f fl where "fs_inv s" "grow_ready 3 s" "open_at s f fl 4" "f_openmode fl = O_RDWR"
    "f_offset fl = 0" "afile_of s f = ([], 0)"
proof -
  obtain s :: fstate where s: "fs_inv s" "grow_ready (length (path_comps ''/a'') + (3 + 3)) s"
    "denotes OPEN_FLAGS ''/a'' s = Inr (root_of s)" "fs_of s (root_of s) = Some Ramfs"
    "child s (root_of s) (last (path_comps ''/a'')) = None" by (rule open_demo)
  have f: "(O_CREAT OR O_RDWR) AND O_CREAT \<noteq> 0" "(O_CREAT OR O_RDWR) AND O_TRUNC = 0"
    by (simp_all add: const_defs)
  have p: "path_comps ''/a'' \<noteq> []" "length (last (path_comps ''/a'')) < PATH_MAX"
    by (simp_all add: demo_path2 PATH_MAX_def)
  obtain f s' where o: "opened (last (path_comps ''/a'')) (O_CREAT OR O_RDWR) s (root_of s) f s' 3"
    using vfs_open_new [OF s(1,2) demo_path2(1) p s(3,4,5) f, of Map.empty] by blast
  have m: "(O_CREAT OR O_RDWR) AND O_RDWR = O_RDWR" by (simp add: const_defs)
  obtain e where e: "files s' f = Some \<lparr>f_dentry = e, f_openmode = O_RDWR, f_offset = 0, f_refcnt = 1\<rparr>"
    using o m unfolding opened_def by auto
  show ?thesis
    by (rule that [of s' f "\<lparr>f_dentry = e, f_openmode = O_RDWR, f_offset = 0, f_refcnt = 1\<rparr>"])
      (use o e open_at_mono [of s' f _ 0 4] in \<open>auto simp: opened_def\<close>)
qed

theorem vfs_write_refines_witness:
  "\<exists>(s :: fstate) f s'. vfs_write Map.empty f 4096 4 s = Some (4, s') \<and>
    afile_of s' f = ([mem s 4096, mem s 4097, mem s 4098, mem s 4099], 4)"
proof -
  obtain s :: fstate and f fl where s: "fs_inv s" "grow_ready 3 s" "open_at s f fl 4" "f_openmode fl = O_RDWR"
    "f_offset fl = 0" "afile_of s f = ([], 0)" by (rule rdwr_demo)
  have w: "f_openmode fl AND O_WRONLY \<noteq> 0" using s(4) by (simp add: const_defs)
  have r: "grow_ready (3 + 0) s" using s(2) by simp
  have u: "[4096 ..< 4096 + unat (4 :: u32)] = [4096, 4097, 4098, 4099]" by (simp add: upt_rec)
  have "afile_write (user_bytes s 4096 4) (afile_of s f) = ([mem s 4096, mem s 4097, mem s 4098, mem s 4099], 4)"
    unfolding user_bytes_def u s(6) by (simp add: afile_write_def)
  then show ?thesis
    using vfs_write_refines [OF s(1,3) w, of 4 3 0 4096 Map.empty] s(5) r by (auto simp: heap_start_def)
qed

text \<open>C9: \<open>vfs_read\<close> on an open ramfs file refines reading at the position of an abstract file: it
  returns as many bytes as are left, at most the size asked for, puts exactly those bytes into the
  buffer, moves the position behind them, and changes no memory outside the buffer.\<close>

theorem vfs_read_refines:
  fixes s :: "'z fstate_scheme"
  assumes "fs_inv s" "open_at s f fl N" "f_openmode fl AND O_RDONLY \<noteq> 0"
    "unat (f_offset fl) + unat sz < 2 ^ 31" "buf + unat sz \<le> heap_start"
  shows "\<exists>s'. vfs_read drv f buf sz s = Some (int (length (fst (afile_read (unat sz) (afile_of s f)))), s') \<and>
    fs_inv s' \<and> afile_of s' f = snd (afile_read (unat sz) (afile_of s f)) \<and>
    (\<forall>i < length (fst (afile_read (unat sz) (afile_of s f))).
       mem s' (buf + i) = fst (afile_read (unat sz) (afile_of s f)) ! i) \<and>
    (\<forall>b. b < buf \<or> buf + unat sz \<le> b \<longrightarrow> mem s' b = mem s b)"
  by (rule vfs_read_spec [OF assms])

theorem vfs_read_refines_witness:
  "\<exists>(s :: fstate) f s'. vfs_read Map.empty f 4096 4 s = Some (0, s') \<and> afile_of s' f = ([], 0)"
proof -
  obtain s :: fstate and f fl where s: "fs_inv s" "grow_ready 3 s" "open_at s f fl 4" "f_openmode fl = O_RDWR"
    "f_offset fl = 0" "afile_of s f = ([], 0)" by (rule rdwr_demo)
  have w: "f_openmode fl AND O_RDONLY \<noteq> 0" using s(4) by (simp add: const_defs)
  show ?thesis
    using vfs_read_refines [OF s(1,3) w, of 4 4096 Map.empty] s(5,6)
    by (auto simp: heap_start_def afile_read_def)
qed

text \<open>\<open>vfs_lseek\<close> moves the position to the offset counted from the start, the position or the
  end when that lies inside the file, and otherwise returns \<open>-EINVAL\<close> and changes nothing; so the
  position never leaves the file.\<close>

definition seek_target :: "file_t \<Rightarrow> dentry \<Rightarrow> u32 \<Rightarrow> int \<Rightarrow> u32 option" where
  "seek_target fl x offset whence =
    (if whence = SEEK_SET then Some offset
     else if whence = SEEK_CUR then Some (f_offset fl + offset)
     else if whence = SEEK_END then Some (d_size x + offset) else None)"

theorem vfs_lseek_in_file:
  assumes "files s f = Some fl" "dents s (f_dentry fl) = Some x"
  shows "vfs_lseek f offset whence s =
    (case seek_target fl x offset whence of
       Some t \<Rightarrow> if t \<le> d_size x then Some (sint t, s\<lparr>files := (files s)(f \<mapsto> fl\<lparr>f_offset := t\<rparr>)\<rparr>)
                 else Some (- 22, s)
     | None \<Rightarrow> Some (- 22, s))"
proof -
  have "offset + (d_size x - f_offset fl) + f_offset fl = d_size x + offset" by simp
  then show ?thesis
    using assms
    by (auto simp: vfs_lseek_def seek_target_def set_file_def SEEK_SET_def SEEK_CUR_def SEEK_END_def Let_def
        not_le ac_simps)
qed

theorem vfs_lseek_in_file_witness:
  "\<exists>(s :: fstate) f fl x. files s f = Some fl \<and> dents s (f_dentry fl) = Some x \<and>
    vfs_lseek f 5 SEEK_SET s = Some (- 22, s)"
proof -
  obtain s :: fstate and f fl where s: "open_at s f fl 4" "afile_of s f = ([], 0)" by (rule rdwr_demo)
  then obtain x p n q where x: "files s f = Some fl" "file_at s (f_dentry fl) x p n q" by (auto simp: open_at_def)
  have "d_size x = 0"
    using s(2) x(1) file_bytes_at [OF x(2)] by (simp add: afile_of_def word_unat_eq_iff)
  then show ?thesis
    using vfs_lseek_in_file [OF x(1), of x 5 SEEK_SET] x by (auto simp: seek_target_def file_at_def)
qed

end
