(* ===== verification/FsDirent.thy ===== *)
theory FsDirent
  imports FsDir
begin

text \<open>
  Directory records and listing directories (\<open>vfs_add_dentry\<close> of \<open>src/src/fs/vfs.c\<close>,
  \<open>ramfs_getdents\<close> of \<open>src/src/fs/ramfs/ramfs.c\<close>): what a record looks like in memory, and how
  many entries a call lists.
\<close>

section \<open>One directory record\<close>

lemma load32_store32: "load32 a (store32 a v m) = v"
proof (rule bit_word_eqI)
  fix n
  assume n: "n < LENGTH(32)"
  consider "n < 8" | "8 \<le> n" "n < 16" | "16 \<le> n" "n < 24" | "24 \<le> n" by linarith
  then show "bit (load32 a (store32 a v m)) n = bit v n"
    using n by cases (auto simp: load32_def store32_def bit_simps)
qed

lemma store32_other: "b < a \<or> a + 4 \<le> b \<Longrightarrow> store32 a v m b = m b"
  by (auto simp: store32_def)

lemma load32_cong:
  assumes "\<And>i. i < 4 \<Longrightarrow> m' (a + i) = m (a + i)"
  shows "load32 a m' = load32 a m"
  using assms [of 0] assms [of 1] assms [of 2] assms [of 3] by (simp add: load32_def)

lemma store_bytes_other: "b < a \<or> a + length bs \<le> b \<Longrightarrow> store_bytes a bs m b = m b"
  by (induction a bs m rule: store_bytes.induct) auto

lemma cstr_store_bytes: "0 \<notin> set xs \<Longrightarrow> cstr (store_bytes a (xs @ [0]) m) a xs"
proof (induction xs arbitrary: a m)
  case (Cons x xs)
  have "store_bytes (a + 1) (xs @ [0]) (m(a := x)) a = x" by (simp add: store_bytes_other)
  then show ?case using Cons by simp
qed simp

lemma byte_of_char_0: "(of_nat (of_char c) :: u8) = 0 \<Longrightarrow> c = CHR 0x00"
proof -
  have "unat (of_nat (of_char c) :: u8) = of_char c" by (simp only: unat_of_nat) simp
  moreover assume "(of_nat (of_char c) :: u8) = 0"
  ultimately have "of_char c = (0 :: nat)" by (simp only: unsigned_0)
  moreover have "of_char (CHR 0x00) = (0 :: nat)" by simp
  ultimately show ?thesis by (metis of_char_eq_iff)
qed

lemma bytes_of_nonzero: "CHR 0x00 \<notin> set name \<Longrightarrow> 0 \<notin> set (bytes_of name)"
proof
  assume n: "CHR 0x00 \<notin> set name" and "0 \<in> set (bytes_of name)"
  then have "0 \<in> (\<lambda>c. of_nat (of_char c) :: u8) ` set name" by (simp only: bytes_of_def set_map)
  then obtain c where c: "0 = (of_nat (of_char c) :: u8)" "c \<in> set name" by (rule imageE)
  show False using byte_of_char_0 [OF c(1) [symmetric]] c(2) n by simp
qed

lemma reclen_of_bounds:
  assumes "length name \<le> 2 ^ 20"
  shows "13 + length name \<le> unat (reclen_of name)" "unat (reclen_of name) \<le> 16 + length name"
    "4 dvd unat (reclen_of name)"
proof -
  let ?y = "of_nat (sizeof_user_dentry + length name + 1) + 3 :: u32"
  have y: "unat ?y = 16 + length name"
    using assms by (simp add: unat_word_ariths unat_of_nat sizeof_user_dentry_def)
  have r: "unat (reclen_of name) = unat ?y - unat ?y mod 4"
    using unat_and_not_mask [of ?y 2] by (simp add: reclen_of_def mask_eq_exp_minus_1)
  have "unat ?y mod 4 \<le> 3" by (simp add: less_Suc_eq_le [symmetric])
  then show "13 + length name \<le> unat (reclen_of name)" "unat (reclen_of name) \<le> 16 + length name"
    using y r by linarith+
  show "4 dvd unat (reclen_of name)" unfolding r by (rule dvd_minus_mod)
qed


text \<open>C40: A directory record that fits is written so that reading it back gives its length (a
  multiple of four that covers it), the mode, the size and the name as a terminated string; the
  cursor and the remaining size move by the length and no byte outside the record changes.\<close>

theorem dirent_roundtrip:
  assumes "length name \<le> 2 ^ 20" "CHR 0x00 \<notin> set name" "reclen_of name \<le> bufsize"
  shows "\<exists>m'. vfs_add_dentry buf bufsize name md sz m =
      (True, buf + unat (reclen_of name), bufsize - reclen_of name, m') \<and>
    load32 buf m' = reclen_of name \<and> load32 (buf + 4) m' = md \<and> load32 (buf + 8) m' = sz \<and>
    cstr m' (buf + 12) (bytes_of name) \<and>
    (\<forall>a. a < buf \<or> buf + unat (reclen_of name) \<le> a \<longrightarrow> m' a = m a) \<and>
    4 dvd unat (reclen_of name) \<and> length name + 13 \<le> unat (reclen_of name)"
proof -
  note b = reclen_of_bounds [OF assms(1)]
  define m1 where "m1 = store32 (buf + 8) sz (store32 (buf + 4) md (store32 buf (reclen_of name) m))"
  define m2 where "m2 = store_bytes (buf + 12) (bytes_of name @ [0]) m1"
  have r: "vfs_add_dentry buf bufsize name md sz m =
      (True, buf + unat (reclen_of name), bufsize - reclen_of name, m2)"
    using assms(3) by (simp add: vfs_add_dentry_def Let_def m1_def m2_def not_less)
  have low: "m2 a = m1 a" if "a < buf + 12" for a
    unfolding m2_def using that by (simp add: store_bytes_other)
  have l: "load32 a m2 = load32 a m1" if "a + 4 \<le> buf + 12" for a
    by (rule load32_cong) (use low that in simp)
  have st: "load32 a (store32 b v k) = load32 a k" if "b + 4 \<le> a \<or> a + 4 \<le> b" for a b v k
    by (rule load32_cong) (rule store32_other, use that in auto)
  have "load32 buf m2 = reclen_of name" "load32 (buf + 4) m2 = md" "load32 (buf + 8) m2 = sz"
    by (simp_all add: l m1_def st load32_store32)
  moreover have "cstr m2 (buf + 12) (bytes_of name)"
    unfolding m2_def by (rule cstr_store_bytes [OF bytes_of_nonzero [OF assms(2)]])
  moreover have "m2 a = m a" if "a < buf \<or> buf + unat (reclen_of name) \<le> a" for a
  proof -
    have "m2 a = m1 a" unfolding m2_def
      by (rule store_bytes_other) (use that b(1) in \<open>auto simp: bytes_of_def\<close>)
    also have "a < buf \<or> buf + 12 \<le> a" using that b(1) by linarith
    then have "m1 a = m a" unfolding m1_def by (auto simp: store32_other)
    finally show ?thesis .
  qed
  ultimately show ?thesis using r b by (simp add: add.commute)
qed

theorem dirent_roundtrip_witness:
  "\<exists>m'. vfs_add_dentry 100 64 ''ab'' 1 7 (\<lambda>_. 0) = (True, 116, 48, m') \<and> load32 108 m' = 7 \<and>
    cstr m' 112 (bytes_of ''ab'')"
proof -
  have r: "reclen_of ''ab'' = 16" by (simp add: reclen_of_def sizeof_user_dentry_def)
  show ?thesis using dirent_roundtrip [of "''ab''" 64 100 1 7 "\<lambda>_. 0"] by (auto simp: r)
qed

section \<open>Listing a directory\<close>

lemma getdents_loop_negative:
  "start < 0 \<Longrightarrow> getdents_loop is buf sz start count s = Some (count, s)"
  by (induction "is" arbitrary: start) auto

lemma getdents_loop_eq:
  "0 \<le> start \<Longrightarrow> getdents_loop is buf sz start 0 s =
    (if nat start < length is then
       do {
         p \<leftarrow> privs s (is ! nat start);
         x \<leftarrow> dents s (p_dentry p);
         let (ok, b, z, m) = vfs_add_dentry buf sz (d_name x) (d_mode x) (d_size x) (mem s);
         if ok then Some (1, s\<lparr>mem := m\<rparr>) else Some (- 12, s)
       }
     else Some (0, s))"
proof (induction "is" arbitrary: start)
  case (Cons i js)
  show ?case
  proof (cases "start = 0")
    case True
    show ?thesis
    proof (cases "privs s i")
      case (Some p)
      show ?thesis
      proof (cases "dents s (p_dentry p)")
        case y: (Some y)
        show ?thesis
          by (cases "vfs_add_dentry buf sz (d_name y) (d_mode y) (d_size y) (mem s)")
            (simp add: True Some y getdents_loop_negative)
      qed (simp add: True Some)
    qed (simp add: True)
  next
    case False
    then have "nat start = Suc (nat (start - 1))" using Cons.prems by simp
    then show ?thesis using False Cons by simp
  qed
qed simp

text \<open>Listing a directory from entry \<open>start\<close> gives at most one entry per call, however large the
  buffer: that entry's record and the count 1, \<open>-ENOMEM\<close> if its record does not fit, or 0 behind
  the last entry.\<close>

theorem getdents_one_entry:
  assumes "dents s d = Some x" "privs s (d_priv x) = Some p" "0 \<le> start"
  shows "ramfs_getdents d buf sz start s =
    (if DIR_TYPE (d_mode x) \<noteq> DIR_DIR then Some (- 20, s)
     else if nat start < length (p_children p) then
       do {
         q \<leftarrow> privs s (p_children p ! nat start);
         y \<leftarrow> dents s (p_dentry q);
         let (ok, b, z, m) = vfs_add_dentry buf sz (d_name y) (d_mode y) (d_size y) (mem s);
         if ok then Some (1, s\<lparr>mem := m\<rparr>) else Some (- 12, s)
       }
     else Some (0, s))"
  using assms by (simp add: ramfs_getdents_def getdents_node_def getdents_loop_eq)

theorem getdents_one_entry_witness:
  "\<exists>(s :: fstate) d. ramfs_getdents d 4096 1024 0 s = Some (0, s)"
proof -
  obtain s :: fstate where s: "fs_inv s" "entries s (root_of s) = []" by (rule mounted_demo_exists)
  obtain x where x: "dents s (root_of s) = Some x" "is_dir x" using root_facts [OF s(1)] .
  obtain p where p: "privs s (d_priv x) = Some p" using fs_invD(4) [OF s(1) x(1)] by (auto simp: dent_ok_def)
  have "p_children p = []" using s(2) x p by (simp add: entries_def)
  then show ?thesis
    using getdents_one_entry [OF x(1) p, of 0 4096 1024] x(2) by (auto simp: is_dir_def)
qed

end
