(* ===== verification/DList.thy ===== *)
theory DList
  imports Prelude
begin

text \<open>
  Doubly linked lists, \<open>src/src/include/list.h\<close>.  A node is a pair of pointers inside some
  object; a list is a ring of nodes, one of which is its head.  The two pointer fields of all
  nodes are two functions on nodes, written one assignment after the other as the code does.
  \<open>list_get\<close>, the step from a node to the object that contains it, is left to the users: their
  nodes are values of a datatype that says which member of which object a node is.
\<close>

section \<open>Pointers and operations\<close>

record 'n links =
  nxt :: "'n \<Rightarrow> 'n"
  prv :: "'n \<Rightarrow> 'n"

definition set_nxt :: "'n \<Rightarrow> 'n \<Rightarrow> 'n links \<Rightarrow> 'n links" where
  "set_nxt a b k = k\<lparr>nxt := (nxt k)(a := b)\<rparr>"

definition set_prv :: "'n \<Rightarrow> 'n \<Rightarrow> 'n links \<Rightarrow> 'n links" where
  "set_prv a b k = k\<lparr>prv := (prv k)(a := b)\<rparr>"

definition list_init :: "'n \<Rightarrow> 'n links \<Rightarrow> 'n links" where
  "list_init list k = set_nxt list list (set_prv list list k)"

definition list_add :: "'n \<Rightarrow> 'n \<Rightarrow> 'n links \<Rightarrow> 'n links" where
  "list_add wher what k =
    (let k1 = set_prv what wher k;
         k2 = set_nxt what (nxt k1 wher) k1;
         k3 = set_prv (nxt k2 wher) what k2
     in set_nxt wher what k3)"

definition list_add_before :: "'n \<Rightarrow> 'n \<Rightarrow> 'n links \<Rightarrow> 'n links" where
  "list_add_before wher what k = list_add (prv k wher) what k"

definition list_del :: "'n \<Rightarrow> 'n links \<Rightarrow> 'n links" where
  "list_del what k =
    (let k1 = set_nxt (prv k what) (nxt k what) k
     in set_prv (nxt k1 what) (prv k1 what) k1)"

definition list_empty :: "'n \<Rightarrow> 'n links \<Rightarrow> bool" where
  "list_empty list k \<longleftrightarrow> nxt k list = list"

text \<open>The loop \<open>list_for_each\<close>: \<open>p\<close> is the iterator, \<open>h\<close> the head, \<open>lk\<close> reads the pointers
  in the loop's state.  The body says whether it breaks; the result is the iterator the loop
  leaves behind.  \<open>p->next\<close> is read after the body has run.\<close>

partial_function (option) list_for_each_from ::
  "('s \<Rightarrow> 'n links) \<Rightarrow> 'n \<Rightarrow> ('n \<Rightarrow> 's \<Rightarrow> (bool \<times> 's) option) \<Rightarrow> 'n \<Rightarrow> 's \<Rightarrow> ('n \<times> 's) option" where
  "list_for_each_from lk h body p s =
    (if p = h then Some (p, s)
     else do {
       (brk, s1) \<leftarrow> body p s;
       if brk then Some (p, s1) else list_for_each_from lk h body (nxt (lk s1) p) s1
     })"

definition list_for_each ::
  "('s \<Rightarrow> 'n links) \<Rightarrow> 'n \<Rightarrow> ('n \<Rightarrow> 's \<Rightarrow> (bool \<times> 's) option) \<Rightarrow> 's \<Rightarrow> ('n \<times> 's) option" where
  "list_for_each lk h body s = list_for_each_from lk h body (nxt (lk s) h) s"

section \<open>The list a ring of nodes holds\<close>

fun linked :: "'n links \<Rightarrow> 'n \<Rightarrow> 'n list \<Rightarrow> 'n \<Rightarrow> bool" where
  "linked k a [] z \<longleftrightarrow> nxt k a = z \<and> prv k z = a"
| "linked k a (x # xs) z \<longleftrightarrow> nxt k a = x \<and> prv k x = a \<and> linked k x xs z"

definition dlist :: "'n links \<Rightarrow> 'n \<Rightarrow> 'n list \<Rightarrow> bool" where
  "dlist k h xs \<longleftrightarrow> linked k h xs h \<and> distinct (h # xs)"

lemma links_simps [simp]:
  "nxt (set_nxt a b k) = (nxt k)(a := b)" "prv (set_nxt a b k) = prv k"
  "nxt (set_prv a b k) = nxt k" "prv (set_prv a b k) = (prv k)(a := b)"
  by (simp_all add: set_nxt_def set_prv_def)

lemma list_init_simps [simp]:
  "nxt (list_init a k) = (nxt k)(a := a)" "prv (list_init a k) = (prv k)(a := a)"
  by (simp_all add: list_init_def)

lemma list_add_simps:
  assumes "what \<noteq> wher"
  shows "nxt (list_add wher what k) = (nxt k)(what := nxt k wher, wher := what)"
    "prv (list_add wher what k) = (prv k)(what := wher, nxt k wher := what)"
  using assms by (auto simp: list_add_def Let_def)

lemma list_del_simps:
  assumes "prv k what \<noteq> what"
  shows "nxt (list_del what k) = (nxt k)(prv k what := nxt k what)"
    "prv (list_del what k) = (prv k)(nxt k what := prv k what)"
  using assms by (auto simp: list_del_def Let_def)

lemma linked_append:
  "linked k a (xs @ y # ys) z \<longleftrightarrow> linked k a xs y \<and> linked k y ys z"
  by (induction xs arbitrary: a) auto

text \<open>A chain depends on the \<open>next\<close> pointers of its nodes but the last one, and on the
  \<open>prev\<close> pointers of its nodes but the first one.\<close>

lemma linked_cong:
  "(\<And>x. x \<in> set (a # xs) \<Longrightarrow> nxt k' x = nxt k x) \<Longrightarrow>
   (\<And>x. x \<in> set (xs @ [z]) \<Longrightarrow> prv k' x = prv k x) \<Longrightarrow> linked k' a xs z \<longleftrightarrow> linked k a xs z"
  by (induction xs arbitrary: a) auto

lemma linked_ends:
  "linked k a xs z \<Longrightarrow> nxt k a = hd (xs @ [z]) \<and> prv k z = last (a # xs)"
  by (induction xs arbitrary: a) auto

lemma linked_unique: "linked k a xs z \<Longrightarrow> linked k a ys z \<Longrightarrow> z \<notin> set xs \<Longrightarrow> z \<notin> set ys \<Longrightarrow> xs = ys"
proof (induction xs arbitrary: a ys)
  case Nil
  then show ?case by (cases ys) auto
next
  case (Cons x xs)
  then show ?case by (cases ys) auto
qed

lemma dlist_unique: "dlist k h xs \<Longrightarrow> dlist k h ys \<Longrightarrow> xs = ys"
  by (auto simp: dlist_def intro: linked_unique)

lemma dlist_cong:
  "(\<And>x. x \<in> set (h # xs) \<Longrightarrow> nxt k' x = nxt k x \<and> prv k' x = prv k x) \<Longrightarrow>
   dlist k' h xs \<longleftrightarrow> dlist k h xs"
  unfolding dlist_def by (subst linked_cong [of h xs k' k h]) auto

lemma dlist_head: "dlist k h xs \<Longrightarrow> nxt k h = hd (xs @ [h]) \<and> prv k h = last (h # xs)"
  unfolding dlist_def by (blast dest: linked_ends)

section \<open>The operations on lists\<close>

lemma dlist_list_init: "dlist (list_init h k) h []"
  by (simp add: dlist_def)

lemma dlist_empty: "dlist k h xs \<Longrightarrow> list_empty h k \<longleftrightarrow> xs = []"
  unfolding list_empty_def dlist_def by (cases xs) auto

text \<open>Insertion behind the head or behind an element.\<close>

lemma dlist_add:
  assumes d: "dlist k h (xs @ ys)" and w: "w = last (h # xs)" and n: "x \<notin> set (h # xs @ ys)"
  shows "dlist (list_add w x k) h (xs @ x # ys)"
proof -
  let ?k = "list_add w x k"
  have wx: "x \<noteq> w" using w n by (cases xs) (auto split: if_splits)
  note s = list_add_simps [OF wx, of k]
  have dis: "distinct (h # xs @ ys)" and lk: "linked k h (xs @ ys) h"
    using d unfolding dlist_def by auto
  obtain y where y: "y = hd (ys @ [h])" by blast
  have l1: "linked k h xs y" and nw: "nxt k w = y"
  proof -
    show "linked k h xs y"
      using lk y by (cases ys) (auto simp: linked_append)
    then show "nxt k w = y"
      using w linked_append [of k h "butlast xs" "last xs" "[]" y]
      by (cases "xs = []") auto
  qed
  have l2: "ys = [] \<or> linked k y (tl ys) h"
    using lk y by (cases ys) (auto simp: linked_append)
  have dxy: "set xs \<inter> set ys = {}" "distinct xs" "distinct ys" "h \<notin> set xs" "h \<notin> set ys"
    using dis by auto
  have yx: "y \<noteq> x" using y n by (cases ys) auto
  have k1: "linked ?k h xs x"
  proof (cases "xs = []")
    case True
    then show ?thesis using w s nw yx by simp
  next
    case False
    have wl: "w = last xs" using w False by simp
    have sp: "xs = butlast xs @ [w]" using False wl by simp
    have "linked k h (butlast xs) w" using l1 sp linked_append [of k h "butlast xs" w "[]" y] by metis
    moreover have wn: "w \<notin> set (butlast xs)" using dxy sp by (metis distinct_butlast not_distinct_conv_prefix append_Nil2 distinct_append disjoint_iff list.set_intros(1))
    moreover have yn: "y \<notin> set xs" using y dxy by (cases ys) auto
    moreover have "set (butlast xs) \<subseteq> set xs" "w \<in> set xs" "h \<noteq> w" "x \<notin> set xs" "x \<noteq> h"
      using in_set_butlastD [of _ xs] wl False dxy(4) n by auto
    ultimately have "linked ?k h (butlast xs) w"
      by (subst linked_cong [of h _ ?k k w]) (auto simp: s nw)
    then have "linked ?k h (butlast xs @ w # []) x"
      unfolding linked_append using s yx by (simp add: nw wx)
    then show ?thesis using sp by simp
  qed
  have k2: "linked ?k x ys h"
  proof (cases ys)
    case Nil
    then have "y = h" using y by simp
    then show ?thesis using Nil nw wx s by simp
  next
    case (Cons y' ys')
    have yy: "y' = y" using y Cons by simp
    have "w \<in> set (h # xs)" unfolding w by (rule last_in_set) simp
    then have wny: "w \<notin> set ys" using dxy by auto
    have "linked k y' ys' h" using l2 Cons yy by simp
    then have "linked ?k y' ys' h"
      using n dxy Cons wny by (subst linked_cong [of y' ys' ?k k h]) (auto simp: s nw yy)
    then show ?thesis using Cons n wny by (simp add: s nw yy wx)
  qed
  show ?thesis
    unfolding dlist_def linked_append using k1 k2 n dis by auto
qed

corollary dlist_add_front:
  "dlist k h xs \<Longrightarrow> x \<notin> set (h # xs) \<Longrightarrow> dlist (list_add h x k) h (x # xs)"
  using dlist_add [of k h "[]" xs h x] by simp

corollary dlist_add_before_head:
  "dlist k h xs \<Longrightarrow> x \<notin> set (h # xs) \<Longrightarrow> dlist (list_add_before h x k) h (xs @ [x])"
  using dlist_add [of k h xs "[]" "last (h # xs)" x] dlist_head [of k h xs]
  by (simp add: list_add_before_def)

corollary dlist_add_before:
  "dlist k h (xs @ y # ys) \<Longrightarrow> x \<notin> set (h # xs @ y # ys) \<Longrightarrow>
     dlist (list_add_before y x k) h (xs @ x # y # ys)"
  using dlist_add [of k h xs "y # ys" "last (h # xs)" x] linked_ends [of k h xs y]
  by (simp add: list_add_before_def dlist_def linked_append)

lemma dlist_del:
  assumes "dlist k h (xs @ x # ys)"
  shows "dlist (list_del x k) h (xs @ ys)"
proof -
  have lk: "linked k h xs x" "linked k x ys h" and dis: "distinct (h # xs @ x # ys)"
    using assms unfolding dlist_def linked_append by auto
  define p where "p = last (h # xs)"
  define n where "n = hd (ys @ [h])"
  have pn: "prv k x = p" "nxt k x = n"
    using linked_ends [OF lk(1)] linked_ends [OF lk(2)] by (simp_all add: p_def n_def)
  have px: "p \<noteq> x" using dis by (auto simp: p_def)
  note s = list_del_simps [of k x, unfolded pn, OF px]
  have a: "linked (list_del x k) h xs n"
  proof (cases "xs = []")
    case True
    then show ?thesis using s by (simp add: p_def)
  next
    case False
    then have sp: "xs = butlast xs @ [p]" by (simp add: p_def)
    then have "linked k h (butlast xs) p" using lk(1) linked_append [of k h "butlast xs" p "[]" x] by metis
    moreover have "p \<notin> set (h # butlast xs)"
    proof -
      have "distinct (h # butlast xs @ [p])" using dis sp by (metis distinct.simps(2) distinct_append append_Cons)
      then show ?thesis by auto
    qed
    moreover have "n \<notin> set xs" using dis by (cases ys) (auto simp: n_def)
    then have "n \<notin> set (butlast xs @ [p])" using sp by metis
    ultimately have "linked (list_del x k) h (butlast xs) p"
      by (subst linked_cong [of h _ _ k p]) (auto simp: s)
    then have "linked (list_del x k) h (butlast xs @ p # []) n"
      unfolding linked_append by (simp add: s)
    then show ?thesis using sp by simp
  qed
  have "linked (list_del x k) h (xs @ ys) h"
  proof (cases ys)
    case Nil
    then show ?thesis using a by (simp add: n_def)
  next
    case (Cons y ys')
    have "linked k y ys' h" using lk(2) Cons by simp
    moreover have "p \<notin> set ys"
    proof (cases "xs = []")
      case False
      then have "p \<in> set xs" by (simp add: p_def)
      then show ?thesis using dis by auto
    qed (use dis in \<open>simp add: p_def\<close>)
    ultimately have "linked (list_del x k) y ys' h"
      using dis Cons by (subst linked_cong [of y ys' _ k h]) (auto simp: s n_def)
    then show ?thesis using a Cons by (simp add: linked_append n_def)
  qed
  then show ?thesis using dis unfolding dlist_def by auto
qed

text \<open>What the operations leave alone.\<close>

lemma list_add_other:
  assumes "dlist k h (xs @ ys)" "w = last (h # xs)" "x \<notin> set (h # xs @ ys)" "z \<notin> set (x # h # xs @ ys)"
  shows "nxt (list_add w x k) z = nxt k z \<and> prv (list_add w x k) z = prv k z"
proof -
  have w: "w \<in> set (h # xs)" using assms(2) by (cases "xs = []") auto
  then have wx: "x \<noteq> w" using assms(3) by auto
  have "nxt k w \<in> set (h # xs @ ys)"
  proof -
    have "linked k h (xs @ ys) h" using assms(1) by (simp add: dlist_def)
    moreover have "linked k a zs z \<Longrightarrow> v \<in> set (a # zs) \<Longrightarrow> nxt k v \<in> set (zs @ [z])" for a zs z v
      by (induction zs arbitrary: a) auto
    ultimately show ?thesis using w by fastforce
  qed
  then have "z \<noteq> nxt k w" "z \<noteq> w" "z \<noteq> x" using assms(4) w by auto
  then show ?thesis unfolding list_add_simps [OF wx] by simp
qed

lemma list_del_other:
  assumes "dlist k h (xs @ x # ys)" "z \<notin> set (h # xs @ ys)"
  shows "nxt (list_del x k) z = nxt k z \<and> prv (list_del x k) z = prv k z"
proof -
  have lk: "linked k h xs x" "linked k x ys h" and dis: "distinct (h # xs @ x # ys)"
    using assms unfolding dlist_def linked_append by auto
  have pn: "prv k x = last (h # xs)" "nxt k x = hd (ys @ [h])"
    using linked_ends [OF lk(1)] linked_ends [OF lk(2)] by simp_all
  have px: "prv k x \<noteq> x" using dis pn by auto
  have "prv k x \<in> set (h # xs)" unfolding pn by (metis last_in_set list.distinct(1))
  moreover have "nxt k x \<in> set (h # ys)" unfolding pn by (cases ys) auto
  ultimately show ?thesis using assms(2) by (auto simp: list_del_simps [OF px])
qed

text \<open>A deleted node keeps its own pointers: the loops that delete the node they stand on go
  on from it.\<close>

lemma list_del_self:
  assumes "prv k x \<noteq> x" "nxt k x \<noteq> x"
  shows "nxt (list_del x k) x = nxt k x" "prv (list_del x k) x = prv k x"
  using assms by (auto simp: list_del_simps)

text \<open>Deleting a node twice in a row is harmless \<dots>\<close>

lemma list_del_twice:
  assumes "prv k x \<noteq> x" "nxt k x \<noteq> x"
  shows "list_del x (list_del x k) = list_del x k"
proof -
  note s = list_del_self [OF assms]
  have "nxt (list_del x (list_del x k)) = nxt (list_del x k)"
    "prv (list_del x (list_del x k)) = prv (list_del x k)"
    using assms s by (simp_all add: list_del_simps)
  then show ?thesis by (intro links.equality) simp_all
qed

text \<open>\<dots> but not when a node \<open>y\<close> was added in its old place in between: the second deletion
  follows the stale pointers of \<open>x\<close>, and \<open>y\<close> drops out.\<close>

lemma list_del_stale:
  assumes d: "dlist k h (y # xs)" and x: "x \<notin> set (h # y # xs)"
    and stale: "prv k x = h" "nxt k x = hd (xs @ [h])"
  shows "dlist (list_del x k) h xs"
proof -
  have "linked k h (y # xs) h" using d by (simp add: dlist_def)
  then have y: "prv k y = h" "nxt k y = hd (xs @ [h])" using linked_ends [of k y xs h] by auto
  have "list_del x k = list_del y k"
    unfolding list_del_def Let_def by (rule links.equality) (use stale y d x in \<open>auto simp: dlist_def\<close>)
  moreover have "dlist (list_del y k) h ([] @ xs)" by (rule dlist_del) (use d in simp)
  ultimately show ?thesis by simp
qed

section \<open>Loops over a list\<close>

text \<open>A loop whose body does not break and does not move the node it stands on: the iterator
  visits the nodes in order.  \<open>P rest s\<close> holds when \<open>rest\<close> is still to be visited.\<close>

lemma list_for_each_from_all:
  assumes "P xs s" "p = hd (xs @ [h])" "h \<notin> set xs"
    and step: "\<And>x ys s. P (x # ys) s \<Longrightarrow> h \<notin> set (x # ys) \<Longrightarrow>
      \<exists>s1. body x s = Some (False, s1) \<and> P ys s1 \<and> nxt (lk s1) x = hd (ys @ [h])"
  shows "\<exists>s1. list_for_each_from lk h body p s = Some (h, s1) \<and> P [] s1"
  using assms(1-3)
proof (induction xs arbitrary: p s)
  case Nil
  then show ?case by (simp add: list_for_each_from.simps)
next
  case (Cons x xs)
  obtain s1 where s1: "body x s = Some (False, s1)" "P xs s1" "nxt (lk s1) x = hd (xs @ [h])"
    using step [OF Cons.prems(1,3)] by blast
  have xh: "x \<noteq> h" "p = x" using Cons.prems by auto
  have "list_for_each_from lk h body p s = list_for_each_from lk h body (nxt (lk s1) x) s1"
    unfolding xh(2) by (subst list_for_each_from.simps) (simp add: xh(1) s1(1))
  then show ?case using Cons.IH [OF s1(2,3)] Cons.prems by simp
qed

lemma list_for_each_all:
  assumes "dlist (lk s) h xs" "P xs s"
    and "\<And>x ys s. P (x # ys) s \<Longrightarrow> h \<notin> set (x # ys) \<Longrightarrow>
      \<exists>s1. body x s = Some (False, s1) \<and> P ys s1 \<and> nxt (lk s1) x = hd (ys @ [h])"
  shows "\<exists>s1. list_for_each lk h body s = Some (h, s1) \<and> P [] s1"
  unfolding list_for_each_def
  by (rule list_for_each_from_all [where xs = xs])
    (use assms dlist_head [OF assms(1)] in \<open>auto simp: dlist_def\<close>)

section \<open>The contract of a list\<close>

text \<open>What the users of lists rely on, over any representation: a node is added in front or at
  the end, removed from where it is, and the lists they are not working on stay as they are.\<close>

locale node_list =
  fixes holds :: "'k \<Rightarrow> 'n \<Rightarrow> 'n list \<Rightarrow> bool"
    and init :: "'n \<Rightarrow> 'k \<Rightarrow> 'k"
    and add_front :: "'n \<Rightarrow> 'n \<Rightarrow> 'k \<Rightarrow> 'k"
    and add_back :: "'n \<Rightarrow> 'n \<Rightarrow> 'k \<Rightarrow> 'k"
    and del :: "'n \<Rightarrow> 'k \<Rightarrow> 'k"
  assumes init_holds: "holds (init h k) h []"
    and front_holds: "holds k h xs \<Longrightarrow> x \<notin> set (h # xs) \<Longrightarrow> holds (add_front h x k) h (x # xs)"
    and back_holds: "holds k h xs \<Longrightarrow> x \<notin> set (h # xs) \<Longrightarrow> holds (add_back h x k) h (xs @ [x])"
    and del_holds: "holds k h (xs @ x # ys) \<Longrightarrow> holds (del x k) h (xs @ ys)"
    and holds_distinct: "holds k h xs \<Longrightarrow> distinct (h # xs)"
    and front_frame: "holds k h xs \<Longrightarrow> holds k g ys \<Longrightarrow> x \<notin> set (h # xs @ g # ys) \<Longrightarrow>
      set (h # xs) \<inter> set (g # ys) = {} \<Longrightarrow> holds (add_front h x k) g ys"
    and del_frame: "holds k h (xs @ x # zs) \<Longrightarrow> holds k g ys \<Longrightarrow>
      set (h # xs @ x # zs) \<inter> set (g # ys) = {} \<Longrightarrow> holds (del x k) g ys"
begin

lemma front_then_del: "holds k h xs \<Longrightarrow> x \<notin> set (h # xs) \<Longrightarrow> holds (del x (add_front h x k)) h xs"
  using del_holds [of "add_front h x k" h "[]" x xs] front_holds by simp

text \<open>Moving a node from one list to the front of another.\<close>

lemma move_front:
  assumes "holds k h (xs @ x # zs)" "holds k g ys"
    and "set (h # xs @ x # zs) \<inter> set (g # ys) = {}"
  shows "holds (add_front g x (del x k)) g (x # ys) \<and> holds (add_front g x (del x k)) h (xs @ zs)"
proof
  have g: "holds (del x k) g ys" by (rule del_frame [OF assms])
  have h: "holds (del x k) h (xs @ zs)" by (rule del_holds [OF assms(1)])
  have d: "distinct (h # xs @ x # zs)" by (rule holds_distinct [OF assms(1)])
  show "holds (add_front g x (del x k)) g (x # ys)"
    by (rule front_holds [OF g]) (use assms(3) in auto)
  show "holds (add_front g x (del x k)) h (xs @ zs)"
    by (rule front_frame [OF g h]) (use assms(3) d in auto)
qed

end

interpretation dl: node_list dlist list_init list_add list_add_before list_del
proof unfold_locales
  show "dlist (list_init h k) h []" for h :: 'a and k by (rule dlist_list_init)
  show "dlist (list_add h x k) h (x # xs)" if "dlist k h xs" "x \<notin> set (h # xs)"
    for k and h x :: 'a and xs
    using that by (rule dlist_add_front)
  show "dlist (list_add_before h x k) h (xs @ [x])" if "dlist k h xs" "x \<notin> set (h # xs)"
    for k and h x :: 'a and xs
    using that by (rule dlist_add_before_head)
  show "dlist (list_del x k) h (xs @ ys)" if "dlist k h (xs @ x # ys)" for k and h x :: 'a and xs ys
    using that by (rule dlist_del)
  show "distinct (h # xs)" if "dlist k h xs" for k and h :: 'a and xs
    using that by (simp add: dlist_def)
  show "dlist (list_add h x k) g ys"
    if a: "dlist k h xs" "dlist k g ys" "x \<notin> set (h # xs @ g # ys)" "set (h # xs) \<inter> set (g # ys) = {}"
    for k and h g x :: 'a and xs ys
  proof -
    have "nxt (list_add h x k) z = nxt k z \<and> prv (list_add h x k) z = prv k z" if "z \<in> set (g # ys)" for z
      by (rule list_add_other [of k h "[]" xs]) (use a that in auto)
    then show ?thesis using a(2) dlist_cong [of g ys "list_add h x k" k] by blast
  qed
  show "dlist (list_del x k) g ys"
    if a: "dlist k h (xs @ x # zs)" "dlist k g ys" "set (h # xs @ x # zs) \<inter> set (g # ys) = {}"
    for k and h g x :: 'a and xs ys zs
  proof -
    have "nxt (list_del x k) z = nxt k z \<and> prv (list_del x k) z = prv k z" if "z \<in> set (g # ys)" for z
      by (rule list_del_other [OF a(1)]) (use a(3) that in auto)
    then show ?thesis using a(2) dlist_cong [of g ys "list_del x k" k] by blast
  qed
qed

text \<open>Taking a node off one list while another member of the object goes to the front of a
  second list, and the iterator standing on the node that left.\<close>

lemma del_and_add:
  assumes h: "dlist k h (xs @ x # ys)" and g: "dlist k g zs" and y: "y \<notin> set (g # zs)"
    and dis: "set (h # xs @ x # ys) \<inter> set (y # g # zs) = {}"
  shows "dlist (list_add g y (list_del x k)) h (xs @ ys) \<and>
    dlist (list_add g y (list_del x k)) g (y # zs) \<and>
    nxt (list_add g y (list_del x k)) x = hd (ys @ [h])"
proof (intro conjI)
  have d: "distinct (h # xs @ x # ys)" using h by (simp add: dlist_def)
  have h1: "dlist (list_del x k) h (xs @ ys)" by (rule dl.del_holds [OF h])
  have g1: "dlist (list_del x k) g zs" by (rule dl.del_frame [OF h g]) (use dis in auto)
  show "dlist (list_add g y (list_del x k)) g (y # zs)" by (rule dl.front_holds [OF g1 y])
  show "dlist (list_add g y (list_del x k)) h (xs @ ys)"
    by (rule dl.front_frame [OF g1 h1]) (use dis y in auto)
  have lk: "linked k h xs x" "linked k x ys h" using h unfolding dlist_def linked_append by auto
  have nx: "nxt k x = hd (ys @ [h])" "prv k x = last (h # xs)"
    using linked_ends [OF lk(1)] linked_ends [OF lk(2)] by auto
  have "hd (ys @ [h]) \<in> set (h # ys)" by (cases ys) auto
  moreover have "last (h # xs) \<in> set (h # xs)" by (rule last_in_set) simp
  ultimately have "nxt k x \<noteq> x" "prv k x \<noteq> x" using d unfolding nx by auto
  then have "nxt (list_del x k) x = nxt k x" by (simp add: list_del_self)
  moreover have "nxt (list_add g y (list_del x k)) x = nxt (list_del x k) x"
    using list_add_other [of "list_del x k" g "[]" zs g y x] g1 y dis by auto
  ultimately show "nxt (list_add g y (list_del x k)) x = hd (ys @ [h])" using nx by simp
qed

text \<open>What the body of a loop leaves alone, the loop leaves alone.\<close>

lemma list_for_each_from_keeps:
  assumes r: "list_for_each_from lk h bdy q s = Some r"
    and b: "\<forall>p u brk u'. bdy p u = Some (brk, u') \<longrightarrow> g u' = g u"
  shows "g (snd r) = g s"
proof -
  have "(\<forall>p u brk u'. bdy p u = Some (brk, u') \<longrightarrow> g u' = g u) \<longrightarrow> g (snd r) = g s"
  proof (rule list_for_each_from.raw_induct
      [OF _ r, where P = "\<lambda>_ _ bdy _ s r. (\<forall>p u brk u'. bdy p u = Some (brk, u') \<longrightarrow> g u' = g u) \<longrightarrow> g (snd r) = g s"],
      goal_cases)
    case (1 loop lk h bdy q s r)
    show ?case
    proof (intro impI)
      assume b: "\<forall>p u brk u'. bdy p u = Some (brk, u') \<longrightarrow> g u' = g u"
      show "g (snd r) = g s"
      proof (cases "q = h")
        case False
        then obtain brk s1 where s1: "bdy q s = Some (brk, s1)"
          "(if brk then Some (q, s1) else loop lk h bdy (nxt (lk s1) q) s1) = Some r"
          using 1(2) by (auto simp: bind_eq_Some_conv)
        then have g1: "g s1 = g s" using b by blast
        show ?thesis
        proof (cases brk)
          case True
          then show ?thesis using s1(2) g1 by auto
        next
          case False
          then show ?thesis using 1(1) s1(2) b g1 by fastforce
        qed
      qed (use 1(2) in auto)
    qed
  qed
  then show ?thesis using b by blast
qed

lemma list_for_each_keeps:
  "list_for_each lk h bdy s = Some (p, s') \<Longrightarrow> (\<And>p u brk u'. bdy p u = Some (brk, u') \<Longrightarrow> g u' = g u) \<Longrightarrow> g s' = g s"
  unfolding list_for_each_def using list_for_each_from_keeps [of lk h bdy _ s "(p, s')" g] by auto

end
