(* ===== verification/Task.thy ===== *)
theory Task
  imports Vfs Printf DList
begin

text \<open>
  The state of the running kernel: tasks (\<open>src/src/include/process.h\<close>), memory areas and
  sleeping timers, the lists they are linked into, and the processor, on top of the state of
  the file systems; with the flags and wait queues of \<open>src/src/include/sched.h\<close>.

  A task is known by the address of its page.  A list node is known by the object and the
  member it is.  The registers \<open>rsp\<close> and \<open>rip\<close> of a task that does not run say where it
  resumes: behind the switch in \<open>schedule\<close>, with the flags it pushed there, or at one of the
  two assembly entry points.
\<close>

section \<open>Objects\<close>

datatype node =
    Tasks nat | Running nat | Waitq nat | Vm_areas nat | Vma nat | Sleepq nat | Timerq | Wait_head nat

datatype resume =
    In_schedule (pushed_flags: u64)
  | Ret_from_fork
  | Kernel_thread_start (thread_fn: u64) (thread_data: u64)

definition TASK_RUNNING :: int where [const_defs]: "TASK_RUNNING = 0"
definition TASK_INTERRUPTIBLE :: int where [const_defs]: "TASK_INTERRUPTIBLE = 1"
definition TASK_UNINTERRUPTIBLE :: int where [const_defs]: "TASK_UNINTERRUPTIBLE = 2"
definition TASK_ZOMBIE :: int where [const_defs]: "TASK_ZOMBIE = 3"

record task_t =
  t_pid :: int
  timeslice :: u32
  t_state :: int
  exit_code :: int
  t_page_dir :: u64
  resume_at :: resume
  pdt :: "nat list"

record vm_area_t =
  vm_start :: u64
  vm_end :: u64
  vm_prot :: u32
  vm_file :: nat
  vm_offset :: u64

record timer_waitq_t =
  tw_time :: u64
  tw_task :: nat

definition sizeof_vm_area :: u32 where "sizeof_vm_area = 56"
definition sizeof_timer_waitq :: u32 where "sizeof_timer_waitq = 32"
definition sizeof_task_stack :: u64 where "sizeof_task_stack = 4096"

text \<open>\<open>user_regs\<close> is the \<open>regs_t\<close> at the very end of a task's stack.  \<open>ticks\<close> is the variable
  \<open>jiffies\<close> of the processor's state.\<close>

record kstate = fstate +
  lnk :: "node links"
  task_of :: "nat \<Rightarrow> task_t option"
  user_regs :: "nat \<Rightarrow> regs"
  vmas :: "nat \<Rightarrow> vm_area_t option"
  timers :: "nat \<Rightarrow> timer_waitq_t option"
  current :: nat
  idle :: nat
  global_flags :: u64
  next_free_pid :: int
  tss_rsp0 :: u64
  swapgs_kernel_rsp :: u64
  cr3 :: u64
  cpu :: vga

abbreviation ticks :: "'z kstate_scheme \<Rightarrow> u64" where
  "ticks s \<equiv> jiffies (cpu s)"

definition set_task :: "nat \<Rightarrow> (task_t \<Rightarrow> task_t) \<Rightarrow> 'z kstate_scheme \<Rightarrow> 'z kstate_scheme option" where
  "set_task p f s = map_option (\<lambda>t. s\<lparr>task_of := (task_of s)(p \<mapsto> f t)\<rparr>) (task_of s p)"

definition set_vma :: "nat \<Rightarrow> (vm_area_t \<Rightarrow> vm_area_t) \<Rightarrow> 'z kstate_scheme \<Rightarrow> 'z kstate_scheme option" where
  "set_vma a f s = map_option (\<lambda>t. s\<lparr>vmas := (vmas s)(a \<mapsto> f t)\<rparr>) (vmas s a)"

text \<open>\<open>list_get\<close> with the member a list links: a node of another member is not an object of
  the expected type.\<close>

fun get_running :: "node \<Rightarrow> nat option" where
  "get_running (Running p) = Some p"
| "get_running _ = None"

fun get_waitq :: "node \<Rightarrow> nat option" where
  "get_waitq (Waitq p) = Some p"
| "get_waitq _ = None"

fun get_sleepq :: "node \<Rightarrow> nat option" where
  "get_sleepq (Sleepq p) = Some p"
| "get_sleepq _ = None"

fun get_vma :: "node \<Rightarrow> nat option" where
  "get_vma (Vma p) = Some p"
| "get_vma _ = None"

definition on_links :: "(node links \<Rightarrow> node links) \<Rightarrow> 'z kstate_scheme \<Rightarrow> 'z kstate_scheme" where
  "on_links f s = s\<lparr>lnk := f (lnk s)\<rparr>"

text \<open>Output and flags act on the processor.\<close>

definition kprintk :: "string \<Rightarrow> arg list \<Rightarrow> 'z kstate_scheme \<Rightarrow> 'z kstate_scheme option" where
  "kprintk fmt args s = map_option (\<lambda>(n, c). s\<lparr>cpu := c\<rparr>) (printk fmt args (cpu s))"

definition irq_save :: "'z kstate_scheme \<Rightarrow> u64 \<times> 'z kstate_scheme" where
  "irq_save s = (let (flags, c) = save_flags_irq (cpu s) in (flags, s\<lparr>cpu := c\<rparr>))"

definition irq_restore :: "u64 \<Rightarrow> 'z kstate_scheme \<Rightarrow> 'z kstate_scheme" where
  "irq_restore flags s = s\<lparr>cpu := restore_flags flags (cpu s)\<rparr>"

section \<open>Flags\<close>

definition FLAG_NEED_RESCHED :: int where [const_defs]: "FLAG_NEED_RESCHED = 0"

definition set_global_flag :: "int \<Rightarrow> 'z kstate_scheme \<Rightarrow> 'z kstate_scheme option" where
  "set_global_flag flag s =
    do {
      BUG_ON (flag < 0 \<or> 64 \<le> flag);
      Some (s\<lparr>global_flags := global_flags s OR push_bit (nat flag) 1\<rparr>)
    }"

definition clear_global_flag :: "int \<Rightarrow> 'z kstate_scheme \<Rightarrow> 'z kstate_scheme option" where
  "clear_global_flag flag s =
    do {
      BUG_ON (flag < 0 \<or> 64 \<le> flag);
      Some (s\<lparr>global_flags := global_flags s AND NOT (push_bit (nat flag) 1)\<rparr>)
    }"

text \<open>The result is an \<open>int\<close>: its low 32 bits.\<close>

definition get_global_flag :: "int \<Rightarrow> 'z kstate_scheme \<Rightarrow> int option" where
  "get_global_flag flag s =
    do {
      BUG_ON (flag < 0 \<or> 64 \<le> flag);
      Some (sint (ucast (global_flags s AND push_bit (nat flag) 1) :: u32))
    }"

definition set_need_resched :: "'z kstate_scheme \<Rightarrow> 'z kstate_scheme option" where
  "set_need_resched s = set_global_flag FLAG_NEED_RESCHED s"

definition clear_need_resched :: "'z kstate_scheme \<Rightarrow> 'z kstate_scheme option" where
  "clear_need_resched s = clear_global_flag FLAG_NEED_RESCHED s"

definition need_resched :: "'z kstate_scheme \<Rightarrow> int option" where
  "need_resched s = get_global_flag FLAG_NEED_RESCHED s"

section \<open>Wait queues\<close>

definition waitqueue_sleep :: "nat \<Rightarrow> 'z kstate_scheme \<Rightarrow> 'z kstate_scheme option" where
  "waitqueue_sleep q s =
    do {
      t \<leftarrow> task_of s (current s);
      BUG_ON (t_state t \<noteq> TASK_RUNNING);
      let (flags, s1) = irq_save s;
      s2 \<leftarrow> set_task (current s1) (\<lambda>x. x\<lparr>t_state := TASK_INTERRUPTIBLE\<rparr>) s1;
      let s3 = on_links (list_add (Wait_head q) (Waitq (current s2))) s2;
      s4 \<leftarrow> set_need_resched s3;
      Some (irq_restore flags s4)
    }"

definition wakeup_body :: "node \<Rightarrow> 'z kstate_scheme \<Rightarrow> (bool \<times> 'z kstate_scheme) option" where
  "wakeup_body it s =
    do {
      p \<leftarrow> get_waitq it;
      t \<leftarrow> task_of s p;
      BUG_ON (t_state t \<noteq> TASK_INTERRUPTIBLE \<and> t_state t \<noteq> TASK_UNINTERRUPTIBLE);
      let s1 = on_links (list_del (Waitq p)) s;
      s2 \<leftarrow> set_task p (\<lambda>x. x\<lparr>t_state := TASK_RUNNING\<rparr>) s1;
      Some (False, on_links (list_add (Running (idle s2)) (Running p)) s2)
    }"

definition waitqueue_wakeup :: "nat \<Rightarrow> 'z kstate_scheme \<Rightarrow> 'z kstate_scheme option" where
  "waitqueue_wakeup q s =
    do {
      let (flags, s1) = irq_save s;
      (it, s2) \<leftarrow> list_for_each lnk (Wait_head q) wakeup_body s1;
      s3 \<leftarrow> (if current s2 = idle s2 then set_need_resched s2 else Some s2);
      Some (irq_restore flags s3)
    }"

section \<open>What the heap does not depend on\<close>

text \<open>The heap's facts are about the heap's fields only, whatever the rest of the state.\<close>

lemma heap_part:
  fixes s s' :: "'z heap_scheme"
  assumes "heap.truncate s' = heap.truncate s"
  shows "heap_inv s' = heap_inv s" "live s' = live s" "grow_ready k s' = grow_ready k s"
    "small_heap s' = small_heap s" "pmm_inv s' = pmm_inv s" "free_frames s' = free_frames s"
proof -
  have f: "bitmap s' = bitmap s" "first_frame s' = first_frame s" "bitmap_size s' = bitmap_size s"
    "memused s' = memused s" "pages s' = pages s" "tables s' = tables s" "page_dir s' = page_dir s"
    "heap_top s' = heap_top s" "hdr s' = hdr s"
    using assms by (simp_all add: heap.defs)
  have m: "managed s' = managed s" using f by (simp add: managed_def nframes_def)
  have u: "used_frames s' = used_frames s" using f m by (simp add: used_frames_def)
  show ff: "free_frames s' = free_frames s" using m u by (simp add: free_frames_def)
  show pm: "pmm_inv s' = pmm_inv s" using f u ff by (simp add: pmm_inv_def nframes_def)
  show "live s' = live s" using f by (simp add: live_def)
  show sm: "small_heap s' = small_heap s" using f pm ff by (simp add: small_heap_def)
  show "heap_inv s' = heap_inv s" using f pm ff by (simp add: heap_inv_def heap_blocks_def)
  have "pt_inv s' = pt_inv s" using f ff by (simp add: pt_inv_def)
  moreover have "translate s' v = translate s v" "no_large s' v = no_large s v" for v
    unfolding translate_def no_large_def f by (rule refl)+
  ultimately show "grow_ready k s' = grow_ready k s" using f sm ff by (simp add: grow_ready_def)
qed

end
