(* ===== verification/Sched.thy ===== *)
theory Sched
  imports Task "HOL-Library.Signed_Division"
begin

text \<open>
  The scheduler, \<open>src/src/kernel/sched.c\<close>, and the end of a task (\<open>free_task\<close> of
  \<open>src/src/kernel/process.c\<close>, which the switch calls).

  \<open>schedule\<close> returns in the task that was switched to: the state after it has that task as
  \<open>current\<close>, and what follows the call in the code runs in the old task only once that is
  switched to again.
\<close>

section \<open>Operations\<close>

definition init_scheduler :: "'z kstate_scheme \<Rightarrow> 'z kstate_scheme" where
  "init_scheduler s = on_links (list_init Timerq) s"

definition tick_body :: "u64 \<Rightarrow> node \<Rightarrow> 'z kstate_scheme \<Rightarrow> (bool \<times> 'z kstate_scheme) option" where
  "tick_body now it s =
    do {
      a \<leftarrow> get_sleepq it;
      t \<leftarrow> timers s a;
      if now \<ge> tw_time t then do {
        let s1 = on_links (list_del it) s;
        let s2 = on_links (list_add (Running (idle s1)) (Running (tw_task t))) s1;
        s3 \<leftarrow> set_task (tw_task t) (\<lambda>x. x\<lparr>t_state := TASK_RUNNING\<rparr>) s2;
        s4 \<leftarrow> kfree a s3;
        let s5 = s4\<lparr>timers := (timers s4)(a := None)\<rparr>;
        s6 \<leftarrow> (if current s5 = idle s5 then set_need_resched s5 else Some s5);
        Some (False, s6)
      }
      else Some (False, s)
    }"

definition scheduler_tick :: "'z kstate_scheme \<Rightarrow> 'z kstate_scheme option" where
  "scheduler_tick s =
    do {
      (it, s1) \<leftarrow> list_for_each lnk Timerq (tick_body (ticks s)) s;
      let p = current s1;
      s2 \<leftarrow> set_task p (\<lambda>x. x\<lparr>timeslice := timeslice x - 1\<rparr>) s1;
      t \<leftarrow> task_of s2 p;
      if timeslice t = 0 then do {
        s3 \<leftarrow> set_need_resched s2;
        set_task p (\<lambda>x. x\<lparr>timeslice := 20\<rparr>) s3
      }
      else Some s2
    }"

text \<open>The timer interrupt handler of \<open>irq.c\<close> on this state.\<close>

definition timer_irq :: "'z kstate_scheme \<Rightarrow> 'z kstate_scheme option" where
  "timer_irq s = scheduler_tick (s\<lparr>cpu := (cpu s)\<lparr>jiffies := jiffies (cpu s) + 1\<rparr>\<rparr>)"

definition free_task :: "nat \<Rightarrow> 'z kstate_scheme \<Rightarrow> 'z kstate_scheme option" where
  "free_task p s =
    do {
      let s1 = on_links (list_del (Tasks p)) s;
      t \<leftarrow> task_of s1 p;
      s2 \<leftarrow> free_page (t_page_dir t) s1;
      s3 \<leftarrow> free_page (of_nat p) s2;
      Some (s3\<lparr>task_of := (task_of s3)(p := None)\<rparr>)
    }"

definition context_switch_tail :: "nat \<Rightarrow> nat \<Rightarrow> 'z kstate_scheme \<Rightarrow> 'z kstate_scheme option" where
  "context_switch_tail prev nx s =
    do {
      let s1 = s\<lparr>tss_rsp0 := of_nat nx + sizeof_task_stack\<rparr>;
      let s2 = s1\<lparr>swapgs_kernel_rsp := tss_rsp0 s1\<rparr>;
      t \<leftarrow> task_of s2 prev;
      if t_state t = TASK_ZOMBIE then free_task prev s2 else Some s2
    }"

text \<open>The assembly: save the flags and the place to resume at, take over the other task's
  stack and page tables, finish on its stack, and go on where it stopped.  A task that
  resumes in \<open>schedule\<close> pops its flags.\<close>

definition context_switch :: "nat \<Rightarrow> nat \<Rightarrow> u64 \<Rightarrow> 'z kstate_scheme \<Rightarrow> 'z kstate_scheme option" where
  "context_switch prev nx flags s =
    do {
      s1 \<leftarrow> set_task prev (\<lambda>x. x\<lparr>resume_at := In_schedule flags\<rparr>) s;
      n \<leftarrow> task_of s1 nx;
      let s2 = s1\<lparr>current := nx, cr3 := get_task_cr3 (t_page_dir n)\<rparr>;
      s3 \<leftarrow> context_switch_tail prev nx s2;
      (case resume_at n of
         In_schedule fl \<Rightarrow> Some (irq_restore fl s3)
       | _ \<Rightarrow> Some s3)
    }"

definition schedule :: "'z kstate_scheme \<Rightarrow> 'z kstate_scheme option" where
  "schedule s =
    do {
      let (flags, s1) = irq_save s;
      let prev = current s1;
      next1 \<leftarrow> get_running (nxt (lnk s1) (Running prev));
      t \<leftarrow> task_of s1 prev;
      let s2 = (if t_state t = TASK_ZOMBIE \<or> t_state t = TASK_INTERRUPTIBLE \<or>
                   t_state t = TASK_UNINTERRUPTIBLE
                then on_links (list_del (Running prev)) s1 else s1);
      next2 \<leftarrow> (if next1 = idle s2 then do {
          next_next \<leftarrow> get_running (nxt (lnk s2) (Running next1));
          Some (if next_next \<noteq> idle s2 then next_next else next1)
        }
        else Some next1);
      s3 \<leftarrow> clear_need_resched s2;
      if next2 \<noteq> prev then context_switch prev next2 flags s3
      else Some (irq_restore flags s3)
    }"

text \<open>\<open>us * HZ + 999999\<close> is computed as a \<open>long\<close>; its overflow is undefined.  A null pointer
  from \<open>kmalloc\<close> is written through.\<close>

definition sys_usleep :: "int \<Rightarrow> 'z kstate_scheme \<Rightarrow> (int \<times> 'z kstate_scheme) option" where
  "sys_usleep us s =
    do {
      let v = us * int HZ + 999999;
      BUG_ON (v < - (2 ^ 63) \<or> 2 ^ 63 \<le> us * int HZ \<or> 2 ^ 63 \<le> v \<or> us * int HZ < - (2 ^ 63));
      let whn = ticks s + word_of_int (v sdiv 1000000);
      let s1 = on_links (list_del (Running (current s))) s;
      s2 \<leftarrow> set_task (current s1) (\<lambda>x. x\<lparr>t_state := TASK_INTERRUPTIBLE\<rparr>) s1;
      (q, s3) \<leftarrow> kmalloc sizeof_timer_waitq s2;
      BUG_ON (q = 0);
      let s4 = s3\<lparr>timers := (timers s3)(q \<mapsto> \<lparr>tw_time = whn, tw_task = current s3\<rparr>)\<rparr>;
      let s5 = on_links (list_init (Sleepq q)) s4;
      let s6 = on_links (list_add Timerq (Sleepq q)) s5;
      s7 \<leftarrow> set_need_resched s6;
      Some (0, s7)
    }"

end
