(* ===== verification/SchedProps.thy ===== *)
theory SchedProps
  imports Sched
begin

text \<open>
  Correctness of the scheduler: the run queue as a list of tasks, round robin and fairness,
  waking tasks from wait queues and timers, and the window between \<open>sys_usleep\<close> and the switch
  in which a wake-up is lost.
\<close>

section \<open>The run queue\<close>

text \<open>The ring of tasks that may run, starting behind the idle task.\<close>

definition runq :: "'z kstate_scheme \<Rightarrow> nat list \<Rightarrow> bool" where
  "runq s ts \<longleftrightarrow> dlist (lnk s) (Running (idle s)) (map Running ts)"

definition sched_inv :: "'z kstate_scheme \<Rightarrow> nat list \<Rightarrow> bool" where
  "sched_inv s ts \<longleftrightarrow> runq s ts \<and> current s \<in> set (idle s # ts) \<and>
     (\<forall>p \<in> set (idle s # ts). task_of s p \<noteq> None)"

text \<open>Round robin: the tasks behind the current one, then those before it, then itself if it
  can still run; the idle task only if there is no other.\<close>

definition pick :: "nat \<Rightarrow> nat list \<Rightarrow> nat \<Rightarrow> bool \<Rightarrow> nat" where
  "pick i ts c keep =
    (if c = i then hd (ts @ [i])
     else hd (tl (dropWhile (\<lambda>p. p \<noteq> c) ts) @ takeWhile (\<lambda>p. p \<noteq> c) ts @
       (if keep then [c] else []) @ [i]))"

lemma pick_split:
  assumes "c \<noteq> i" "c \<notin> set as"
  shows "pick i (as @ c # bs) c keep = hd (bs @ as @ (if keep then [c] else []) @ [i])"
proof -
  have "dropWhile (\<lambda>p. p \<noteq> c) (as @ c # bs) = c # bs" "takeWhile (\<lambda>p. p \<noteq> c) (as @ c # bs) = as"
    using assms(2) by (induction as) auto
  then show ?thesis using assms by (simp add: pick_def)
qed

lemma runq_distinct: "runq s ts \<Longrightarrow> distinct (idle s # ts)"
  by (auto simp: runq_def dlist_def distinct_map)

lemma runq_first: "runq s ts \<Longrightarrow> nxt (lnk s) (Running (idle s)) = Running (hd (ts @ [idle s]))"
  unfolding runq_def by (drule dlist_head) (cases ts; simp)

lemma runq_next:
  "runq s (as @ c # bs) \<Longrightarrow> nxt (lnk s) (Running c) = Running (hd (bs @ [idle s]))"
  unfolding runq_def dlist_def by (cases bs) (auto simp: linked_append)

lemma runq_cong: "lnk s' = lnk s \<Longrightarrow> idle s' = idle s \<Longrightarrow> runq s' ts = runq s ts"
  by (simp add: runq_def)

lemma runq_del: "runq s (as @ c # bs) \<Longrightarrow> runq (on_links (list_del (Running c)) s) (as @ bs)"
  unfolding runq_def on_links_def using dl.del_holds [of "lnk s" _ "map Running as"] by simp

lemma runq_add:
  "runq s ts \<Longrightarrow> p \<notin> set (idle s # ts) \<Longrightarrow>
     runq (on_links (list_add (Running (idle s)) (Running p)) s) (p # ts)"
  unfolding runq_def on_links_def using dl.front_holds [of "lnk s" _ "map Running ts" "Running p"]
  by auto

lemma irq_save_simps [simp]:
  "fst (irq_save s) = rflags (cpu s)"
  "snd (irq_save s) = s\<lparr>cpu := cli (cpu s)\<rparr>"
  by (simp_all add: irq_save_def save_flags_irq_def)

lemma irq_save_eq: "irq_save s = (rflags (cpu s), s\<lparr>cpu := cli (cpu s)\<rparr>)"
  by (simp add: irq_save_def save_flags_irq_def)

lemma clear_need_resched_eq [simp]:
  "clear_need_resched s = Some (s\<lparr>global_flags := global_flags s AND NOT 1\<rparr>)"
  by (simp add: clear_need_resched_def clear_global_flag_def FLAG_NEED_RESCHED_def)

lemma set_need_resched_eq [simp]:
  "set_need_resched s = Some (s\<lparr>global_flags := global_flags s OR 1\<rparr>)"
  by (simp add: set_need_resched_def set_global_flag_def FLAG_NEED_RESCHED_def)

section \<open>Switching\<close>

text \<open>A switch between two tasks of which the first is not a zombie.\<close>

lemma context_switch_eq:
  assumes "task_of s c = Some t" "t_state t \<noteq> TASK_ZOMBIE" "task_of s n = Some u" "n \<noteq> c"
  shows "\<exists>s'. context_switch c n fl s = Some s' \<and> current s' = n \<and> lnk s' = lnk s \<and>
    idle s' = idle s \<and> global_flags s' = global_flags s \<and> cr3 s' = get_task_cr3 (t_page_dir u) \<and>
    task_of s' = (task_of s)(c \<mapsto> t\<lparr>resume_at := In_schedule fl\<rparr>) \<and>
    tss_rsp0 s' = of_nat n + sizeof_task_stack"
  using assms
  by (cases "resume_at u")
    (auto simp: context_switch_def set_task_def context_switch_tail_def irq_restore_def)

definition can_run :: "task_t \<Rightarrow> bool" where
  "can_run t \<longleftrightarrow> t_state t \<noteq> TASK_ZOMBIE \<and> t_state t \<noteq> TASK_INTERRUPTIBLE \<and>
     t_state t \<noteq> TASK_UNINTERRUPTIBLE"

text \<open>The part of \<open>schedule\<close> that looks for the next task, and what is left to do.\<close>

definition schedule_switch :: "nat \<Rightarrow> 'z kstate_scheme \<Rightarrow> 'z kstate_scheme \<Rightarrow> 'z kstate_scheme option" where
  "schedule_switch n s s2 =
    (let s3 = s2\<lparr>global_flags := global_flags s2 AND NOT 1\<rparr>
     in if n \<noteq> current s then context_switch (current s) n (rflags (cpu s)) s3
        else Some (irq_restore (rflags (cpu s)) s3))"

lemma schedule_eq:
  assumes rq: "runq s ts" and t: "task_of s (current s) = Some t"
    and c: "current s \<in> set (idle s # ts)" and i: "current s = idle s \<longrightarrow> can_run t"
  shows "\<exists>s2. schedule s = schedule_switch (pick (idle s) ts (current s) (can_run t)) s s2 \<and>
    runq s2 (if can_run t then ts else remove1 (current s) ts) \<and> task_of s2 = task_of s \<and>
    idle s2 = idle s \<and> global_flags s2 = global_flags s \<and> current s2 = current s \<and>
    s2 = s\<lparr>cpu := cli (cpu s), lnk := lnk s2\<rparr> \<and>
    lnk s2 = (if can_run t then lnk s else list_del (Running (current s)) (lnk s))"
proof -
  let ?c = "current s" and ?i = "idle s" and ?keep = "can_run t"
  define s1 where "s1 = s\<lparr>cpu := cli (cpu s)\<rparr>"
  define s2 where "s2 = (if ?keep then s1 else on_links (list_del (Running ?c)) s1)"
  define n1 where "n1 = (if ?c = ?i then hd (ts @ [?i])
    else hd (tl (dropWhile (\<lambda>p. p \<noteq> ?c) ts) @ [?i]))"
  define ts' where "ts' = (if ?keep then ts else remove1 ?c ts)"
  have d: "distinct (?i # ts)" using rq by (rule runq_distinct)
  have r1: "runq s1 ts" using rq by (simp add: s1_def runq_def)
  have f2: "task_of s2 = task_of s" "idle s2 = ?i" "global_flags s2 = global_flags s" "current s2 = ?c"
    "s2 = s\<lparr>cpu := cli (cpu s), lnk := lnk s2\<rparr>"
    "lnk s2 = (if ?keep then lnk s else list_del (Running ?c) (lnk s))"
    by (simp_all add: s2_def s1_def on_links_def)
  have main: "runq s2 ts' \<and> nxt (lnk s) (Running ?c) = Running n1 \<and>
      pick ?i ts ?c ?keep = (if n1 = ?i then hd (ts' @ [?i]) else n1)"
  proof (cases "?c = ?i")
    case True
    then have k: "?keep" using i by simp
    have "n1 = hd (ts @ [?i])" "pick ?i ts ?c ?keep = hd (ts @ [?i])"
      using True by (simp_all add: n1_def pick_def)
    then show ?thesis using k True r1 runq_first [OF rq] by (simp add: s2_def ts'_def)
  next
    case False
    then obtain as bs where sp: "ts = as @ ?c # bs" "?c \<notin> set as"
      using c by (metis set_ConsD split_list_first)
    have n: "n1 = hd (bs @ [?i])"
    proof -
      have "dropWhile (\<lambda>p. p \<noteq> ?c) (as @ ?c # bs) = ?c # bs"
        using sp(2) by (induction as) auto
      then show ?thesis using False sp(1) by (simp add: n1_def)
    qed
    have ts': "ts' = as @ (if ?keep then [?c] else []) @ bs"
      using sp by (simp add: ts'_def remove1_append)
    have "runq s2 ts'"
    proof (cases ?keep)
      case True
      then show ?thesis using r1 sp(1) ts' by (simp add: s2_def)
    next
      case False
      then show ?thesis using runq_del [of s1 as ?c bs] r1 sp(1) ts' by (simp add: s2_def)
    qed
    moreover have "nxt (lnk s) (Running ?c) = Running n1"
      using runq_next [of s as ?c bs] rq sp(1) n by simp
    moreover have "pick ?i ts ?c ?keep = (if n1 = ?i then hd (ts' @ [?i]) else n1)"
    proof (cases bs)
      case Nil
      have "pick ?i ts ?c ?keep = hd (as @ (if ?keep then [?c] else []) @ [?i])"
        using pick_split [OF False sp(2), of bs ?keep] sp(1) Nil by simp
      then show ?thesis using n ts' Nil by simp
    next
      case (Cons b bs')
      have "b \<noteq> ?i" using d sp(1) Cons by auto
      moreover have "pick ?i ts ?c ?keep = b"
        using pick_split [OF False sp(2), of bs ?keep] sp(1) Cons by simp
      ultimately show ?thesis using n Cons by simp
    qed
    ultimately show ?thesis by blast
  qed
  have f1: "current s1 = ?c" "lnk s1 = lnk s" "task_of s1 = task_of s" by (simp_all add: s1_def)
  from main have rq2: "runq s2 ts'" and nx: "nxt (lnk s) (Running ?c) = Running n1"
    and pk: "pick ?i ts ?c ?keep = (if n1 = ?i then hd (ts' @ [?i]) else n1)" by auto
  have first: "nxt (lnk s2) (Running ?i) = Running (hd (ts' @ [?i]))"
    using runq_first [OF rq2] f2 by simp
  have s2': "s2 = (if t_state t = TASK_ZOMBIE \<or> t_state t = TASK_INTERRUPTIBLE \<or>
      t_state t = TASK_UNINTERRUPTIBLE then on_links (list_del (Running ?c)) s1 else s1)"
    by (auto simp: s2_def can_run_def)
  have "schedule s = schedule_switch (pick ?i ts ?c ?keep) s s2"
  proof -
    have "schedule s = do {
      next2 \<leftarrow> (if n1 = idle s2 then do {
          next_next \<leftarrow> get_running (nxt (lnk s2) (Running n1));
          Some (if next_next \<noteq> idle s2 then next_next else n1)
        } else Some n1);
      s3 \<leftarrow> clear_need_resched s2;
      if next2 \<noteq> ?c then context_switch ?c next2 (rflags (cpu s)) s3
      else Some (irq_restore (rflags (cpu s)) s3) }"
      unfolding schedule_def irq_save_eq Let_def prod.case s1_def [symmetric] f1 nx t
        get_running.simps Option.bind_lunit s2' by (rule refl)
    also have "\<dots> = schedule_switch (pick ?i ts ?c ?keep) s s2"
      unfolding pk schedule_switch_def using first f2(2) by (auto simp: Let_def)
    finally show ?thesis .
  qed
  then show ?thesis using rq2 f2 unfolding ts'_def by blast
qed

lemma pick_in:
  assumes "c \<in> set (i # ts)" "distinct (i # ts)" "c = i \<Longrightarrow> keep"
  shows "pick i ts c keep \<in> set (i # (if keep then ts else remove1 c ts))"
proof (cases "c = i")
  case True
  then show ?thesis using assms by (cases ts) (auto simp: pick_def)
next
  case False
  then obtain as bs where sp: "ts = as @ c # bs" "c \<notin> set as"
    using assms(1) by (metis set_ConsD split_list_first)
  have "pick i ts c keep \<in> set (bs @ as @ (if keep then [c] else []) @ [i])"
    unfolding sp(1) pick_split [OF False sp(2)] by (rule hd_in_set) simp
  then show ?thesis using sp by (auto simp: remove1_append split: if_splits)
qed

lemma schedule_spec:
  assumes inv: "sched_inv s ts" and t: "task_of s (current s) = Some t"
    and z: "t_state t \<noteq> TASK_ZOMBIE" and i: "current s = idle s \<longrightarrow> can_run t"
  shows "\<exists>s'. schedule s = Some s' \<and>
    sched_inv s' (if can_run t then ts else remove1 (current s) ts) \<and>
    current s' = pick (idle s) ts (current s) (can_run t) \<and> idle s' = idle s \<and>
    global_flags s' = global_flags s AND NOT 1 \<and>
    (\<forall>p. map_option t_state (task_of s' p) = map_option t_state (task_of s p)) \<and>
    (current s' \<noteq> current s \<longrightarrow> tss_rsp0 s' = of_nat (current s') + sizeof_task_stack)"
proof -
  let ?c = "current s" and ?ts = "if can_run t then ts else remove1 (current s) ts"
  let ?n = "pick (idle s) ts ?c (can_run t)"
  have rq: "runq s ts" and c: "?c \<in> set (idle s # ts)"
    and tk: "\<And>p. p \<in> set (idle s # ts) \<Longrightarrow> task_of s p \<noteq> None"
    using inv by (auto simp: sched_inv_def)
  obtain s2 where s2: "schedule s = schedule_switch ?n s s2" "runq s2 ?ts" "task_of s2 = task_of s"
    "idle s2 = idle s" "global_flags s2 = global_flags s" "current s2 = ?c"
    using schedule_eq [OF rq t c] i by blast
  define s3 where "s3 = s2\<lparr>global_flags := global_flags s2 AND NOT 1\<rparr>"
  have s3: "task_of s3 = task_of s" "idle s3 = idle s" "global_flags s3 = global_flags s AND NOT 1"
    "current s3 = ?c" "lnk s3 = lnk s2" using s2 by (simp_all add: s3_def)
  have nin: "?n \<in> set (idle s # ?ts)"
    by (rule pick_in) (use c runq_distinct [OF rq] i in auto)
  have sub: "set ?ts \<subseteq> set ts" by (simp add: set_remove1_subset)
  have tk3: "\<And>p. p \<in> set (idle s # ?ts) \<Longrightarrow> task_of s p \<noteq> None" using tk sub by fastforce
  show ?thesis
  proof (cases "?n = ?c")
    case True
    let ?r = "irq_restore (rflags (cpu s)) s3"
    have r: "task_of ?r = task_of s" "idle ?r = idle s" "global_flags ?r = global_flags s AND NOT 1"
      "current ?r = ?n" "lnk ?r = lnk s2"
      using s3 True by (simp_all add: irq_restore_def)
    have "schedule s = Some ?r"
      using s2(1) True by (simp add: schedule_switch_def s3_def)
    moreover have "sched_inv ?r ?ts"
      unfolding sched_inv_def using runq_cong [of ?r s2] r s2(2,4) nin tk3 by auto
    ultimately show ?thesis using r True by auto
  next
    case False
    obtain u where u: "task_of s ?n = Some u" using tk3 [OF nin] by auto
    obtain s4 where s4: "context_switch ?c ?n (rflags (cpu s)) s3 = Some s4" "current s4 = ?n"
      "lnk s4 = lnk s3" "idle s4 = idle s3" "global_flags s4 = global_flags s3"
      "task_of s4 = (task_of s3)(?c \<mapsto> t\<lparr>resume_at := In_schedule (rflags (cpu s))\<rparr>)"
      "tss_rsp0 s4 = of_nat ?n + sizeof_task_stack"
      using context_switch_eq [of s3 ?c t ?n u "rflags (cpu s)"] s3 t z u False by auto
    have "schedule s = Some s4"
      using s2(1) False s4(1) by (simp add: schedule_switch_def s3_def)
    moreover have "sched_inv s4 ?ts"
      unfolding sched_inv_def using runq_cong [of s4 s2] s4 s3 s2(2,4) nin tk3 by auto
    moreover have "\<forall>p. map_option t_state (task_of s4 p) = map_option t_state (task_of s p)"
      using t by (simp add: s4(6) s3(1))
    ultimately show ?thesis using s3 s4 by auto
  qed
qed

section \<open>Fairness\<close>

fun schedule_times :: "nat \<Rightarrow> 'z kstate_scheme \<Rightarrow> 'z kstate_scheme option" where
  "schedule_times 0 s = Some s"
| "schedule_times (Suc n) s = do { s1 \<leftarrow> schedule s; schedule_times n s1 }"

definition all_running :: "'z kstate_scheme \<Rightarrow> nat list \<Rightarrow> bool" where
  "all_running s ts \<longleftrightarrow> sched_inv s ts \<and>
     (\<forall>p \<in> set (idle s # ts). map_option t_state (task_of s p) = Some TASK_RUNNING)"

lemma can_run_running: "t_state t = TASK_RUNNING \<Longrightarrow> can_run t"
  by (simp add: can_run_def const_defs)

lemma all_running_schedule:
  assumes "all_running s ts"
  shows "\<exists>s'. schedule s = Some s' \<and> all_running s' ts \<and> idle s' = idle s \<and>
    current s' = pick (idle s) ts (current s) True"
proof -
  have inv: "sched_inv s ts" and c: "current s \<in> set (idle s # ts)"
    and st: "\<And>p. p \<in> set (idle s # ts) \<Longrightarrow> map_option t_state (task_of s p) = Some TASK_RUNNING"
    using assms by (auto simp: all_running_def sched_inv_def)
  obtain t where t: "task_of s (current s) = Some t" "t_state t = TASK_RUNNING"
    using st [OF c] by auto
  have cr: "can_run t" by (rule can_run_running [OF t(2)])
  have z: "t_state t \<noteq> TASK_ZOMBIE" using cr by (simp add: can_run_def)
  obtain s' where s': "schedule s = Some s'" "sched_inv s' ts"
    "current s' = pick (idle s) ts (current s) True" "idle s' = idle s"
    "\<forall>p. map_option t_state (task_of s' p) = map_option t_state (task_of s p)"
    using schedule_spec [OF inv t(1) z] cr by auto
  moreover have "all_running s' ts"
    unfolding all_running_def using s'(2,4,5) st by simp
  ultimately show ?thesis by blast
qed

lemma pick_nth:
  assumes "distinct (i # ts)" "k < length ts"
  shows "pick i ts (ts ! k) True = ts ! (Suc k mod length ts)"
proof -
  let ?as = "take k ts" and ?bs = "drop (Suc k) ts"
  have sp: "ts = ?as @ ts ! k # ?bs" using assms(2) by (simp add: id_take_nth_drop)
  have n: "ts ! k \<noteq> i" "ts ! k \<notin> set ?as"
    using assms sp by (auto simp: in_set_conv_nth nth_eq_iff_index_eq)
  have "pick i (?as @ ts ! k # ?bs) (ts ! k) True = hd (?bs @ ?as @ [ts ! k] @ [i])"
    using pick_split [OF n, of ?bs True] by simp
  then have p: "pick i ts (ts ! k) True = hd (?bs @ ?as @ [ts ! k] @ [i])" using sp by simp
  show ?thesis
  proof (cases "Suc k < length ts")
    case True
    then show ?thesis using p by (simp add: hd_append hd_drop_conv_nth)
  next
    case False
    then have l: "length ts = Suc k" using assms(2) by simp
    then show ?thesis using p by (cases k) (auto simp: hd_append hd_conv_nth)
  qed
qed

lemma schedule_times_nth:
  assumes "all_running s ts" "k < length ts" "current s = ts ! k"
  shows "\<exists>s'. schedule_times n s = Some s' \<and> all_running s' ts \<and> idle s' = idle s \<and>
    current s' = ts ! ((k + n) mod length ts)"
  using assms
proof (induction n arbitrary: s k)
  case 0
  then show ?case by simp
next
  case (Suc n)
  obtain s1 where s1: "schedule s = Some s1" "all_running s1 ts" "idle s1 = idle s"
    "current s1 = pick (idle s) ts (ts ! k) True"
    using all_running_schedule [OF Suc.prems(1)] Suc.prems(3) by auto
  have "distinct (idle s # ts)" using Suc.prems(1) by (auto simp: all_running_def sched_inv_def dest: runq_distinct)
  then have c1: "current s1 = ts ! (Suc k mod length ts)"
    using s1(4) pick_nth Suc.prems(2) by metis
  have k1: "Suc k mod length ts < length ts" using Suc.prems(2) by (intro mod_less_divisor) linarith
  obtain s' where s': "schedule_times n s1 = Some s'" "all_running s' ts" "idle s' = idle s1"
    "current s' = ts ! ((Suc k mod length ts + n) mod length ts)"
    using Suc.IH [OF s1(2) k1 c1] by blast
  then show ?case using s1 by (auto simp: mod_simps)
qed

lemma schedule_fair_spec:
  assumes run: "all_running s ts" and p: "p \<in> set ts"
  shows "\<exists>n \<le> length ts. \<exists>s'. schedule_times n s = Some s' \<and> current s' = p"
proof -
  obtain j where j: "j < length ts" "ts ! j = p" using p by (meson in_set_conv_nth)
  have c: "current s \<in> set (idle s # ts)" using run by (simp add: all_running_def sched_inv_def)
  show ?thesis
  proof (cases "current s \<in> set ts")
    case True
    then obtain k where k: "k < length ts" "ts ! k = current s" by (meson in_set_conv_nth)
    define n where "n = (j + length ts - k) mod length ts"
    have "n \<le> length ts" using j(1) unfolding n_def by (meson less_imp_le mod_less_divisor order_le_less_trans zero_le)
    moreover have "(k + n) mod length ts = j"
    proof -
      have "(k + n) mod length ts = (k + (j + length ts - k)) mod length ts"
        unfolding n_def by (simp add: mod_simps)
      also have "\<dots> = j" using k(1) j(1) by simp
      finally show ?thesis .
    qed
    ultimately show ?thesis using schedule_times_nth [OF run k(1), of n] k(2) j(2) by auto
  next
    case False
    then have ci: "current s = idle s" using c by simp
    obtain s1 where s1: "schedule s = Some s1" "all_running s1 ts"
      "current s1 = pick (idle s) ts (current s) True"
      using all_running_schedule [OF run] by auto
    have ne: "0 < length ts" using j(1) by linarith
    have c1: "current s1 = ts ! 0" using s1(3) ci ne by (simp add: pick_def hd_append hd_conv_nth)
    obtain s' where s': "schedule_times j s1 = Some s'" "current s' = ts ! (j mod length ts)"
      using schedule_times_nth [OF s1(2) ne c1, of j] by auto
    have "schedule_times (Suc j) s = Some s'" "current s' = p" using s1(1) s' j by simp_all
    then show ?thesis using j(1) by (metis Suc_leI)
  qed
qed

section \<open>Waking up\<close>

definition waits :: "'z kstate_scheme \<Rightarrow> nat \<Rightarrow> nat list \<Rightarrow> bool" where
  "waits s q ws \<longleftrightarrow> dlist (lnk s) (Wait_head q) (map Waitq ws)"

text \<open>What waking the tasks of a set does to all tasks' states.\<close>

definition woken :: "nat set \<Rightarrow> (nat \<Rightarrow> task_t option) \<Rightarrow> nat \<Rightarrow> task_t option" where
  "woken W tk p = (if p \<in> W then map_option (t_state_update (\<lambda>_. TASK_RUNNING)) (tk p) else tk p)"

lemma woken_simps [simp]:
  "woken {} tk = tk"
  "tk p = Some t \<Longrightarrow> (woken W tk)(p \<mapsto> t\<lparr>t_state := TASK_RUNNING\<rparr>) = woken (insert p W) tk"
  by (auto simp: woken_def)

lemma woken_other: "p \<notin> W \<Longrightarrow> woken W tk p = tk p"
  by (simp add: woken_def)

lemma on_links_simps [simp]:
  "lnk (on_links f s) = f (lnk s)" "task_of (on_links f s) = task_of s"
  "idle (on_links f s) = idle s" "current (on_links f s) = current s"
  "timers (on_links f s) = timers s" "cpu (on_links f s) = cpu s"
  "global_flags (on_links f s) = global_flags s" "ticks (on_links f s) = ticks s"
  by (simp_all add: on_links_def)

definition same_node :: "node \<Rightarrow> 'z kstate_scheme \<Rightarrow> 'z kstate_scheme \<Rightarrow> bool" where
  "same_node n s s' \<longleftrightarrow> nxt (lnk s') n = nxt (lnk s) n \<and> prv (lnk s') n = prv (lnk s) n"

text \<open>One task leaves a wait queue for the run queue.\<close>

lemma wakeup_one:
  assumes w: "waits s q (p # ys)" and rq: "runq s ts" and p: "p \<notin> set (idle s # ts)"
    and t: "task_of s p = Some t" "t_state t = TASK_INTERRUPTIBLE \<or> t_state t = TASK_UNINTERRUPTIBLE"
  shows "\<exists>s'. wakeup_body (Waitq p) s = Some (False, s') \<and> waits s' q ys \<and> runq s' (p # ts) \<and>
    nxt (lnk s') (Waitq p) = hd (map Waitq ys @ [Wait_head q]) \<and>
    task_of s' = (task_of s)(p \<mapsto> t\<lparr>t_state := TASK_RUNNING\<rparr>) \<and>
    (\<forall>c. c \<notin> set (p # idle s # ts) \<longrightarrow> same_node (Running c) s s') \<and>
    idle s' = idle s \<and> current s' = current s \<and> global_flags s' = global_flags s"
proof -
  define s' where "s' = on_links (list_add (Running (idle s)) (Running p))
    ((on_links (list_del (Waitq p)) s)\<lparr>task_of := (task_of s)(p \<mapsto> t\<lparr>t_state := TASK_RUNNING\<rparr>)\<rparr>)"
  have b: "wakeup_body (Waitq p) s = Some (False, s')"
    using t by (auto simp: wakeup_body_def set_task_def s'_def)
  have l: "lnk s' = list_add (Running (idle s)) (Running p) (list_del (Waitq p) (lnk s))"
    and i: "idle s' = idle s" by (simp_all add: s'_def)
  have "dlist (lnk s') (Wait_head q) ([] @ map Waitq ys) \<and>
      dlist (lnk s') (Running (idle s)) (Running p # map Running ts) \<and>
      nxt (lnk s') (Waitq p) = hd (map Waitq ys @ [Wait_head q])"
    unfolding l using w rq p unfolding waits_def runq_def
    by (intro del_and_add) auto
  moreover have "same_node (Running c) s s'" if "c \<notin> set (p # idle s # ts)" for c
  proof -
    have g: "dlist (list_del (Waitq p) (lnk s)) (Running (idle s)) (map Running ts)"
      by (rule dl.del_frame [of _ "Wait_head q" "[]" _ "map Waitq ys"])
        (use w rq in \<open>auto simp: waits_def runq_def\<close>)
    have "nxt (lnk s') (Running c) = nxt (list_del (Waitq p) (lnk s)) (Running c) \<and>
        prv (lnk s') (Running c) = prv (list_del (Waitq p) (lnk s)) (Running c)"
      unfolding l by (rule list_add_other [of _ "Running (idle s)" "[]" "map Running ts"])
        (use g p that in auto)
    moreover have "nxt (list_del (Waitq p) (lnk s)) (Running c) = nxt (lnk s) (Running c) \<and>
        prv (list_del (Waitq p) (lnk s)) (Running c) = prv (lnk s) (Running c)"
      by (rule list_del_other [of _ "Wait_head q" "[]" _ "map Waitq ys"])
        (use w in \<open>auto simp: waits_def\<close>)
    ultimately show ?thesis by (simp add: same_node_def)
  qed
  moreover have "current s' = current s" "global_flags s' = global_flags s" by (simp_all add: s'_def)
  ultimately show ?thesis using b i by (intro exI [of _ s']) (simp add: waits_def runq_def s'_def)
qed

lemma waitqueue_wakeup_spec:
  fixes s :: "'z kstate_scheme"
  assumes w: "waits s q ws" and rq: "runq s ts" and dj: "set ws \<inter> set (idle s # ts) = {}"
    and t: "\<forall>p \<in> set ws. \<exists>t. task_of s p = Some t \<and>
      (t_state t = TASK_INTERRUPTIBLE \<or> t_state t = TASK_UNINTERRUPTIBLE)"
  shows "\<exists>s'. waitqueue_wakeup q s = Some s' \<and> waits s' q [] \<and> runq s' (rev ws @ ts) \<and>
    task_of s' = woken (set ws) (task_of s) \<and> idle s' = idle s \<and> current s' = current s \<and>
    rflags (cpu s') = rflags (cpu s) \<and>
    (\<forall>c. c \<notin> set (idle s # ws @ ts) \<longrightarrow> same_node (Running c) s s') \<and>
    global_flags s' = (if current s = idle s then global_flags s OR 1 else global_flags s)"
proof -
  define s1 where "s1 = s\<lparr>cpu := cli (cpu s)\<rparr>"
  let ?P = "\<lambda>ns u. \<exists>dn ys. ns = map Waitq ys \<and> ws = dn @ ys \<and> waits u q ys \<and>
    runq u (rev dn @ ts) \<and> task_of u = woken (set dn) (task_of s) \<and> idle u = idle s \<and>
    current u = current s \<and> global_flags u = global_flags s \<and>
    (\<forall>c. c \<notin> set (idle s # ws @ ts) \<longrightarrow> same_node (Running c) s u)"
  have d: "distinct ws" using w by (auto simp: waits_def dlist_def distinct_map)
  have s1: "lnk s1 = lnk s" "task_of s1 = task_of s" "idle s1 = idle s" "current s1 = current s"
    "global_flags s1 = global_flags s" by (simp_all add: s1_def)
  have P0: "?P (map Waitq ws) s1"
    using w rq s1 by (intro exI [of _ "[]"] exI [of _ ws]) (simp add: waits_def runq_def same_node_def)
  have "\<exists>s2. list_for_each lnk (Wait_head q) wakeup_body s1 = Some (Wait_head q, s2) \<and> ?P [] s2"
  proof (rule list_for_each_all [where xs = "map Waitq ws" and P = ?P])
    show "dlist (lnk s1) (Wait_head q) (map Waitq ws)" using w s1 by (simp add: waits_def)
    show "?P (map Waitq ws) s1" by (rule P0)
    fix x ns and u :: "'z kstate_scheme"
    assume "?P (x # ns) u"
    then obtain dn ys where u: "x # ns = map Waitq ys" "ws = dn @ ys" "waits u q ys"
      "runq u (rev dn @ ts)" "task_of u = woken (set dn) (task_of s)" "idle u = idle s"
      "current u = current s" "global_flags u = global_flags s"
      "\<forall>c. c \<notin> set (idle s # ws @ ts) \<longrightarrow> same_node (Running c) s u" by (elim exE conjE) (rule that)
    then obtain p ys' where ys: "ys = p # ys'" "x = Waitq p" "ns = map Waitq ys'"
      by (cases ys) auto
    have wv: "ws = (dn @ [p]) @ ys'" using u(2) ys(1) by simp
    have pn: "p \<notin> set dn" "p \<in> set ws" using d u(2) ys(1) by auto
    obtain t where tp: "task_of s p = Some t"
      "t_state t = TASK_INTERRUPTIBLE \<or> t_state t = TASK_UNINTERRUPTIBLE" using t pn(2) by blast
    have tu: "task_of u p = Some t" using tp(1) pn(1) by (simp add: u(5) woken_other)
    have nin: "p \<notin> set (idle u # rev dn @ ts)" using pn dj u(6) by auto
    obtain v where v: "wakeup_body (Waitq p) u = Some (False, v)" "waits v q ys'"
      "runq v (p # rev dn @ ts)" "nxt (lnk v) (Waitq p) = hd (map Waitq ys' @ [Wait_head q])"
      "task_of v = (task_of u)(p \<mapsto> t\<lparr>t_state := TASK_RUNNING\<rparr>)"
      "\<forall>c. c \<notin> set (p # idle u # rev dn @ ts) \<longrightarrow> same_node (Running c) u v"
      "idle v = idle u" "current v = current u" "global_flags v = global_flags u"
      using wakeup_one [OF u(3) [unfolded ys(1)] u(4) nin tu tp(2)] by (elim exE conjE) (rule that)
    have nv: "\<forall>c. c \<notin> set (idle s # ws @ ts) \<longrightarrow> same_node (Running c) s v"
      using v(6) u(9) u(6) wv by (simp add: same_node_def)
    have tv: "task_of v = woken (set (dn @ [p])) (task_of s)"
      unfolding v(5) u(5) using tp(1) by simp
    have rv: "runq v (rev (dn @ [p]) @ ts)" using v(3) by simp
    have fv: "idle v = idle s" "current v = current s" "global_flags v = global_flags s"
      using u(6-8) v(7-9) by simp_all
    have pv: "?P ns v"
      using ys(3) wv v(2) rv tv fv nv by (intro exI [of _ "dn @ [p]"] exI [of _ ys'] conjI)
    then show "\<exists>s1. wakeup_body x u = Some (False, s1) \<and> ?P ns s1 \<and>
        nxt (lnk s1) x = hd (ns @ [Wait_head q])"
      using v(1) pv v(4) unfolding ys(2) ys(3) [symmetric] by (intro exI [of _ v] conjI)
  qed
  then obtain s2 where s2: "list_for_each lnk (Wait_head q) wakeup_body s1 = Some (Wait_head q, s2)"
    "waits s2 q []" "runq s2 (rev ws @ ts)" "task_of s2 = woken (set ws) (task_of s)"
    "idle s2 = idle s" "current s2 = current s" "global_flags s2 = global_flags s"
    "\<forall>c. c \<notin> set (idle s # ws @ ts) \<longrightarrow> same_node (Running c) s s2"
    by auto
  show ?thesis
    unfolding waitqueue_wakeup_def irq_save_eq s1_def [symmetric] Let_def prod.case s2(1)
      Option.bind_lunit
    using s2 by (simp add: irq_restore_def waits_def runq_def restore_flags_def same_node_def)
qed

section \<open>The timer\<close>

definition sleeps :: "'z kstate_scheme \<Rightarrow> nat list \<Rightarrow> bool" where
  "sleeps s qs \<longleftrightarrow> dlist (lnk s) Timerq (map Sleepq qs) \<and>
     (\<forall>q \<in> set qs. timers s q \<noteq> None \<and> (q, unat sizeof_timer_waitq) \<in> live s)"

definition expired :: "'z kstate_scheme \<Rightarrow> nat \<Rightarrow> bool" where
  "expired s q \<longleftrightarrow> (\<exists>w. timers s q = Some w \<and> tw_time w \<le> ticks s)"

definition sleeper :: "'z kstate_scheme \<Rightarrow> nat \<Rightarrow> nat" where
  "sleeper s q = (case timers s q of Some w \<Rightarrow> tw_task w | None \<Rightarrow> 0)"

definition wakes :: "'z kstate_scheme \<Rightarrow> nat list \<Rightarrow> nat list" where
  "wakes s qs = map (sleeper s) (filter (expired s) qs)"

text \<open>One timer that is due.\<close>

lemma tick_one:
  assumes dl: "dlist (lnk u) Timerq (map Sleepq (as @ q # ys))" and rq: "runq u ts"
    and w: "timers u q = Some w" "tw_time w \<le> now" and p: "tw_task w \<notin> set (idle u # ts)"
    and t: "task_of u (tw_task w) = Some t"
    and h: "heap_inv u" "(q, 32) \<in> live u"
  shows "\<exists>v. tick_body now (Sleepq q) u = Some (False, v) \<and>
    dlist (lnk v) Timerq (map Sleepq (as @ ys)) \<and> runq v (tw_task w # ts) \<and>
    nxt (lnk v) (Sleepq q) = hd (map Sleepq ys @ [Timerq]) \<and>
    task_of v = (task_of u)(tw_task w \<mapsto> t\<lparr>t_state := TASK_RUNNING\<rparr>) \<and>
    heap_inv v \<and> live v = live u - {(q, 32)} \<and> timers v = (timers u)(q := None) \<and>
    idle v = idle u \<and> current v = current u \<and>
    global_flags v = (if current u = idle u then global_flags u OR 1 else global_flags u)"
proof -
  let ?p = "tw_task w"
  define k where "k = list_add (Running (idle u)) (Running ?p) (list_del (Sleepq q) (lnk u))"
  define s3 where "s3 = u\<lparr>lnk := k, task_of := (task_of u)(?p \<mapsto> t\<lparr>t_state := TASK_RUNNING\<rparr>)\<rparr>"
  have hs: "heap_inv s3" "(q, 32) \<in> live s3" and l3: "live s3 = live u"
    using h heap_part [of s3 u] by (simp_all add: s3_def heap.defs)
  obtain s4 where s4: "kfree q s3 = Some s4" "heap_inv s4" "live s4 = live s3 - {(q, 32)}"
    using kfree_spec [OF hs] by blast
  obtain hh where hh: "s4 = s3\<lparr>hdr := hh\<rparr>" using kfree_hdr [OF s4(1)] .
  define s5 where "s5 = s4\<lparr>timers := (timers s4)(q := None)\<rparr>"
  define v where "v = (if current s5 = idle s5 then s5\<lparr>global_flags := global_flags s5 OR 1\<rparr> else s5)"
  have b: "tick_body now (Sleepq q) u = Some (False, v)"
    using w t s4(1) by (simp add: tick_body_def set_task_def on_links_def k_def s3_def s5_def v_def)
  have f5: "lnk s5 = k" "task_of s5 = (task_of u)(?p \<mapsto> t\<lparr>t_state := TASK_RUNNING\<rparr>)"
    "timers s5 = (timers u)(q := None)" "idle s5 = idle u" "current s5 = current u"
    "global_flags s5 = global_flags u"
    by (simp_all add: s5_def hh s3_def)
  have h5: "heap_inv s5" "live s5 = live u - {(q, 32)}"
    using s4(2,3) l3 heap_part [of s5 s4] by (simp_all add: s5_def heap.defs)
  have fv: "lnk v = lnk s5" "task_of v = task_of s5" "timers v = timers s5" "idle v = idle s5"
    "current v = current s5" by (simp_all add: v_def)
  have hv: "heap_inv v" "live v = live s5"
    using h5(1) heap_part [of v s5] by (simp_all add: v_def heap.defs)
  have "dlist k Timerq (map Sleepq as @ map Sleepq ys) \<and>
      dlist k (Running (idle u)) (Running ?p # map Running ts) \<and>
      nxt k (Sleepq q) = hd (map Sleepq ys @ [Timerq])"
    unfolding k_def using dl rq p unfolding runq_def by (intro del_and_add) auto
  then show ?thesis
    using b f5 h5 fv hv by (simp add: runq_def v_def)
qed

lemma kstate_moreD:
  fixes s s' :: "'z kstate_scheme"
  assumes "heap.more s' = heap.more s"
  shows "lnk s' = lnk s" "task_of s' = task_of s" "timers s' = timers s" "idle s' = idle s"
    "current s' = current s" "global_flags s' = global_flags s" "ticks s' = ticks s" "cpu s' = cpu s"
    "vmas s' = vmas s" "cr3 s' = cr3 s"
  using assms by (cases s; cases s'; simp)+

text \<open>The whole loop: all timers that are due, in the order of the list.\<close>

lemma scheduler_tick_loop:
  fixes s :: "'z kstate_scheme"
  assumes sl: "sleeps s qs" and rq: "runq s ts" and h: "heap_inv s"
    and ws: "distinct (wakes s qs)" "set (wakes s qs) \<inter> set (idle s # ts) = {}"
    and t: "\<forall>p \<in> set (wakes s qs). task_of s p \<noteq> None"
  shows "\<exists>s'. list_for_each lnk Timerq (tick_body (ticks s)) s = Some (Timerq, s') \<and>
    dlist (lnk s') Timerq (map Sleepq (filter (\<lambda>q. \<not> expired s q) qs)) \<and>
    runq s' (rev (wakes s qs) @ ts) \<and> task_of s' = woken (set (wakes s qs)) (task_of s) \<and>
    idle s' = idle s \<and> current s' = current s \<and> heap_inv s' \<and>
    live s' = live s - {(r, 32) | r. r \<in> set (filter (expired s) qs)}"
proof -
  let ?keep = "filter (\<lambda>q. \<not> expired s q)"
  let ?P = "\<lambda>ns u. \<exists>dn ys. ns = map Sleepq ys \<and> qs = dn @ ys \<and>
     dlist (lnk u) Timerq (map Sleepq (?keep dn @ ys)) \<and> runq u (rev (wakes s dn) @ ts) \<and>
     task_of u = woken (set (wakes s dn)) (task_of s) \<and> idle u = idle s \<and> current u = current s \<and>
     heap_inv u \<and> live u = live s - {(r, 32) | r. r \<in> set (filter (expired s) dn)} \<and>
     (\<forall>q \<in> set ys. timers u q = timers s q)"
  have d: "distinct qs" using sl by (auto simp: sleeps_def dlist_def distinct_map)
  have tm: "timers s q \<noteq> None" "(q, 32) \<in> live s" if "q \<in> set qs" for q
    using sl that by (auto simp: sleeps_def sizeof_timer_waitq_def)
  have P0: "?P (map Sleepq qs) s"
    by (intro exI [of _ "[]"] exI [of _ qs]) (use sl rq h in \<open>simp add: wakes_def sleeps_def\<close>)
  have "\<exists>s2. list_for_each lnk Timerq (tick_body (ticks s)) s = Some (Timerq, s2) \<and> ?P [] s2"
  proof (rule list_for_each_all [where xs = "map Sleepq qs" and P = ?P])
    show "dlist (lnk s) Timerq (map Sleepq qs)" using sl by (simp add: sleeps_def)
    show "?P (map Sleepq qs) s" by (rule P0)
    fix x ns and u :: "'z kstate_scheme"
    assume "?P (x # ns) u"
    then obtain dn ys where u: "x # ns = map Sleepq ys" "qs = dn @ ys"
      "dlist (lnk u) Timerq (map Sleepq (?keep dn @ ys))" "runq u (rev (wakes s dn) @ ts)"
      "task_of u = woken (set (wakes s dn)) (task_of s)" "idle u = idle s" "current u = current s"
      "heap_inv u" "live u = live s - {(r, 32) | r. r \<in> set (filter (expired s) dn)}"
      "\<forall>q \<in> set ys. timers u q = timers s q" by (elim exE conjE) (rule that)
    then obtain q ys' where ys: "ys = q # ys'" "x = Sleepq q" "ns = map Sleepq ys'"
      by (cases ys) auto
    have qn: "q \<in> set qs" "q \<notin> set dn" "q \<notin> set ys'" using d u(2) ys(1) by auto
    have split: "qs = (dn @ [q]) @ ys'" using u(2) ys(1) by simp
    obtain w where w: "timers s q = Some w" using tm(1) [OF qn(1)] by auto
    have wu: "timers u q = Some w" using u(10) ys(1) w by simp
    show "\<exists>s1. tick_body (ticks s) x u = Some (False, s1) \<and> ?P ns s1 \<and>
        nxt (lnk s1) x = hd (ns @ [Timerq])"
    proof (cases "tw_time w \<le> ticks s")
      case False
      then have ne: "\<not> expired s q" using w by (simp add: expired_def)
      have b: "tick_body (ticks s) x u = Some (False, u)"
        using False wu ys(2) by (simp add: tick_body_def)
      have "wakes s (dn @ [q]) = wakes s dn" using ne by (simp add: wakes_def)
      moreover have "dlist (lnk u) Timerq (map Sleepq (?keep (dn @ [q]) @ ys'))"
        using u(3) ys(1) ne by simp
      ultimately have pv: "?P ns u"
        by (intro exI [of _ "dn @ [q]"] exI [of _ ys']) (use u ys split ne in simp)
      have "linked (lnk u) Timerq (map Sleepq (?keep dn) @ Sleepq q # map Sleepq ys') Timerq"
        using u(3) ys(1) by (simp add: dlist_def)
      then have "nxt (lnk u) (Sleepq q) = hd (map Sleepq ys' @ [Timerq])"
        unfolding linked_append using linked_ends [of "lnk u" "Sleepq q" "map Sleepq ys'" Timerq] by simp
      then show ?thesis using b pv unfolding ys(2) ys(3) [symmetric] by (intro exI [of _ u] conjI)
    next
      case True
      then have ex: "expired s q" using w by (simp add: expired_def)
      let ?p = "tw_task w"
      have sp: "sleeper s q = ?p" using w by (simp add: sleeper_def)
      have wk: "wakes s (dn @ [q]) = wakes s dn @ [?p]" using ex sp by (simp add: wakes_def)
      have sub: "wakes s qs = wakes s dn @ ?p # wakes s ys'"
        using ex sp unfolding split by (simp add: wakes_def)
      have pn: "?p \<notin> set (wakes s dn)" "?p \<in> set (wakes s qs)" using ws(1) sub by auto
      obtain t where tp: "task_of s ?p = Some t" using t pn(2) by blast
      have tu: "task_of u ?p = Some t" using tp pn(1) by (simp add: u(5) woken_other)
      have nin: "?p \<notin> set (idle u # rev (wakes s dn) @ ts)" using pn ws(2) u(6) by auto
      have lv: "(q, 32) \<in> live u" using tm(2) [OF qn(1)] qn(2) by (simp add: u(9))
      obtain v where v: "tick_body (ticks s) (Sleepq q) u = Some (False, v)"
        "dlist (lnk v) Timerq (map Sleepq (?keep dn @ ys'))" "runq v (?p # rev (wakes s dn) @ ts)"
        "nxt (lnk v) (Sleepq q) = hd (map Sleepq ys' @ [Timerq])"
        "task_of v = (task_of u)(?p \<mapsto> t\<lparr>t_state := TASK_RUNNING\<rparr>)" "heap_inv v"
        "live v = live u - {(q, 32)}" "timers v = (timers u)(q := None)" "idle v = idle u"
        "current v = current u"
        using tick_one [OF u(3) [unfolded ys(1)] u(4) wu True nin tu u(8) lv] by (elim exE conjE) (rule that)
      have tv: "task_of v = woken (set (wakes s (dn @ [q]))) (task_of s)"
        unfolding v(5) u(5) wk using tp by simp
      have lvv: "live v = live s - {(r, 32) | r. r \<in> set (filter (expired s) (dn @ [q]))}"
        unfolding v(7) u(9) using ex by auto
      have rv: "runq v (rev (wakes s (dn @ [q])) @ ts)" using v(3) wk by simp
      have dv: "dlist (lnk v) Timerq (map Sleepq (?keep (dn @ [q]) @ ys'))" using v(2) ex by simp
      have tmv: "\<forall>r \<in> set ys'. timers v r = timers s r" using u(10) ys(1) qn(3) by (auto simp: v(8))
      have fv: "idle v = idle s" "current v = current s" using v(9,10) u(6,7) by simp_all
      have pv: "?P ns v"
        using ys(3) split dv rv tv fv v(6) lvv tmv by (intro exI [of _ "dn @ [q]"] exI [of _ ys'] conjI)
      show ?thesis using v(1) pv v(4) unfolding ys(2) ys(3) [symmetric] by (intro exI [of _ v] conjI)
    qed
  qed
  then show ?thesis by auto
qed

lemma scheduler_tick_spec:
  fixes s :: "'z kstate_scheme"
  assumes sl: "sleeps s qs" and rq: "runq s ts" and h: "heap_inv s"
    and ws: "distinct (wakes s qs)" "set (wakes s qs) \<inter> set (idle s # ts) = {}"
    and t: "\<forall>p \<in> set (wakes s qs). task_of s p \<noteq> None" and c: "task_of s (current s) \<noteq> None"
  shows "\<exists>s'. scheduler_tick s = Some s' \<and>
    dlist (lnk s') Timerq (map Sleepq (filter (\<lambda>q. \<not> expired s q) qs)) \<and>
    runq s' (rev (wakes s qs) @ ts) \<and>
    (\<forall>p. map_option t_state (task_of s' p) = map_option t_state (woken (set (wakes s qs)) (task_of s) p)) \<and>
    heap_inv s' \<and> live s' = live s - {(r, 32) | r. r \<in> set (filter (expired s) qs)}"
proof -
  obtain s1 where s1: "list_for_each lnk Timerq (tick_body (ticks s)) s = Some (Timerq, s1)"
    "dlist (lnk s1) Timerq (map Sleepq (filter (\<lambda>q. \<not> expired s q) qs))"
    "runq s1 (rev (wakes s qs) @ ts)" "task_of s1 = woken (set (wakes s qs)) (task_of s)"
    "idle s1 = idle s" "current s1 = current s" "heap_inv s1"
    "live s1 = live s - {(r, 32) | r. r \<in> set (filter (expired s) qs)}"
    using scheduler_tick_loop [OF assms(1-6)] by (elim exE conjE) (rule that)
  have "task_of s1 (current s1) \<noteq> None" using c by (simp add: s1(4,6) woken_def)
  then obtain x where x: "task_of s1 (current s1) = Some x" by auto
  define x1 where "x1 = x\<lparr>timeslice := timeslice x - 1\<rparr>"
  define s2 where "s2 = s1\<lparr>task_of := (task_of s1)(current s1 \<mapsto> x1)\<rparr>"
  define s' where "s' = (if timeslice x1 = 0
    then s2\<lparr>global_flags := global_flags s2 OR 1,
      task_of := (task_of s2)(current s1 \<mapsto> x1\<lparr>timeslice := 20\<rparr>)\<rparr> else s2)"
  have r: "scheduler_tick s = Some s'"
    using s1(1) x by (simp add: scheduler_tick_def set_task_def s'_def s2_def x1_def)
  have f: "lnk s' = lnk s1" "idle s' = idle s1" "live s' = live s1" "heap_inv s' = heap_inv s1"
    using heap_part [of s' s1] by (simp_all add: s'_def s2_def heap.defs)
  have "map_option t_state (task_of s' p) = map_option t_state (task_of s1 p)" for p
    using x by (simp add: s'_def s2_def x1_def)
  then show ?thesis using r s1 f by (auto simp: runq_def)
qed

section \<open>Falling asleep\<close>




section \<open>Concrete kernels\<close>

text \<open>A kernel with the idle task and two others: one on the run queue, one waiting on queue 1.\<close>

definition demo_task :: "int \<Rightarrow> task_t" where
  "demo_task st = \<lparr>t_pid = 1, timeslice = 5, t_state = st, exit_code = 0, t_page_dir = 0,
     resume_at = In_schedule 514, pdt = replicate 10 0\<rparr>"

definition demo_links :: "node links" where
  "demo_links = list_add (Wait_head 1) (Waitq 12288) (list_init (Wait_head 1) (list_init Timerq
     (list_add (Running 4096) (Running 8192) (list_init (Running 4096)
       \<lparr>nxt = \<lambda>_. Timerq, prv = \<lambda>_. Timerq\<rparr>))))"

definition demo_tasks :: "nat \<Rightarrow> task_t option" where
  "demo_tasks = [4096 \<mapsto> demo_task TASK_RUNNING, 8192 \<mapsto> demo_task TASK_RUNNING,
     12288 \<mapsto> demo_task TASK_INTERRUPTIBLE]"

lemma demo_links_lists:
  "dlist demo_links (Running 4096) [Running 8192]" "dlist demo_links (Wait_head 1) [Waitq 12288]"
  "dlist demo_links Timerq []"
  by (simp_all add: demo_links_def list_add_def Let_def dlist_def)

lemma kstate_demo:
  obtains s :: kstate where "heap_inv s" "live s = {}" "grow_ready 10 s" "lnk s = l" "task_of s = tk"
    "current s = c" "idle s = i" "cpu s = v"
proof -
  obtain s :: kstate where "heap_inv s" "live s = {}" "grow_ready 10 s"
    "heap.more s = kmem_ext (\<lambda>_. 0) (fstate_ext Map.empty Map.empty Map.empty Map.empty Map.empty [] None 0
      (kstate_ext l tk (\<lambda>_. undefined) Map.empty Map.empty c i 0 2 0 0 0 v ()))"
    by (rule heap_with_rest)
  then show ?thesis using that by (cases s) simp
qed

lemma sched_demo:
  obtains s :: kstate where "heap_inv s" "grow_ready 10 s" "live s = {}" "runq s [8192]" "waits s 1 [12288]"
    "sleeps s []" "idle s = 4096" "current s = 8192" "task_of s = demo_tasks" "ticks s = 7"
    "lnk s = demo_links"
proof -
  obtain s :: kstate where s: "heap_inv s" "live s = {}" "grow_ready 10 s" "lnk s = demo_links"
    "task_of s = demo_tasks" "current s = 8192" "idle s = 4096" "cpu s = vga_demo"
    by (rule kstate_demo)
  show ?thesis
    by (rule that [of s]) (use s demo_links_lists in \<open>simp_all add: runq_def waits_def sleeps_def vga_demo_def\<close>)
qed

section \<open>Properties\<close>

text \<open>C6: \<open>schedule\<close> always finds a task to run: the round-robin successor of the current task
  (the idle task only when there is no other).  A task that can no longer run leaves the run
  queue, the request to reschedule is cleared, no task changes state, and after a switch the
  next interrupt from user mode will use the new task's stack.\<close>

theorem schedule_round_robin:
  assumes "sched_inv s ts" "task_of s (current s) = Some t" "t_state t \<noteq> TASK_ZOMBIE"
    "current s = idle s \<longrightarrow> can_run t"
  shows "\<exists>s'. schedule s = Some s' \<and>
    sched_inv s' (if can_run t then ts else remove1 (current s) ts) \<and>
    current s' = pick (idle s) ts (current s) (can_run t) \<and> idle s' = idle s \<and>
    global_flags s' = global_flags s AND NOT 1 \<and>
    (\<forall>p. map_option t_state (task_of s' p) = map_option t_state (task_of s p)) \<and>
    (current s' \<noteq> current s \<longrightarrow> tss_rsp0 s' = of_nat (current s') + sizeof_task_stack)"
  by (rule schedule_spec [OF assms])

theorem schedule_round_robin_witness:
  "\<exists>s s' :: kstate. current s = 8192 \<and> schedule s = Some s' \<and> current s' = 8192 \<and> runq s' [8192]"
proof -
  obtain s :: kstate where s: "runq s [8192]" "idle s = 4096" "current s = 8192" "task_of s = demo_tasks"
    using sched_demo by metis
  have i: "sched_inv s [8192]" using s by (simp add: sched_inv_def demo_tasks_def)
  have t: "task_of s (current s) = Some (demo_task TASK_RUNNING)" using s by (simp add: demo_tasks_def)
  have r: "can_run (demo_task TASK_RUNNING)" by (rule can_run_running) (simp add: demo_task_def)
  have z: "t_state (demo_task TASK_RUNNING) \<noteq> TASK_ZOMBIE" by (simp add: demo_task_def const_defs)
  obtain s' where s': "schedule s = Some s'" "sched_inv s' [8192]"
    "current s' = pick (idle s) [8192] (current s) True"
    using schedule_round_robin [OF i t z] r by auto
  then show ?thesis using s by (intro exI [of _ s] exI [of _ s']) (simp add: pick_def sched_inv_def)
qed

text \<open>Scheduling is fair: while no task blocks, every task of the run queue gets the processor
  after at most as many switches as there are tasks.\<close>

theorem schedule_fair:
  assumes "all_running s ts" "p \<in> set ts"
  shows "\<exists>n \<le> length ts. \<exists>s'. schedule_times n s = Some s' \<and> current s' = p"
  by (rule schedule_fair_spec [OF assms])

theorem schedule_fair_witness:
  "\<exists>s :: kstate. \<exists>n \<le> 1. \<exists>s'. schedule_times n s = Some s' \<and> current s' = 8192"
proof -
  obtain s :: kstate where s: "runq s [8192]" "idle s = 4096" "current s = 8192" "task_of s = demo_tasks"
    using sched_demo by metis
  have "all_running s [8192]"
    using s by (simp add: all_running_def sched_inv_def demo_tasks_def demo_task_def)
  then show ?thesis using schedule_fair [of s "[8192]" 8192] by auto
qed

text \<open>\<open>waitqueue_wakeup\<close> moves every waiting task to the front of the run queue in state
  \<open>TASK_RUNNING\<close> and leaves the wait queue empty, the interrupt flag as it was and all other
  tasks alone; it asks for a reschedule exactly when the idle task was running.\<close>

theorem waitqueue_wakeup_all:
  assumes "waits s q ws" "runq s ts" "set ws \<inter> set (idle s # ts) = {}"
    "\<forall>p \<in> set ws. \<exists>t. task_of s p = Some t \<and>
      (t_state t = TASK_INTERRUPTIBLE \<or> t_state t = TASK_UNINTERRUPTIBLE)"
  shows "\<exists>s'. waitqueue_wakeup q s = Some s' \<and> waits s' q [] \<and> runq s' (rev ws @ ts) \<and>
    task_of s' = woken (set ws) (task_of s) \<and> rflags (cpu s') = rflags (cpu s) \<and>
    global_flags s' = (if current s = idle s then global_flags s OR 1 else global_flags s)"
  using waitqueue_wakeup_spec [OF assms] by blast

theorem waitqueue_wakeup_all_witness:
  "\<exists>s s' :: kstate. waitqueue_wakeup 1 s = Some s' \<and> waits s 1 [12288] \<and> waits s' 1 [] \<and> runq s' [12288, 8192]"
proof -
  obtain s :: kstate where s: "runq s [8192]" "waits s 1 [12288]" "idle s = 4096" "task_of s = demo_tasks"
    using sched_demo by metis
  have "\<exists>s'. waitqueue_wakeup 1 s = Some s' \<and> waits s' 1 [] \<and> runq s' (rev [12288] @ [8192])"
    using waitqueue_wakeup_all [OF s(2,1)] s(3,4) by (auto simp: demo_tasks_def demo_task_def)
  then show ?thesis using s(2) by auto
qed

text \<open>C30: The timer tick wakes exactly the sleepers whose time has come: their timers leave the
  list and their memory is given back, the others keep their place, and the woken tasks go to
  the front of the run queue.\<close>

theorem scheduler_tick_wakes:
  assumes "sleeps s qs" "runq s ts" "heap_inv s" "distinct (wakes s qs)"
    "set (wakes s qs) \<inter> set (idle s # ts) = {}" "\<forall>p \<in> set (wakes s qs). task_of s p \<noteq> None"
    "task_of s (current s) \<noteq> None"
  shows "\<exists>s'. scheduler_tick s = Some s' \<and>
    dlist (lnk s') Timerq (map Sleepq (filter (\<lambda>q. \<not> expired s q) qs)) \<and>
    runq s' (rev (wakes s qs) @ ts) \<and>
    (\<forall>p. map_option t_state (task_of s' p) = map_option t_state (woken (set (wakes s qs)) (task_of s) p)) \<and>
    heap_inv s' \<and> live s' = live s - {(r, 32) | r. r \<in> set (filter (expired s) qs)}"
  by (rule scheduler_tick_spec [OF assms])

theorem scheduler_tick_wakes_witness:
  "\<exists>s s' :: kstate. \<exists>q. live s = {(q, 32)} \<and> runq s [8192] \<and> scheduler_tick s = Some s' \<and>
     runq s' [12288, 8192] \<and> live s' = {}"
proof -
  obtain u :: kstate where u: "heap_inv u" "grow_ready 10 u" "live u = {}" "runq u [8192]"
    "idle u = 4096" "current u = 8192" "task_of u = demo_tasks" "ticks u = 7" "lnk u = demo_links"
    using sched_demo by metis
  have a: "unat (align8 32) = 32" by (simp add: align8_def)
  obtain q v where k: "kmalloc 32 u = Some (q, v)" "q \<noteq> 0"
    using kmalloc_total [OF u(1,2), of 32] a by auto
  have v: "heap_inv v" "live v = {(q, 32)}"
    using kmalloc_outcome [OF u(1), of 32] k a u(3) by (simp_all add: kmalloc_result_def)
  note m = kstate_moreD [OF kmalloc_more [OF k(1)]]
  define s where "s = v\<lparr>lnk := list_add Timerq (Sleepq q) demo_links,
    timers := [q \<mapsto> \<lparr>tw_time = 5, tw_task = 12288\<rparr>]\<rparr>"
  have h: "heap_inv s" "live s = {(q, 32)}"
    using v heap_part [of s v] by (simp_all add: s_def heap.defs)
  have f: "idle s = 4096" "current s = 8192" "task_of s = demo_tasks" "ticks s = 7"
    using m u by (simp_all add: s_def)
  have rq: "runq s [8192]" and sl: "sleeps s [q]"
    using h(2) by (simp_all add: runq_def sleeps_def s_def m u demo_links_def list_add_def Let_def
        dlist_def sizeof_timer_waitq_def)
  have ex: "expired s q" by (simp add: expired_def s_def m u)
  have wk: "wakes s [q] = [12288]" using ex by (simp add: wakes_def sleeper_def s_def)
  have "\<exists>s'. scheduler_tick s = Some s' \<and> runq s' (rev [12288] @ [8192]) \<and>
      live s' = live s - {(r, 32) | r. r \<in> set (filter (expired s) [q])}"
    using scheduler_tick_wakes [OF sl rq h(1), unfolded wk] f by (auto simp: demo_tasks_def)
  then show ?thesis using h(2) rq ex by auto
qed



end
