(* ===== verification/Mm.thy ===== *)
theory Mm
  imports Sched
begin

text \<open>
  User address spaces, \<open>src/src/mm/mm.c\<close>: the reference counts of page frames, copying an
  address space for \<open>fork\<close> (tables copied, pages shared and made read-only), releasing it, the
  sorted list of memory areas, and the page-fault handler.

  A table is known by its frame, as in theory \<open>Vmm\<close>; the contents of a user page are the bytes
  of \<open>mem\<close> where the frame is mapped in the kernel's view of physical memory.
\<close>

section \<open>Constants\<close>

definition MAP_READWRITE :: u32 where [const_defs]: "MAP_READWRITE = 0x02"
definition PROT_READ :: u32 where [const_defs]: "PROT_READ = 0x1"
definition PROT_WRITE :: u32 where [const_defs]: "PROT_WRITE = 0x2"
definition PROT_EXEC :: u32 where [const_defs]: "PROT_EXEC = 0x4"
definition PROT_NONE :: u32 where [const_defs]: "PROT_NONE = 0x0"
definition MAP_SHARED :: u32 where [const_defs]: "MAP_SHARED = 0x01"
definition MAP_PRIVATE :: u32 where [const_defs]: "MAP_PRIVATE = 0x02"
definition MAP_TYPE :: u32 where [const_defs]: "MAP_TYPE = 0x0f"
definition MAP_FIXED :: u32 where [const_defs]: "MAP_FIXED = 0x10"
definition MAP_ANONYMOUS :: u32 where [const_defs]: "MAP_ANONYMOUS = 0x20"

text \<open>\<open>(MEM_BOTTOM_HALF >> 39) & 0x1ff\<close>, the number of top-level entries of the user half, and
  \<open>PAGE_SIZE/sizeof(pte_t)\<close>.\<close>

definition user_entries :: nat where
  "user_entries = unat (drop_bit 39 MEM_BOTTOM_HALF AND 0x1ff)"

definition table_entries :: nat where "table_entries = 512"

section \<open>Tables and loops\<close>

text \<open>The frame behind a pointer from \<open>P2V(frame << PAGE_SHIFT)\<close>, and back.\<close>

definition frame_of :: "u64 \<Rightarrow> u64" where
  "frame_of p = drop_bit 12 (V2P p)"

definition page_at :: "u64 \<Rightarrow> u64" where
  "page_at f = P2V (push_bit 12 f)"

definition pte_frame :: "pte \<Rightarrow> u64" where
  "pte_frame e = ucast (p_frame e)"

text \<open>\<open>memcpy\<close> of a page that holds a table.\<close>

definition copy_table :: "u64 \<Rightarrow> u64 \<Rightarrow> 'z vmm_scheme \<Rightarrow> 'z vmm_scheme" where
  "copy_table new old s = s\<lparr>tables := (tables s)(new := tables s old)\<rparr>"

definition set_frame :: "u64 \<Rightarrow> nat \<Rightarrow> u64 \<Rightarrow> 'z vmm_scheme \<Rightarrow> 'z vmm_scheme" where
  "set_frame t i f s = set_pte t i ((tables s t i)\<lparr>p_frame := ucast f\<rparr>) s"

text \<open>\<open>flags &= ~PTE_WRITE\<close> and \<open>flags |= PTE_WRITE\<close>.\<close>

definition write_protect :: "pte \<Rightarrow> pte" where
  "write_protect e = e\<lparr>p_flags := p_flags e AND NOT (ucast PTE_WRITE)\<rparr>"

definition write_enable :: "pte \<Rightarrow> pte" where
  "write_enable e = e\<lparr>p_flags := p_flags e OR ucast PTE_WRITE\<rparr>"

text \<open>\<open>for (i = from; i < from + n; i++)\<close>.\<close>

fun for_range :: "nat \<Rightarrow> nat \<Rightarrow> (nat \<Rightarrow> 's \<Rightarrow> 's option) \<Rightarrow> 's \<Rightarrow> 's option" where
  "for_range i 0 bdy s = Some s"
| "for_range i (Suc n) bdy s = do { s1 \<leftarrow> bdy i s; for_range (Suc i) n bdy s1 }"

section \<open>Reference counts\<close>

text \<open>The array is indexed by frame number; its size is passed to \<open>kmalloc\<close> as 32 bits, and a
  null pointer is written through.\<close>

definition init_mm :: "u64 \<Rightarrow> 'z heap_scheme \<Rightarrow> 'z heap_scheme option" where
  "init_mm sz s =
    do {
      let n = drop_bit 12 sz;
      (p, s1) \<leftarrow> kmalloc (ucast (n * 4)) s;
      BUG_ON (p = 0 \<and> n \<noteq> 0);
      Some (s1\<lparr>pages := Some (\<lambda>_. 0)\<rparr>)
    }"

section \<open>Copying an address space\<close>

definition clone_l1_entry ::
  "u64 \<Rightarrow> u64 \<Rightarrow> u64 \<Rightarrow> nat \<Rightarrow> 'z vmm_scheme \<Rightarrow> 'z vmm_scheme option" where
  "clone_l1_entry va old_l1 new_l1 l s =
    (if \<not> pte_present (tables s new_l1 l) then Some s
     else do {
       let s1 = set_pte new_l1 l (write_protect (tables s new_l1 l)) s;
       let s2 = set_pte old_l1 l (write_protect (tables s1 old_l1 l)) s1;
       let f = unat (pte_frame (tables s2 new_l1 l));
       pg \<leftarrow> pages s2;
       BUG_ON (pg f \<le> 0);
       let s3 = s2\<lparr>pages := Some (pg(f := pg f + 1))\<rparr>;
       Some (tlb_invalidate_entry (va + push_bit 12 (of_nat l)) s3)
     })"

definition clone_l2_entry :: "u64 \<Rightarrow> u64 \<Rightarrow> nat \<Rightarrow> 'z vmm_scheme \<Rightarrow> 'z vmm_scheme option" where
  "clone_l2_entry va new_l2 k s =
    (if \<not> pte_present (tables s new_l2 k) then Some s
     else do {
       let old_l1 = pte_frame (tables s new_l2 k);
       (p, s1) \<leftarrow> alloc_page MAP_READWRITE s;
       BUG_ON (p = 0);
       let new_l1 = frame_of p;
       let s2 = set_frame new_l2 k new_l1 s1;
       let s3 = copy_table new_l1 old_l1 s2;
       for_range 0 table_entries (clone_l1_entry (va + push_bit 21 (of_nat k)) old_l1 new_l1) s3
     })"

definition clone_l3_entry :: "u64 \<Rightarrow> u64 \<Rightarrow> nat \<Rightarrow> 'z vmm_scheme \<Rightarrow> 'z vmm_scheme option" where
  "clone_l3_entry va new_l3 j s =
    (if \<not> pte_present (tables s new_l3 j) then Some s
     else do {
       let old_l2 = pte_frame (tables s new_l3 j);
       (p, s1) \<leftarrow> alloc_page MAP_READWRITE s;
       BUG_ON (p = 0);
       let new_l2 = frame_of p;
       let s2 = set_frame new_l3 j new_l2 s1;
       let s3 = copy_table new_l2 old_l2 s2;
       for_range 0 table_entries (clone_l2_entry (va + push_bit 30 (of_nat j)) new_l2) s3
     })"

definition clone_l4_entry :: "u64 \<Rightarrow> u64 \<Rightarrow> nat \<Rightarrow> 'z vmm_scheme \<Rightarrow> 'z vmm_scheme option" where
  "clone_l4_entry old_pg new_pg i s =
    (if \<not> pte_present (tables s old_pg i) then Some s
     else do {
       let old_l3 = pte_frame (tables s old_pg i);
       (p, s1) \<leftarrow> alloc_page MAP_READWRITE s;
       BUG_ON (p = 0);
       let new_l3 = frame_of p;
       let s2 = set_frame new_pg i new_l3 s1;
       let s3 = copy_table new_l3 old_l3 s2;
       for_range 0 table_entries (clone_l3_entry (push_bit 39 (of_nat i)) new_l3) s3
     })"

text \<open>\<open>memcpy\<close> of an area copies its list node, too; \<open>list_add_tail\<close> then overwrites both
  pointers.\<close>

definition clone_area :: "nat \<Rightarrow> node \<Rightarrow> 'z kstate_scheme \<Rightarrow> (bool \<times> 'z kstate_scheme) option" where
  "clone_area p it s =
    do {
      a \<leftarrow> get_vma it;
      (new, s1) \<leftarrow> kzalloc sizeof_vm_area s;
      BUG_ON (new = 0);
      area \<leftarrow> vmas s1 a;
      let s2 = s1\<lparr>vmas := (vmas s1)(new \<mapsto> area)\<rparr>;
      let s3 = on_links (\<lambda>k. set_nxt (Vma new) (nxt k (Vma a)) (set_prv (Vma new) (prv k (Vma a)) k)) s2;
      Some (False, on_links (list_add_before (Vm_areas p) (Vma new)) s3)
    }"

definition clone_mm :: "nat \<Rightarrow> 'z kstate_scheme \<Rightarrow> (int \<times> 'z kstate_scheme) option" where
  "clone_mm p s =
    do {
      t \<leftarrow> task_of s (current s);
      let old_pg = frame_of (t_page_dir t);
      (np, s1) \<leftarrow> alloc_page MAP_READWRITE s;
      if np = 0 then Some (- errno_code ENOMEM, s1)
      else do {
        let new_pg = frame_of np;
        let s2 = copy_table new_pg old_pg s1;
        s3 \<leftarrow> set_task p (\<lambda>x. x\<lparr>t_page_dir := np\<rparr>) s2;
        s4 \<leftarrow> for_range 0 user_entries (clone_l4_entry old_pg new_pg) s3;
        let s5 = on_links (list_init (Vm_areas p)) s4;
        (it, s6) \<leftarrow> list_for_each lnk (Vm_areas (current s5)) (clone_area p) s5;
        Some (0, s6)
      }
    }"

section \<open>Releasing an address space\<close>

definition free_l1_entry :: "u64 \<Rightarrow> nat \<Rightarrow> 'z vmm_scheme \<Rightarrow> 'z vmm_scheme option" where
  "free_l1_entry l1 l s =
    (if \<not> pte_present (tables s l1 l) then Some s
     else do {
       let f = pte_frame (tables s l1 l);
       pg \<leftarrow> pages s;
       BUG_ON (pg (unat f) \<le> 0);
       if pg (unat f) = 1 then free_page (page_at f) s
       else Some (s\<lparr>pages := Some (pg(unat f := pg (unat f) - 1))\<rparr>)
     })"

definition free_l2_entry :: "u64 \<Rightarrow> nat \<Rightarrow> 'z vmm_scheme \<Rightarrow> 'z vmm_scheme option" where
  "free_l2_entry l2 k s =
    (if \<not> pte_present (tables s l2 k) then Some s
     else do {
       let l1 = pte_frame (tables s l2 k);
       s1 \<leftarrow> for_range 0 table_entries (free_l1_entry l1) s;
       free_page (page_at l1) s1
     })"

definition free_l3_entry :: "u64 \<Rightarrow> nat \<Rightarrow> 'z vmm_scheme \<Rightarrow> 'z vmm_scheme option" where
  "free_l3_entry l3 j s =
    (if \<not> pte_present (tables s l3 j) then Some s
     else do {
       let l2 = pte_frame (tables s l3 j);
       s1 \<leftarrow> for_range 0 table_entries (free_l2_entry l2) s;
       free_page (page_at l2) s1
     })"

definition free_l4_entry :: "u64 \<Rightarrow> nat \<Rightarrow> 'z vmm_scheme \<Rightarrow> 'z vmm_scheme option" where
  "free_l4_entry l4 i s =
    (if \<not> pte_present (tables s l4 i) then Some s
     else do {
       let l3 = pte_frame (tables s l4 i);
       s1 \<leftarrow> for_range 0 table_entries (free_l3_entry l3) s;
       free_page (page_at l3) s1
     })"

text \<open>The node is unlinked after its area was freed.\<close>

definition free_area :: "node \<Rightarrow> 'z kstate_scheme \<Rightarrow> (bool \<times> 'z kstate_scheme) option" where
  "free_area it s =
    do {
      a \<leftarrow> get_vma it;
      s1 \<leftarrow> kfree a s;
      let s2 = s1\<lparr>vmas := (vmas s1)(a := None)\<rparr>;
      Some (False, on_links (list_del it) s2)
    }"

definition free_mm :: "'z kstate_scheme \<Rightarrow> 'z kstate_scheme option" where
  "free_mm s =
    do {
      t \<leftarrow> task_of s (current s);
      s1 \<leftarrow> for_range 0 user_entries (free_l4_entry (frame_of (t_page_dir t))) s;
      (it, s2) \<leftarrow> list_for_each lnk (Vm_areas (current s1)) free_area s1;
      Some s2
    }"

section \<open>Memory areas\<close>

definition add_area_body :: "u64 \<Rightarrow> node \<Rightarrow> 'z kstate_scheme \<Rightarrow> (bool \<times> 'z kstate_scheme) option" where
  "add_area_body st it s =
    do {
      a \<leftarrow> get_vma it;
      area \<leftarrow> vmas s a;
      BUG_ON (st = vm_start area);
      Some (st < vm_start area, s)
    }"

definition mm_add_area ::
  "u64 \<Rightarrow> u64 \<Rightarrow> u32 \<Rightarrow> nat \<Rightarrow> u64 \<Rightarrow> 'z kstate_scheme \<Rightarrow> (int \<times> 'z kstate_scheme) option" where
  "mm_add_area st sz prot fl offset s =
    do {
      (it, s1) \<leftarrow> list_for_each lnk (Vm_areas (current s)) (add_area_body st) s;
      (new, s2) \<leftarrow> kzalloc sizeof_vm_area s1;
      if new = 0 then Some (- errno_code ENOMEM, s2)
      else do {
        let s3 = s2\<lparr>vmas := (vmas s2)(new \<mapsto>
          \<lparr>vm_start = st, vm_end = st + sz, vm_prot = prot, vm_file = fl, vm_offset = offset\<rparr>)\<rparr>;
        Some (0, on_links (list_add_before it (Vma new)) s3)
      }
    }"

definition print_area_body :: "node \<Rightarrow> 'z kstate_scheme \<Rightarrow> (bool \<times> 'z kstate_scheme) option" where
  "print_area_body it s =
    do {
      a \<leftarrow> get_vma it;
      area \<leftarrow> vmas s a;
      name \<leftarrow> (if vm_file area = 0 then Some [] else do {
        f \<leftarrow> files s (vm_file area);
        d \<leftarrow> dents s (f_dentry f);
        Some (d_name d) });
      s1 \<leftarrow> kprintk (''%p-%p %d [%s:%d]'' @ [CHR 0x0A])
        [Num (vm_start area), Num (vm_end area), Num (ucast (vm_prot area)), Text (Some name),
         Num (vm_offset area)] s;
      Some (False, s1)
    }"

definition mm_print_areas :: "'z kstate_scheme \<Rightarrow> 'z kstate_scheme option" where
  "mm_print_areas s = map_option snd (list_for_each lnk (Vm_areas (current s)) print_area_body s)"

text \<open>The head of the list is no area: the loop came to its end.\<close>

definition in_area :: "u64 \<Rightarrow> vm_area_t \<Rightarrow> bool" where
  "in_area address area \<longleftrightarrow> address \<ge> vm_start area \<and> address < ROUND_PAGE_UP (vm_end area)"

definition find_area_body :: "u64 \<Rightarrow> node \<Rightarrow> 'z kstate_scheme \<Rightarrow> (bool \<times> 'z kstate_scheme) option" where
  "find_area_body address it s =
    do {
      a \<leftarrow> get_vma it;
      area \<leftarrow> vmas s a;
      Some (in_area address area, s)
    }"

definition mm_find_area :: "u64 \<Rightarrow> 'z kstate_scheme \<Rightarrow> nat option option" where
  "mm_find_area address s =
    map_option (\<lambda>(it, s1). get_vma it)
      (list_for_each lnk (Vm_areas (current s)) (find_area_body address) s)"

text \<open>The entry found is given by its table and index.\<close>

definition find_user_pte :: "u64 \<Rightarrow> 'z kstate_scheme \<Rightarrow> (u64 \<times> nat \<times> 'z kstate_scheme) option" where
  "find_user_pte addr s =
    do {
      let vpn = drop_bit 12 addr;
      t \<leftarrow> task_of s (current s);
      (l1, s1) \<leftarrow> walk_alloc 3 (frame_of (t_page_dir t)) vpn (PTE_PRESENT OR PTE_WRITE OR PTE_USER) s;
      Some (l1, pt_index 0 vpn, s1)
    }"

text \<open>The result is a pointer or an error pointer.\<close>

definition do_mmap ::
  "nat \<Rightarrow> u64 \<Rightarrow> u64 \<Rightarrow> u64 \<Rightarrow> u32 \<Rightarrow> u32 \<Rightarrow> 'z kstate_scheme \<Rightarrow> (u64 \<times> 'z kstate_scheme) option" where
  "do_mmap f offset vaddr len prot flags s =
    (if flags AND MAP_TYPE \<noteq> MAP_PRIVATE then Some (ERR_PTR (- errno_code EINVAL), s)
     else if flags AND MAP_FIXED = 0 then Some (ERR_PTR (- errno_code EINVAL), s)
     else do {
       (ret, s1) \<leftarrow> mm_add_area vaddr len prot f offset s;
       Some (if ret < 0 then ERR_PTR ret else vaddr, s1)
     })"

section \<open>Page faults\<close>

text \<open>\<open>goto bad\<close> reports the fault and ends in \<open>oops\<close>, which halts.\<close>

definition page_fault_bad :: "'z kstate_scheme \<Rightarrow> 'z kstate_scheme option" where
  "page_fault_bad s = None"

text \<open>A write of user code to a page that is present: copy it, or take it over when no other
  address space has it.  The pointer from \<open>alloc_page\<close> is not tested.\<close>

definition fault_cow :: "u64 \<Rightarrow> 'z kstate_scheme \<Rightarrow> 'z kstate_scheme option" where
  "fault_cow address s =
    do {
      found \<leftarrow> mm_find_area address s;
      (case found of None \<Rightarrow> page_fault_bad s
       | Some a \<Rightarrow> do {
           area \<leftarrow> vmas s a;
           if vm_prot area AND PROT_WRITE = 0 then page_fault_bad s
           else do {
             (t, i, s1) \<leftarrow> find_user_pte address s;
             let f = pte_frame (tables s1 t i);
             pg \<leftarrow> pages s1;
             BUG_ON (pg (unat f) < 1);
             s2 \<leftarrow> (if pg (unat f) = 1 then Some (set_pte t i (write_enable (tables s1 t i)) s1)
               else do {
                 (newpage, s3) \<leftarrow> alloc_page 0 s1;
                 BUG_ON (newpage = 0);
                 let s4 = s3\<lparr>mem := snd (memcpy (unat newpage) (unat (page_at f)) 4096 (mem s3))\<rparr>;
                 let s5 = set_frame t i (frame_of newpage) s4;
                 let s6 = set_pte t i (write_enable (tables s5 t i)) s5;
                 pg6 \<leftarrow> pages s6;
                 Some (s6\<lparr>pages := Some (pg6(unat f := pg6 (unat f) - 1))\<rparr>)
               });
             Some (tlb_invalidate_entry address s2)
           }
         })
    }"

text \<open>What a new page holds: a part of the area's file, or zeros.  The position is passed to
  \<open>vfs_lseek\<close> as 32 bits.\<close>

definition fill_page ::
  "'z kstate_scheme drivers \<Rightarrow> vm_area_t \<Rightarrow> u64 \<Rightarrow> u64 \<Rightarrow> 'z kstate_scheme \<Rightarrow> 'z kstate_scheme option" where
  "fill_page drv area address p s =
    (if vm_file area \<noteq> 0 then do {
       let offset = vm_offset area + (ROUND_PAGE_DOWN address - vm_start area);
       (ret, s1) \<leftarrow> vfs_lseek (vm_file area) (ucast offset) SEEK_SET s;
       if ret < 0 then page_fault_bad s1
       else do {
         let len = (if vm_end area - ROUND_PAGE_DOWN address < 4096
           then ucast (vm_end area - ROUND_PAGE_DOWN address) else 4096 :: u32);
         (n, s2) \<leftarrow> vfs_read drv (vm_file area) (unat p) len s1;
         if n < 0 then page_fault_bad s2
         else if (word_of_int n :: u32) \<noteq> len then page_fault_bad s2
         else if len < 4096
           then Some (s2\<lparr>mem := snd (memset (unat p + unat len) 0 (4096 - len) (mem s2))\<rparr>)
         else Some s2
       }
     }
     else Some (s\<lparr>mem := snd (memset (unat p) 0 4096 (mem s))\<rparr>))"

definition fault_demand ::
  "'z kstate_scheme drivers \<Rightarrow> u64 \<Rightarrow> bool \<Rightarrow> 'z kstate_scheme \<Rightarrow> 'z kstate_scheme option" where
  "fault_demand drv address write s =
    do {
      found \<leftarrow> mm_find_area address s;
      (case found of None \<Rightarrow> page_fault_bad s
       | Some a \<Rightarrow> do {
           area \<leftarrow> vmas s a;
           if (\<not> write \<and> vm_prot area AND (PROT_READ OR PROT_EXEC) \<noteq> 0) \<or>
              (write \<and> vm_prot area AND PROT_WRITE \<noteq> 0)
           then do {
             let flags = (if vm_prot area AND PROT_WRITE \<noteq> 0 then PTE_PRESENT OR PTE_USER OR PTE_WRITE
               else PTE_PRESENT OR PTE_USER);
             (t, i, s1) \<leftarrow> find_user_pte address s;
             (frame, s2) \<leftarrow> alloc_phys_page s1;
             if frame = 0 then page_fault_bad s2
             else do {
               s3 \<leftarrow> fill_page drv area address (page_at frame) s2;
               let s4 = set_frame t i frame s3;
               let s5 = set_pte t i ((tables s4 t i)\<lparr>p_flags := ucast flags\<rparr>) s4;
               Some (tlb_invalidate_entry address s5)
             }
           }
           else page_fault_bad s
         })
    }"

text \<open>\<open>address\<close> is what the processor leaves in \<open>cr2\<close>.\<close>

definition do_page_fault ::
  "'z kstate_scheme drivers \<Rightarrow> u64 \<Rightarrow> regs \<Rightarrow> 'z kstate_scheme \<Rightarrow> 'z kstate_scheme option" where
  "do_page_fault drv address r s =
    (let present = bit (error_code r) 0; write = bit (error_code r) 1;
         usermode = bit (error_code r) 2; rsvd = bit (error_code r) 3
     in if rsvd then page_fault_bad s
        else if present \<and> write \<and> usermode then fault_cow address s
        else if \<not> present \<and> usermode then fault_demand drv address write s
        else page_fault_bad s)"

end
