(* ===== verification/MmProps.thy ===== *)
theory MmProps
  imports Mm SchedProps FsDir
begin

text \<open>
  Correctness of user address spaces: what \<open>fork\<close> does to a page table and the reference counts,
  what a copy-on-write fault changes, and the sorted list of memory areas.
\<close>

section \<open>Sharing a page table\<close>

text \<open>A loop with an invariant that counts how far it came.\<close>

lemma for_range_inv:
  assumes "P i s" and "\<And>k s. i \<le> k \<Longrightarrow> k < i + n \<Longrightarrow> P k s \<Longrightarrow> \<exists>s1. f k s = Some s1 \<and> P (Suc k) s1"
  shows "\<exists>s'. for_range i n f s = Some s' \<and> P (i + n) s'"
  using assms
proof (induction n arbitrary: i s)
  case 0
  then show ?case by simp
next
  case (Suc n)
  obtain s1 where s1: "f i s = Some s1" "P (Suc i) s1" using Suc.prems(2) [of i s] Suc.prems(1) by auto
  have "\<exists>s'. for_range (Suc i) n f s1 = Some s' \<and> P (Suc i + n) s'"
    by (rule Suc.IH [OF s1(2)]) (use Suc.prems(2) in auto)
  then show ?case using s1(1) by simp
qed

lemma write_protect_simps [simp]:
  "p_frame (write_protect e) = p_frame e" "pte_present (write_protect e) = pte_present e"
  "p_reserved (write_protect e) = p_reserved e" "p_nx (write_protect e) = p_nx e"
  "write_protect (write_protect e) = write_protect e" "pte_frame (write_protect e) = pte_frame e"
proof -
  have ev: "x AND 1 = 0 \<longleftrightarrow> even x" for x :: "8 word"
    by (simp add: and_one_eq even_iff_mod_2_eq_zero)
  have "(p_flags e AND NOT 2) AND 1 = 0 \<longleftrightarrow> p_flags e AND 1 = 0"
    unfolding ev [of "p_flags e AND NOT 2"] ev [of "p_flags e"] even_and_iff even_not_iff by simp
  then show "pte_present (write_protect e) = pte_present e"
    by (simp add: pte_present_def write_protect_def PTE_PRESENT_def PTE_WRITE_def)
  show "write_protect (write_protect e) = write_protect e"
    by (simp add: write_protect_def and.assoc)
qed (simp_all add: write_protect_def pte_frame_def)

lemma set_pte_simps [simp]:
  "tables (set_pte t i e s) = (tables s)(t := (tables s t)(i := e))"
  "pages (set_pte t i e s) = pages s" "vmm.more (set_pte t i e s) = vmm.more s"
  by (simp_all add: set_pte_def)

text \<open>How many of the first \<open>n\<close> entries of a table map frame \<open>f\<close>.\<close>

definition maps_to :: "(nat \<Rightarrow> pte) \<Rightarrow> nat \<Rightarrow> nat \<Rightarrow> nat" where
  "maps_to tb n f = card {l. l < n \<and> pte_present (tb l) \<and> unat (pte_frame (tb l)) = f}"

lemma maps_to_0 [simp]: "maps_to tb 0 f = 0"
  by (simp add: maps_to_def)

lemma maps_to_Suc:
  "maps_to tb (Suc n) f =
    maps_to tb n f + (if pte_present (tb n) \<and> unat (pte_frame (tb n)) = f then 1 else 0)"
proof -
  let ?P = "\<lambda>l. pte_present (tb l) \<and> unat (pte_frame (tb l)) = f"
  have "{l. l < Suc n \<and> ?P l} = (if ?P n then insert n {l. l < n \<and> ?P l} else {l. l < n \<and> ?P l})"
    by (auto simp: less_Suc_eq)
  then show ?thesis by (simp add: maps_to_def)
qed

text \<open>An entry as \<open>fork\<close> leaves it in both tables.\<close>

definition shared_pte :: "pte \<Rightarrow> pte" where
  "shared_pte e = (if pte_present e then write_protect e else e)"

lemma clone_l1_spec:
  fixes s :: "'z vmm_scheme"
  assumes ne: "new \<noteq> old" and cp: "tables s new = tables s old" and pg: "pages s = Some pg"
    and cnt: "\<forall>l < n. pte_present (tables s old l) \<longrightarrow> 1 \<le> pg (unat (pte_frame (tables s old l)))"
  shows "\<exists>s'. for_range 0 n (clone_l1_entry va old new) s = Some s' \<and>
    tables s' = (tables s)
      (old := \<lambda>l. if l < n then shared_pte (tables s old l) else tables s old l,
       new := \<lambda>l. if l < n then shared_pte (tables s old l) else tables s old l) \<and>
    pages s' = Some (\<lambda>f. pg f + int (maps_to (tables s old) n f)) \<and> vmm.more s' = vmm.more s"
proof -
  let ?T = "\<lambda>m. (\<lambda>l. if l < m then shared_pte (tables s old l) else tables s old l)"
  let ?P = "\<lambda>m u. tables u = (tables s)(old := ?T m, new := ?T m) \<and>
     pages u = Some (\<lambda>f. pg f + int (maps_to (tables s old) m f)) \<and> vmm.more u = vmm.more s"
  have "\<exists>s'. for_range 0 n (clone_l1_entry va old new) s = Some s' \<and> ?P (0 + n) s'"
  proof (rule for_range_inv)
    show "?P 0 s" using pg cp by (auto simp: fun_eq_iff)
    fix k and u :: "'z vmm_scheme"
    assume k: "k < 0 + n" and u: "?P k u"
    let ?e = "tables s old k"
    have ent: "tables u new k = ?e" "tables u old k = ?e" using u by simp_all
    have T: "?T (Suc k) = (?T k)(k := shared_pte ?e)" by (auto simp: less_Suc_eq)
    show "\<exists>s1. clone_l1_entry va old new k u = Some s1 \<and> ?P (Suc k) s1"
    proof (cases "pte_present ?e")
      case False
      then have "?T (Suc k) = ?T k" using T by (auto simp: shared_pte_def)
      moreover have "maps_to (tables s old) (Suc k) f = maps_to (tables s old) k f" for f
        using False by (simp add: maps_to_Suc)
      ultimately show ?thesis using u False ent by (simp add: clone_l1_entry_def)
    next
      case True
      let ?f = "unat (pte_frame ?e)"
      let ?pg = "\<lambda>f. pg f + int (maps_to (tables s old) k f)"
      have "\<not> ?pg ?f \<le> 0" using cnt k True by (simp add: not_le) (smt (verit) of_nat_0_le_iff)
      moreover have "pages u = Some ?pg" using u by blast
      moreover have "?pg(?f := ?pg ?f + 1) = (\<lambda>f. pg f + int (maps_to (tables s old) (Suc k) f))"
        using True by (auto simp: maps_to_Suc)
      moreover have "(tables u)(new := (tables u new)(k := write_protect ?e),
          old := (tables u old)(k := write_protect ?e)) = (tables s)(old := ?T (Suc k), new := ?T (Suc k))"
        unfolding T using u ne True by (auto simp: shared_pte_def fun_eq_iff)
      ultimately show ?thesis
        using u True ent ne by (simp add: clone_l1_entry_def Let_def tlb_invalidate_entry_def)
    qed
  qed
  then show ?thesis by simp
qed

section \<open>Copy on write\<close>

lemma walk_alloc_present:
  assumes "at_path (tables s) t (vpath vpn) = Some l1"
  shows "walk_alloc 3 t vpn fl s = Some (l1, s)"
  using assms by (auto simp: vpath_def numeral_3_eq_3 Let_def numeral_2_eq_2 split: if_splits)

lemma write_enable_simps [simp]: "p_frame (write_enable e) = p_frame e" "pte_frame (write_enable e) = pte_frame e"
  by (simp_all add: write_enable_def pte_frame_def)

text \<open>The kernel's view of the first terabyte of physical memory does not wrap.\<close>

lemma unat_page_at:
  assumes "unat f < 2 ^ 28"
  shows "unat (page_at f) = unat MEMORY_BASE + 4096 * unat f"
proof -
  have "unat (push_bit 12 f) = 4096 * unat f"
    using assms by (simp add: push_bit_eq_mult unat_word_ariths)
  then show ?thesis
    using assms by (simp add: page_at_def P2V_def MEMORY_BASE_def unat_word_ariths)
qed

lemma frame_of_page_at [simp]: "unat f < 2 ^ 28 \<Longrightarrow> frame_of (page_at f) = f"
proof -
  assume f: "unat f < 2 ^ 28"
  have "unat (drop_bit 12 (push_bit 12 f)) = unat f"
    using f by (simp add: unat_drop_bit_eq drop_bit_eq_div push_bit_eq_mult unat_word_ariths)
  then have "drop_bit 12 (push_bit 12 f) = f" by (rule word_unat_eq_iff [THEN iffD2])
  then show ?thesis by (simp add: frame_of_def page_at_def)
qed

lemma ucast_frame: "unat (f :: u64) < 2 ^ 28 \<Longrightarrow> ucast (ucast f :: 40 word) = f"
  by (simp add: word_unat_eq_iff unsigned_ucast_eq take_bit_eq_mod unat_mod)

definition same_page_bytes :: "u64 \<Rightarrow> u64 \<Rightarrow> mem \<Rightarrow> mem \<Rightarrow> bool" where
  "same_page_bytes f g m m' \<longleftrightarrow>
     (\<forall>k < 4096. m' (unat (page_at g) + k) = m (unat (page_at f) + k))"

lemma fault_cow_shared:
  fixes s :: "'z kstate_scheme"
  assumes ar: "mm_find_area address s = Some (Some a)" "vmas s a = Some area" "vm_prot area AND PROT_WRITE \<noteq> 0"
    and t: "task_of s (current s) = Some t"
    and at: "at_path (tables s) (frame_of (t_page_dir t)) (vpath (drop_bit 12 address)) = Some l1"
    and e: "e = tables s l1 (pt_index 0 (drop_bit 12 address))" and f: "f = pte_frame e" "unat f < 2 ^ 28"
    and pg: "pages s = Some pg" "1 < pg (unat f)"
    and inv: "pmm_inv s" and free: "free_frames s \<noteq> {}" and small: "unat (first_frame s) + nframes s \<le> 2 ^ 28"
  shows "\<exists>s' n. fault_cow address s = Some s' \<and> unat n \<in> free_frames s \<and> n \<noteq> f \<and>
    tables s' = (tables s)(l1 := (tables s l1)(pt_index 0 (drop_bit 12 address) :=
      write_enable (e\<lparr>p_frame := ucast n\<rparr>))) \<and>
    pages s' = Some (pg(unat n := 1, unat f := pg (unat f) - 1)) \<and>
    same_page_bytes f n (mem s) (mem s') \<and>
    (\<forall>x. x < unat (page_at n) \<or> unat (page_at n) + 4096 \<le> x \<longrightarrow> mem s' x = mem s x)"
proof -
  let ?i = "pt_index 0 (drop_bit 12 address)"
  obtain n s3 where n: "alloc_phys_page s = Some (n, s3)" "unat n = Min (free_frames s)"
    "pages s3 = map_option (\<lambda>pg. pg(unat n := 1)) (pages s)" "pmm.more s3 = pmm.more s"
    using alloc_phys_page_free [OF inv free] .
  have nf: "unat n \<in> free_frames s" using n(2) free by simp
  have "pg (unat n) = 0" using inv nf pg(1) by (simp add: pmm_inv_def)
  then have nn: "n \<noteq> f" using pg(2) by auto
  then have nnu: "unat n \<noteq> unat (pte_frame e)" using f(1) word_unat_eq_iff by metis
  have n28: "unat n < 2 ^ 28" using nf small by (simp add: free_frames_def managed_def)
  have n0: "n \<noteq> 0" using nf inv by (auto simp: free_frames_def managed_def pmm_inv_def)
  have m3: "tables s3 = tables s" "mem s3 = mem s" using n(4) by (cases s; cases s3; simp)+
  have al: "alloc_page 0 s = Some (page_at n, s3)" using n(1) n0 by (simp add: alloc_page_def page_at_def)
  have disj: "unat (page_at n) + 4096 \<le> unat (page_at f) \<or> unat (page_at f) + 4096 \<le> unat (page_at n)"
    using nn unfolding unat_page_at [OF n28] unat_page_at [OF f(2)] word_unat_eq_iff by linarith
  have p0: "page_at n \<noteq> 0"
  proof
    assume "page_at n = 0"
    then have "unat (page_at n) = 0" by simp
    then show False unfolding unat_page_at [OF n28] by (simp add: MEMORY_BASE_def)
  qed
  define m' where "m' = snd (memcpy (unat (page_at n)) (unat (page_at f)) 4096 (mem s))"
  define s' where "s' = tlb_invalidate_entry address
    ((set_pte l1 ?i (write_enable (e\<lparr>p_frame := ucast n\<rparr>)) (set_pte l1 ?i (e\<lparr>p_frame := ucast n\<rparr>)
      (s3\<lparr>mem := m'\<rparr>)))\<lparr>pages := Some (pg(unat n := 1, unat f := pg (unat f) - 1))\<rparr>)"
  have fu: "find_user_pte address s = Some (l1, ?i, s)"
    unfolding find_user_pte_def Let_def t Option.bind_lunit walk_alloc_present [OF at] prod.case by simp
  have "\<not> pg (unat f) < 1" "pg (unat f) \<noteq> 1" using pg(2) by simp_all
  then have r: "fault_cow address s = Some s'"
    unfolding fault_cow_def ar Option.bind_lunit option.case fu prod.case Let_def
    using ar(3) pg(1) al p0 nn nnu n28 n(3) f(1) m3
    by (simp add: e [symmetric] set_frame_def s'_def m'_def)
  have "same_page_bytes f n (mem s) m'"
    unfolding same_page_bytes_def m'_def memcpy_def using disj by (auto intro: movsb_up_copy)
  moreover have "m' x = mem s x" if "x < unat (page_at n) \<or> unat (page_at n) + 4096 \<le> x" for x
    using that movsb_up_below movsb_up_above by (auto simp: m'_def memcpy_def)
  moreover have "mem s' = m'" "pages s' = Some (pg(unat n := 1, unat f := pg (unat f) - 1))"
    "tables s' = (tables s)(l1 := (tables s l1)(?i := write_enable (e\<lparr>p_frame := ucast n\<rparr>)))"
    by (simp_all add: s'_def tlb_invalidate_entry_def m3 set_pte_def)
  ultimately show ?thesis using r nf nn by blast
qed

lemma fault_cow_sole:
  fixes s :: "'z kstate_scheme"
  assumes ar: "mm_find_area address s = Some (Some a)" "vmas s a = Some area" "vm_prot area AND PROT_WRITE \<noteq> 0"
    and t: "task_of s (current s) = Some t"
    and at: "at_path (tables s) (frame_of (t_page_dir t)) (vpath (drop_bit 12 address)) = Some l1"
    and e: "e = tables s l1 (pt_index 0 (drop_bit 12 address))"
    and pg: "pages s = Some pg" "pg (unat (pte_frame e)) = 1"
  shows "fault_cow address s = Some (tlb_invalidate_entry address
    (set_pte l1 (pt_index 0 (drop_bit 12 address)) (write_enable e) s))"
proof -
  have fu: "find_user_pte address s = Some (l1, pt_index 0 (drop_bit 12 address), s)"
    unfolding find_user_pte_def Let_def t Option.bind_lunit walk_alloc_present [OF at] prod.case by simp
  show ?thesis
    unfolding fault_cow_def ar Option.bind_lunit option.case fu prod.case Let_def
    using ar(3) pg by (simp add: e [symmetric])
qed

section \<open>The list of areas\<close>

text \<open>The areas of a task, in the order of its list.\<close>

definition areas :: "'z kstate_scheme \<Rightarrow> nat \<Rightarrow> nat list \<Rightarrow> bool" where
  "areas s p vs \<longleftrightarrow> dlist (lnk s) (Vm_areas p) (map Vma vs) \<and>
     (\<forall>v \<in> set vs. vmas s v \<noteq> None \<and> (v, unat sizeof_vm_area) \<in> live s)"

definition area_of :: "'z kstate_scheme \<Rightarrow> nat \<Rightarrow> vm_area_t" where
  "area_of s v = the (vmas s v)"

definition sorted_areas :: "'z kstate_scheme \<Rightarrow> nat list \<Rightarrow> bool" where
  "sorted_areas s vs \<longleftrightarrow> sorted_wrt (<) (map (\<lambda>v. vm_start (area_of s v)) vs)"

text \<open>A loop that only looks: it stops at the first node that satisfies the test.\<close>

lemma list_for_each_from_find:
  assumes "linked (lk s) a (map g vs) h" "h \<notin> set (map g vs)"
    and b: "\<And>v. v \<in> set vs \<Longrightarrow> bd (g v) s = Some (t v, s)"
  shows "list_for_each_from lk h bd (hd (map g vs @ [h])) s = Some (hd (map g (dropWhile (\<lambda>v. \<not> t v) vs) @ [h]), s)"
  using assms
proof (induction vs arbitrary: a)
  case Nil
  then show ?case by (simp add: list_for_each_from.simps)
next
  case (Cons v vs)
  have gv: "g v \<noteq> h" using Cons.prems(2) by auto
  have bv: "bd (g v) s = Some (t v, s)" using Cons.prems(3) by simp
  show ?case
  proof (cases "t v")
    case True
    then show ?thesis using gv bv by (simp add: list_for_each_from.simps [of lk h bd "g v"])
  next
    case False
    have l: "linked (lk s) (g v) (map g vs) h" using Cons.prems(1) by simp
    have nx: "nxt (lk s) (g v) = hd (map g vs @ [h])" using linked_ends [OF l] by simp
    have "list_for_each_from lk h bd (g v) s = list_for_each_from lk h bd (hd (map g vs @ [h])) s"
      using gv bv False nx by (subst list_for_each_from.simps) simp
    then show ?thesis using Cons.IH [OF l] Cons.prems False by simp
  qed
qed

lemma list_for_each_find:
  assumes "dlist (lk s) h (map g vs)" and b: "\<And>v. v \<in> set vs \<Longrightarrow> bd (g v) s = Some (t v, s)"
  shows "list_for_each lk h bd s = Some (hd (map g (dropWhile (\<lambda>v. \<not> t v) vs) @ [h]), s)"
  unfolding list_for_each_def using list_for_each_from_find [of lk s h g vs h bd t] dlist_head [OF assms(1)] assms
  by (auto simp: dlist_def)

text \<open>\<open>mm_find_area\<close> is a search of the list.\<close>

lemma mm_find_area_eq:
  assumes "areas s (current s) vs"
  shows "mm_find_area address s = Some (find (\<lambda>v. in_area address (area_of s v)) vs)"
proof -
  let ?t = "\<lambda>v. in_area address (area_of s v)"
  have "list_for_each lnk (Vm_areas (current s)) (find_area_body address) s =
      Some (hd (map Vma (dropWhile (\<lambda>v. \<not> ?t v) vs) @ [Vm_areas (current s)]), s)"
    by (rule list_for_each_find) (use assms in \<open>auto simp: areas_def find_area_body_def area_of_def\<close>)
  moreover have "get_vma (hd (map Vma (dropWhile (\<lambda>v. \<not> ?t v) vs) @ [Vm_areas (current s)])) = find ?t vs"
    by (induction vs) auto
  ultimately show ?thesis by (simp add: mm_find_area_def)
qed

lemma split_at:
  assumes "vs = as @ bs" "\<forall>v \<in> set as. \<not> t v" "bs = [] \<or> t (hd bs)"
  shows "dropWhile (\<lambda>v. \<not> t v) vs = bs"
  using assms by (induction as arbitrary: vs) (cases bs; auto)+

lemma mm_add_area_spec:
  fixes s :: "'z kstate_scheme"
  assumes ar: "areas s (current s) vs" and so: "sorted_areas s vs"
    and st: "\<forall>v \<in> set vs. vm_start (area_of s v) \<noteq> st"
    and h: "heap_inv s" "grow_ready (Suc k) s"
  shows "\<exists>s' a as bs. mm_add_area st sz prot fl off s = Some (0, s') \<and> vs = as @ bs \<and>
    areas s' (current s') (as @ a # bs) \<and> sorted_areas s' (as @ a # bs) \<and>
    area_of s' a = \<lparr>vm_start = st, vm_end = st + sz, vm_prot = prot, vm_file = fl, vm_offset = off\<rparr> \<and>
    (\<forall>v \<in> set vs. area_of s' v = area_of s v) \<and> current s' = current s \<and>
    heap_inv s' \<and> grow_ready k s'"
proof -
  let ?c = "current s"
  let ?t = "\<lambda>v. st < vm_start (area_of s v)"
  let ?new = "\<lparr>vm_start = st, vm_end = st + sz, vm_prot = prot, vm_file = fl, vm_offset = off\<rparr>"
  define as bs where "as = takeWhile (\<lambda>v. \<not> ?t v) vs" and "bs = dropWhile (\<lambda>v. \<not> ?t v) vs"
  have sp: "vs = as @ bs" by (simp add: as_def bs_def)
  have loop: "list_for_each lnk (Vm_areas ?c) (add_area_body st) s = Some (hd (map Vma bs @ [Vm_areas ?c]), s)"
    unfolding bs_def
  proof (rule list_for_each_find)
    fix v assume v: "v \<in> set vs"
    then obtain x where x: "vmas s v = Some x" using ar by (auto simp: areas_def)
    then have "st \<noteq> vm_start x" using st v by (auto simp: area_of_def)
    then show "add_area_body st (Vma v) s = Some (?t v, s)" using x by (simp add: add_area_body_def area_of_def)
  qed (use ar in \<open>simp add: areas_def\<close>)
  let ?it = "hd (map Vma bs @ [Vm_areas ?c])"
  have sz56: "unat (align8 sizeof_vm_area) + 4 \<le> 4096" "unat (align8 sizeof_vm_area) = unat sizeof_vm_area"
    by (simp_all add: align8_def sizeof_vm_area_def)
  obtain a and s1 :: "'z kstate_scheme" where a: "kzalloc sizeof_vm_area s = Some (a, s1)" "a \<noteq> 0"
    "a \<notin> fst ` live s" "heap_inv s1" "grow_ready k s1"
    "live s1 = insert (a, unat (align8 sizeof_vm_area)) (live s)" "kmem.more s1 = kmem.more s"
    "\<forall>x. x < a \<or> a + unat sizeof_vm_area \<le> x \<longrightarrow> mem s1 x = mem s x"
    "\<forall>(q, m) \<in> live s. a + unat (align8 sizeof_vm_area) < q \<or> q + m < a"
    using kzalloc_small [OF h sz56(1)] .
  have m: "lnk s1 = lnk s" "vmas s1 = vmas s" "current s1 = ?c"
    using a(7) by (cases s; cases s1; simp)+
  define s2 where "s2 = s1\<lparr>vmas := (vmas s1)(a \<mapsto> ?new)\<rparr>"
  define s' where "s' = on_links (list_add_before ?it (Vma a)) s2"
  have r: "mm_add_area st sz prot fl off s = Some (0, s')"
    using loop a(1,2) by (simp add: mm_add_area_def s'_def s2_def)
  have an: "a \<notin> set vs" using a(3) ar by (force simp: areas_def)
  have dl: "dlist (lnk s) (Vm_areas ?c) (map Vma as @ map Vma bs)" using ar sp by (simp add: areas_def)
  have fresh: "Vma a \<notin> set (Vm_areas ?c # map Vma as @ map Vma bs)" using an sp by auto
  have "dlist (lnk s') (Vm_areas ?c) (map Vma as @ Vma a # map Vma bs)"
  proof (cases bs)
    case Nil
    then show ?thesis using dlist_add_before_head [of "lnk s" _ "map Vma as" "Vma a"] dl fresh
      by (simp add: s'_def s2_def on_links_def m)
  next
    case (Cons b bs')
    then show ?thesis using dlist_add_before [of "lnk s" _ "map Vma as" "Vma b" "map Vma bs'" "Vma a"] dl fresh
      by (simp add: s'_def s2_def on_links_def m)
  qed
  moreover have f: "vmas s' = (vmas s)(a \<mapsto> ?new)" "current s' = ?c"
    by (simp_all add: s'_def s2_def on_links_def m)
  moreover have hp: "heap_inv s'" "grow_ready k s'" "live s' = live s1"
    using a(4,5) heap_part [of s' s1] by (simp_all add: s'_def s2_def on_links_def heap.defs)
  moreover have old: "area_of s' v = area_of s v" if "v \<in> set vs" for v
    using that an by (auto simp: area_of_def f(1))
  moreover have "area_of s' a = ?new" by (simp add: area_of_def f(1))
  moreover have "areas s' ?c (as @ a # bs)"
    using calculation(1) ar a(6) sz56(2) an sp unfolding areas_def hp(3) f(1) by auto
  moreover have "sorted_areas s' (as @ a # bs)"
  proof -
    have lo: "vm_start (area_of s v) < st" if "v \<in> set as" for v
    proof -
      have "\<not> ?t v" using that unfolding as_def by (blast dest: set_takeWhileD)
      moreover have "v \<in> set vs" using that sp by simp
      ultimately show ?thesis using st by (meson not_less_iff_gr_or_eq)
    qed
    have hi: "st < vm_start (area_of s v)" if vb: "v \<in> set bs" for v
    proof -
      obtain b bs' where b: "bs = b # bs'" using vb by (cases bs) auto
      have "dropWhile (\<lambda>v. \<not> ?t v) vs = b # bs'" using b by (simp add: bs_def)
      then have tb: "?t b" by (simp add: dropWhile_eq_Cons_conv)
      have "sorted_wrt (<) (map (\<lambda>v. vm_start (area_of s v)) bs)"
        using so sp by (simp add: sorted_areas_def sorted_wrt_append)
      then have "v = b \<or> vm_start (area_of s b) < vm_start (area_of s v)" using vb b by auto
      then show ?thesis using tb by auto
    qed
    have "sorted_wrt (<) (map (\<lambda>v. vm_start (area_of s v)) as @ st # map (\<lambda>v. vm_start (area_of s v)) bs)"
      using so sp lo hi by (fastforce simp: sorted_areas_def sorted_wrt_append)
    moreover have "map (\<lambda>v. vm_start (area_of s' v)) (as @ a # bs) =
        map (\<lambda>v. vm_start (area_of s v)) as @ st # map (\<lambda>v. vm_start (area_of s v)) bs"
      using old sp \<open>area_of s' a = ?new\<close> by auto
    ultimately show ?thesis unfolding sorted_areas_def by (simp only:)
  qed
  ultimately show ?thesis using r sp by metis
qed

section \<open>Properties\<close>

text \<open>C19: The innermost loop of \<open>clone_mm\<close> shares every page of a table between parent and child:
  in both tables exactly the present entries lose write permission, they keep their frames, each
  frame's reference count grows by the number of entries that map it, and no other table changes.\<close>

theorem clone_l1_shares:
  assumes "new \<noteq> old" "tables s new = tables s old" "pages s = Some pg"
    "\<forall>l < n. pte_present (tables s old l) \<longrightarrow> 1 \<le> pg (unat (pte_frame (tables s old l)))"
  shows "\<exists>s'. for_range 0 n (clone_l1_entry va old new) s = Some s' \<and>
    tables s' = (tables s)
      (old := \<lambda>l. if l < n then shared_pte (tables s old l) else tables s old l,
       new := \<lambda>l. if l < n then shared_pte (tables s old l) else tables s old l) \<and>
    pages s' = Some (\<lambda>f. pg f + int (maps_to (tables s old) n f)) \<and> vmm.more s' = vmm.more s"
  by (rule clone_l1_spec [OF assms])

definition demo_pte :: "u32 \<Rightarrow> pte" where
  "demo_pte f = pte_zero\<lparr>p_flags := 7, p_frame := ucast f\<rparr>"

theorem clone_l1_shares_witness:
  "\<exists>s s' :: vmm. for_range 0 2 (clone_l1_entry 0 10 11) s = Some s' \<and> pages s = Some (\<lambda>_. 1) \<and>
    p_flags (tables s 10 0) = 7 \<and> p_flags (tables s' 10 0) = 5 \<and> p_flags (tables s' 11 0) = 5"
proof -
  define s where "s = \<lparr>bitmap = \<lambda>_. 0, first_frame = 1, bitmap_size = 8, memsize = 0, memused = 0,
    pages = Some (\<lambda>_. 1), tables = \<lambda>t l. demo_pte 5, page_dir = 0, tlb_log = []\<rparr>"
  have "\<exists>s'. for_range 0 2 (clone_l1_entry 0 10 11) s = Some s' \<and>
    tables s' = (tables s)
      (10 := \<lambda>l. if l < 2 then shared_pte (tables s 10 l) else tables s 10 l,
       11 := \<lambda>l. if l < 2 then shared_pte (tables s 10 l) else tables s 10 l) \<and>
    pages s' = Some (\<lambda>f. 1 + int (maps_to (tables s 10) 2 f)) \<and> vmm.more s' = vmm.more s"
    by (rule clone_l1_shares) (simp_all add: s_def)
  then obtain s' where s': "for_range 0 2 (clone_l1_entry 0 10 11) s = Some s'"
    "tables s' = (tables s)
      (10 := \<lambda>l. if l < 2 then shared_pte (tables s 10 l) else tables s 10 l,
       11 := \<lambda>l. if l < 2 then shared_pte (tables s 10 l) else tables s 10 l)" by blast
  have "pte_present (demo_pte 5)" by (simp add: pte_present_def demo_pte_def PTE_PRESENT_def)
  moreover have "p_flags (write_protect (demo_pte 5)) = 5"
    by (simp add: write_protect_def demo_pte_def PTE_WRITE_def)
  moreover have "p_flags (demo_pte 5) = 7" by (simp add: demo_pte_def)
  ultimately have "p_flags (tables s' 10 0) = 5 \<and> p_flags (tables s' 11 0) = 5 \<and> p_flags (tables s 10 0) = 7"
    by (simp add: s'(2) shared_pte_def s_def)
  then show ?thesis using s'(1) by (intro exI [of _ s] exI [of _ s']) (simp add: s_def)
qed

text \<open>C4: Copy on write isolates.  When user code writes to a present page of a writable area
  and the frame is shared, the fault handler maps a free frame instead, writable and with the
  same contents, drops one reference to the old frame, and changes no other entry of any table
  and no byte outside the new page, so the other address spaces see what they saw before.\<close>

theorem cow_fault_isolates:
  fixes s :: "'z kstate_scheme"
  assumes "bit (error_code r) 0" "bit (error_code r) 1" "bit (error_code r) 2" "\<not> bit (error_code r) 3"
    and "mm_find_area address s = Some (Some a)" "vmas s a = Some area" "vm_prot area AND PROT_WRITE \<noteq> 0"
    and "task_of s (current s) = Some t"
    and "at_path (tables s) (frame_of (t_page_dir t)) (vpath (drop_bit 12 address)) = Some l1"
    and "e = tables s l1 (pt_index 0 (drop_bit 12 address))" "f = pte_frame e" "unat f < 2 ^ 28"
    and "pages s = Some pg" "1 < pg (unat f)"
    and "pmm_inv s" "free_frames s \<noteq> {}" "unat (first_frame s) + nframes s \<le> 2 ^ 28"
  shows "\<exists>s' n. do_page_fault drv address r s = Some s' \<and> unat n \<in> free_frames s \<and> n \<noteq> f \<and>
    tables s' = (tables s)(l1 := (tables s l1)(pt_index 0 (drop_bit 12 address) :=
      write_enable (e\<lparr>p_frame := ucast n\<rparr>))) \<and>
    pages s' = Some (pg(unat n := 1, unat f := pg (unat f) - 1)) \<and>
    same_page_bytes f n (mem s) (mem s') \<and>
    (\<forall>x. x < unat (page_at n) \<or> unat (page_at n) + 4096 \<le> x \<longrightarrow> mem s' x = mem s x)"
proof -
  have "do_page_fault drv address r s = fault_cow address s"
    using assms(1-4) by (simp add: do_page_fault_def)
  then show ?thesis using fault_cow_shared [OF assms(5-17)] by metis
qed

definition regs_zero :: regs where
  "regs_zero = \<lparr>reg_rax = 0, reg_rcx = 0, reg_rdx = 0, reg_rbx = 0, reg_rbp = 0, reg_rsi = 0, reg_rdi = 0,
     reg_r8 = 0, reg_r9 = 0, reg_r10 = 0, reg_r11 = 0, reg_r12 = 0, reg_r13 = 0, reg_r14 = 0, reg_r15 = 0,
     vector = 0, error_code = 0, reg_rip = 0, reg_cs = 0, reg_rflags = 0, reg_rsp = 0, reg_ss = 0\<rparr>"

text \<open>A kernel whose current task has one shared page.\<close>

definition cow_demo :: kstate where
  "cow_demo = \<lparr>bitmap = \<lambda>_. 0, first_frame = 1, bitmap_size = 8, memsize = 0, memused = 0,
    pages = Some (\<lambda>f. if f = 0 then 2 else 0), tables = \<lambda>t l. demo_pte 0, page_dir = 0, tlb_log = [],
    heap_top = heap_start, hdr = \<lambda>_. 0, mem = \<lambda>_. 0, dents = Map.empty, sbs = Map.empty,
    files = Map.empty, privs = Map.empty, names = Map.empty, fs_list = [], rootfs = None,
    devfs_root = 0,
    lnk = list_add (Vm_areas 8192) (Vma 1) (list_init (Vm_areas 8192) demo_links),
    task_of = demo_tasks, user_regs = \<lambda>_. regs_zero,
    vmas = [1 \<mapsto> \<lparr>vm_start = 0, vm_end = 4096, vm_prot = 2, vm_file = 0, vm_offset = 0\<rparr>],
    timers = Map.empty, current = 8192, idle = 4096, global_flags = 0, next_free_pid = 2,
    tss_rsp0 = 0, swapgs_kernel_rsp = 0, cr3 = 0, cpu = vga_demo\<rparr>"

lemma cow_demo_facts:
  "mm_find_area 0 cow_demo = Some (Some 1)" "pmm_inv cow_demo" "free_frames cow_demo = {1..<65}"
  "at_path (tables cow_demo) f (vpath vpn) = Some 0"
proof -
  have "dlist (lnk cow_demo) (Vm_areas 8192) (map Vma [1])"
    by (simp add: cow_demo_def list_add_def Let_def dlist_def)
  then have "list_for_each lnk (Vm_areas 8192) (find_area_body 0) cow_demo =
      Some (hd (map Vma (dropWhile (\<lambda>v. \<not> True) [1]) @ [Vm_areas 8192]), cow_demo)"
    by (rule list_for_each_find)
      (simp add: find_area_body_def cow_demo_def in_area_def ROUND_PAGE_UP_def)
  then show "mm_find_area 0 cow_demo = Some (Some 1)"
    by (simp add: mm_find_area_def cow_demo_def)
  have u: "used_frames cow_demo = {}" and m: "managed cow_demo = {1..<65}"
    by (simp_all add: used_frames_def managed_def nframes_def cow_demo_def)
  then show f: "free_frames cow_demo = {1..<65}" by (simp add: free_frames_def)
  show "pmm_inv cow_demo" unfolding pmm_inv_def f u by (simp add: nframes_def cow_demo_def)
  have "pte_present (demo_pte 0)" "\<not> pte_large (demo_pte 0)" "p_frame (demo_pte 0) = 0"
    by (simp_all add: pte_present_def pte_large_def demo_pte_def PTE_PRESENT_def PTE_SIZE_def)
  then show "at_path (tables cow_demo) f (vpath vpn) = Some 0"
    by (simp add: cow_demo_def vpath_def)
qed

theorem cow_fault_isolates_witness:
  "\<exists>s' n. do_page_fault Map.empty 0 (regs_zero\<lparr>error_code := 7\<rparr>) cow_demo = Some s' \<and>
    n \<in> {1..<65} \<and> pages s' = Some (\<lambda>f. if f = 0 \<or> f = n then 1 else 0)"
proof -
  let ?e = "demo_pte 0"
  have "p_frame ?e = 0" by (simp add: demo_pte_def)
  then have e: "?e = tables cow_demo 0 (pt_index 0 (drop_bit 12 0))" "pte_frame ?e = 0"
    by (simp_all add: cow_demo_def pte_frame_def)
  have ar: "vmas cow_demo 1 = Some \<lparr>vm_start = 0, vm_end = 4096, vm_prot = 2, vm_file = 0, vm_offset = 0\<rparr>"
    "vm_prot \<lparr>vm_start = 0, vm_end = 4096, vm_prot = 2, vm_file = 0, vm_offset = 0\<rparr> AND PROT_WRITE \<noteq> 0"
    by (simp_all add: cow_demo_def PROT_WRITE_def)
  have pg: "pages cow_demo = Some (\<lambda>f. if f = 0 then 2 else 0)"
    "unat (first_frame cow_demo) + nframes cow_demo \<le> 2 ^ 28"
    by (simp_all add: cow_demo_def nframes_def)
  have t: "task_of cow_demo (current cow_demo) = Some (demo_task TASK_RUNNING)"
    by (simp add: cow_demo_def demo_tasks_def)
  have "\<exists>s' n. do_page_fault Map.empty 0 (regs_zero\<lparr>error_code := 7\<rparr>) cow_demo = Some s' \<and>
    unat n \<in> free_frames cow_demo \<and> n \<noteq> 0 \<and>
    tables s' = (tables cow_demo)(0 := (tables cow_demo 0)(pt_index 0 (drop_bit 12 0) :=
      write_enable (?e\<lparr>p_frame := ucast n\<rparr>))) \<and>
    pages s' = Some ((\<lambda>f. if f = 0 then 2 else 0)(unat n := 1, unat (0 :: u64) := (\<lambda>f. if f = 0 then 2 else 0) (unat (0 :: u64)) - 1)) \<and>
    same_page_bytes 0 n (mem cow_demo) (mem s') \<and>
    (\<forall>x. x < unat (page_at n) \<or> unat (page_at n) + 4096 \<le> x \<longrightarrow> mem s' x = mem cow_demo x)"
    by (rule cow_fault_isolates [OF _ _ _ _ cow_demo_facts(1) ar t cow_demo_facts(4) e(1) e(2) [symmetric] _ pg(1) _
        cow_demo_facts(2)]) (use cow_demo_facts(3) pg(2) in \<open>simp_all add: bit_simps bit_numeral_rec\<close>)
  then show ?thesis unfolding cow_demo_facts(3) by (elim exE conjE) (intro exI conjI, assumption, assumption, auto)
qed

text \<open>C28: \<open>mm_add_area\<close> keeps the task's areas sorted by their start address: the new area goes
  where it belongs with the fields it was given, and the others stay as they are.\<close>

theorem mm_add_area_sorted:
  fixes s :: "'z kstate_scheme"
  assumes "areas s (current s) vs" "sorted_areas s vs" "\<forall>v \<in> set vs. vm_start (area_of s v) \<noteq> st"
    "heap_inv s" "grow_ready (Suc k) s"
  shows "\<exists>s' a as bs. mm_add_area st sz prot fl off s = Some (0, s') \<and> vs = as @ bs \<and>
    areas s' (current s') (as @ a # bs) \<and> sorted_areas s' (as @ a # bs) \<and>
    area_of s' a = \<lparr>vm_start = st, vm_end = st + sz, vm_prot = prot, vm_file = fl, vm_offset = off\<rparr> \<and>
    (\<forall>v \<in> set vs. area_of s' v = area_of s v) \<and> current s' = current s \<and>
    heap_inv s' \<and> grow_ready k s'"
  by (rule mm_add_area_spec [OF assms])

theorem mm_add_area_sorted_witness:
  "\<exists>s s' :: kstate. \<exists>a. areas s (current s) [] \<and> mm_add_area 4096 100 1 0 0 s = Some (0, s') \<and>
    areas s' (current s') [a] \<and> vm_end (area_of s' a) = 4196"
proof -
  obtain s :: kstate where s: "heap_inv s" "grow_ready 10 s" "lnk s = list_init (Vm_areas 8192) demo_links"
    "current s = 8192"
    using kstate_demo [where c = 8192] by metis
  have "areas s (current s) []" "sorted_areas s []" using s by (simp_all add: areas_def dlist_def sorted_areas_def)
  moreover have "grow_ready (Suc 9) s" using s(2) by simp
  ultimately have "\<exists>s' a as bs. mm_add_area 4096 100 1 0 0 s = Some (0, s') \<and> [] = as @ bs \<and>
    areas s' (current s') (as @ a # bs) \<and> sorted_areas s' (as @ a # bs) \<and>
    area_of s' a = \<lparr>vm_start = 4096, vm_end = 4096 + 100, vm_prot = 1, vm_file = 0, vm_offset = 0\<rparr> \<and>
    (\<forall>v \<in> set []. area_of s' v = area_of s v) \<and> current s' = current s \<and>
    heap_inv s' \<and> grow_ready 9 s'"
    using s(1) by (intro mm_add_area_sorted) auto
  then obtain s' a where "mm_add_area 4096 100 1 0 0 s = Some (0, s')" "areas s' (current s') [a]"
    "vm_end (area_of s' a) = 4196" by auto
  then show ?thesis using \<open>areas s (current s) []\<close> by blast
qed

text \<open>\<open>mm_find_area\<close> always returns, with the first area of the list that contains the address,
  counted up to the end of its last page.\<close>

theorem mm_find_area_first:
  assumes "areas s (current s) vs"
  shows "mm_find_area address s = Some (find (\<lambda>v. in_area address (area_of s v)) vs)"
  by (rule mm_find_area_eq [OF assms])

theorem mm_find_area_first_witness:
  "\<exists>s :: kstate. mm_find_area 4096 s = Some None"
proof -
  obtain s :: kstate where s: "lnk s = list_init (Vm_areas 8192) demo_links" "current s = 8192"
    using kstate_demo [where c = 8192] by metis
  then have "areas s (current s) []" by (simp add: areas_def dlist_def)
  from mm_find_area_first [OF this, of 4096] show ?thesis by auto
qed

end
