(* ===== verification/Elf.thy ===== *)
theory Elf
  imports Fs
begin

text \<open>
  The parts of \<open>src/src/include/elf.h\<close> the kernel uses: the 64-bit file header and program
  header as they lie in memory, and the constants the loader compares with.
\<close>

section \<open>Little-endian words in memory\<close>

definition load16 :: "nat \<Rightarrow> mem \<Rightarrow> u16" where
  "load16 a m = ucast (m a) OR push_bit 8 (ucast (m (a + 1)))"

definition load64 :: "nat \<Rightarrow> mem \<Rightarrow> u64" where
  "load64 a m = ucast (load32 a m) OR push_bit 32 (ucast (load32 (a + 4) m))"

definition store16 :: "nat \<Rightarrow> u16 \<Rightarrow> mem \<Rightarrow> mem" where
  "store16 a v m = m(a := ucast v, a + 1 := ucast (drop_bit 8 v))"

definition store64 :: "nat \<Rightarrow> u64 \<Rightarrow> mem \<Rightarrow> mem" where
  "store64 a v m = store32 (a + 4) (ucast (drop_bit 32 v)) (store32 a (ucast v) m)"

section \<open>Constants\<close>

definition EI_NIDENT :: nat where [const_defs]: "EI_NIDENT = 16"
definition ELFMAG :: "u8 list" where [const_defs]: "ELFMAG = [0x7f, 69, 76, 70]"
definition SELFMAG :: nat where [const_defs]: "SELFMAG = 4"
definition EI_CLASS :: nat where [const_defs]: "EI_CLASS = 4"
definition ELFCLASS64 :: u8 where [const_defs]: "ELFCLASS64 = 2"
definition EI_DATA :: nat where [const_defs]: "EI_DATA = 5"
definition ELFDATA2LSB :: u8 where [const_defs]: "ELFDATA2LSB = 1"
definition EI_VERSION :: nat where [const_defs]: "EI_VERSION = 6"
definition ET_EXEC :: u16 where [const_defs]: "ET_EXEC = 2"
definition EM_X86_64 :: u16 where [const_defs]: "EM_X86_64 = 62"
definition EV_CURRENT :: nat where [const_defs]: "EV_CURRENT = 1"
definition PT_NULL :: u32 where [const_defs]: "PT_NULL = 0"
definition PT_LOAD :: u32 where [const_defs]: "PT_LOAD = 1"
definition PT_NOTE :: u32 where [const_defs]: "PT_NOTE = 4"
definition PT_GNU_STACK :: u32 where [const_defs]: "PT_GNU_STACK = 0x6474e551"
definition PF_X :: u32 where [const_defs]: "PF_X = 1"
definition PF_W :: u32 where [const_defs]: "PF_W = 2"
definition PF_R :: u32 where [const_defs]: "PF_R = 4"

section \<open>Headers\<close>

record elf64_ehdr =
  e_ident :: "u8 list"
  e_type :: u16
  e_machine :: u16
  e_version :: u32
  e_entry :: u64
  e_phoff :: u64
  e_shoff :: u64
  e_flags :: u32
  e_ehsize :: u16
  e_phentsize :: u16
  e_phnum :: u16
  e_shentsize :: u16
  e_shnum :: u16
  e_shstrndx :: u16

record elf64_phdr =
  ph_type :: u32
  ph_flags :: u32
  ph_offset :: u64
  ph_vaddr :: u64
  ph_paddr :: u64
  ph_filesz :: u64
  ph_memsz :: u64
  ph_align :: u64

definition sizeof_ehdr :: nat where "sizeof_ehdr = 64"
definition sizeof_phdr :: nat where "sizeof_phdr = 56"

text \<open>The structures at an address.\<close>

definition get_ehdr :: "nat \<Rightarrow> mem \<Rightarrow> elf64_ehdr" where
  "get_ehdr a m =
    \<lparr>e_ident = map (\<lambda>i. m (a + i)) [0..<EI_NIDENT], e_type = load16 (a + 16) m,
     e_machine = load16 (a + 18) m, e_version = load32 (a + 20) m, e_entry = load64 (a + 24) m,
     e_phoff = load64 (a + 32) m, e_shoff = load64 (a + 40) m, e_flags = load32 (a + 48) m,
     e_ehsize = load16 (a + 52) m, e_phentsize = load16 (a + 54) m, e_phnum = load16 (a + 56) m,
     e_shentsize = load16 (a + 58) m, e_shnum = load16 (a + 60) m, e_shstrndx = load16 (a + 62) m\<rparr>"

definition get_phdr :: "nat \<Rightarrow> mem \<Rightarrow> elf64_phdr" where
  "get_phdr a m =
    \<lparr>ph_type = load32 a m, ph_flags = load32 (a + 4) m, ph_offset = load64 (a + 8) m,
     ph_vaddr = load64 (a + 16) m, ph_paddr = load64 (a + 24) m, ph_filesz = load64 (a + 32) m,
     ph_memsz = load64 (a + 40) m, ph_align = load64 (a + 48) m\<rparr>"

end
