(* ===== verification/Process.thy ===== *)
theory Process
  imports Mm Elf
begin

text \<open>
  Processes, \<open>src/src/kernel/process.c\<close>: the idle task and the task-state segment, \<open>fork\<close>,
  kernel threads, \<open>exit\<close>, loading a program, and the system calls on file descriptors.

  The locals \<open>ehdr\<close> and \<open>phdr\<close> of \<open>do_exec_elf\<close> lie on the kernel stack, into which
  \<open>vfs_read\<close> writes: their addresses are parameters.  A path is its characters.
\<close>

section \<open>Constants\<close>

definition sizeof_regs :: nat where "sizeof_regs = 176"
definition sizeof_tss :: nat where "sizeof_tss = 104"
definition STACK_START :: u64 where "STACK_START = MEM_BOTTOM_HALF"
definition STACK_SIZE :: u64 where "STACK_SIZE = 4096"
definition PDT_SIZE :: nat where "PDT_SIZE = 10"

text \<open>A line of output.\<close>

definition line :: "string \<Rightarrow> string" where
  "line s = s @ [CHR 0x0A]"

definition quoted :: "string \<Rightarrow> string" where
  "quoted s = s @ [CHR 0x27]"

text \<open>An \<open>int\<close> argument of \<open>printk\<close>.\<close>

definition int_arg :: "int \<Rightarrow> arg" where
  "int_arg i = Num (word_of_int i)"

section \<open>The idle task\<close>

text \<open>\<open>idle_addr\<close> is where the linker puts \<open>idle_task_stack\<close>, \<open>l4\<close> where it puts the kernel's
  top table.\<close>

definition zero_task :: task_t where
  "zero_task = \<lparr>t_pid = 0, timeslice = 0, t_state = 0, exit_code = 0, t_page_dir = 0,
     resume_at = In_schedule 0, pdt = replicate PDT_SIZE 0\<rparr>"

definition init_idle :: "nat \<Rightarrow> u64 \<Rightarrow> 'z kstate_scheme \<Rightarrow> 'z kstate_scheme option" where
  "init_idle idle_addr l4 s =
    do {
      let s1 = s\<lparr>idle := idle_addr, task_of := (task_of s)(idle_addr \<mapsto>
        zero_task\<lparr>t_page_dir := P2V (V2P_IMAGE l4), t_pid := 0, t_state := TASK_RUNNING,
          timeslice := 1\<rparr>)\<rparr>;
      let s2 = on_links (list_init (Vm_areas idle_addr)) s1;
      let s3 = on_links (list_init (Tasks idle_addr)) s2;
      let s4 = on_links (list_init (Running idle_addr)) s3;
      s5 \<leftarrow> set_need_resched s4;
      Some (s5\<lparr>next_free_pid := 1\<rparr>)
    }"

text \<open>The descriptor of the task-state segment is written into the table of descriptors byte by
  byte; the last four bytes stay.\<close>

definition tss_descriptor :: "nat \<Rightarrow> u64 \<Rightarrow> mem \<Rightarrow> mem" where
  "tss_descriptor e tss m =
    (let m1 = store16 e (of_nat (sizeof_tss - 1)) m;
         m2 = store16 (e + 2) (ucast (tss AND 0xffff)) m1;
         m3 = m2(e + 4 := ucast (drop_bit 16 tss AND 0xff));
         m4 = m3(e + 5 := 0x89);
         m5 = m4(e + 6 := 0);
         m6 = m5(e + 7 := ucast (drop_bit 24 tss AND 0xff))
     in store32 (e + 8) (ucast (drop_bit 32 tss)) m6)"

definition init_tss :: "nat \<Rightarrow> u64 \<Rightarrow> nat \<Rightarrow> 'z kstate_scheme \<Rightarrow> 'z kstate_scheme" where
  "init_tss gdt tss idle_stack s =
    s\<lparr>mem := tss_descriptor (gdt + unat TSS_SELECTOR) tss (mem s),
      tss_rsp0 := of_nat idle_stack + sizeof_task_stack\<rparr>"

section \<open>New tasks\<close>

text \<open>\<open>*p = *q\<close>: the copy has the list pointers of the original, too.\<close>

definition copy_node :: "node \<Rightarrow> node \<Rightarrow> node links \<Rightarrow> node links" where
  "copy_node new old k = set_nxt new (nxt k old) (set_prv new (prv k old) k)"

definition copy_task :: "nat \<Rightarrow> nat \<Rightarrow> 'z kstate_scheme \<Rightarrow> 'z kstate_scheme option" where
  "copy_task p q s =
    do {
      t \<leftarrow> task_of s q;
      let s1 = s\<lparr>task_of := (task_of s)(p \<mapsto> t)\<rparr>;
      Some (on_links (\<lambda>k. copy_node (Vm_areas p) (Vm_areas q) (copy_node (Waitq p) (Waitq q)
        (copy_node (Running p) (Running q) (copy_node (Tasks p) (Tasks q) k)))) s1)
    }"

text \<open>\<open>next_free_pid++\<close> wraps as an \<open>int\<close>.\<close>

definition take_pid :: "'z kstate_scheme \<Rightarrow> (int \<times> 'z kstate_scheme) option" where
  "take_pid s =
    do {
      let pid = next_free_pid s;
      let s1 = s\<lparr>next_free_pid := sint (word_of_int (pid + 1) :: u32)\<rparr>;
      BUG_ON (pid < 0);
      Some (pid, s1)
    }"

text \<open>A page for a task: a null pointer is written through.\<close>

definition alloc_task :: "nat \<Rightarrow> 'z kstate_scheme \<Rightarrow> (nat \<times> int \<times> 'z kstate_scheme) option" where
  "alloc_task q s =
    do {
      (pp, s1) \<leftarrow> alloc_page MAP_READWRITE s;
      BUG_ON (pp = 0);
      let p = unat pp;
      s2 \<leftarrow> copy_task p q s1;
      (pid, s3) \<leftarrow> take_pid s2;
      s4 \<leftarrow> set_task p (\<lambda>x. x\<lparr>t_pid := pid\<rparr>) s3;
      let s5 = on_links (list_add (Tasks q) (Tasks p)) s4;
      Some (p, pid, on_links (list_add (Running q) (Running p)) s5)
    }"

text \<open>When copying the address space fails the page is freed, and the task stays on both lists.\<close>

definition sys_fork :: "'z kstate_scheme \<Rightarrow> (int \<times> 'z kstate_scheme) option" where
  "sys_fork s =
    do {
      (p, pid, s1) \<leftarrow> alloc_task (current s) s;
      (ret, s2) \<leftarrow> clone_mm p s1;
      if ret < 0 then do {
        s3 \<leftarrow> free_page (of_nat p) s2;
        Some (ret, s3\<lparr>task_of := (task_of s3)(p := None)\<rparr>)
      }
      else do {
        let s3 = s2\<lparr>user_regs := (user_regs s2)(p := (user_regs s2 (current s2))\<lparr>reg_rax := 0\<rparr>)\<rparr>;
        s4 \<leftarrow> set_task p (\<lambda>x. x\<lparr>resume_at := Ret_from_fork\<rparr>) s3;
        Some (pid, s4)
      }
    }"

text \<open>The stack a kernel thread starts on: its argument on top, then the function, a guard and
  padding (\<open>sizeof(regs_t)\<close> is a multiple of 16).\<close>

definition thread_stack :: "nat \<Rightarrow> u64 \<Rightarrow> u64 \<Rightarrow> mem \<Rightarrow> nat \<times> mem" where
  "thread_stack p fn data m =
    (let rsp = p + 4096 - sizeof_regs;
         m1 = store64 (rsp - 8) 0 m;
         m2 = store64 (rsp - 16) 0xffffffffffff1234 m1;
         m3 = store64 (rsp - 24) fn m2
     in (rsp - 32, store64 (rsp - 32) data m3))"

definition kernel_thread :: "u64 \<Rightarrow> u64 \<Rightarrow> 'z kstate_scheme \<Rightarrow> (int \<times> 'z kstate_scheme) option" where
  "kernel_thread fn data s =
    do {
      (p, pid, s1) \<leftarrow> alloc_task (idle s) s;
      let s2 = on_links (list_init (Vm_areas p)) s1;
      s3 \<leftarrow> set_task p (\<lambda>x. x\<lparr>timeslice := 10, resume_at := Kernel_thread_start fn data\<rparr>) s2;
      Some (pid, s3\<lparr>mem := snd (thread_stack p fn data (mem s3))\<rparr>)
    }"

section \<open>Exit\<close>

text \<open>The state is the one in which the next task runs; a return of \<open>schedule\<close> to the zombie
  would be a bug.\<close>

definition sys_exit :: "'z kstate_scheme \<Rightarrow> 'z kstate_scheme option" where
  "sys_exit s =
    do {
      let c = current s;
      t \<leftarrow> task_of s c;
      BUG_ON (t_pid t = 1);
      s1 \<leftarrow> set_task c (\<lambda>x. x\<lparr>t_state := TASK_ZOMBIE\<rparr>) s;
      s2 \<leftarrow> free_mm s1;
      s3 \<leftarrow> schedule s2;
      BUG_ON (current s3 = c);
      Some s3
    }"

section \<open>Loading a program\<close>

definition elf_flags_to_mmap_prot :: "u32 \<Rightarrow> u32" where
  "elf_flags_to_mmap_prot flags =
    (let r1 = (if flags AND PF_R \<noteq> 0 then PROT_READ else 0);
         r2 = (if flags AND PF_W \<noteq> 0 then r1 OR PROT_WRITE else r1)
     in if flags AND PF_X \<noteq> 0 then r2 OR PROT_EXEC else r2)"

text \<open>\<open>vfs_close(f); printk(...); return e\<close>.\<close>

definition exec_fail ::
  "'z kstate_scheme drivers \<Rightarrow> nat \<Rightarrow> string \<Rightarrow> arg list \<Rightarrow> int \<Rightarrow> 'z kstate_scheme \<Rightarrow>
     (int \<times> 'z kstate_scheme) option" where
  "exec_fail drv f fmt args e s =
    do {
      (r, s1) \<leftarrow> vfs_close drv f s;
      s2 \<leftarrow> kprintk (line (''do_exec_elf: '' @ fmt)) args s1;
      Some (e, s2)
    }"

text \<open>Some exits do not close the file.\<close>

definition exec_fail_open :: "string \<Rightarrow> arg list \<Rightarrow> int \<Rightarrow> 'z kstate_scheme \<Rightarrow> (int \<times> 'z kstate_scheme) option" where
  "exec_fail_open fmt args e s =
    do {
      s2 \<leftarrow> kprintk (line (''do_exec_elf: '' @ fmt)) args s;
      Some (e, s2)
    }"

text \<open>A pointer stored in an \<open>int\<close> and tested with \<open>IS_ERR(ERR_PTR(ret))\<close>.\<close>

definition ptr_int :: "u64 \<Rightarrow> int" where
  "ptr_int p = sint (ucast p :: u32)"

definition round_page_up32 :: "u32 \<Rightarrow> u32" where
  "round_page_up32 x = (x + 4096 - 1) AND NOT 4095"

text \<open>A segment to load.  The message for a bad address has one conversion more than arguments.  A result \<open>Some e\<close> is an early return; the second mapping's error
  is never noticed (\<open>IS_ERR(...) < 0\<close>).\<close>

definition exec_load ::
  "'z kstate_scheme drivers \<Rightarrow> string \<Rightarrow> nat \<Rightarrow> elf64_phdr \<Rightarrow> int \<Rightarrow> 'z kstate_scheme \<Rightarrow>
     (int option \<times> 'z kstate_scheme) option" where
  "exec_load drv path f ph i s =
    (if ph_filesz ph > ph_memsz ph then
       map_option (map_prod Some id) (exec_fail drv f (quoted ''File size > mem size in segment %d '%s'') [int_arg i, Text (Some path)]
         (- errno_code ENOEXEC) s)
     else
       let offset_in_page = (ucast (ph_offset ph AND 4095) :: u32)
       in if ph_vaddr ph AND 4095 \<noteq> ucast offset_in_page then
            map_option (map_prod Some id) (exec_fail drv f (quoted ''Bad offsets in segment %d '%s'') [int_arg i, Text (Some path)]
              (- errno_code ENOEXEC) s)
          else
            let file_offset = (ucast (ph_offset ph - ucast offset_in_page) :: u32);
                virt_addr = ph_vaddr ph - ucast offset_in_page;
                read_size = (ucast (ph_filesz ph + ucast offset_in_page) :: u32);
                mem_size = (ucast (ph_memsz ph + ucast offset_in_page) :: u32)
            in if virt_addr > MEM_BOTTOM_HALF then
                 map_option (map_prod Some id) (exec_fail_open ''Bad virt addr %p in segment %d '%s' (%d)''
                   [Num virt_addr, int_arg i, Text (Some path)] (- errno_code ENOEXEC) s)
               else do {
                 let prot = elf_flags_to_mmap_prot (ph_flags ph);
                 (ptr, s1) \<leftarrow> do_mmap f (ucast file_offset) virt_addr (ucast read_size) prot
                   (MAP_PRIVATE OR MAP_FIXED) s;
                 let ret = ptr_int ptr;
                 if IS_ERR (ERR_PTR ret) then
                   map_option (map_prod Some id) (exec_fail_open ''do_mmap(file) failed in segment %d '%s' (%d)''
                     [int_arg i, Text (Some path), int_arg ret] ret s1)
                 else if mem_size > round_page_up32 read_size then do {
                   (ptr2, s2) \<leftarrow> do_mmap 0 0 (virt_addr + ucast (round_page_up32 read_size))
                     (ucast (mem_size - round_page_up32 read_size)) prot (MAP_PRIVATE OR MAP_FIXED) s1;
                   Some (None, s2)
                 }
                 else Some (None, s1)
               })"

text \<open>The loop over the program headers: an early return, or the flags of the stack.\<close>

fun exec_segments ::
  "'z kstate_scheme drivers \<Rightarrow> string \<Rightarrow> nat \<Rightarrow> nat \<Rightarrow> u64 \<Rightarrow> nat \<Rightarrow> nat \<Rightarrow> u32 \<Rightarrow> 'z kstate_scheme \<Rightarrow>
     ((int + u32) \<times> 'z kstate_scheme) option" where
  "exec_segments drv path f phdr_at phoff i 0 stack_flags s = Some (Inr stack_flags, s)"
| "exec_segments drv path f phdr_at phoff i (Suc n) stack_flags s =
    do {
      (r1, s1) \<leftarrow> vfs_lseek f (ucast (phoff + of_nat (i * sizeof_phdr))) SEEK_SET s;
      if r1 < 0 then map_option (map_prod Inl id) (exec_fail drv f ''Can't seek past EOF '%s' (%d)''
        [Text (Some path), int_arg r1] r1 s1)
      else do {
        (r2, s2) \<leftarrow> vfs_read drv f phdr_at (of_nat sizeof_phdr) s1;
        if r2 < 0 then map_option (map_prod Inl id) (exec_fail drv f ''Can't read segment %d '%s' (%d)''
          [int_arg (int i), Text (Some path), int_arg r2] r2 s2)
        else if r2 \<noteq> int sizeof_phdr then map_option (map_prod Inl id) (exec_fail drv f
          ''Can't read full segment %d '%s' (%d)'' [int_arg (int i), Text (Some path), int_arg r2]
          (- errno_code ENOEXEC) s2)
        else
          let ph = get_phdr phdr_at (mem s2)
          in if ph_type ph = PT_NULL \<or> ph_type ph = PT_NOTE then
               exec_segments drv path f phdr_at phoff (Suc i) n stack_flags s2
             else if ph_type ph = PT_LOAD then do {
               (early, s3) \<leftarrow> exec_load drv path f ph (int i) s2;
               (case early of
                  Some e \<Rightarrow> Some (Inl e, s3)
                | None \<Rightarrow> exec_segments drv path f phdr_at phoff (Suc i) n stack_flags s3)
             }
             else if ph_type ph = PT_GNU_STACK then
               exec_segments drv path f phdr_at phoff (Suc i) n (ph_flags ph) s2
             else map_option (map_prod Inl id) (exec_fail drv f (quoted ''Unknown segment type %d in segment %d '%s'')
               [Num (ucast (ph_type ph)), int_arg (int i), Text (Some path)] (- errno_code ENOEXEC) s2)
      }
    }"

text \<open>\<open>memcmp\<close> compares the first byte only (theory \<open>CString\<close>): it is called here on the
  header and on the constant \<open>ELFMAG\<close>.\<close>

definition bad_ident :: "nat \<Rightarrow> nat \<Rightarrow> elf64_ehdr \<Rightarrow> mem \<Rightarrow> bool" where
  "bad_ident ehdr_at elfmag_at eh m \<longleftrightarrow>
     memcmp ehdr_at elfmag_at (of_nat SELFMAG) m \<noteq> 0 \<or> e_ident eh ! EI_CLASS \<noteq> ELFCLASS64 \<or>
     e_ident eh ! EI_DATA \<noteq> ELFDATA2LSB \<or> e_ident eh ! EI_VERSION \<noteq> of_nat EV_CURRENT"

definition bad_machine :: "elf64_ehdr \<Rightarrow> bool" where
  "bad_machine eh \<longleftrightarrow>
     e_type eh \<noteq> ET_EXEC \<or> e_machine eh \<noteq> EM_X86_64 \<or> e_version eh \<noteq> of_nat EV_CURRENT \<or>
     e_phoff eh = 0"

text \<open>The registers a program starts with.\<close>

definition exec_regs :: "u64 \<Rightarrow> regs \<Rightarrow> regs" where
  "exec_regs entry r =
    r\<lparr>reg_rax := 0, reg_rbx := 0, reg_rcx := 0, reg_rdx := 0, reg_rsi := 0, reg_rdi := 0, reg_rbp := 0,
      reg_r8 := 0, reg_r9 := 0, reg_r10 := 0, reg_r11 := 0, reg_r12 := 0, reg_r13 := 0, reg_r14 := 0,
      reg_r15 := 0, reg_cs := ucast USER_CS, reg_ss := ucast USER_DS, reg_rip := entry,
      reg_rsp := STACK_START, reg_rflags := push_bit 9 1 OR push_bit 1 1\<rparr>"

definition do_exec_elf ::
  "'z kstate_scheme drivers \<Rightarrow> nat \<Rightarrow> nat \<Rightarrow> nat \<Rightarrow> string \<Rightarrow> 'z kstate_scheme \<Rightarrow>
     (int \<times> 'z kstate_scheme) option" where
  "do_exec_elf drv elfmag_at ehdr_at phdr_at path s =
    do {
      (r, s1) \<leftarrow> vfs_open drv path O_RDONLY s;
      (case r of
         Inl e \<Rightarrow> exec_fail_open ''Can't open file '%s' (%d)'' [Text (Some path), int_arg e] e s1
       | Inr f \<Rightarrow> do {
           (n, s2) \<leftarrow> vfs_read drv f ehdr_at (of_nat sizeof_ehdr) s1;
           let eh = get_ehdr ehdr_at (mem s2);
           if n < 0 then exec_fail drv f ''Can't read ELF header '%s' (%d)'' [Text (Some path), int_arg n] n s2
           else if n \<noteq> int sizeof_ehdr then exec_fail drv f ''Can't read full ELF header '%s' (%d)''
             [Text (Some path), int_arg n] (- errno_code ENOEXEC) s2
           else if bad_ident ehdr_at elfmag_at eh (mem s2) then exec_fail drv f (quoted ''Not an ELF file '%s'')
             [Text (Some path)] (- errno_code ENOEXEC) s2
           else if bad_machine eh then exec_fail drv f (quoted ''Not an x86-64 executable ELF file '%s'')
             [Text (Some path)] (- errno_code ENOEXEC) s2
           else do {
             (res, s3) \<leftarrow> exec_segments drv path f phdr_at (e_phoff eh) 0 (unat (e_phnum eh))
               (PF_R OR PF_W OR PF_X) s2;
             (case res of
                Inl e \<Rightarrow> Some (e, s3)
              | Inr stack_flags \<Rightarrow> do {
                  (c, s4) \<leftarrow> vfs_close drv f s3;
                  (ptr, s5) \<leftarrow> do_mmap 0 0 (STACK_START - STACK_SIZE) STACK_SIZE
                    (elf_flags_to_mmap_prot stack_flags) (MAP_PRIVATE OR MAP_FIXED) s4;
                  let ret = ptr_int ptr;
                  if IS_ERR (ERR_PTR ret) then exec_fail_open ''do_mmap failed for stack '%s' (%d)''
                    [Text (Some path), int_arg ret] ret s5
                  else Some (0, s5\<lparr>user_regs := (user_regs s5)
                    (current s5 := exec_regs (e_entry eh) (user_regs s5 (current s5)))\<rparr>)
                })
           }
         })
    }"

text \<open>\<open>memset\<close> of the user half of the top table.\<close>

definition clear_user_half :: "u64 \<Rightarrow> 'z vmm_scheme \<Rightarrow> 'z vmm_scheme" where
  "clear_user_half l4 s =
    s\<lparr>tables := (tables s)(l4 := \<lambda>i. if i < user_entries then pte_zero else tables s l4 i)\<rparr>"

definition sys_exec ::
  "'z kstate_scheme drivers \<Rightarrow> nat \<Rightarrow> nat \<Rightarrow> nat \<Rightarrow> string \<Rightarrow> 'z kstate_scheme \<Rightarrow>
     (int \<times> 'z kstate_scheme) option" where
  "sys_exec drv elfmag_at ehdr_at phdr_at path s =
    do {
      (p, s1) \<leftarrow> kmalloc (of_nat (length path + 1)) s;
      BUG_ON (p = 0);
      let s2 = s1\<lparr>names := (names s1)(p \<mapsto> path)\<rparr>;
      s3 \<leftarrow> free_mm s2;
      t \<leftarrow> task_of s3 (current s3);
      let s4 = clear_user_half (frame_of (t_page_dir t)) s3;
      copy \<leftarrow> names s4 p;
      (ret, s5) \<leftarrow> do_exec_elf drv elfmag_at ehdr_at phdr_at copy s4;
      s6 \<leftarrow> free_obj p s5;
      Some (ret, s6)
    }"

text \<open>After a success \<open>kernel_exec\<close> does not return: it leaves through \<open>ret_from_interrupt\<close> with
  the registers at the end of the stack.  \<open>None\<close> in place of a result stands for that.\<close>

definition kernel_exec ::
  "'z kstate_scheme drivers \<Rightarrow> nat \<Rightarrow> nat \<Rightarrow> nat \<Rightarrow> string \<Rightarrow> 'z kstate_scheme \<Rightarrow>
     (int option \<times> 'z kstate_scheme) option" where
  "kernel_exec drv elfmag_at ehdr_at phdr_at path s =
    do {
      (ret, s1) \<leftarrow> do_exec_elf drv elfmag_at ehdr_at phdr_at path s;
      Some (if ret \<noteq> 0 then Some ret else None, s1)
    }"

section \<open>Other system calls\<close>

definition sys_getpid :: "'z kstate_scheme \<Rightarrow> int option" where
  "sys_getpid s = map_option t_pid (task_of s (current s))"

definition sys_pause :: "'z kstate_scheme \<Rightarrow> (int \<times> 'z kstate_scheme) option" where
  "sys_pause s =
    do {
      s1 \<leftarrow> set_need_resched (on_links (list_del (Running (current s))) s);
      Some (0, s1)
    }"

definition sys_yield :: "'z kstate_scheme \<Rightarrow> (int \<times> 'z kstate_scheme) option" where
  "sys_yield s = do { s1 \<leftarrow> set_need_resched s; Some (0, s1) }"

text \<open>The loop that looks for a free descriptor: its index, or 10.\<close>

fun free_fd :: "nat \<Rightarrow> nat list \<Rightarrow> nat" where
  "free_fd i [] = i"
| "free_fd i (f # fs) = (if f = 0 then i else free_fd (Suc i) fs)"

definition sys_open ::
  "'z kstate_scheme drivers \<Rightarrow> string \<Rightarrow> u32 \<Rightarrow> 'z kstate_scheme \<Rightarrow> (int \<times> 'z kstate_scheme) option" where
  "sys_open drv path flags s =
    do {
      t \<leftarrow> task_of s (current s);
      let i = free_fd 0 (pdt t);
      if i = PDT_SIZE then Some (- errno_code ENOMEM, s)
      else do {
        (r, s1) \<leftarrow> vfs_open drv path flags s;
        (case r of
           Inl e \<Rightarrow> Some (e, s1)
         | Inr f \<Rightarrow> do {
             s2 \<leftarrow> set_task (current s1) (\<lambda>x. x\<lparr>pdt := (pdt x)[i := f]\<rparr>) s1;
             Some (int i, s2)
           })
      }
    }"

text \<open>The checks the four calls on a descriptor begin with.\<close>

definition fd_file :: "int \<Rightarrow> 'z kstate_scheme \<Rightarrow> (errno + nat) option" where
  "fd_file fd s =
    (if fd < 0 \<or> int PDT_SIZE \<le> fd then Some (Inl EBADF)
     else do {
       t \<leftarrow> task_of s (current s);
       let f = pdt t ! nat fd;
       Some (if f = 0 then Inl EBADF else Inr f)
     })"

definition sys_close ::
  "'z kstate_scheme drivers \<Rightarrow> int \<Rightarrow> 'z kstate_scheme \<Rightarrow> (int \<times> 'z kstate_scheme) option" where
  "sys_close drv fd s =
    do {
      r \<leftarrow> fd_file fd s;
      (case r of
         Inl e \<Rightarrow> Some (- errno_code e, s)
       | Inr f \<Rightarrow> do {
           (err, s1) \<leftarrow> vfs_close drv f s;
           if err < 0 then Some (err, s1)
           else do {
             s2 \<leftarrow> set_task (current s1) (\<lambda>x. x\<lparr>pdt := (pdt x)[nat fd := 0]\<rparr>) s1;
             Some (0, s2)
           }
         })
    }"

definition sys_read ::
  "'z kstate_scheme drivers \<Rightarrow> int \<Rightarrow> nat \<Rightarrow> u32 \<Rightarrow> 'z kstate_scheme \<Rightarrow> (int \<times> 'z kstate_scheme) option" where
  "sys_read drv fd buf sz s =
    do {
      r \<leftarrow> fd_file fd s;
      (case r of Inl e \<Rightarrow> Some (- errno_code e, s) | Inr f \<Rightarrow> vfs_read drv f buf sz s)
    }"

definition sys_write ::
  "'z kstate_scheme drivers \<Rightarrow> int \<Rightarrow> nat \<Rightarrow> u32 \<Rightarrow> 'z kstate_scheme \<Rightarrow> (int \<times> 'z kstate_scheme) option" where
  "sys_write drv fd buf sz s =
    do {
      r \<leftarrow> fd_file fd s;
      (case r of Inl e \<Rightarrow> Some (- errno_code e, s) | Inr f \<Rightarrow> vfs_write drv f buf sz s)
    }"

definition sys_lseek :: "int \<Rightarrow> u32 \<Rightarrow> int \<Rightarrow> 'z kstate_scheme \<Rightarrow> (int \<times> 'z kstate_scheme) option" where
  "sys_lseek fd offset whence s =
    do {
      r \<leftarrow> fd_file fd s;
      (case r of Inl e \<Rightarrow> Some (- errno_code e, s) | Inr f \<Rightarrow> vfs_lseek f offset whence s)
    }"

definition sys_getdents ::
  "string \<Rightarrow> nat \<Rightarrow> u32 \<Rightarrow> int \<Rightarrow> 'z kstate_scheme \<Rightarrow> (int \<times> 'z kstate_scheme) option" where
  "sys_getdents path buf sz strt s = vfs_getdents path buf sz strt s"

definition sys_mkdir :: "string \<Rightarrow> 'z kstate_scheme \<Rightarrow> (int \<times> 'z kstate_scheme) option" where
  "sys_mkdir path s = vfs_mkdir path s"

definition sys_rmdir :: "string \<Rightarrow> 'z kstate_scheme \<Rightarrow> (int \<times> 'z kstate_scheme) option" where
  "sys_rmdir path s = vfs_rmdir path s"

definition sys_unlink :: "string \<Rightarrow> 'z kstate_scheme \<Rightarrow> (int \<times> 'z kstate_scheme) option" where
  "sys_unlink path s = vfs_unlink path s"

definition sys_mount :: "string \<Rightarrow> string \<Rightarrow> 'z kstate_scheme \<Rightarrow> (int \<times> 'z kstate_scheme) option" where
  "sys_mount fstype path s = vfs_mount fstype path s"

end
