(* ===== verification/ProcessProps.thy ===== *)
theory ProcessProps
  imports SchedProps MmProps FsFile FsDirent Process
begin

text \<open>
  Properties of processes: what \<open>kernel_thread\<close> creates, what is left of a task that exits, and
  the table of descriptors.  A frame is followed from the page allocator through the two
  addresses it has, the number in a page table and the kernel's address of its bytes.
\<close>

section \<open>Words in memory\<close>

lemma load32_store32_other:
  "b + 4 \<le> a \<or> a + 4 \<le> b \<Longrightarrow> load32 a (store32 b v m) = load32 a m"
  by (rule load32_cong) (auto simp: store32_def)

lemma load64_store64: "load64 a (store64 a v m) = v"
proof (rule bit_word_eqI)
  fix n assume n: "n < LENGTH(64)"
  have l: "load32 (a + 4) (store64 a v m) = ucast (drop_bit 32 v)" "load32 a (store64 a v m) = ucast v"
    by (simp_all add: store64_def load32_store32 load32_store32_other)
  show "bit (load64 a (store64 a v m)) n \<longleftrightarrow> bit v n"
    unfolding load64_def l using n by (cases "n < 32") (auto simp: bit_simps)
qed

lemma load64_store64_other:
  "b + 8 \<le> a \<or> a + 8 \<le> b \<Longrightarrow> load64 a (store64 b v m) = load64 a m"
proof -
  assume "b + 8 \<le> a \<or> a + 8 \<le> b"
  then have "load32 a (store64 b v m) = load32 a m" "load32 (a + 4) (store64 b v m) = load32 (a + 4) m"
    unfolding store64_def by (subst load32_store32_other; (subst load32_store32_other)?; auto)+
  then show ?thesis by (simp add: load64_def)
qed

section \<open>New tasks\<close>

lemma copy_node_dlist: "new \<notin> set (h # xs) \<Longrightarrow> dlist (copy_node new old k) h xs = dlist k h xs"
  by (rule dlist_cong) (auto simp: copy_node_def)

lemma task_page:
  assumes inv: "pmm_inv s" and free: "free_frames s \<noteq> {}" and small: "unat (first_frame s) + nframes s \<le> 2 ^ 28"
  obtains f s1 where "alloc_page fl s = Some (page_at f, s1)" "page_at f \<noteq> 0" "unat f \<in> free_frames s"
    "unat f < 2 ^ 28" "vmm.more s1 = vmm.more s" "tables s1 = tables s"
proof -
  obtain f s1 where f: "alloc_phys_page s = Some (f, s1)" "unat f = Min (free_frames s)"
    using alloc_phys_page_free [OF inv free] by metis
  have ff: "unat f \<in> free_frames s" using f(2) free by simp
  have f28: "unat f < 2 ^ 28" using ff small by (simp add: free_frames_def managed_def)
  have f0: "f \<noteq> 0" using ff inv by (auto simp: free_frames_def managed_def pmm_inv_def)
  have "page_at f \<noteq> 0"
  proof
    assume "page_at f = 0"
    then have "unat (page_at f) = 0" by simp
    then show False unfolding unat_page_at [OF f28] by (simp add: MEMORY_BASE_def)
  qed
  moreover have "alloc_page fl s = Some (page_at f, s1)" using f(1) f0 by (simp add: alloc_page_def page_at_def)
  ultimately show ?thesis using that ff f28 alloc_phys_page_vmm [OF f(1)] by blast
qed

text \<open>No free frame is the page of one of the given tasks.\<close>

definition off_free :: "'z kstate_scheme \<Rightarrow> nat set \<Rightarrow> bool" where
  "off_free s T \<longleftrightarrow> (\<forall>f. unat f \<in> free_frames s \<longrightarrow> unat (page_at f) \<notin> T)"

definition taskq :: "'z kstate_scheme \<Rightarrow> nat list \<Rightarrow> bool" where
  "taskq s us \<longleftrightarrow> dlist (lnk s) (Tasks (idle s)) (map Tasks us)"

lemma alloc_task_spec:
  fixes s :: "'z kstate_scheme"
  assumes inv: "pmm_inv s" "free_frames s \<noteq> {}" "unat (first_frame s) + nframes s \<le> 2 ^ 28"
    and rq: "runq s ts" "taskq s us" and off: "off_free s (set (idle s # ts @ us))"
    and t: "task_of s (idle s) = Some t" and pid: "0 \<le> next_free_pid s"
  shows "\<exists>p s'. alloc_task (idle s) s = Some (p, next_free_pid s, s') \<and> p \<notin> set (idle s # ts @ us) \<and>
    runq s' (p # ts) \<and> taskq s' (p # us) \<and>
    task_of s' = (task_of s)(p \<mapsto> t\<lparr>t_pid := next_free_pid s\<rparr>) \<and> idle s' = idle s \<and>
    current s' = current s \<and> mem s' = mem s \<and> 4096 \<le> p"
proof -
  let ?i = "idle s"
  obtain f and s1 :: "'z kstate_scheme" where f: "alloc_page MAP_READWRITE s = Some (page_at f, s1)"
    "page_at f \<noteq> 0" "unat f \<in> free_frames s" "unat f < 2 ^ 28" "vmm.more s1 = vmm.more s" "tables s1 = tables s"
    using task_page [OF inv] .
  define p where "p = unat (page_at f)"
  have pn: "p \<notin> set (?i # ts @ us)" using off f(3) by (auto simp: off_free_def p_def)
  have p4: "4096 \<le> p" unfolding p_def unat_page_at [OF f(4)] by (simp add: MEMORY_BASE_def)
  have m: "lnk s1 = lnk s" "task_of s1 = task_of s" "idle s1 = idle s" "current s1 = current s"
    "next_free_pid s1 = next_free_pid s" "mem s1 = mem s"
    using f(5) by (cases s; cases s1; simp)+
  define k where "k = copy_node (Vm_areas p) (Vm_areas ?i) (copy_node (Waitq p) (Waitq ?i)
        (copy_node (Running p) (Running ?i) (copy_node (Tasks p) (Tasks ?i) (lnk s))))"
  define s2 where "s2 = on_links (\<lambda>k. copy_node (Vm_areas p) (Vm_areas ?i) (copy_node (Waitq p) (Waitq ?i)
        (copy_node (Running p) (Running ?i) (copy_node (Tasks p) (Tasks ?i) k))))
        (s1\<lparr>task_of := (task_of s1)(p \<mapsto> t)\<rparr>)"
  have ct: "copy_task p ?i s1 = Some s2" using t by (simp add: copy_task_def s2_def m)
  define s4 where "s4 = s2\<lparr>next_free_pid := sint (word_of_int (next_free_pid s + 1) :: u32),
    task_of := (task_of s2)(p \<mapsto> t\<lparr>t_pid := next_free_pid s\<rparr>)\<rparr>"
  define s' where "s' = on_links (list_add (Running ?i) (Running p)) (on_links (list_add (Tasks ?i) (Tasks p)) s4)"
  have np: "next_free_pid s2 = next_free_pid s" "task_of s2 p = Some t"
    by (simp_all add: s2_def on_links_def m)
  have al: "alloc_task ?i s = Some (p, next_free_pid s, s')"
    using f(1,2) ct np pid
    by (simp add: alloc_task_def Let_def p_def [symmetric] take_pid_def set_task_def s4_def s'_def)
  have kr: "dlist k (Running ?i) (map Running ts)" and kt: "dlist k (Tasks ?i) (map Tasks us)"
    using rq pn unfolding k_def runq_def taskq_def by (simp_all add: copy_node_dlist image_iff)
  have l4: "lnk s4 = k" by (simp add: s4_def s2_def on_links_def k_def m)
  have l': "lnk s' = list_add (Running ?i) (Running p) (list_add (Tasks ?i) (Tasks p) k)"
    by (simp add: s'_def l4)
  let ?k1 = "list_add (Tasks ?i) (Tasks p) k"
  have t1: "dlist ?k1 (Tasks ?i) (map Tasks (p # us))"
    using dl.front_holds [OF kt, of "Tasks p"] pn by auto
  have r1: "dlist ?k1 (Running ?i) (map Running ts)"
    by (rule dl.front_frame [OF kt kr]) (use pn in auto)
  have "dlist (lnk s') (Running ?i) (map Running (p # ts))"
    unfolding l' using dl.front_holds [OF r1, of "Running p"] pn by auto
  moreover have "dlist (lnk s') (Tasks ?i) (map Tasks (p # us))"
    unfolding l' by (rule dl.front_frame [OF r1 t1]) (use pn in auto)
  moreover have "idle s' = ?i" "current s' = current s" "mem s' = mem s"
    "task_of s' = (task_of s)(p \<mapsto> t\<lparr>t_pid := next_free_pid s\<rparr>)"
    by (simp_all add: s'_def s4_def s2_def on_links_def m)
  ultimately show ?thesis using al pn p4 by (auto simp: runq_def taskq_def)
qed

lemma kernel_thread_spec:
  fixes s :: "'z kstate_scheme"
  assumes inv: "pmm_inv s" "free_frames s \<noteq> {}" "unat (first_frame s) + nframes s \<le> 2 ^ 28"
    and rq: "runq s ts" "taskq s us" and off: "off_free s (set (idle s # ts @ us))"
    and t: "task_of s (idle s) = Some t" and pid: "0 \<le> next_free_pid s"
  shows "\<exists>p s'. kernel_thread fn data s = Some (next_free_pid s, s') \<and> p \<notin> set (idle s # ts @ us) \<and>
    runq s' (p # ts) \<and> taskq s' (p # us) \<and> dlist (lnk s') (Vm_areas p) [] \<and>
    task_of s' = (task_of s)(p \<mapsto> t\<lparr>t_pid := next_free_pid s, timeslice := 10,
      resume_at := Kernel_thread_start fn data\<rparr>) \<and>
    (let sp = fst (thread_stack p fn data (mem s)) in
      load64 sp (mem s') = data \<and> load64 (sp + 8) (mem s') = fn \<and>
      load64 (sp + 16) (mem s') = 0xffffffffffff1234 \<and> p \<le> sp \<and> sp + 24 \<le> p + 4096) \<and>
    (\<forall>x. x < p \<or> p + 4096 \<le> x \<longrightarrow> mem s' x = mem s x)"
proof -
  obtain p s1 where a: "alloc_task (idle s) s = Some (p, next_free_pid s, s1)" "p \<notin> set (idle s # ts @ us)"
    "runq s1 (p # ts)" "taskq s1 (p # us)" "task_of s1 = (task_of s)(p \<mapsto> t\<lparr>t_pid := next_free_pid s\<rparr>)"
    "idle s1 = idle s" "current s1 = current s" "mem s1 = mem s" "4096 \<le> p"
    using alloc_task_spec [OF assms] by (elim exE conjE) (rule that)
  let ?t = "t\<lparr>t_pid := next_free_pid s, timeslice := 10, resume_at := Kernel_thread_start fn data\<rparr>"
  define s2 where "s2 = on_links (list_init (Vm_areas p)) s1"
  define s' where "s' = s2\<lparr>task_of := (task_of s2)(p \<mapsto> ?t), mem := snd (thread_stack p fn data (mem s2))\<rparr>"
  have r: "kernel_thread fn data s = Some (next_free_pid s, s')"
    using a(1,5) by (simp add: kernel_thread_def set_task_def s2_def [symmetric] s'_def) (simp add: s2_def)
  have l: "lnk s' = list_init (Vm_areas p) (lnk s1)" by (simp add: s'_def s2_def)
  have keep: "dlist (list_init (Vm_areas p) k) h xs = dlist k h xs" if "Vm_areas p \<notin> set (h # xs)" for k h xs
    by (rule dlist_cong) (use that in auto)
  have i': "idle s' = idle s1" by (simp add: s'_def s2_def)
  have "runq s' (p # ts)" unfolding runq_def l i' by (subst keep) (use a(3) in \<open>auto simp: runq_def\<close>)
  moreover have "taskq s' (p # us)"
    unfolding taskq_def l i' by (subst keep) (use a(4) in \<open>auto simp: taskq_def\<close>)
  moreover have "dlist (lnk s') (Vm_areas p) []" unfolding l by (rule dl.init_holds)
  moreover have ms: "mem s' = snd (thread_stack p fn data (mem s))" by (simp add: s'_def s2_def on_links_def a(8))
  moreover have "let sp = fst (thread_stack p fn data (mem s)) in
      load64 sp (mem s') = data \<and> load64 (sp + 8) (mem s') = fn \<and>
      load64 (sp + 16) (mem s') = 0xffffffffffff1234 \<and> p \<le> sp \<and> sp + 24 \<le> p + 4096"
    unfolding ms thread_stack_def Let_def sizeof_regs_def
    using a(9) by (simp add: load64_store64 load64_store64_other)
  moreover have "mem s' x = mem s x" if "x < p \<or> p + 4096 \<le> x" for x
    unfolding ms thread_stack_def Let_def sizeof_regs_def using that a(9)
    by (auto simp: store64_def store32_def)
  moreover have "task_of s' = (task_of s)(p \<mapsto> ?t)" by (simp add: s'_def s2_def a(5))
  ultimately show ?thesis using r a(2) by (intro exI [of _ p] exI [of _ s']) blast
qed

section \<open>The end of a task\<close>

lemma pmm_inv_freed:
  assumes inv: "pmm_inv s" and f: "f \<in> used_frames s" and u: "used_frames s' = used_frames s - {f}"
    and same: "managed s' = managed s" "first_frame s' = first_frame s" "bitmap_size s' = bitmap_size s"
    and mu: "memused s' = memused s - 4096" and pg: "pages s = Some pg" "pages s' = Some (pg(f := 0))"
  shows "pmm_inv s'"
proof -
  have c: "card (used_frames s) = Suc (card (used_frames s'))"
    unfolding u using f card_Suc_Diff1 [OF finite_used_frames f] by simp
  have "memused s = of_nat (4096 * card (used_frames s))" using inv by (simp add: pmm_inv_def)
  then have m: "memused s' = of_nat (4096 * card (used_frames s'))" unfolding mu c by simp
  have fr: "free_frames s' \<subseteq> insert f (free_frames s)"
    using u same(1) by (auto simp: free_frames_def)
  have z: "\<forall>g \<in> free_frames s. pg g = 0" using inv pg(1) by (simp add: pmm_inv_def)
  have p: "\<forall>g \<in> free_frames s'. (pg(f := 0)) g = 0"
    using fr z by (metis fun_upd_apply insertE subsetD)
  have n: "nframes s' = nframes s" using same(3) by (simp add: nframes_def)
  have b: "0 < unat (first_frame s) \<and> unat (first_frame s) + nframes s < 2 ^ 32"
    using inv by (simp add: pmm_inv_def)
  show ?thesis unfolding pmm_inv_def same(2) n pg(2) using b m p by simp
qed

lemma page_at_aligned: "unat f < 2 ^ 28 \<Longrightarrow> page_at f AND 4095 = 0"
proof -
  assume f: "unat f < 2 ^ 28"
  have m: "(4095 :: u64) = mask 12" by (simp add: mask_eq_decr_exp)
  have "unat (take_bit 12 (page_at f)) = unat (page_at f) mod 4096"
    by (simp add: take_bit_eq_mod unat_mod)
  also have "\<dots> = 0" unfolding unat_page_at [OF f] by (simp add: MEMORY_BASE_def)
  finally have "take_bit 12 (page_at f) = 0" by (simp only: unat_eq_0)
  then show ?thesis unfolding m take_bit_eq_mask by (simp add: and.commute)
qed

lemma free_page_used:
  fixes s :: "'z vmm_scheme"
  assumes inv: "pmm_inv s" and f: "unat f \<in> used_frames s" "unat f < 2 ^ 28" and pg: "pages s = Some pg" "pg (unat f) = 1"
  obtains s' :: "'z vmm_scheme" where "free_page (page_at f) s = Some s'" "pmm_inv s'"
    "used_frames s' = used_frames s - {unat f}" "pages s' = Some (pg(unat f := 0))" "pmm.more s' = pmm.more s"
proof -
  obtain s' :: "'z vmm_scheme" where s': "free_phys_page f s = Some s'"
    "used_frames s' = used_frames s - {unat f}" "managed s' = managed s"
    "memused s' = memused s - 4096" "pages s' = Some (pg(unat f := 0))"
    "first_frame s' = first_frame s" "bitmap_size s' = bitmap_size s"
    "pmm.more s' = pmm.more s"
    using free_phys_page_used [OF inv f(1) pg] .
  have "drop_bit 12 (V2P (page_at f)) = f" using frame_of_page_at [OF f(2)] by (simp add: frame_of_def)
  then have "free_page (page_at f) s = Some s'" using s'(1) page_at_aligned [OF f(2)] by (simp add: free_page_def)
  then show ?thesis using that s'(2,5,8) pmm_inv_freed [OF inv f(1) s'(2,3,6,7,4) pg(1) s'(5)] by blast
qed

lemma pmm_part:
  fixes s s' :: "'z pmm_scheme"
  assumes "pmm.truncate s' = pmm.truncate s"
  shows "pmm_inv s' = pmm_inv s" "used_frames s' = used_frames s"
proof -
  have f: "bitmap s' = bitmap s" "first_frame s' = first_frame s" "bitmap_size s' = bitmap_size s"
    "memused s' = memused s" "pages s' = pages s"
    using assms by (simp_all add: pmm.defs)
  have m: "managed s' = managed s" using f by (simp add: managed_def nframes_def)
  show u: "used_frames s' = used_frames s" using f m by (simp add: used_frames_def)
  have "free_frames s' = free_frames s" using m u by (simp add: free_frames_def)
  then show "pmm_inv s' = pmm_inv s" using f u by (simp add: pmm_inv_def nframes_def)
qed

text \<open>A frame in use that no second user shares.\<close>

definition sole_page :: "'z pmm_scheme \<Rightarrow> u64 \<Rightarrow> bool" where
  "sole_page s f \<longleftrightarrow> unat f < 2 ^ 28 \<and> unat f \<in> used_frames s \<and> (\<exists>pg. pages s = Some pg \<and> pg (unat f) = 1)"

lemma free_task_spec:
  fixes s :: "'z kstate_scheme"
  assumes inv: "pmm_inv s" and t: "task_of s p = Some t" "t_page_dir t = page_at d" "p = unat (page_at f)"
    and fr: "sole_page s d" "sole_page s f" "d \<noteq> f"
  shows "\<exists>s'. free_task p s = Some s' \<and> pmm_inv s' \<and> used_frames s' = used_frames s - {unat d, unat f} \<and>
    lnk s' = list_del (Tasks p) (lnk s) \<and> task_of s' = (task_of s)(p := None) \<and> idle s' = idle s \<and>
    current s' = current s \<and> cpu s' = cpu s"
proof -
  define s1 where "s1 = on_links (list_del (Tasks p)) s"
  have tr: "pmm.truncate s1 = pmm.truncate s" by (simp add: s1_def on_links_def pmm.defs)
  have m1: "lnk s1 = list_del (Tasks p) (lnk s)" "task_of s1 = task_of s" "idle s1 = idle s"
    "current s1 = current s" "cpu s1 = cpu s" "pages s1 = pages s"
    by (simp_all add: s1_def on_links_def)
  obtain pg where pg: "pages s1 = Some pg" "pg (unat d) = 1" "pg (unat f) = 1"
    using fr by (auto simp: sole_page_def m1)
  have df: "unat d \<noteq> unat f" using fr(3) by (simp add: word_unat_eq_iff)
  have i1: "pmm_inv s1" "unat d \<in> used_frames s1" "unat f \<in> used_frames s1"
    using inv fr by (simp_all add: pmm_part [OF tr] sole_page_def)
  obtain s2 :: "'z kstate_scheme" where s2: "free_page (page_at d) s1 = Some s2" "pmm_inv s2"
    "used_frames s2 = used_frames s1 - {unat d}" "pages s2 = Some (pg(unat d := 0))" "pmm.more s2 = pmm.more s1"
    using free_page_used [OF i1(1,2) _ pg(1,2)] fr(1) unfolding sole_page_def by metis
  have m2: "lnk s2 = lnk s1" "task_of s2 = task_of s1" "idle s2 = idle s1" "current s2 = current s1" "cpu s2 = cpu s1"
    using s2(5) by (cases s1; cases s2; simp)+
  have i2: "unat f \<in> used_frames s2" "(pg(unat d := 0)) (unat f) = 1" using s2(3) i1(3) df pg(3) by auto
  obtain s3 :: "'z kstate_scheme" where s3: "free_page (page_at f) s2 = Some s3" "pmm_inv s3"
    "used_frames s3 = used_frames s2 - {unat f}" "pmm.more s3 = pmm.more s2"
    using free_page_used [OF s2(2) i2(1) _ s2(4) i2(2)] fr(2) unfolding sole_page_def by metis
  have m3: "lnk s3 = lnk s2" "task_of s3 = task_of s2" "idle s3 = idle s2" "current s3 = current s2" "cpu s3 = cpu s2"
    using s3(4) by (cases s2; cases s3; simp)+
  define s' where "s' = s3\<lparr>task_of := (task_of s3)(p := None)\<rparr>"
  have p: "of_nat p = page_at f" using t(3) by simp
  have "free_task p s = Some s'"
    using t(1,2) s2(1) s3(1) by (simp add: free_task_def Let_def s1_def [symmetric] m1 p s'_def)
  moreover have "pmm_inv s'" "used_frames s' = used_frames s3"
    using s3(2) pmm_part [of s' s3] by (simp_all add: s'_def pmm.defs)
  moreover have "used_frames s3 = used_frames s - {unat d, unat f}"
    unfolding s3(3) s2(3) pmm_part(2) [OF tr] by auto
  moreover have "lnk s' = list_del (Tasks p) (lnk s)" "task_of s' = (task_of s)(p := None)"
    "idle s' = idle s" "current s' = current s" "cpu s' = cpu s"
    by (simp_all add: s'_def m1 m2 m3)
  ultimately show ?thesis by (intro exI [of _ s'] conjI) simp_all
qed

lemma taskq_del:
  assumes q: "taskq s us" "p \<in> set us" and l: "lnk s' = list_del (Tasks p) (lnk s)" "idle s' = idle s"
  shows "taskq s' (remove1 p us)"
proof -
  obtain as bs where sp: "us = as @ p # bs" "p \<notin> set as" using q(2) by (metis split_list_first)
  have "dlist (list_del (Tasks p) (lnk s)) (Tasks (idle s)) (map Tasks as @ map Tasks bs)"
    using q(1) dl.del_holds [of "lnk s" "Tasks (idle s)" "map Tasks as" "Tasks p" "map Tasks bs"]
    by (simp add: taskq_def sp(1))
  then show ?thesis unfolding taskq_def l using sp by (simp add: remove1_append)
qed

lemma runq_tasks_del:
  assumes rq: "runq s ts" and q: "taskq s us" "p \<in> set us" and l: "lnk s' = list_del (Tasks p) (lnk s)" "idle s' = idle s"
  shows "runq s' ts"
proof -
  obtain as bs where sp: "us = as @ p # bs" using q(2) by (metis split_list)
  have t: "dlist (lnk s) (Tasks (idle s)) (map Tasks as @ Tasks p # map Tasks bs)"
    using q(1) by (simp add: taskq_def sp)
  have "dlist (list_del (Tasks p) (lnk s)) (Running (idle s)) (map Running ts)"
    by (rule dl.del_frame [OF t]) (use rq in \<open>auto simp: runq_def\<close>)
  then show ?thesis by (simp add: runq_def l)
qed

lemma taskq_running_del:
  assumes q: "taskq s us" and rq: "runq s ts" "p \<in> set ts" and l: "lnk s' = list_del (Running p) (lnk s)" "idle s' = idle s"
  shows "taskq s' us"
proof -
  obtain as bs where sp: "ts = as @ p # bs" using rq(2) by (metis split_list)
  have t: "dlist (lnk s) (Running (idle s)) (map Running as @ Running p # map Running bs)"
    using rq(1) by (simp add: runq_def sp)
  have "dlist (list_del (Running p) (lnk s)) (Tasks (idle s)) (map Tasks us)"
    by (rule dl.del_frame [OF t]) (use q in \<open>auto simp: taskq_def\<close>)
  then show ?thesis by (simp add: taskq_def l)
qed

lemma zombie_spec:
  fixes s :: "'z kstate_scheme"
  assumes inv: "sched_inv s ts" "taskq s us" "pmm_inv s" and c: "current s \<in> set ts" "current s \<in> set us"
    and t: "task_of s (current s) = Some t" "t_state t = TASK_ZOMBIE" "t_page_dir t = page_at d"
      "current s = unat (page_at f)"
    and fr: "sole_page s d" "sole_page s f" "d \<noteq> f"
  shows "\<exists>s'. schedule s = Some s' \<and> current s' = pick (idle s) ts (current s) False \<and> idle s' = idle s \<and>
    sched_inv s' (remove1 (current s) ts) \<and> taskq s' (remove1 (current s) us) \<and>
    task_of s' = (task_of s)(current s := None) \<and> pmm_inv s' \<and>
    used_frames s' = used_frames s - {unat d, unat f}"
proof -
  let ?c = "current s" and ?i = "idle s" and ?ts = "remove1 (current s) ts"
  let ?n = "pick ?i ts ?c False"
  have rq: "runq s ts" and tk: "\<And>p. p \<in> set (?i # ts) \<Longrightarrow> task_of s p \<noteq> None"
    using inv(1) by (auto simp: sched_inv_def)
  have dist: "distinct (?i # ts)" by (rule runq_distinct [OF rq])
  have run: "\<not> can_run t" using t(2) by (simp add: can_run_def)
  have ci: "?c \<noteq> ?i" using dist c(1) by auto
  have cr: "can_run t = False" using run by simp
  have c': "?c \<in> set (?i # ts)" using c(1) by simp
  have i': "?c = ?i \<longrightarrow> can_run t" using ci by simp
  obtain s2 where s2: "schedule s = schedule_switch ?n s s2" "runq s2 ?ts" "task_of s2 = task_of s"
    "idle s2 = ?i" "global_flags s2 = global_flags s" "current s2 = ?c" "s2 = s\<lparr>cpu := cli (cpu s), lnk := lnk s2\<rparr>"
    "lnk s2 = list_del (Running ?c) (lnk s)"
    using schedule_eq [OF rq t(1) c' i'] unfolding cr if_False by (elim exE conjE) (rule that)
  have nin: "?n \<in> set (?i # ?ts)" using pick_in [of ?c ?i ts False] c(1) dist ci by simp
  have nc: "?n \<noteq> ?c" using nin dist ci by auto
  obtain u where u: "task_of s ?n = Some u" using tk [of ?n] nin set_remove1_subset [of ?c ts] by fastforce
  define s3 where "s3 = s2\<lparr>global_flags := global_flags s2 AND NOT 1,
    task_of := (task_of s)(?c \<mapsto> t\<lparr>resume_at := In_schedule (rflags (cpu s))\<rparr>),
    current := ?n, cr3 := get_task_cr3 (t_page_dir u), tss_rsp0 := of_nat ?n + sizeof_task_stack,
    swapgs_kernel_rsp := of_nat ?n + sizeof_task_stack\<rparr>"
  have p3: "pmm.truncate s3 = pmm.truncate s" by (subst s3_def, subst s2(7)) (simp add: pmm.defs)
  have pg3: "pages s3 = pages s" using p3 by (simp add: pmm.defs)
  have sp3: "sole_page s3 g = sole_page s g" for g by (simp add: sole_page_def pmm_part [OF p3] pg3)
  have m3: "lnk s3 = lnk s2" "idle s3 = ?i" "current s3 = ?n" by (simp_all add: s3_def s2(4))
  have t3: "task_of s3 ?c = Some (t\<lparr>resume_at := In_schedule (rflags (cpu s))\<rparr>)" by (simp add: s3_def)
  obtain s4 where s4: "free_task ?c s3 = Some s4" "pmm_inv s4" "used_frames s4 = used_frames s3 - {unat d, unat f}"
    "lnk s4 = list_del (Tasks ?c) (lnk s3)" "task_of s4 = (task_of s3)(?c := None)" "idle s4 = idle s3"
    "current s4 = current s3"
    using free_task_spec [of s3 ?c _ d f] t3 t(3,4) inv(3) fr
    unfolding sp3 pmm_part [OF p3] by auto
  define s' where "s' = (case resume_at u of In_schedule fl \<Rightarrow> irq_restore fl s4 | _ \<Rightarrow> s4)"
  have sch: "schedule s = Some s'"
    unfolding s2(1) schedule_switch_def Let_def if_P [OF nc] context_switch_def s'_def
    using t(1,2) u nc s4(1) by (auto simp: set_task_def s2(3) context_switch_tail_def s3_def split: resume.splits)
  have m': "lnk s' = lnk s4" "idle s' = ?i" "current s' = ?n" "task_of s' = (task_of s)(?c := None)"
    "pmm.truncate s' = pmm.truncate s4"
    using s4(5,6,7) m3 by (auto simp: s'_def irq_restore_def s3_def pmm.defs fun_upd_def split: resume.splits)
  have q2: "taskq s2 us" by (rule taskq_running_del [OF inv(2) rq c(1) s2(8,4)])
  have l': "lnk s' = list_del (Tasks ?c) (lnk s2)" "idle s' = idle s2" by (simp_all add: m' s4(4) m3(1) s2(4))
  have "sched_inv s' ?ts"
    using runq_tasks_del [OF s2(2) q2 c(2) l'] nin tk dist set_remove1_subset [of ?c ts] ci
    by (auto simp: sched_inv_def m')
  moreover have "taskq s' (remove1 ?c us)" by (rule taskq_del [OF q2 c(2) l'])
  moreover have "pmm_inv s'" "used_frames s' = used_frames s - {unat d, unat f}"
    using s4(2,3) by (simp_all add: pmm_part [OF m'(5)] pmm_part [OF p3])
  ultimately show ?thesis using sch m'(2,3,4) by (intro exI [of _ s'] conjI) simp_all
qed

section \<open>Descriptors\<close>

lemma free_fd_spec:
  "i \<le> free_fd i fs \<and> free_fd i fs \<le> i + length fs \<and>
   (\<forall>j. i + j < free_fd i fs \<longrightarrow> fs ! j \<noteq> 0) \<and>
   (free_fd i fs < i + length fs \<longrightarrow> fs ! (free_fd i fs - i) = 0)"
proof (induction fs arbitrary: i)
  case (Cons f fs)
  show ?case
  proof (cases "f = 0")
    case False
    have "(f # fs) ! j \<noteq> 0" if "i + j < free_fd (Suc i) fs" for j
      using that Cons [of "Suc i"] False by (cases j) auto
    moreover have "(f # fs) ! (free_fd (Suc i) fs - i) = fs ! (free_fd (Suc i) fs - Suc i)"
      using Cons [of "Suc i"] by (simp add: nth_Cons')
    ultimately show ?thesis using Cons [of "Suc i"] False by auto
  qed simp
qed simp

lemma free_fd_0:
  assumes "0 \<in> set fs"
  shows "free_fd 0 fs < length fs" "fs ! free_fd 0 fs = 0" "\<forall>j < free_fd 0 fs. fs ! j \<noteq> 0"
proof -
  have a: "free_fd 0 fs \<le> length fs" "\<forall>j. j < free_fd 0 fs \<longrightarrow> fs ! j \<noteq> 0"
    "free_fd 0 fs < length fs \<longrightarrow> fs ! free_fd 0 fs = 0" using free_fd_spec [of 0 fs] by auto
  obtain j where j: "j < length fs" "fs ! j = 0" using assms by (metis in_set_conv_nth)
  then have "\<not> j < free_fd 0 fs" using a(2) by blast
  then show "free_fd 0 fs < length fs" using j(1) by simp
  then show "fs ! free_fd 0 fs = 0" using a(3) by blast
  show "\<forall>j < free_fd 0 fs. fs ! j \<noteq> 0" using a(2) by blast
qed

lemma fd_file_set:
  fixes s s' :: "'z kstate_scheme"
  assumes t: "task_of s (current s) = Some t" "length (pdt t) = PDT_SIZE" and i: "i < PDT_SIZE"
    and s': "task_of s' = (task_of s)(current s \<mapsto> t\<lparr>pdt := (pdt t)[i := f]\<rparr>)" "current s' = current s"
  shows "fd_file (int i) s' = Some (if f = 0 then Inl EBADF else Inr f)"
    "fd \<noteq> int i \<Longrightarrow> fd_file fd s' = fd_file fd s"
proof -
  show "fd_file (int i) s' = Some (if f = 0 then Inl EBADF else Inr f)"
    using t i by (simp add: fd_file_def s')
  show "fd_file fd s' = fd_file fd s" if fd: "fd \<noteq> int i"
  proof (cases "fd < 0 \<or> int PDT_SIZE \<le> fd")
    case False
    then have "nat fd \<noteq> i" using fd by auto
    then show ?thesis using t(1) by (simp add: fd_file_def s')
  qed (simp add: fd_file_def)
qed

lemma sys_open_spec:
  fixes s :: "'z kstate_scheme"
  assumes t: "task_of s (current s) = Some t" "length (pdt t) = PDT_SIZE" "0 \<in> set (pdt t)"
    and o: "vfs_open drv path flags s = Some (Inr f, s1)" "fstate.more s1 = fstate.more s" "f \<noteq> 0"
  shows "\<exists>i s'. sys_open drv path flags s = Some (int i, s') \<and> i < PDT_SIZE \<and> pdt t ! i = 0 \<and>
    (\<forall>j < i. pdt t ! j \<noteq> 0) \<and> fd_file (int i) s' = Some (Inr f) \<and>
    (\<forall>fd. fd \<noteq> int i \<longrightarrow> fd_file fd s' = fd_file fd s) \<and>
    s' = s1\<lparr>task_of := (task_of s)(current s \<mapsto> t\<lparr>pdt := (pdt t)[i := f]\<rparr>)\<rparr>"
proof -
  define i where "i = free_fd 0 (pdt t)"
  have i: "i < PDT_SIZE" "pdt t ! i = 0" "\<forall>j < i. pdt t ! j \<noteq> 0"
    using free_fd_0 [OF t(3)] t(2) by (simp_all add: i_def)
  define s' where "s' = s1\<lparr>task_of := (task_of s)(current s \<mapsto> t\<lparr>pdt := (pdt t)[i := f]\<rparr>)\<rparr>"
  have m: "task_of s1 = task_of s" "current s1 = current s" using o(2) by (cases s; cases s1; simp)+
  have "sys_open drv path flags s = Some (int i, s')"
    using t(1) i(1) o(1) by (simp add: sys_open_def Let_def i_def [symmetric] set_task_def m s'_def)
  moreover have "fd_file (int i) s' = Some (Inr f)" "\<forall>fd. fd \<noteq> int i \<longrightarrow> fd_file fd s' = fd_file fd s"
    using fd_file_set [OF t(1,2) i(1), of s' f] o(3) by (simp_all add: s'_def m)
  ultimately show ?thesis using i s'_def by (intro exI conjI)
qed

section \<open>Properties\<close>

text \<open>C27: A kernel thread starts as it should.  \<open>kernel_thread\<close> returns the next process number;
  the new task is a copy of the idle task with that number, first on the run queue and on the
  list of tasks, without memory areas, and its stack holds the function and its argument where
  the entry code pops them, with the guard value below.  Nothing outside its page is written.\<close>

theorem kernel_thread_starts:
  fixes s :: "'z kstate_scheme"
  assumes "pmm_inv s" "free_frames s \<noteq> {}" "unat (first_frame s) + nframes s \<le> 2 ^ 28"
    and "runq s ts" "taskq s us" "off_free s (set (idle s # ts @ us))"
    and "task_of s (idle s) = Some t" "0 \<le> next_free_pid s"
  shows "\<exists>p s'. kernel_thread fn data s = Some (next_free_pid s, s') \<and> p \<notin> set (idle s # ts @ us) \<and>
    runq s' (p # ts) \<and> taskq s' (p # us) \<and> dlist (lnk s') (Vm_areas p) [] \<and>
    task_of s' = (task_of s)(p \<mapsto> t\<lparr>t_pid := next_free_pid s, timeslice := 10,
      resume_at := Kernel_thread_start fn data\<rparr>) \<and>
    (let sp = fst (thread_stack p fn data (mem s)) in
      load64 sp (mem s') = data \<and> load64 (sp + 8) (mem s') = fn \<and>
      load64 (sp + 16) (mem s') = 0xffffffffffff1234 \<and> p \<le> sp \<and> sp + 24 \<le> p + 4096) \<and>
    (\<forall>x. x < p \<or> p + 4096 \<le> x \<longrightarrow> mem s' x = mem s x)"
  by (rule kernel_thread_spec [OF assms])

definition thread_demo :: kstate where
  "thread_demo = cow_demo\<lparr>lnk := list_init (Tasks 4096) (list_init (Running 4096) demo_links), current := 4096\<rparr>"

lemma thread_demo_facts:
  "pmm_inv thread_demo" "free_frames thread_demo = {1..<65}" "runq thread_demo []" "taskq thread_demo []"
  "off_free thread_demo {4096}"
proof -
  have p: "pmm.truncate thread_demo = pmm.truncate cow_demo" by (simp add: thread_demo_def pmm.defs)
  show "pmm_inv thread_demo" using cow_demo_facts(2) pmm_part(1) [OF p] by simp
  have "managed thread_demo = managed cow_demo" by (simp add: managed_def nframes_def thread_demo_def)
  then have "free_frames thread_demo = free_frames cow_demo"
    using pmm_part(2) [OF p] by (simp add: free_frames_def)
  then show f: "free_frames thread_demo = {1..<65}" using cow_demo_facts(3) by simp
  show "runq thread_demo []" "taskq thread_demo []"
    by (simp_all add: runq_def taskq_def dlist_def thread_demo_def cow_demo_def)
  have "unat (page_at x) \<noteq> 4096" if "unat x < 65" for x
  proof -
    have "unat x < 2 ^ 28" using that by simp
    from unat_page_at [OF this] show ?thesis by (simp add: MEMORY_BASE_def)
  qed
  then show "off_free thread_demo {4096}" by (simp add: off_free_def f)
qed

theorem kernel_thread_starts_witness:
  "\<exists>p s'. kernel_thread 7 9 thread_demo = Some (2, s') \<and> runq s' [p] \<and> task_of s' p \<noteq> None"
proof -
  let ?s = thread_demo
  have i: "idle ?s = 4096" "next_free_pid ?s = 2" "unat (first_frame ?s) + nframes ?s \<le> 2 ^ 28"
    "task_of ?s (idle ?s) = Some (demo_task TASK_RUNNING)"
    by (simp_all add: thread_demo_def cow_demo_def demo_tasks_def nframes_def)
  have "free_frames ?s \<noteq> {}" by (simp add: thread_demo_facts(2))
  moreover have "off_free ?s (set (idle ?s # [] @ []))" using thread_demo_facts(5) i(1) by simp
  moreover have "0 \<le> next_free_pid ?s" by (simp add: i)
  ultimately have "\<exists>p s'. kernel_thread 7 9 ?s = Some (next_free_pid ?s, s') \<and> p \<notin> set (idle ?s # [] @ []) \<and>
    runq s' [p] \<and> taskq s' [p] \<and> dlist (lnk s') (Vm_areas p) [] \<and>
    task_of s' = (task_of ?s)(p \<mapsto> (demo_task TASK_RUNNING)\<lparr>t_pid := next_free_pid ?s, timeslice := 10,
      resume_at := Kernel_thread_start 7 9\<rparr>) \<and>
    (let sp = fst (thread_stack p 7 9 (mem ?s)) in
      load64 sp (mem s') = 9 \<and> load64 (sp + 8) (mem s') = 7 \<and>
      load64 (sp + 16) (mem s') = 0xffffffffffff1234 \<and> p \<le> sp \<and> sp + 24 \<le> p + 4096) \<and>
    (\<forall>x. x < p \<or> p + 4096 \<le> x \<longrightarrow> mem s' x = mem ?s x)"
    by (intro kernel_thread_starts [OF thread_demo_facts(1) _ i(3) thread_demo_facts(3,4) _ i(4)])
  then show ?thesis by (auto simp: i(2))
qed

text \<open>C13: A task that exits leaves nothing behind.  When the current task is a zombie, \<open>schedule\<close>
  switches to another task and from there takes it off the run queue and the list of tasks, and
  returns exactly the frames of its page directory and of its own page to the allocator.\<close>

theorem zombie_is_reaped:
  fixes s :: "'z kstate_scheme"
  assumes "sched_inv s ts" "taskq s us" "pmm_inv s" "current s \<in> set ts" "current s \<in> set us"
    and "task_of s (current s) = Some t" "t_state t = TASK_ZOMBIE" "t_page_dir t = page_at d"
    and "current s = unat (page_at f)" "sole_page s d" "sole_page s f" "d \<noteq> f"
  shows "\<exists>s'. schedule s = Some s' \<and> current s' = pick (idle s) ts (current s) False \<and> idle s' = idle s \<and>
    sched_inv s' (remove1 (current s) ts) \<and> taskq s' (remove1 (current s) us) \<and>
    task_of s' = (task_of s)(current s := None) \<and> pmm_inv s' \<and>
    used_frames s' = used_frames s - {unat d, unat f}"
  by (rule zombie_spec [OF assms])

definition zombie_page :: nat where "zombie_page = unat (page_at 2)"

definition zombie_demo :: kstate where
  "zombie_demo = cow_demo\<lparr>
     bitmap := (\<lambda>_. 0)(0 := 3), memused := 8192, pages := Some (\<lambda>f. if f = 1 \<or> f = 2 then 1 else 0),
     lnk := list_add (Tasks 4096) (Tasks zombie_page) (list_init (Tasks 4096)
       (list_add (Running 4096) (Running zombie_page) (list_init (Running 4096) demo_links))),
     current := zombie_page,
     task_of := [4096 \<mapsto> demo_task TASK_RUNNING,
       zombie_page \<mapsto> (demo_task TASK_ZOMBIE)\<lparr>t_page_dir := page_at 1\<rparr>]\<rparr>"

lemma zombie_page_eq: "zombie_page = unat MEMORY_BASE + 8192"
  unfolding zombie_page_def by (subst unat_page_at) simp_all

lemma zombie_demo_frames:
  "used_frames zombie_demo = {1, 2}" "pmm_inv zombie_demo"
proof -
  have m: "managed zombie_demo = {1..<65}" and f0: "unat (first_frame zombie_demo) = 1"
    by (simp_all add: managed_def nframes_def zombie_demo_def cow_demo_def)
  have bm: "bitmap zombie_demo = (\<lambda>_. 0)(0 := 3)" by (simp add: zombie_demo_def)
  have b: "bit (bitmap zombie_demo ((f - 1) div 64)) ((f - 1) mod 64) \<longleftrightarrow> f \<in> {1, 2}" if "f \<in> {1..<65}" for f
  proof -
    have d: "(f - 1) div 64 = 0" "(f - 1) mod 64 = f - 1" using that by auto
    have "bit (3 :: u64) (f - 1) \<longleftrightarrow> f - 1 < 2"
      by (simp add: bit_numeral_rec less_Suc_eq numeral_2_eq_2 split: nat.split) auto
    then show ?thesis unfolding d bm using that by auto
  qed
  have "used_frames zombie_demo = {f \<in> {1..<65}. f \<in> {1, 2}}"
    unfolding used_frames_def m f0 by (intro Collect_cong conj_cong refl b)
  also have "\<dots> = {1, 2}" by fastforce
  finally show u: "used_frames zombie_demo = {1, 2}" .
  show "pmm_inv zombie_demo"
    unfolding pmm_inv_def free_frames_def m u by (auto simp: zombie_demo_def cow_demo_def nframes_def)
qed

theorem zombie_is_reaped_witness:
  "\<exists>s'. schedule zombie_demo = Some s' \<and> current s' = 4096 \<and> runq s' [] \<and> used_frames s' = {}"
proof -
  let ?s = zombie_demo
  have n: "4096 \<noteq> zombie_page" unfolding zombie_page_eq by (simp add: MEMORY_BASE_def)
  have i: "idle ?s = 4096" "current ?s = zombie_page" by (simp_all add: zombie_demo_def cow_demo_def)
  have q: "taskq ?s [zombie_page]" "runq ?s [zombie_page]"
    using n by (simp_all add: taskq_def runq_def dlist_def zombie_demo_def cow_demo_def list_add_def Let_def)
  have tk: "task_of ?s (current ?s) = Some ((demo_task TASK_ZOMBIE)\<lparr>t_page_dir := page_at 1\<rparr>)"
    "task_of ?s 4096 \<noteq> None"
    using n by (simp_all add: zombie_demo_def)
  have "sched_inv ?s [zombie_page]" using q(2) tk i by (simp add: sched_inv_def)
  moreover have "current ?s = unat (page_at 2)" by (simp add: i zombie_page_def)
  moreover have "sole_page ?s 1" "sole_page ?s 2"
    by (simp_all add: sole_page_def zombie_demo_frames) (simp_all add: zombie_demo_def)
  ultimately have "\<exists>s'. schedule ?s = Some s' \<and>
    current s' = pick (idle ?s) [zombie_page] (current ?s) False \<and> idle s' = idle ?s \<and>
    sched_inv s' (remove1 (current ?s) [zombie_page]) \<and> taskq s' (remove1 (current ?s) [zombie_page]) \<and>
    task_of s' = (task_of ?s)(current ?s := None) \<and> pmm_inv s' \<and>
    used_frames s' = used_frames ?s - {unat (1 :: u64), unat (2 :: u64)}"
    by (intro zombie_is_reaped [OF _ q(1) zombie_demo_frames(2) _ _ tk(1)]) (simp_all add: i demo_task_def)
  then show ?thesis using n by (auto simp: i zombie_demo_frames sched_inv_def pick_def)
qed

text \<open>C23: \<open>sys_open\<close> of a new file with \<open>O_CREAT\<close> returns the lowest free descriptor, which from then
  on means the new, empty file; no other descriptor changes its meaning.\<close>

theorem sys_open_lowest_fd:
  fixes s :: "'z kstate_scheme"
  assumes "task_of s (current s) = Some t" "length (pdt t) = PDT_SIZE" "0 \<in> set (pdt t)"
    and "fs_inv s" "grow_ready (length (path_comps path) + (k + 3)) s"
    and "good_path path" "path_comps path \<noteq> []" "length (last (path_comps path)) < PATH_MAX"
    and "denotes OPEN_FLAGS path s = Inr d" "fs_of s d = Some Ramfs" "child s d (last (path_comps path)) = None"
    and "flags AND O_CREAT \<noteq> 0" "flags AND O_TRUNC = 0"
  shows "\<exists>i f s'. sys_open drv path flags s = Some (int i, s') \<and> i < PDT_SIZE \<and> pdt t ! i = 0 \<and>
    (\<forall>j < i. pdt t ! j \<noteq> 0) \<and> fd_file (int i) s' = Some (Inr f) \<and> files s f = None \<and>
    afile_of s' f = ([], 0) \<and> (\<forall>fd. fd \<noteq> int i \<longrightarrow> fd_file fd s' = fd_file fd s)"
proof -
  obtain f and s1 :: "'z kstate_scheme" where o: "vfs_open drv path flags s = Some (Inr f, s1)"
    "opened (last (path_comps path)) flags s d f s1 k"
    using vfs_open_new [OF assms(4-13), of drv] by (elim exE conjE) (rule that)
  have o2: "fs_inv s1" "files s f = None" "f \<in> dom (files s1)" "afile_of s1 f = ([], 0)" "fstate.more s1 = fstate.more s"
    using o(2) by (auto simp: opened_def)
  have "f \<in> fst ` live s1" using fs_invD(2) [OF o2(1)] o2(3) by (auto simp: objects_def)
  then have f0: "f \<noteq> 0" using live_ge by fastforce
  obtain i s' where "sys_open drv path flags s = Some (int i, s')" "i < PDT_SIZE" "pdt t ! i = 0"
    "\<forall>j < i. pdt t ! j \<noteq> 0" "fd_file (int i) s' = Some (Inr f)"
    "\<forall>fd. fd \<noteq> int i \<longrightarrow> fd_file fd s' = fd_file fd s"
    "s' = s1\<lparr>task_of := (task_of s)(current s \<mapsto> t\<lparr>pdt := (pdt t)[i := f]\<rparr>)\<rparr>"
    using sys_open_spec [OF assms(1-3) o(1) o2(5) f0] by (elim exE conjE) (rule that)
  moreover from this(7) have "afile_of s' f = ([], 0)" using o2(4) by (simp add: afile_of_def file_bytes_def)
  ultimately show ?thesis using o2(2) by (intro exI conjI)
qed

theorem sys_open_lowest_fd_witness:
  "\<exists>(s :: kstate) s'. sys_open Map.empty ''/a'' (O_CREAT OR O_RDWR) s = Some (0, s') \<and>
     fd_file 0 s = Some (Inl EBADF) \<and> (\<exists>f. fd_file 0 s' = Some (Inr f))"
proof -
  obtain s :: kstate where s: "fs_inv s" "grow_ready (length (path_comps ''/a'') + (3 + 3)) s"
    "denotes OPEN_FLAGS ''/a'' s = Inr (root_of s)" "fs_of s (root_of s) = Some Ramfs"
    "child s (root_of s) (last (path_comps ''/a'')) = None" "files s = Map.empty"
    "fstate.more s = kstate_ext demo_links demo_tasks (\<lambda>_. regs_zero) Map.empty Map.empty 8192 4096 0 2 0 0 0 vga_demo ()"
    by (rule open_demo)
  have t: "task_of s (current s) = Some (demo_task TASK_RUNNING)"
    using s(7) by (cases s) (simp add: demo_tasks_def)
  have l: "pdt (demo_task TASK_RUNNING) = replicate 10 0" by (simp add: demo_task_def)
  have f: "(O_CREAT OR O_RDWR) AND O_CREAT \<noteq> 0" "(O_CREAT OR O_RDWR) AND O_TRUNC = 0"
    by (simp_all add: const_defs)
  have p: "path_comps ''/a'' \<noteq> []" "length (last (path_comps ''/a'')) < PATH_MAX"
    by (simp_all add: demo_path2 PATH_MAX_def)
  obtain i f s' where r: "sys_open Map.empty ''/a'' (O_CREAT OR O_RDWR) s = Some (int i, s')"
    "\<forall>j < i. pdt (demo_task TASK_RUNNING) ! j \<noteq> 0" "fd_file (int i) s' = Some (Inr f)" "i < PDT_SIZE"
    using sys_open_lowest_fd [OF t _ _ s(1,2) demo_path2(1) p s(3,4,5) f, of Map.empty]
    by (auto simp: l PDT_SIZE_def)
  have "i = 0" using r(2,4) by (cases i) (auto simp: l PDT_SIZE_def)
  moreover have "fd_file 0 s = Some (Inl EBADF)" by (simp add: fd_file_def t l PDT_SIZE_def)
  ultimately show ?thesis using r by auto
qed

text \<open>C25: The calls on descriptors refuse a bad one: for a number out of range or a free slot they
  return \<open>-EBADF\<close> and change nothing at all.\<close>

theorem bad_fd_refused:
  fixes s :: "'z kstate_scheme"
  assumes "fd < 0 \<or> 10 \<le> fd \<or> (\<exists>t. task_of s (current s) = Some t \<and> pdt t ! nat fd = 0)"
  shows "sys_read drv fd buf n s = Some (-9, s) \<and> sys_write drv fd buf n s = Some (-9, s) \<and>
    sys_lseek fd off whence s = Some (-9, s) \<and> sys_close drv fd s = Some (-9, s)"
proof -
  have "fd_file fd s = Some (Inl EBADF)" using assms by (auto simp: fd_file_def PDT_SIZE_def)
  then show ?thesis by (simp add: sys_read_def sys_write_def sys_lseek_def sys_close_def)
qed

theorem bad_fd_refused_witness:
  "sys_read Map.empty 3 0 1 cow_demo = Some (-9, cow_demo) \<and> sys_close Map.empty (-1) cow_demo = Some (-9, cow_demo)"
proof -
  have "\<exists>t. task_of cow_demo (current cow_demo) = Some t \<and> pdt t ! nat 3 = 0"
    by (simp add: cow_demo_def demo_tasks_def demo_task_def)
  then show ?thesis
    using bad_fd_refused [of 3 cow_demo Map.empty 0 1] bad_fd_refused [of "-1" cow_demo Map.empty] by simp
qed

end
