(* ===== verification/Kbd.thy ===== *)
theory Kbd
  imports Process
begin

text \<open>
  The console device, \<open>src/src/drivers/console.c\<close>: the keyboard interrupt puts characters into
  a ring buffer, \<open>console_read\<close> takes them out and sleeps on a wait queue while there are none,
  and \<open>console_write\<close> prints.

  The address of the wait queue is a parameter.  \<open>schedule\<close> returns in another task; what happens
  until the reading task runs again is the parameter \<open>resume\<close> of \<open>console_read\<close>, a function
  from the task to wait for and the state.
\<close>

section \<open>The keyboard\<close>

definition key_table :: "u8 list" where
  "key_table =
    [0, 27, 49, 50, 51, 52, 53, 54, 55, 56,
     57, 48, 45, 61, 8,
     9,
     113, 119, 101, 114,
     116, 121, 117, 105, 111, 112, 91, 93, 10,
     0,
     97, 115, 100, 102, 103, 104, 106, 107, 108, 59,
     39, 96, 0,
     92, 122, 120, 99, 118, 98, 110,
     109, 44, 46, 47, 0,
     42,
     0,
     32,
     0,
     0,
     0, 0, 0, 0, 0, 0, 0, 0,
     0,
     0,
     0,
     0,
     0,
     0,
     45,
     0,
     0,
     0,
     43,
     0,
     0,
     0,
     0,
     0,
     0, 0, 0,
     0,
     0] @ replicate 39 0"

definition BUFSIZE :: nat where [const_defs]: "BUFSIZE = 256"

record kbd = kstate +
  kbuf :: "nat \<Rightarrow> u8"
  khead :: u32
  klen :: u32

text \<open>The handler up to the wake-up: whether a character was stored.\<close>

definition key_store :: "u8 \<Rightarrow> 'z kbd_scheme \<Rightarrow> bool \<times> 'z kbd_scheme" where
  "key_store key s =
    (if key AND 0x80 \<noteq> 0 then (False, s)
     else if klen s \<ge> of_nat BUFSIZE then (False, s)
     else if key_table ! unat key = 0 then (False, s)
     else (True, s\<lparr>kbuf := (kbuf s)(unat ((khead s + klen s) mod of_nat BUFSIZE) := key_table ! unat key),
                   klen := klen s + 1\<rparr>))"

definition keyboard_irq :: "nat \<Rightarrow> 'z kbd_scheme \<Rightarrow> 'z kbd_scheme option" where
  "keyboard_irq q s =
    (let (stored, s1) = key_store (inb 0x60 (cpu s)) s
     in if stored then waitqueue_wakeup q s1 else Some s1)"

section \<open>The device\<close>

definition console_open :: "nat \<Rightarrow> u32 \<Rightarrow> 'z kbd_scheme \<Rightarrow> (int \<times> 'z kbd_scheme) option" where
  "console_open f flags s = do { s1 \<leftarrow> kprintk (line ''in console_open'') [] s; Some (0, s1) }"

definition console_close :: "nat \<Rightarrow> 'z kbd_scheme \<Rightarrow> (int \<times> 'z kbd_scheme) option" where
  "console_close f s = do { s1 \<leftarrow> kprintk (line ''in console_close'') [] s; Some (0, s1) }"

partial_function (option) console_wait ::
  "(nat \<Rightarrow> 'z kbd_scheme \<Rightarrow> 'z kbd_scheme option) \<Rightarrow> nat \<Rightarrow> 'z kbd_scheme \<Rightarrow> 'z kbd_scheme option" where
  "console_wait rsm q s =
    (if klen s = 0 then do {
       s1 \<leftarrow> waitqueue_sleep q s;
       s2 \<leftarrow> schedule s1;
       s3 \<leftarrow> rsm (current s) s2;
       console_wait rsm q s3
     }
     else Some s)"

text \<open>The part with interrupts disabled: at most as many characters as there are up to the end
  of the array.\<close>

definition console_take :: "nat \<Rightarrow> u32 \<Rightarrow> 'z kbd_scheme \<Rightarrow> nat \<times> 'z kbd_scheme" where
  "console_take buf sz s =
    (let l = min (min (klen s) sz) (of_nat BUFSIZE - khead s);
         s1 = s\<lparr>mem := (\<lambda>a. if buf \<le> a \<and> a < buf + unat l then kbuf s (unat (khead s) + (a - buf)) else mem s a)\<rparr>
     in (unat l, s1\<lparr>khead := (khead s1 + l) mod of_nat BUFSIZE, klen := klen s1 - l\<rparr>))"

definition console_read ::
  "(nat \<Rightarrow> 'z kbd_scheme \<Rightarrow> 'z kbd_scheme option) \<Rightarrow> nat \<Rightarrow> nat \<Rightarrow> u32 \<Rightarrow> nat \<Rightarrow> u32 \<Rightarrow> 'z kbd_scheme \<Rightarrow>
     (int \<times> 'z kbd_scheme) option" where
  "console_read rsm q f offset buf sz s =
    (if sz = 0 then Some (0, s)
     else do {
       s1 \<leftarrow> console_wait rsm q s;
       let (flags, s2) = irq_save s1;
       let (l, s3) = console_take buf sz s2;
       Some (int l, irq_restore flags s3)
     })"

definition console_write ::
  "nat \<Rightarrow> u32 \<Rightarrow> nat \<Rightarrow> u32 \<Rightarrow> 'z kbd_scheme \<Rightarrow> (int \<times> 'z kbd_scheme) option" where
  "console_write f offset buf sz s =
    do {
      s1 \<leftarrow> for_range 0 (unat sz) (\<lambda>i s. Some (s\<lparr>cpu := console_putc (mem s (buf + i)) (cpu s)\<rparr>)) s;
      Some (sint sz, s1)
    }"

text \<open>The table of functions \<open>ops\<close>.\<close>

definition console_ops ::
  "(nat \<Rightarrow> 'z kbd_scheme \<Rightarrow> 'z kbd_scheme option) \<Rightarrow> nat \<Rightarrow> 'z kbd_scheme devfs_ops" where
  "console_ops rsm q =
    \<lparr>dev_open = Some console_open, dev_close = Some console_close,
     dev_read = Some (console_read rsm q), dev_write = Some console_write\<rparr>"

end
