(* ===== verification/KbdProps.thy ===== *)
theory KbdProps
  imports Kbd SchedProps
begin

text \<open>
  Properties of the console device: the ring buffer is a first-in first-out queue (locale \<open>fifo\<close>,
  interpreted on the keyboard and the reader), and a reader that sleeps is woken by the next key.
\<close>

section \<open>The ring buffer\<close>

definition pending :: "'z kbd_scheme \<Rightarrow> u8 list" where
  "pending s = map (\<lambda>i. kbuf s ((unat (khead s) + i) mod BUFSIZE)) [0..<unat (klen s)]"

definition kbd_inv :: "'z kbd_scheme \<Rightarrow> bool" where
  "kbd_inv s \<longleftrightarrow> unat (khead s) < BUFSIZE \<and> unat (klen s) \<le> BUFSIZE"

lemma key_released: "key AND 0x80 \<noteq> (0 :: u8) \<longleftrightarrow> \<not> unat key < 128"
proof -
  have "key AND 0x80 = 0 \<longleftrightarrow> \<not> bit key 7" using and_exp_eq_0_iff_not_bit [of key 7] by simp
  also have "\<dots> \<longleftrightarrow> unat key < 128"
  proof -
    have "unat key < 256" using unsigned_less [of key] by simp
    moreover have "bit key 7 \<longleftrightarrow> odd (unat key div 128)"
    proof -
      have "bit key 7 \<longleftrightarrow> bit (unat key) 7" by (simp add: bit_unsigned_iff)
      also have "\<dots> \<longleftrightarrow> odd (unat key div 128)" by (simp add: bit_iff_odd)
      finally show ?thesis .
    qed
    moreover have "odd (n div 128) \<longleftrightarrow> \<not> n < 128" if "n < 256" for n :: nat
    proof -
      have "n div 128 < 2" using that by (simp add: less_mult_imp_div_less)
      then have "n div 128 = 0 \<or> n div 128 = 1" by linarith
      then show ?thesis by (auto simp: div_eq_0_iff)
    qed
    ultimately show ?thesis by blast
  qed
  finally show ?thesis by blast
qed

lemma ring_index:
  fixes h n :: u32
  assumes "unat h < BUFSIZE" "unat n \<le> BUFSIZE"
  shows "unat ((h + n) mod of_nat BUFSIZE) = (unat h + unat n) mod BUFSIZE"
proof -
  have "unat (h + n) = unat h + unat n" using assms by (simp add: BUFSIZE_def unat_word_ariths)
  then show ?thesis by (simp add: unat_mod BUFSIZE_def)
qed

lemma pending_length: "length (pending s) = unat (klen s)"
  by (simp add: pending_def)

lemma key_store_spec:
  assumes inv: "kbd_inv s" and r: "key_store key s = (b, s')"
  shows "kbd_inv s' \<and> pending s' = pending s @ (if b then [key_table ! unat key] else []) \<and>
    (b \<longleftrightarrow> unat key < 128 \<and> length (pending s) < BUFSIZE \<and> key_table ! unat key \<noteq> 0)"
proof -
  have h: "unat (khead s) < BUFSIZE" "unat (klen s) \<le> BUFSIZE" using inv by (simp_all add: kbd_inv_def)
  have full: "klen s \<ge> of_nat BUFSIZE \<longleftrightarrow> \<not> length (pending s) < BUFSIZE"
    by (simp add: pending_length word_le_nat_alt BUFSIZE_def not_less)
  show ?thesis
  proof (cases "unat key < 128 \<and> length (pending s) < BUFSIZE \<and> key_table ! unat key \<noteq> 0")
    case False
    then have "b = False \<and> s' = s" using r by (auto simp: key_store_def key_released full split: if_splits)
    then show ?thesis using inv False by simp
  next
    case True
    let ?i = "(unat (khead s) + unat (klen s)) mod BUFSIZE"
    have bs: "b = True" "s' = s\<lparr>kbuf := (kbuf s)(?i := key_table ! unat key), klen := klen s + 1\<rparr>"
      using r True ring_index [OF h] by (auto simp: key_store_def key_released full split: if_splits)
    have n: "unat (klen s) < BUFSIZE" using True by (simp add: pending_length)
    have l': "unat (klen s') = Suc (unat (klen s))"
      using n by (simp add: bs(2) BUFSIZE_def unat_word_ariths)
    have other: "(unat (khead s) + j) mod BUFSIZE \<noteq> ?i" if "j < unat (klen s)" for j
    proof
      assume e: "(unat (khead s) + j) mod BUFSIZE = ?i"
      have "BUFSIZE dvd (unat (khead s) + unat (klen s)) - (unat (khead s) + j)"
        by (rule mod_eq_dvd_iff_nat [THEN iffD1]) (use e that in simp_all)
      then have "BUFSIZE dvd unat (klen s) - j" by simp
      then have "BUFSIZE \<le> unat (klen s) - j" by (rule dvd_imp_le) (use that in simp)
      then show False using n by simp
    qed
    have "pending s' = pending s @ [key_table ! unat key]"
      unfolding pending_def l' using other by (simp add: bs(2))
    then show ?thesis using True bs(1) h l' n by (simp add: kbd_inv_def bs(2))
  qed
qed

text \<open>What \<open>console_take\<close> wrote to the caller's buffer.\<close>

definition taken :: "nat \<Rightarrow> nat \<Rightarrow> 'z kbd_scheme \<Rightarrow> u8 list" where
  "taken buf l s = map (\<lambda>i. mem s (buf + i)) [0..<l]"

lemma console_take_spec:
  assumes inv: "kbd_inv s" and r: "console_take buf sz s = (l, s')"
  shows "kbd_inv s' \<and> pending s = taken buf l s' @ pending s' \<and> l \<le> unat sz \<and>
    (pending s \<noteq> [] \<longrightarrow> sz \<noteq> 0 \<longrightarrow> l \<noteq> 0) \<and> (\<forall>a. a < buf \<or> buf + l \<le> a \<longrightarrow> mem s' a = mem s a)"
proof -
  have h: "unat (khead s) < BUFSIZE" "unat (klen s) \<le> BUFSIZE" using inv by (simp_all add: kbd_inv_def)
  define w where "w = min (min (klen s) sz) (of_nat BUFSIZE - khead s)"
  have kb: "khead s \<le> of_nat BUFSIZE" using h(1) by (simp add: word_le_nat_alt BUFSIZE_def)
  have sub: "unat (of_nat BUFSIZE - khead s) = BUFSIZE - unat (khead s)"
    using unat_sub [OF kb] by (simp add: BUFSIZE_def)
  have w: "unat w = min (min (unat (klen s)) (unat sz)) (BUFSIZE - unat (khead s))"
    unfolding w_def sub [symmetric] by (simp add: min_def word_le_nat_alt)
  have l: "l = unat w" and m: "mem s' = (\<lambda>a. if buf \<le> a \<and> a < buf + unat w then kbuf s (unat (khead s) + (a - buf)) else mem s a)"
    and k: "kbuf s' = kbuf s" "khead s' = (khead s + w) mod of_nat BUFSIZE" "klen s' = klen s - w"
    using r by (auto simp: console_take_def w_def [symmetric] Let_def)
  have wl: "w \<le> klen s" "unat w \<le> BUFSIZE" using w h by (simp_all add: word_le_nat_alt)
  have k': "unat (khead s') = (unat (khead s) + l) mod BUFSIZE" "unat (klen s') = unat (klen s) - l"
    using ring_index [OF h(1) wl(2)] unat_sub [OF wl(1)] by (simp_all add: k l)
  have t: "taken buf l s' = map (\<lambda>i. kbuf s ((unat (khead s) + i) mod BUFSIZE)) [0..<l]"
    unfolding taken_def m l using w by (intro map_cong) auto
  have p: "pending s' = map (\<lambda>i. kbuf s ((unat (khead s) + i) mod BUFSIZE)) [l..<unat (klen s)]"
  proof -
    have "[l..<unat (klen s)] = map (\<lambda>i. i + l) [0..<unat (klen s) - l]"
      using map_add_upt [of l "unat (klen s) - l"] wl(1) by (simp add: l word_le_nat_alt)
    then show ?thesis unfolding pending_def k' k(1) by (simp add: mod_simps algebra_simps)
  qed
  have "[0..<unat (klen s)] = [0..<l] @ [l..<unat (klen s)]"
    using wl(1) upt_add_eq_append [of 0 l "unat (klen s) - l"] by (simp add: l word_le_nat_alt)
  then have "pending s = taken buf l s' @ pending s'" unfolding t p by (simp add: pending_def)
  moreover have "kbd_inv s'" using k' h by (simp add: kbd_inv_def BUFSIZE_def)
  moreover have "l \<le> unat sz" "pending s \<noteq> [] \<longrightarrow> sz \<noteq> 0 \<longrightarrow> l \<noteq> 0"
    using w h l by (auto simp: pending_def min_def unat_gt_0 word_neq_0_conv [symmetric] unat_eq_0)
  ultimately show ?thesis by (simp add: m l)
qed

section \<open>First in, first out\<close>

text \<open>A bounded queue as its two ends see it: a producer that may be refused and a consumer that
  takes some of the oldest elements.\<close>

fun fifo_run :: "('k \<Rightarrow> 's \<Rightarrow> 'a list \<times> 's) \<Rightarrow> ('g \<Rightarrow> 's \<Rightarrow> 'a list \<times> 's) \<Rightarrow> ('k + 'g) list \<Rightarrow> 's \<Rightarrow>
    'a list \<times> 'a list \<times> 's" where
  "fifo_run put get [] s = ([], [], s)"
| "fifo_run put get (Inl k # es) s =
    (let (a, s1) = put k s; (as, ds, s2) = fifo_run put get es s1 in (a @ as, ds, s2))"
| "fifo_run put get (Inr g # es) s =
    (let (d, s1) = get g s; (as, ds, s2) = fifo_run put get es s1 in (as, d @ ds, s2))"

locale fifo =
  fixes content :: "'s \<Rightarrow> 'a list" and ok :: "'s \<Rightarrow> bool"
    and put :: "'k \<Rightarrow> 's \<Rightarrow> 'a list \<times> 's" and get :: "'g \<Rightarrow> 's \<Rightarrow> 'a list \<times> 's"
  assumes put_law: "ok s \<Longrightarrow> put k s = (as, s') \<Longrightarrow> ok s' \<and> content s' = content s @ as"
    and get_law: "ok s \<Longrightarrow> get g s = (ds, s') \<Longrightarrow> ok s' \<and> content s = ds @ content s'"
begin

lemma run_in_order:
  "ok s \<Longrightarrow> fifo_run put get es s = (as, ds, s') \<Longrightarrow> ok s' \<and> content s @ as = ds @ content s'"
proof (induction es arbitrary: s as ds s')
  case (Cons e es)
  show ?case
  proof (cases e)
    case (Inl k)
    obtain a s1 where p: "put k s = (a, s1)" by (cases "put k s")
    obtain as' ds' s2 where r: "fifo_run put get es s1 = (as', ds', s2)" by (cases "fifo_run put get es s1")
    show ?thesis using put_law [OF Cons.prems(1) p] Cons.IH [OF _ r] Cons.prems(2) Inl p r by auto
  next
    case (Inr g)
    obtain d s1 where p: "get g s = (d, s1)" by (cases "get g s")
    obtain as' ds' s2 where r: "fifo_run put get es s1 = (as', ds', s2)" by (cases "fifo_run put get es s1")
    show ?thesis using get_law [OF Cons.prems(1) p] Cons.IH [OF _ r] Cons.prems(2) Inr p r by auto
  qed
qed simp

text \<open>What was delivered and what was accepted are related by the prefix order.\<close>

lemma delivered_prefix:
  "ok s \<Longrightarrow> fifo_run put get es s = (as, ds, s') \<Longrightarrow> take (length ds) (content s @ as) = ds"
  using run_in_order by (metis append_eq_conv_conj)

end

text \<open>The keyboard as the producer, a reader as the consumer.\<close>

definition kbd_put :: "u8 \<Rightarrow> 'z kbd_scheme \<Rightarrow> u8 list \<times> 'z kbd_scheme" where
  "kbd_put key s = (let (b, s1) = key_store key s in (if b then [key_table ! unat key] else [], s1))"

definition kbd_get :: "nat \<times> u32 \<Rightarrow> 'z kbd_scheme \<Rightarrow> u8 list \<times> 'z kbd_scheme" where
  "kbd_get g s = (let (l, s1) = console_take (fst g) (snd g) s in (taken (fst g) l s1, s1))"

interpretation kb: fifo pending kbd_inv kbd_put kbd_get
proof
  fix k as and s s' :: "'z kbd_scheme"
  assume i: "kbd_inv s" and p: "kbd_put k s = (as, s')"
  obtain b s1 where r: "key_store k s = (b, s1)" by (cases "key_store k s")
  have "as = (if b then [key_table ! unat k] else [])" "s' = s1" using p r by (auto simp: kbd_put_def)
  then show "kbd_inv s' \<and> pending s' = pending s @ as" using key_store_spec [OF i r] by metis
next
  fix g ds and s s' :: "'z kbd_scheme"
  assume i: "kbd_inv s" and p: "kbd_get g s = (ds, s')"
  obtain l s1 where r: "console_take (fst g) (snd g) s = (l, s1)" by (cases "console_take (fst g) (snd g) s")
  have "ds = taken (fst g) l s1" "s' = s1" using p r by (auto simp: kbd_get_def)
  then show "kbd_inv s' \<and> pending s = ds @ pending s'" using console_take_spec [OF i r] by metis
qed

section \<open>A reader that sleeps\<close>

lemma waitqueue_sleep_spec:
  assumes w: "waits s q ws" and rq: "runq s ts" and t: "task_of s (current s) = Some t" "t_state t = TASK_RUNNING"
    and c: "current s \<notin> set ws"
  shows "\<exists>s1. waitqueue_sleep q s = Some s1 \<and> waits s1 q (current s # ws) \<and> runq s1 ts \<and>
    task_of s1 = (task_of s)(current s \<mapsto> t\<lparr>t_state := TASK_INTERRUPTIBLE\<rparr>) \<and> idle s1 = idle s \<and>
    current s1 = current s \<and> kstate.more s1 = kstate.more s \<and>
    device (cpu s1) = device (cpu s) \<and> out_log (cpu s1) = out_log (cpu s)"
proof -
  let ?k = "list_add (Wait_head q) (Waitq (current s)) (lnk s)"
  define s1 where "s1 = s\<lparr>cpu := restore_flags (rflags (cpu s)) (cli (cpu s)), lnk := ?k,
    global_flags := global_flags s OR 1,
    task_of := (task_of s)(current s \<mapsto> t\<lparr>t_state := TASK_INTERRUPTIBLE\<rparr>)\<rparr>"
  have "waitqueue_sleep q s = Some s1"
    using t by (simp add: waitqueue_sleep_def irq_save_eq set_task_def on_links_def set_need_resched_def
        set_global_flag_def irq_restore_def s1_def const_defs)
  moreover have "waits s1 q (current s # ws)"
    using dl.front_holds [of "lnk s" "Wait_head q" "map Waitq ws" "Waitq (current s)"] w c
    by (auto simp: waits_def s1_def)
  moreover have "runq s1 ts"
    unfolding runq_def s1_def using w rq c
    by (simp, intro dl.front_frame [of "lnk s" "Wait_head q" "map Waitq ws"]) (auto simp: waits_def runq_def)
  moreover have "task_of s1 = (task_of s)(current s \<mapsto> t\<lparr>t_state := TASK_INTERRUPTIBLE\<rparr>)"
    "idle s1 = idle s" "current s1 = current s" "kstate.more s1 = kstate.more s"
    by (simp_all add: s1_def)
  moreover have "device (cpu s1) = device (cpu s)" "out_log (cpu s1) = out_log (cpu s)"
    by (simp_all add: s1_def restore_flags_def cli_def)
  ultimately show ?thesis by (intro exI conjI)
qed

text \<open>The switch away from a task that can no longer run.\<close>

lemma schedule_blocked:
  assumes inv: "sched_inv s ts" and c: "current s \<in> set ts" and t: "task_of s (current s) = Some t"
    and st: "t_state t = TASK_INTERRUPTIBLE" and w: "waits s q ws"
  shows "\<exists>s'. schedule s = Some s' \<and> runq s' (remove1 (current s) ts) \<and> waits s' q ws \<and> idle s' = idle s \<and> current s' \<noteq> current s \<and>
    (\<forall>p. map_option t_state (task_of s' p) = map_option t_state (task_of s p)) \<and>
    kstate.more s' = kstate.more s \<and>
    device (cpu s') = device (cpu s) \<and> out_log (cpu s') = out_log (cpu s)"
proof -
  let ?c = "current s" and ?i = "idle s" and ?ts = "remove1 (current s) ts"
  let ?n = "pick ?i ts ?c False"
  have rq: "runq s ts" and tk: "\<And>p. p \<in> set (?i # ts) \<Longrightarrow> task_of s p \<noteq> None"
    using inv by (auto simp: sched_inv_def)
  have dist: "distinct (?i # ts)" by (rule runq_distinct [OF rq])
  have cr: "can_run t = False" using st by (simp add: can_run_def)
  have z: "t_state t \<noteq> TASK_ZOMBIE" using st by (simp add: const_defs)
  have ci: "?c \<noteq> ?i" using dist c by auto
  have c': "?c \<in> set (?i # ts)" using c by simp
  have i': "?c = ?i \<longrightarrow> can_run t" using ci by simp
  obtain s2 where s2: "schedule s = schedule_switch ?n s s2" "runq s2 ?ts" "task_of s2 = task_of s"
    "idle s2 = ?i" "global_flags s2 = global_flags s" "current s2 = ?c" "s2 = s\<lparr>cpu := cli (cpu s), lnk := lnk s2\<rparr>"
    "lnk s2 = list_del (Running ?c) (lnk s)"
    using schedule_eq [OF rq t c' i'] unfolding cr if_False by (elim exE conjE) (rule that)
  have nin: "?n \<in> set (?i # ?ts)" using pick_in [of ?c ?i ts False] c dist ci by simp
  have nc: "?n \<noteq> ?c" using nin dist ci by auto
  obtain u where u: "task_of s ?n = Some u" using tk [of ?n] nin set_remove1_subset [of ?c ts] by fastforce
  define s3 where "s3 = s2\<lparr>global_flags := global_flags s2 AND NOT 1,
    task_of := (task_of s)(?c \<mapsto> t\<lparr>resume_at := In_schedule (rflags (cpu s))\<rparr>),
    current := ?n, cr3 := get_task_cr3 (t_page_dir u), tss_rsp0 := of_nat ?n + sizeof_task_stack,
    swapgs_kernel_rsp := of_nat ?n + sizeof_task_stack\<rparr>"
  have s2c: "device (cpu s2) = device (cpu s)" "out_log (cpu s2) = out_log (cpu s)"
    by (subst s2(7), simp add: cli_def)+
  define s' where "s' = (case resume_at u of In_schedule fl \<Rightarrow> irq_restore fl s3 | _ \<Rightarrow> s3)"
  have "schedule s = Some s'"
    unfolding s2(1) schedule_switch_def Let_def if_P [OF nc] s'_def
    unfolding context_switch_def
    using t z u nc by (auto simp: set_task_def s2(3) context_switch_tail_def s3_def split: resume.splits)
  moreover have f: "lnk s' = lnk s2" "idle s' = ?i" "task_of s' = task_of s3"
    by (auto simp: s'_def irq_restore_def s3_def s2(4) split: resume.splits)
  moreover have "current s' \<noteq> ?c" using nc by (auto simp: s'_def irq_restore_def s3_def split: resume.splits)
  moreover have "runq s' ?ts" using s2(2) unfolding runq_def f s2(4) .
  moreover have "waits s' q ws"
  proof -
    obtain as bs where sp: "ts = as @ ?c # bs" using c by (metis split_list)
    have r: "dlist (lnk s) (Running ?i) (map Running as @ Running ?c # map Running bs)"
      using rq by (simp add: runq_def sp)
    have "dlist (list_del (Running ?c) (lnk s)) (Wait_head q) (map Waitq ws)"
      by (rule dl.del_frame [OF r]) (use w in \<open>auto simp: waits_def\<close>)
    then show ?thesis by (simp add: waits_def f s2(8))
  qed
  moreover have "\<forall>p. map_option t_state (task_of s' p) = map_option t_state (task_of s p)"
    using t by (simp add: f s3_def)
  moreover have "kstate.more s' = kstate.more s"
  proof -
    have "kstate.more s' = kstate.more s2"
      by (auto simp: s'_def irq_restore_def s3_def split: resume.splits)
    also have "\<dots> = kstate.more s" by (subst s2(7)) simp
    finally show ?thesis .
  qed
  moreover have "device (cpu s') = device (cpu s)" "out_log (cpu s') = out_log (cpu s)"
    by (auto simp: s'_def irq_restore_def s3_def restore_flags_def s2c split: resume.splits)
  ultimately show ?thesis by (intro exI [of _ s'] conjI) assumption+
qed

lemma waitqueue_wakeup_more:
  assumes "waitqueue_wakeup q s = Some s'"
  shows "kstate.more s' = kstate.more s"
proof -
  obtain it s2 s3 where l: "list_for_each lnk (Wait_head q) wakeup_body (s\<lparr>cpu := cli (cpu s)\<rparr>) = Some (it, s2)"
    "(if current s2 = idle s2 then set_need_resched s2 else Some s2) = Some s3" "s' = irq_restore (rflags (cpu s)) s3"
    using assms by (auto simp: waitqueue_wakeup_def irq_save_eq bind_eq_Some_conv)
  have b: "kstate.more u' = kstate.more u" if w: "wakeup_body p u = Some (brk, u')" for p u brk and u' :: "'a kstate_scheme"
  proof -
    obtain c t u1 where "set_task c (\<lambda>x. x\<lparr>t_state := TASK_RUNNING\<rparr>) (on_links (list_del (Waitq c)) u) = Some u1"
      "u' = on_links (list_add (Running (idle u1)) (Running c)) u1"
      using w by (auto simp: wakeup_body_def bind_eq_Some_conv)
    then show ?thesis by (auto simp: set_task_def on_links_def)
  qed
  have "kstate.more s2 = kstate.more (s\<lparr>cpu := cli (cpu s)\<rparr>)" by (rule list_for_each_keeps [OF l(1) b])
  moreover have "kstate.more s3 = kstate.more s2"
    using l(2) by (auto simp: set_need_resched_def set_global_flag_def const_defs split: if_splits)
  ultimately show ?thesis by (simp add: l(3) irq_restore_def)
qed

lemma kbd_partD:
  fixes s s' :: "'z kbd_scheme"
  assumes "kstate.more s' = kstate.more s"
  shows "pending s' = pending s" "kbd_inv s' = kbd_inv s" "klen s' = klen s"
proof -
  have "kbuf s' = kbuf s \<and> khead s' = khead s \<and> klen s' = klen s" using assms by (cases s; cases s'; simp)
  then show "pending s' = pending s" "kbd_inv s' = kbd_inv s" "klen s' = klen s"
    by (simp_all add: pending_def kbd_inv_def)
qed

lemma key_store_kstate:
  assumes "key_store key s = (b, s')"
  shows "kstate.truncate s' = kstate.truncate s" "lnk s' = lnk s" "idle s' = idle s" "task_of s' = task_of s"
    "current s' = current s" "cpu s' = cpu s"
  using assms by (auto simp: key_store_def kstate.defs split: if_splits)

section \<open>Properties\<close>

text \<open>C11: The keyboard is a bounded first-in first-out queue.  Whatever the order of key presses
  and reads, the characters readers got, followed by those still in the ring buffer, are exactly
  the old contents followed by the characters of the accepted keys, in the order they were
  pressed: nothing is lost, doubled or reordered by the wrap-around.\<close>

theorem keyboard_fifo:
  assumes "kbd_inv s" "fifo_run kbd_put kbd_get es s = (accepted, delivered, s')"
  shows "kbd_inv s' \<and> pending s @ accepted = delivered @ pending s'"
  by (rule kb.run_in_order [OF assms])

definition kbd_demo :: kbd where
  "kbd_demo = kstate.extend (undefined\<lparr>mem := \<lambda>_. 0\<rparr>)
     (kbd.fields (\<lambda>_. 0) 255 0)"

theorem keyboard_fifo_witness:
  "\<exists>s'. fifo_run kbd_put kbd_get [Inl 0x1E, Inl 0x9E, Inr (100, 5)] kbd_demo = ([97], [97], s') \<and> pending s' = []"
proof -
  have i: "kbd_inv kbd_demo" "pending kbd_demo = []"
    by (simp_all add: kbd_inv_def kbd_demo_def kstate.defs kbd.defs BUFSIZE_def pending_def)
  have f: "klen kbd_demo = 0" "khead kbd_demo = 255"
    by (simp_all add: kbd_demo_def kstate.defs kbd.defs)
  define d1 where "d1 = kbd_demo\<lparr>kbuf := (kbuf kbd_demo)(255 := 97), klen := 1\<rparr>"
  have d: "klen d1 = 1" "khead d1 = 255" "kbuf d1 255 = 97" by (simp_all add: d1_def f)
  have "kbd_put 0x1E kbd_demo = ([97], d1)"
    by (simp add: kbd_put_def key_store_def Let_def f BUFSIZE_def d1_def key_table_def)
  moreover have "kbd_put 0x9E d1 = ([], d1)" by (simp add: kbd_put_def key_store_def)
  moreover obtain s' where "kbd_get (100, 5) d1 = ([97], s')"
    using d by (simp add: kbd_get_def console_take_def taken_def Let_def BUFSIZE_def min_def)
  ultimately have r: "fifo_run kbd_put kbd_get [Inl 0x1E, Inl 0x9E, Inr (100, 5)] kbd_demo = ([97], [97], s')"
    by simp
  then show ?thesis using keyboard_fifo [OF i(1) r] i(2) by simp
qed

text \<open>C18: A reader is woken by the next key.  When the buffer is empty, \<open>console_read\<close> puts its task
  on the wait queue and switches away; when a key that stands for a character is then pressed, the
  interrupt handler stores the character and makes the reader runnable again, so that it finds
  exactly this character.\<close>

theorem reader_woken_by_key:
  fixes s :: "'z kbd_scheme"
  assumes "kbd_inv s" "klen s = 0" "sched_inv s ts" "current s \<in> set ts"
    and "task_of s (current s) = Some t" "t_state t = TASK_RUNNING"
    and "waits s q ws" "set ws \<inter> set (idle s # ts) = {}"
    and "\<forall>p \<in> set ws. map_option t_state (task_of s p) = Some TASK_INTERRUPTIBLE"
    and "inb 0x60 (cpu s) = key" "unat key < 128" "key_table ! unat key \<noteq> 0"
  shows "\<exists>s1 s2 s3. waitqueue_sleep q s = Some s1 \<and> schedule s1 = Some s2 \<and> current s2 \<noteq> current s \<and>
    keyboard_irq q s2 = Some s3 \<and> pending s3 = [key_table ! unat key] \<and>
    runq s3 (rev ws @ current s # remove1 (current s) ts) \<and> waits s3 q [] \<and>
    map_option t_state (task_of s3 (current s)) = Some TASK_RUNNING"
proof -
  let ?c = "current s" and ?W = "current s # ws"
  have cw: "?c \<notin> set ws" using assms(4,8) by auto
  have rq: "runq s ts" using assms(3) by (simp add: sched_inv_def)
  obtain s1 where s1: "waitqueue_sleep q s = Some s1" "waits s1 q ?W" "runq s1 ts"
    "task_of s1 = (task_of s)(?c \<mapsto> t\<lparr>t_state := TASK_INTERRUPTIBLE\<rparr>)" "idle s1 = idle s" "current s1 = ?c"
    "kstate.more s1 = kstate.more s" "device (cpu s1) = device (cpu s)" "out_log (cpu s1) = out_log (cpu s)"
    using waitqueue_sleep_spec [OF assms(7) rq assms(5,6) cw] by (elim exE conjE) (rule that)
  have i1: "sched_inv s1 ts" "current s1 \<in> set ts" "task_of s1 (current s1) = Some (t\<lparr>t_state := TASK_INTERRUPTIBLE\<rparr>)"
    "t_state (t\<lparr>t_state := TASK_INTERRUPTIBLE\<rparr>) = TASK_INTERRUPTIBLE"
    using assms(3,4) s1 by (auto simp: sched_inv_def)
  obtain s2 where s2: "schedule s1 = Some s2" "runq s2 (remove1 (current s1) ts)" "waits s2 q ?W" "idle s2 = idle s1"
    "current s2 \<noteq> current s1" "\<forall>p. map_option t_state (task_of s2 p) = map_option t_state (task_of s1 p)"
    "kstate.more s2 = kstate.more s1" "device (cpu s2) = device (cpu s1)" "out_log (cpu s2) = out_log (cpu s1)"
    using schedule_blocked [OF i1 s1(2)] by (elim exE conjE) (rule that)
  have kp: "kbd_inv s2" "pending s2 = []"
    using kbd_partD [OF s2(7)] kbd_partD [OF s1(7)] assms(1,2) by (simp_all add: pending_def)
  have key: "inb 0x60 (cpu s2) = key" using assms(10) s1(8,9) s2(8,9) by (simp add: inb_def)
  obtain b s2' where ks: "key_store key s2 = (b, s2')" by (cases "key_store key s2")
  have b: "b" "pending s2' = [key_table ! unat key]"
    using key_store_spec [OF kp(1) ks] kp(2) assms(11,12) by (auto simp: BUFSIZE_def)
  note f = key_store_kstate [OF ks]
  have w': "waits s2' q ?W" "runq s2' (remove1 ?c ts)" using s2(2,3) s1(6) by (simp_all add: waits_def runq_def f)
  have dist: "distinct (idle s # ts)" by (rule runq_distinct [OF rq])
  have dj: "set ?W \<inter> set (idle s2' # remove1 ?c ts) = {}"
    using assms(4,8) dist set_remove1_subset [of ?c ts] by (auto simp: f s2(4) s1(5))
  have st: "map_option t_state (task_of s2' p) = Some TASK_INTERRUPTIBLE" if "p \<in> set ?W" for p
    using that assms(9) s2(6) s1(4) by (auto simp: f)
  then have st': "\<forall>p \<in> set ?W. \<exists>t. task_of s2' p = Some t \<and>
      (t_state t = TASK_INTERRUPTIBLE \<or> t_state t = TASK_UNINTERRUPTIBLE)"
    by (metis map_option_eq_Some)
  obtain s3 where s3: "waitqueue_wakeup q s2' = Some s3" "waits s3 q []" "runq s3 (rev ?W @ remove1 ?c ts)"
    "task_of s3 = woken (set ?W) (task_of s2')"
    using waitqueue_wakeup_spec [OF w' dj st'] by blast
  have "keyboard_irq q s2 = Some s3" using ks b(1) s3(1) by (simp add: keyboard_irq_def key)
  moreover have "pending s3 = [key_table ! unat key]"
    using kbd_partD(1) [OF waitqueue_wakeup_more [OF s3(1)]] b(2) by simp
  moreover have "map_option t_state (task_of s3 ?c) = Some TASK_RUNNING"
    using st [of ?c] by (auto simp: s3(4) woken_def)
  ultimately show ?thesis using s1(1) s2(1,5) s1(6) s3(2,3) by (intro exI [of _ s1] exI [of _ s2] exI [of _ s3]) simp
qed

lemma kbd_state:
  obtains s :: kbd where "kbd_inv s" "klen s = 0" "sched_inv s [8192]" "current s = 8192" "idle s = 4096"
    "task_of s = demo_tasks" "waits s 1 [12288]" "inb 0x60 (cpu s) = 0x1E"
proof -
  obtain u :: kstate where u: "runq u [8192]" "waits u 1 [12288]" "idle u = 4096" "current u = 8192" "task_of u = demo_tasks"
    using sched_demo by metis
  define v where "v = u\<lparr>cpu := (cpu u)\<lparr>device := \<lambda>_ _. 0x1E\<rparr>\<rparr>"
  define s where "s = kstate.extend v (kbd.fields (\<lambda>_. 0) 255 0)"
  have f: "lnk s = lnk u" "idle s = 4096" "current s = 8192" "task_of s = demo_tasks" "klen s = 0" "khead s = 255"
    "cpu s = (cpu u)\<lparr>device := \<lambda>_ _. 0x1E\<rparr>"
    using u by (simp_all add: s_def v_def kstate.defs kbd.defs)
  show ?thesis
    by (rule that [of s]) (use u in \<open>simp_all add: f kbd_inv_def BUFSIZE_def sched_inv_def runq_def waits_def
      demo_tasks_def inb_def\<close>)
qed

theorem reader_woken_by_key_witness:
  "\<exists>(s :: kbd) s1 s2 s3. waitqueue_sleep 1 s = Some s1 \<and> schedule s1 = Some s2 \<and> keyboard_irq 1 s2 = Some s3 \<and>
     pending s = [] \<and> pending s3 = [97] \<and> runq s3 [12288, 8192]"
proof -
  obtain s :: kbd where s: "kbd_inv s" "klen s = 0" "sched_inv s [8192]" "current s = 8192" "idle s = 4096"
    "task_of s = demo_tasks" "waits s 1 [12288]" "inb 0x60 (cpu s) = 0x1E" by (rule kbd_state)
  have t: "task_of s (current s) = Some (demo_task TASK_RUNNING)" "t_state (demo_task TASK_RUNNING) = TASK_RUNNING"
    using s by (simp_all add: demo_tasks_def demo_task_def)
  have k: "unat (0x1E :: u8) < 128" "key_table ! unat (0x1E :: u8) \<noteq> 0" "key_table ! unat (0x1E :: u8) = 97"
    by (simp_all add: key_table_def)
  have w: "set [12288] \<inter> set (idle s # [8192]) = {}"
    "\<forall>p \<in> set [12288]. map_option t_state (task_of s p) = Some TASK_INTERRUPTIBLE"
    using s by (simp_all add: demo_tasks_def demo_task_def)
  have c: "current s \<in> set [8192]" using s by simp
  obtain s1 s2 s3 where "waitqueue_sleep 1 s = Some s1" "schedule s1 = Some s2" "keyboard_irq 1 s2 = Some s3"
    "pending s3 = [97]" "runq s3 [12288, 8192]"
    using reader_woken_by_key [OF s(1,2,3) c t s(7) w s(8) k(1,2)] k(3) s(4) by auto
  then show ?thesis using s(2) by (intro exI conjI) (auto simp: pending_def)
qed

end
