(* ===== verification/Tar.thy ===== *)
theory Tar
  imports Process
begin

text \<open>
  The boot image, \<open>src/src/fs/bootimg.c\<close>: a tar archive in memory whose files and directories
  are made in the file system.  A header is read at its offsets from byte memory.
\<close>

section \<open>Headers\<close>

definition REGTYPE :: u8 where [const_defs]: "REGTYPE = 48"
definition AREGTYPE :: u8 where [const_defs]: "AREGTYPE = 0"
definition DIRTYPE :: u8 where [const_defs]: "DIRTYPE = 53"

definition tar_name :: nat where "tar_name = 0"
definition tar_size :: nat where "tar_size = 124"
definition tar_typeflag :: nat where "tar_typeflag = 156"
definition tar_magic :: nat where "tar_magic = 257"
definition sizeof_tar_header :: nat where "sizeof_tar_header = 500"

section \<open>Numbers\<close>

definition max_int64 :: int where "max_int64 = 2 ^ 31 - 1"
definition min_int64 :: int where "min_int64 = - (2 ^ 31)"

text \<open>The loops run over memory until they meet a byte that stops them; \<open>char\<close> is signed.\<close>

partial_function (option) skip_blanks :: "mem \<Rightarrow> nat \<Rightarrow> nat option" where
  "skip_blanks m p = (if m p = 32 \<or> m p = 9 then skip_blanks m (p + 1) else Some p)"

text \<open>On overflow the code assigns \<open>max_uint64\<close>, all ones, to the signed \<open>l\<close>.\<close>

fun atol8_loop :: "mem \<Rightarrow> nat \<Rightarrow> nat \<Rightarrow> int \<Rightarrow> int" where
  "atol8_loop m p 0 l = l"
| "atol8_loop m p (Suc n) l =
    (let digit = sint (m p) - 48
     in if 0 \<le> digit \<and> digit < 8 then
          if l > max_int64 div 8 \<or> (l = max_int64 div 8 \<and> digit > max_int64 mod 8) then - 1
          else atol8_loop m (p + 1) n (l * 8 + digit)
        else l)"

definition tar_atol8 :: "mem \<Rightarrow> nat \<Rightarrow> nat \<Rightarrow> int option" where
  "tar_atol8 m p char_cnt =
    do {
      p1 \<leftarrow> skip_blanks m p;
      if m p1 = 45 then Some (- atol8_loop m (p1 + 1) char_cnt 0)
      else Some (atol8_loop m p1 char_cnt 0)
    }"

fun atol256_loop :: "mem \<Rightarrow> nat \<Rightarrow> nat \<Rightarrow> u32 \<Rightarrow> u32" where
  "atol256_loop m p 0 l = l"
| "atol256_loop m p (Suc n) l =
    (if sint l > max_int64 div 256 then word_of_int max_int64
     else if sint l < min_int64 div 256 then word_of_int min_int64
     else atol256_loop m (p + 1) n (push_bit 8 l OR ucast (m p)))"

definition tar_atol256 :: "mem \<Rightarrow> nat \<Rightarrow> nat \<Rightarrow> int" where
  "tar_atol256 m p char_cnt =
    (let l = (if m p AND 0x40 = 0x40 then - 1 else 0)
     in sint (atol256_loop m (p + 1) (char_cnt - 1) (push_bit 6 l OR ucast (m p AND 0x3f))))"

definition tar_atol :: "mem \<Rightarrow> nat \<Rightarrow> nat \<Rightarrow> int option" where
  "tar_atol m p char_cnt =
    (if m p AND 0x80 \<noteq> 0 then Some (tar_atol256 m p char_cnt) else tar_atol8 m p char_cnt)"

section \<open>Extraction\<close>

text \<open>The characters of the string at an address.\<close>

partial_function (option) string_at :: "mem \<Rightarrow> nat \<Rightarrow> string option" where
  "string_at m a =
    (if m a = 0 then Some [] else do { cs \<leftarrow> string_at m (a + 1); Some (char_of (unat (m a)) # cs) })"

definition ROUND_UP :: "u32 \<Rightarrow> u32 \<Rightarrow> u32" where
  "ROUND_UP x y = (x + y - 1) AND NOT (y - 1)"

text \<open>One entry.  \<open>name\<close> has room for the slash and 99 characters: a longer name is written behind
  the array, which gives no result.\<close>

definition extract_entry ::
  "'z kstate_scheme drivers \<Rightarrow> nat \<Rightarrow> string \<Rightarrow> u32 \<Rightarrow> 'z kstate_scheme \<Rightarrow> 'z kstate_scheme option" where
  "extract_entry drv p name sz s =
    (let typeflag = mem s (p + tar_typeflag)
     in if typeflag = REGTYPE \<or> typeflag = AREGTYPE then do {
          (r, s1) \<leftarrow> vfs_open drv name (O_WRONLY OR O_CREAT OR O_TRUNC) s;
          (case r of
             Inl e \<Rightarrow> kprintk (line ''%s: Can't create file (%d)'') [Text (Some name), int_arg e] s1
           | Inr f \<Rightarrow> do {
               (ret, s2) \<leftarrow> vfs_write drv f (p + 512) sz s1;
               s3 \<leftarrow> (if (word_of_int ret :: u32) \<noteq> sz
                 then kprintk (line ''%s: File not fully extracted: %d instead of %d'')
                   [Text (Some name), int_arg ret, Num (ucast sz)] s2
                 else Some s2);
               (c, s4) \<leftarrow> vfs_close drv f s3;
               Some s4
             })
        }
        else if typeflag = DIRTYPE then do {
          (ret, s1) \<leftarrow> vfs_mkdir name s;
          if ret < 0 \<and> ret \<noteq> - errno_code EEXIST
          then kprintk (line ''%s: Can't create directory (%d)'') [Text (Some name), int_arg ret] s1
          else Some s1
        }
        else do {
          nm \<leftarrow> string_at (mem s) (p + tar_name);
          kprintk (line (''Unknown file type '%c' (0x%x) for file '%s'. Skipping.''))
            [int_arg (sint typeflag), int_arg (sint typeflag), Text (Some nm)] s
        })"

text \<open>The step from one header to the next.\<close>

definition tar_step :: "u32 \<Rightarrow> nat" where
  "tar_step sz = 512 + (if sz \<noteq> 0 then unat (ROUND_UP sz 512) else 0)"

function extract_loop ::
  "'z kstate_scheme drivers \<Rightarrow> nat \<Rightarrow> nat \<Rightarrow> 'z kstate_scheme \<Rightarrow> 'z kstate_scheme option" where
  "extract_loop drv p stop s =
    (if stop \<le> p then Some s
     else if mem s (p + tar_name) = 0 \<and> mem s (p + tar_name + 1) = 0 then Some s
     else do {
       nm \<leftarrow> string_at (mem s) (p + tar_name);
       BUG_ON (99 < length nm);
       n \<leftarrow> tar_atol (mem s) (p + tar_size) 12;
       let sz = (word_of_int n :: u32);
       s1 \<leftarrow> extract_entry drv p (CHR 0x2F # nm) sz s;
       extract_loop drv (p + tar_step sz) stop s1
     })"
  by auto

termination
  by (relation "measure (\<lambda>(drv, p, stop, s). stop - p)") (auto simp: tar_step_def)

definition extract_tar ::
  "'z kstate_scheme drivers \<Rightarrow> nat \<Rightarrow> nat \<Rightarrow> u32 \<Rightarrow> 'z kstate_scheme \<Rightarrow> (int \<times> 'z kstate_scheme) option" where
  "extract_tar drv ustar_at tar_start sz s =
    (if unat sz < sizeof_tar_header then Some (- errno_code EINVAL, s)
     else if memcmp (tar_start + tar_magic) ustar_at 5 (mem s) \<noteq> 0 then Some (- errno_code EINVAL, s)
     else do {
       s1 \<leftarrow> extract_loop drv tar_start (tar_start + unat sz) s;
       Some (0, s1)
     })"

section \<open>Octal numbers\<close>

text \<open>A number in \<open>k\<close> octal digits, as tar writes it.\<close>

definition octal_at :: "mem \<Rightarrow> nat \<Rightarrow> nat \<Rightarrow> nat \<Rightarrow> bool" where
  "octal_at m p k n \<longleftrightarrow> n < 8 ^ k \<and> (\<forall>i < k. m (p + i) = of_nat (48 + n div 8 ^ (k - 1 - i) mod 8))"

definition no_digit :: "u8 \<Rightarrow> bool" where
  "no_digit c \<longleftrightarrow> \<not> (0 \<le> sint c - 48 \<and> sint c - 48 < 8)"

lemma digit_sint: "d < 8 \<Longrightarrow> sint (of_nat (48 + d) :: u8) = 48 + int d"
proof -
  assume "d < 8"
  then have "d \<in> {0, 1, 2, 3, 4, 5, 6, 7}" by auto
  then show ?thesis by auto
qed

lemma octal_at_Suc:
  assumes "octal_at m p (Suc k) n"
  shows "m p = of_nat (48 + n div 8 ^ k)" "n div 8 ^ k < 8" "octal_at m (p + 1) k (n mod 8 ^ k)"
proof -
  have n: "n < 8 * 8 ^ k" and d: "\<And>i. i < Suc k \<Longrightarrow> m (p + i) = of_nat (48 + n div 8 ^ (k - i) mod 8)"
    using assms by (simp_all add: octal_at_def)
  show l: "n div 8 ^ k < 8" using n by (simp add: less_mult_imp_div_less)
  show "m p = of_nat (48 + n div 8 ^ k)" using d [of 0] l by simp
  have "m (p + 1 + i) = of_nat (48 + n mod 8 ^ k div 8 ^ (k - 1 - i) mod 8)" if i: "i < k" for i
  proof -
    define e where "e = k - 1 - i"
    have ke: "(8 :: nat) ^ k = 8 ^ e * 8 ^ Suc i" using i by (simp add: e_def flip: power_add power_Suc)
    have "n mod 8 ^ k div 8 ^ e mod 8 = n div 8 ^ e mod 8 ^ Suc i mod 8"
      unfolding ke by (simp add: mod_mult2_eq)
    also have "\<dots> = n div 8 ^ e mod 8" by (simp add: mod_mod_cancel)
    finally show ?thesis using d [of "Suc i"] i by (simp add: e_def)
  qed
  then show "octal_at m (p + 1) k (n mod 8 ^ k)" by (simp add: octal_at_def)
qed

lemma atol8_loop_octal:
  assumes "octal_at m p j r" "j \<le> c" "j < c \<Longrightarrow> no_digit (m (p + j))" "0 \<le> v" "v \<le> max_int64"
  shows "atol8_loop m p c v =
    (if v * 8 ^ j + int r \<le> max_int64 then v * 8 ^ j + int r else - 1)"
  using assms
proof (induction j arbitrary: p c v r)
  case 0
  then have r: "r = 0" by (simp add: octal_at_def)
  show ?case
  proof (cases c)
    case (Suc n)
    then have "no_digit (m p)" using 0 by simp
    then show ?thesis using Suc 0 r by (auto simp: no_digit_def Let_def)
  qed (use 0 r in simp)
next
  case (Suc j)
  obtain c' where c: "c = Suc c'" using Suc.prems(2) by (cases c) auto
  let ?d = "r div 8 ^ j" and ?r = "r mod 8 ^ j"
  note o = octal_at_Suc [OF Suc.prems(1)]
  have dig: "sint (m p) - 48 = int ?d" using digit_sint [OF o(2)] by (simp add: o(1))
  have split: "v * 8 ^ Suc j + int r = (v * 8 + int ?d) * 8 ^ j + int ?r"
  proof -
    have "int r = int ?d * 8 ^ j + int ?r" by (simp add: zdiv_int zmod_int div_mult_mod_eq)
    then show ?thesis by (simp add: algebra_simps)
  qed
  have big: "(v > max_int64 div 8 \<or> (v = max_int64 div 8 \<and> int ?d > max_int64 mod 8)) \<longleftrightarrow> max_int64 < v * 8 + int ?d"
    using o(2) by (auto simp: max_int64_def)
  have step: "atol8_loop m p c v =
      (if max_int64 < v * 8 + int ?d then - 1 else atol8_loop m (p + 1) c' (v * 8 + int ?d))"
    unfolding c atol8_loop.simps Let_def dig using o(2) by (simp only: big) simp
  show ?case
  proof (cases "max_int64 < v * 8 + int ?d")
    case True
    have "v * 8 + int ?d \<le> (v * 8 + int ?d) * 8 ^ j" using Suc.prems(4) by (simp add: mult_le_cancel_left1)
    then have "max_int64 < v * 8 ^ Suc j + int r" unfolding split using True by linarith
    then show ?thesis using step True by simp
  next
    case False
    have "atol8_loop m (p + 1) c' (v * 8 + int ?d) =
        (if (v * 8 + int ?d) * 8 ^ j + int ?r \<le> max_int64 then (v * 8 + int ?d) * 8 ^ j + int ?r else - 1)"
      by (rule Suc.IH [OF o(3)]) (use Suc.prems c False in auto)
    then show ?thesis using step False unfolding split by simp
  qed
qed

lemma tar_atol_octal_spec:
  assumes o: "octal_at m p k n" and k: "0 < k" "k \<le> c" "k < c \<Longrightarrow> no_digit (m (p + k))"
  shows "tar_atol m p c = Some (if n < 2 ^ 31 then int n else - 1)"
proof -
  obtain k' where k': "k = Suc k'" using k(1) by (cases k) auto
  note d = octal_at_Suc [OF o [unfolded k']]
  define x where "x = n div 8 ^ k'"
  have x: "m p = of_nat (48 + x)" "x < 8" using d by (simp_all add: x_def)
  then have "x \<in> {0, 1, 2, 3, 4, 5, 6, 7}" by auto
  then have f: "m p AND 0x80 = 0" "m p \<noteq> 32" "m p \<noteq> 9" "m p \<noteq> 45" using x(1) by auto
  have "skip_blanks m p = Some p" by (subst skip_blanks.simps) (simp add: f)
  then have "tar_atol m p c = Some (atol8_loop m p c 0)" by (simp add: tar_atol_def tar_atol8_def f)
  also have "atol8_loop m p c 0 = (if int n \<le> max_int64 then int n else - 1)"
    using atol8_loop_octal [OF o k(2,3)] by (simp add: max_int64_def)
  finally show ?thesis by (simp add: max_int64_def)
qed

section \<open>Properties\<close>

text \<open>C39: Sizes in headers are read back as they were written: a number in octal digits, ended by a
  byte that is no digit or by the end of the field, is that number below 2 GiB; from there on the
  result is -1, which the caller takes for a size of almost 4 GiB.\<close>

theorem tar_atol_octal:
  assumes "octal_at m p k n" "0 < k" "k \<le> c" "k < c \<longrightarrow> no_digit (m (p + k))"
  shows "tar_atol m p c = Some (if n < 2 ^ 31 then int n else - 1)"
  by (rule tar_atol_octal_spec [OF assms(1-3)]) (use assms(4) in blast)

theorem tar_atol_octal_witness:
  "tar_atol ((\<lambda>_. 0)(100 := 49, 101 := 55)) 100 12 = Some 15"
proof -
  have "octal_at ((\<lambda>_. 0)(100 := 49, 101 := 55)) 100 2 15"
    by (simp add: octal_at_def All_less_Suc2 numeral_2_eq_2)
  from tar_atol_octal [OF this, of 12] show ?thesis by (simp add: no_digit_def)
qed

end
