(* ===== verification/Block.thy ===== *)
theory Block
  imports Prelude
begin

text \<open>
  Block devices, \<open>src/src/drivers/block/block.c\<close> and \<open>src/src/include/block.h\<close>, and the floppy
  driver, \<open>src/src/drivers/floppy.c\<close>.  A driver is a table of functions at an address, any of
  which may be missing; the tables are a parameter.
\<close>

section \<open>Devices\<close>

record blockdev_t =
  bd_dev :: int
  bd_size :: u32
  bd_ops :: nat

record blocks =
  devices :: "nat \<Rightarrow> blockdev_t"

record 's blockdev_ops =
  bo_init :: "(nat \<Rightarrow> 's \<Rightarrow> (int \<times> 's) option) option"
  bo_read :: "(nat \<Rightarrow> u32 \<Rightarrow> nat \<Rightarrow> u32 \<Rightarrow> 's \<Rightarrow> (u32 \<times> 's) option) option"
  bo_write :: "(nat \<Rightarrow> u32 \<Rightarrow> nat \<Rightarrow> u32 \<Rightarrow> 's \<Rightarrow> (u32 \<times> 's) option) option"

definition MAXDEV :: nat where [const_defs]: "MAXDEV = 5"

definition set_device :: "nat \<Rightarrow> (blockdev_t \<Rightarrow> blockdev_t) \<Rightarrow> 'z blocks_scheme \<Rightarrow> 'z blocks_scheme" where
  "set_device i f s = s\<lparr>devices := (devices s)(i := f (devices s i))\<rparr>"

section \<open>Operations\<close>

text \<open>Both test and call \<open>write\<close>.\<close>

definition block_read ::
  "(nat \<Rightarrow> 'z blocks_scheme blockdev_ops option) \<Rightarrow> int \<Rightarrow> u32 \<Rightarrow> nat \<Rightarrow> u32 \<Rightarrow> 'z blocks_scheme \<Rightarrow>
     (u32 \<times> 'z blocks_scheme) option" where
  "block_read tab dev offset buf count s =
    (if dev < 0 \<or> int MAXDEV \<le> dev then Some (- 1, s)
     else do {
       ops \<leftarrow> tab (bd_ops (devices s (nat dev)));
       (case bo_write ops of
          None \<Rightarrow> Some (- 1, s)
        | Some write \<Rightarrow> write (nat dev) offset buf count s)
     })"

definition block_write ::
  "(nat \<Rightarrow> 'z blocks_scheme blockdev_ops option) \<Rightarrow> int \<Rightarrow> u32 \<Rightarrow> nat \<Rightarrow> u32 \<Rightarrow> 'z blocks_scheme \<Rightarrow>
     (u32 \<times> 'z blocks_scheme) option" where
  "block_write tab dev offset buf count s =
    (if dev < 0 \<or> int MAXDEV \<le> dev then Some (- 1, s)
     else do {
       ops \<leftarrow> tab (bd_ops (devices s (nat dev)));
       (case bo_write ops of
          None \<Rightarrow> Some (- 1, s)
        | Some write \<Rightarrow> write (nat dev) offset buf count s)
     })"

fun init_block_loop :: "nat \<Rightarrow> nat \<Rightarrow> 'z blocks_scheme \<Rightarrow> 'z blocks_scheme" where
  "init_block_loop i 0 s = s"
| "init_block_loop i (Suc n) s = init_block_loop (Suc i) n (set_device i (\<lambda>d. d\<lparr>bd_dev := - 1\<rparr>) s)"

definition init_block :: "'z blocks_scheme \<Rightarrow> 'z blocks_scheme" where
  "init_block s = init_block_loop 0 MAXDEV s"

text \<open>The loop over the devices: the first free one is taken.\<close>

fun register_loop ::
  "(nat \<Rightarrow> 'z blocks_scheme blockdev_ops option) \<Rightarrow> nat \<Rightarrow> nat \<Rightarrow> nat \<Rightarrow> 'z blocks_scheme \<Rightarrow>
     (int \<times> 'z blocks_scheme) option" where
  "register_loop tab ops i 0 s = Some (- 1, s)"
| "register_loop tab ops i (Suc n) s =
    (if bd_dev (devices s i) = - 1 then do {
       let s1 = set_device i (\<lambda>d. d\<lparr>bd_dev := int i\<rparr>) s;
       let s2 = set_device i (\<lambda>d. d\<lparr>bd_ops := ops\<rparr>) s1;
       o1 \<leftarrow> tab ops;
       (case bo_init o1 of
          None \<Rightarrow> Some (int i, s2)
        | Some ini \<Rightarrow> do {
            (r, s3) \<leftarrow> ini i s2;
            if r < 0 then Some (- 1, set_device i (\<lambda>d. d\<lparr>bd_dev := - 1\<rparr>) s3)
            else Some (int i, s3)
          })
     }
     else register_loop tab ops (Suc i) n s)"

definition register_block ::
  "(nat \<Rightarrow> 'z blocks_scheme blockdev_ops option) \<Rightarrow> nat \<Rightarrow> 'z blocks_scheme \<Rightarrow>
     (int \<times> 'z blocks_scheme) option" where
  "register_block tab ops s = (if ops = 0 then Some (- 1, s) else register_loop tab ops 0 MAXDEV s)"

section \<open>The floppy driver\<close>

definition floppy_init :: "nat \<Rightarrow> 's \<Rightarrow> (int \<times> 's) option" where
  "floppy_init dev s = Some (0, s)"

definition floppy_read :: "nat \<Rightarrow> u32 \<Rightarrow> nat \<Rightarrow> u32 \<Rightarrow> 's \<Rightarrow> (u32 \<times> 's) option" where
  "floppy_read dev offset buf count s = Some (0, s)"

definition floppy_ops :: "'s blockdev_ops" where
  "floppy_ops = \<lparr>bo_init = Some floppy_init, bo_read = Some floppy_read, bo_write = None\<rparr>"

definition init_floppy ::
  "(nat \<Rightarrow> 'z blocks_scheme blockdev_ops option) \<Rightarrow> nat \<Rightarrow> 'z blocks_scheme \<Rightarrow> (int \<times> 'z blocks_scheme) option" where
  "init_floppy tab floppy_at s = register_block tab floppy_at s"

section \<open>Registration\<close>

definition free_device :: "'z blocks_scheme \<Rightarrow> nat \<Rightarrow> bool" where
  "free_device s i \<longleftrightarrow> bd_dev (devices s i) = - 1"

lemma init_block_loop_free:
  "devices (init_block_loop i n s) j = (if i \<le> j \<and> j < i + n then (devices s j)\<lparr>bd_dev := - 1\<rparr> else devices s j)"
  by (induction n arbitrary: i s) (auto simp: set_device_def)

lemma register_loop_spec:
  assumes "i + n = MAXDEV" "j < MAXDEV" "free_device s j" "\<forall>k < j. \<not> free_device s k" "i \<le> j"
    and "tab ops = Some t"
  shows "register_loop tab ops i n s =
    (let s2 = s\<lparr>devices := (devices s)(j := (devices s j)\<lparr>bd_dev := int j, bd_ops := ops\<rparr>)\<rparr>
     in case bo_init t of
          None \<Rightarrow> Some (int j, s2)
        | Some ini \<Rightarrow> do {
            (r, s3) \<leftarrow> ini j s2;
            if r < 0 then Some (- 1, set_device j (\<lambda>d. d\<lparr>bd_dev := - 1\<rparr>) s3) else Some (int j, s3) })"
  using assms
proof (induction n arbitrary: i)
  case (Suc n)
  show ?case
  proof (cases "i = j")
    case True
    have e: "set_device j (\<lambda>d. d\<lparr>bd_ops := ops\<rparr>) (set_device j (\<lambda>d. d\<lparr>bd_dev := int j\<rparr>) s) =
        s\<lparr>devices := (devices s)(j := (devices s j)\<lparr>bd_dev := int j, bd_ops := ops\<rparr>)\<rparr>"
      by (simp add: set_device_def)
    show ?thesis unfolding Let_def e [symmetric] using Suc.prems True by (simp add: free_device_def Let_def)
  next
    case False
    then have "\<not> free_device s i" using Suc.prems(4,5) by simp
    then show ?thesis using Suc False by (simp add: free_device_def)
  qed
qed simp

lemma register_loop_full:
  "i + n = MAXDEV \<Longrightarrow> \<forall>k. i \<le> k \<and> k < MAXDEV \<longrightarrow> \<not> free_device s k \<Longrightarrow> register_loop tab ops i n s = Some (- 1, s)"
  by (induction n arbitrary: i) (auto simp: free_device_def)

section \<open>Properties\<close>

text \<open>\<open>register_block\<close> gives a driver whose \<open>init\<close> succeeds the lowest free device number and
  changes no other device; a driver whose \<open>init\<close> fails, or that comes when all devices are taken,
  gets -1 and leaves all numbers as they were.\<close>

theorem register_block_correct:
  fixes s :: "'z blocks_scheme"
  assumes "ops \<noteq> 0" "tab ops = Some t" "bo_init t = Some ini"
    and "\<forall>i u. \<exists>r. ini i u = Some (r, u) \<and> (0 \<le> r \<longleftrightarrow> succeeds)"
  shows "\<exists>r s'. register_block tab ops s = Some (r, s') \<and>
    (if succeeds \<and> (\<exists>j < MAXDEV. free_device s j)
     then (\<exists>j < MAXDEV. r = int j \<and> free_device s j \<and> (\<forall>k < j. \<not> free_device s k) \<and>
       bd_dev (devices s' j) = int j \<and> bd_ops (devices s' j) = ops \<and> (\<forall>k. k \<noteq> j \<longrightarrow> devices s' k = devices s k))
     else r = - 1 \<and> (\<forall>k. bd_dev (devices s' k) = bd_dev (devices s k)))"
proof (cases "\<exists>j < MAXDEV. free_device s j")
  case False
  then have "register_block tab ops s = Some (- 1, s)"
    using register_loop_full [of 0 MAXDEV s tab ops] assms(1) by (auto simp: register_block_def)
  then show ?thesis using False by auto
next
  case True
  define j where "j = (LEAST j. free_device s j)"
  have j: "j < MAXDEV" "free_device s j" "\<forall>k < j. \<not> free_device s k"
    using True by (auto simp: j_def intro: LeastI Least_le [THEN le_less_trans] dest: not_less_Least)
  define s2 where "s2 = s\<lparr>devices := (devices s)(j := (devices s j)\<lparr>bd_dev := int j, bd_ops := ops\<rparr>)\<rparr>"
  obtain r where r: "ini j s2 = Some (r, s2)" "0 \<le> r \<longleftrightarrow> succeeds" using assms(4) by blast
  have "register_block tab ops s =
      (if r < 0 then Some (- 1, set_device j (\<lambda>d. d\<lparr>bd_dev := - 1\<rparr>) s2) else Some (int j, s2))"
    using register_loop_spec [where i = 0 and n = MAXDEV and tab = tab and ops = ops, OF _ j(1,2,3) _ assms(2)] assms(1,3) r(1)
    by (simp add: register_block_def Let_def s2_def [symmetric])
  then show ?thesis using True r(2) j by (auto simp: set_device_def s2_def free_device_def)
qed

theorem register_block_correct_witness:
  "\<exists>s s' :: blocks. register_block (\<lambda>_. Some floppy_ops) 7 s = Some (0, s') \<and> bd_ops (devices s' 0) = 7"
proof -
  define s :: blocks where "s = \<lparr>devices = \<lambda>_. \<lparr>bd_dev = - 1, bd_size = 0, bd_ops = 0\<rparr>\<rparr>"
  have f: "free_device s i" for i by (simp add: s_def free_device_def)
  have i: "\<forall>i u. \<exists>r. floppy_init i (u :: blocks) = Some (r, u) \<and> (0 \<le> r \<longleftrightarrow> True)" by (simp add: floppy_init_def)
  have o: "bo_init (floppy_ops :: blocks blockdev_ops) = Some floppy_init" by (simp add: floppy_ops_def)
  have ex: "\<exists>j < MAXDEV. free_device s j" using f by (auto simp: MAXDEV_def intro: exI [of _ 0])
  obtain r s' j where r: "register_block (\<lambda>_. Some floppy_ops) 7 s = Some (r, s')" "j < MAXDEV" "r = int j"
    "\<forall>k < j. \<not> free_device s k" "bd_ops (devices s' j) = 7"
    using register_block_correct [of 7 "\<lambda>_. Some floppy_ops" floppy_ops floppy_init True s] i o ex by auto
  then have "j = 0" using f by (cases j) auto
  then show ?thesis using r by auto
qed

text \<open>\<open>block_read\<close> writes.\<close>

theorem block_read_writes: "block_read tab dev offset buf n s = block_write tab dev offset buf n s"
  by (simp add: block_read_def block_write_def)

theorem floppy_never_read:
  "0 \<le> dev \<Longrightarrow> dev < 5 \<Longrightarrow> tab (bd_ops (devices s (nat dev))) = Some floppy_ops \<Longrightarrow>
     block_read tab dev offset buf n s = Some (- 1, s)"
  by (simp add: block_read_def floppy_ops_def MAXDEV_def)

end
