(* ===== verification/Debug.thy ===== *)
theory Debug
  imports Process
begin

text \<open>
  Diagnostics: the symbol table (\<open>src/src/kernel/syms.c\<close>), the stack trace and the register dump
  (\<open>src/src/kernel/debug.c\<close>).  The table, which is generated when the kernel is linked, the
  bounds of the code and the current frame pointer are parameters.
\<close>

section \<open>Symbols\<close>

record symbol_t =
  sym_address :: u64
  sym_type :: char
  sym_name :: string

text \<open>The last entry of the table is an empty one.\<close>

definition NUM_SYMS :: "symbol_t list \<Rightarrow> nat" where
  "NUM_SYMS ksymtab = length ksymtab - 1"

fun find_symbol_loop :: "symbol_t list \<Rightarrow> u64 \<Rightarrow> nat \<Rightarrow> nat \<Rightarrow> nat" where
  "find_symbol_loop ksymtab a i 0 = i"
| "find_symbol_loop ksymtab a i (Suc n) =
    (if sym_address (ksymtab ! i) \<ge> a then i else find_symbol_loop ksymtab a (i + 1) n)"

text \<open>The result is an index: before the first symbol it is -1.\<close>

definition find_symbol :: "symbol_t list \<Rightarrow> u64 \<Rightarrow> int" where
  "find_symbol ksymtab a =
    (let i = find_symbol_loop ksymtab a 0 (NUM_SYMS ksymtab)
     in if i = NUM_SYMS ksymtab \<or> sym_address (ksymtab ! i) > a then int i - 1 else int i)"

definition symbol_at :: "symbol_t list \<Rightarrow> int \<Rightarrow> symbol_t option" where
  "symbol_at ksymtab i = (if 0 \<le> i \<and> i < int (length ksymtab) then Some (ksymtab ! nat i) else None)"

section \<open>Stack trace\<close>

definition MAX_CALL_TRACE :: nat where [const_defs]: "MAX_CALL_TRACE = 100"

definition is_code :: "u64 \<Rightarrow> u64 \<Rightarrow> u64 \<Rightarrow> bool" where
  "is_code code code_end a \<longleftrightarrow> code \<le> a \<and> a < code_end"

definition print_symbol :: "symbol_t list \<Rightarrow> string \<Rightarrow> u64 \<Rightarrow> 'z kstate_scheme \<Rightarrow> 'z kstate_scheme option" where
  "print_symbol ksymtab fmt a s =
    do {
      let i = find_symbol ksymtab a;
      sym \<leftarrow> symbol_at ksymtab i;
      sym1 \<leftarrow> symbol_at ksymtab (i + 1);
      kprintk fmt [Num (sym_address sym), Text (Some (sym_name sym)), Num (a - sym_address sym),
        Num (sym_address sym1 - sym_address sym), Num a] s
    }"

fun print_stack_loop ::
  "symbol_t list \<Rightarrow> u64 \<Rightarrow> u64 \<Rightarrow> u64 \<Rightarrow> nat \<Rightarrow> u64 \<Rightarrow> 'z kstate_scheme \<Rightarrow> 'z kstate_scheme option" where
  "print_stack_loop ksymtab code code_end pg 0 rbp s = Some s"
| "print_stack_loop ksymtab code code_end pg (Suc i) rbp s =
    (if pg \<noteq> rbp AND NOT 4095 then Some s
     else do {
       let addr = load64 (unat rbp + 8) (mem s);
       s1 \<leftarrow> (if is_code code code_end addr then print_symbol ksymtab (line ''%p %s+0x%x/0x%x [%p]'') addr s
              else Some s);
       print_stack_loop ksymtab code code_end pg i (load64 (unat rbp) (mem s1)) s1
     })"

definition print_stack ::
  "symbol_t list \<Rightarrow> u64 \<Rightarrow> u64 \<Rightarrow> u64 \<Rightarrow> regs option \<Rightarrow> 'z kstate_scheme \<Rightarrow> 'z kstate_scheme option" where
  "print_stack ksymtab code code_end cur_rbp r s =
    do {
      s1 \<leftarrow> (case r of Some x \<Rightarrow> print_symbol ksymtab (line ''At %p %s+0x%x/0x%x [%p] '') (reg_rip x) s
              | None \<Rightarrow> Some s);
      let rbp = (case r of Some x \<Rightarrow> if reg_cs x AND 3 = 0 then reg_rbp x else cur_rbp | None \<Rightarrow> cur_rbp);
      s2 \<leftarrow> kprintk (line ''Call Stack:'') [] s1;
      print_stack_loop ksymtab code code_end (rbp AND NOT 4095) MAX_CALL_TRACE rbp s2
    }"

section \<open>Registers\<close>

definition tab_sep :: "string list \<Rightarrow> string" where
  "tab_sep xs = line (concat (map (\<lambda>x. x @ [CHR 0x09]) (butlast xs)) @ last xs)"

definition dump_format :: string where
  "dump_format =
    tab_sep [''RAX=%lx'', ''RBX=%lx'', ''RCX=%lx'', ''RDX=%lx''] @
    tab_sep [''RSI=%lx'', ''RDI=%lx'', ''RBP=%lx'', ''RSP=%lx''] @
    tab_sep [''R8=%lx'', ''R9=%lx'', ''R10=%lx'', ''R11=%lx''] @
    tab_sep [''R12=%lx'', ''R13=%lx'', ''R14=%lx'', ''R15=%lx''] @
    tab_sep [''RIP=%lx'', ''RFLAGS=%lx'', ''CS= %x'', ''SS= %x'', ''Err=%lx'']"

definition dump_regs :: "regs \<Rightarrow> 'z kstate_scheme \<Rightarrow> 'z kstate_scheme option" where
  "dump_regs r s = kprintk dump_format
    (map Num [reg_rax r, reg_rbx r, reg_rcx r, reg_rdx r, reg_rsi r, reg_rdi r, reg_rbp r, reg_rsp r,
      reg_r8 r, reg_r9 r, reg_r10 r, reg_r11 r, reg_r12 r, reg_r13 r, reg_r14 r, reg_r15 r,
      reg_rip r, reg_rflags r, reg_cs r, reg_ss r, error_code r]) s"

text \<open>The result is the state in which the processor halts.\<close>

definition do_oops ::
  "symbol_t list \<Rightarrow> u64 \<Rightarrow> u64 \<Rightarrow> u64 \<Rightarrow> regs \<Rightarrow> 'z kstate_scheme \<Rightarrow> 'z kstate_scheme option" where
  "do_oops ksymtab code code_end cur_rbp r s =
    do {
      t \<leftarrow> task_of s (current s);
      s1 \<leftarrow> kprintk (line ''PID %d'') [int_arg (t_pid t)] s;
      s2 \<leftarrow> dump_regs r s1;
      s3 \<leftarrow> print_stack ksymtab code code_end cur_rbp (Some r) s2;
      Some (s3\<lparr>cpu := cli (cpu s3)\<rparr>)
    }"

section \<open>The search\<close>

lemma find_symbol_loop_spec:
  "i \<le> find_symbol_loop tab a i n \<and> find_symbol_loop tab a i n \<le> i + n \<and>
   (\<forall>j. i \<le> j \<and> j < find_symbol_loop tab a i n \<longrightarrow> sym_address (tab ! j) < a) \<and>
   (find_symbol_loop tab a i n < i + n \<longrightarrow> a \<le> sym_address (tab ! find_symbol_loop tab a i n))"
proof (induction n arbitrary: i)
  case (Suc n)
  show ?case
  proof (cases "a \<le> sym_address (tab ! i)")
    case False
    then have "sym_address (tab ! i) < a" by simp
    moreover have "i \<le> j \<Longrightarrow> j = i \<or> Suc i \<le> j" for j by linarith
    ultimately show ?thesis using Suc [of "Suc i"] False by auto
  qed auto
qed auto

text \<open>The addresses of the symbols ascend strictly.\<close>

definition sorted_symbols :: "symbol_t list \<Rightarrow> bool" where
  "sorted_symbols tab \<longleftrightarrow> (\<forall>i j. i < j \<and> j < NUM_SYMS tab \<longrightarrow> sym_address (tab ! i) < sym_address (tab ! j))"

lemma find_symbol_spec:
  assumes s: "sorted_symbols tab" and n: "0 < NUM_SYMS tab" and a: "sym_address (tab ! 0) \<le> a"
  shows "\<exists>i < NUM_SYMS tab. find_symbol tab a = int i \<and> sym_address (tab ! i) \<le> a \<and>
    (\<forall>j < NUM_SYMS tab. sym_address (tab ! j) \<le> a \<longrightarrow> j \<le> i)"
proof -
  define k where "k = find_symbol_loop tab a 0 (NUM_SYMS tab)"
  have k: "k \<le> NUM_SYMS tab" "\<forall>j < k. sym_address (tab ! j) < a" "k < NUM_SYMS tab \<longrightarrow> a \<le> sym_address (tab ! k)"
    using find_symbol_loop_spec [of 0 tab a "NUM_SYMS tab"] by (auto simp: k_def)
  have f: "find_symbol tab a = (if k = NUM_SYMS tab \<or> sym_address (tab ! k) > a then int k - 1 else int k)"
    by (simp add: find_symbol_def Let_def k_def)
  show ?thesis
  proof (cases "k = NUM_SYMS tab \<or> sym_address (tab ! k) > a")
    case True
    have "k \<noteq> 0"
    proof
      assume "k = 0"
      then show False using True n a by simp
    qed
    then obtain i where i: "k = Suc i" by (cases k) auto
    have "j \<le> i" if j: "j < NUM_SYMS tab" "sym_address (tab ! j) \<le> a" for j
    proof (rule ccontr)
      assume "\<not> j \<le> i"
      then have kj: "k \<le> j" using i by simp
      then have lt: "k < NUM_SYMS tab" using j(1) by simp
      then have ak: "a < sym_address (tab ! k)" using True by auto
      have "sym_address (tab ! k) \<le> sym_address (tab ! j)"
        using s kj j(1) unfolding sorted_symbols_def by (cases "k = j") (auto intro: less_imp_le)
      then show False using ak j(2) by simp
    qed
    moreover have "find_symbol tab a = int i" using f True i by simp
    moreover have "i < NUM_SYMS tab" "sym_address (tab ! i) \<le> a" using k(1,2) i by (auto intro: less_imp_le)
    ultimately show ?thesis by blast
  next
    case False
    then have lt: "k < NUM_SYMS tab" "sym_address (tab ! k) \<le> a" using k(1) by auto
    have "j \<le> k" if j: "j < NUM_SYMS tab" "sym_address (tab ! j) \<le> a" for j
    proof (rule ccontr)
      assume "\<not> j \<le> k"
      then have "sym_address (tab ! k) < sym_address (tab ! j)" using s j(1) by (auto simp: sorted_symbols_def)
      then show False using k(3) lt(1) j(2) by simp
    qed
    then show ?thesis using lt f False by auto
  qed
qed

section \<open>Properties\<close>

text \<open>In a table whose addresses ascend, \<open>find_symbol\<close> of an address that is not below the first
  symbol returns the last symbol at or below the address, an entry of the table with another
  entry behind it.\<close>

theorem find_symbol_correct:
  assumes "sorted_symbols tab" "0 < NUM_SYMS tab" "sym_address (tab ! 0) \<le> a"
  shows "\<exists>i < NUM_SYMS tab. find_symbol tab a = int i \<and> sym_address (tab ! i) \<le> a \<and>
    (\<forall>j < NUM_SYMS tab. sym_address (tab ! j) \<le> a \<longrightarrow> j \<le> i)"
  by (rule find_symbol_spec [OF assms])

definition demo_symbols :: "symbol_t list" where
  "demo_symbols =
    [\<lparr>sym_address = 16, sym_type = CHR ''T'', sym_name = ''start''\<rparr>,
     \<lparr>sym_address = 64, sym_type = CHR ''T'', sym_name = ''main''\<rparr>,
     \<lparr>sym_address = 0, sym_type = CHR 0x00, sym_name = []\<rparr>]"

theorem find_symbol_correct_witness:
  "\<exists>i < 2. find_symbol demo_symbols 70 = int i \<and> (\<forall>j < 2. sym_address (demo_symbols ! j) \<le> 70 \<longrightarrow> j \<le> i)"
proof -
  have n: "NUM_SYMS demo_symbols = 2" by (simp add: NUM_SYMS_def demo_symbols_def)
  have "sorted_symbols demo_symbols"
  proof -
    have "sym_address (demo_symbols ! i) < sym_address (demo_symbols ! j)" if "i < j" "j < 2" for i j
    proof -
      have "i = 0" "j = 1" using that by auto
      then show ?thesis by (simp add: demo_symbols_def)
    qed
    then show ?thesis unfolding sorted_symbols_def n by blast
  qed
  moreover have "sym_address (demo_symbols ! 0) \<le> 70" by (simp add: demo_symbols_def)
  ultimately show ?thesis using find_symbol_correct [of demo_symbols 70] n by auto
qed

text \<open>Below the first symbol the result is the entry before the table.\<close>

theorem find_symbol_underflow:
  "0 < NUM_SYMS tab \<Longrightarrow> a < sym_address (tab ! 0) \<Longrightarrow> find_symbol tab a = - 1 \<and> symbol_at tab (find_symbol tab a) = None"
  by (cases "NUM_SYMS tab") (auto simp: find_symbol_def symbol_at_def Let_def)

end
