(* ===== verification/Pci.thy ===== *)
theory Pci
  imports Printf
begin

text \<open>
  The list of PCI devices, \<open>src/src/drivers/pci.c\<close>: configuration registers read through the index
  and data ports, the names of the classes, and the scan of all buses.
\<close>

section \<open>Configuration space\<close>

definition PCI_INDEX :: u16 where [const_defs]: "PCI_INDEX = 0xcf8"
definition PCI_DATA :: u16 where [const_defs]: "PCI_DATA = 0xcfc"

definition pci_index :: "u8 \<Rightarrow> u8 \<Rightarrow> u8 \<Rightarrow> u8 \<Rightarrow> u32" where
  "pci_index bus dvc func reg =
    push_bit 31 1 OR push_bit 16 (ucast bus) OR push_bit 11 (ucast dvc) OR push_bit 8 (ucast func) OR
    (ucast reg AND 0xfc)"

text \<open>The three functions of the macro differ in how much of the shifted value they keep.\<close>

definition pci_read_config :: "u8 \<Rightarrow> u8 \<Rightarrow> u8 \<Rightarrow> u8 \<Rightarrow> 'z hw_scheme \<Rightarrow> u32 \<times> 'z hw_scheme" where
  "pci_read_config bus dvc func reg s =
    (let s1 = outl PCI_INDEX (pci_index bus dvc func reg) s;
         v = inl PCI_DATA s1
     in (drop_bit (unat (push_bit 3 (reg AND 3))) v, s1))"

definition pci_read_config_byte :: "u8 \<Rightarrow> u8 \<Rightarrow> u8 \<Rightarrow> u8 \<Rightarrow> 'z hw_scheme \<Rightarrow> u8 \<times> 'z hw_scheme" where
  "pci_read_config_byte bus dvc func reg s = map_prod ucast id (pci_read_config bus dvc func reg s)"

definition pci_read_config_word :: "u8 \<Rightarrow> u8 \<Rightarrow> u8 \<Rightarrow> u8 \<Rightarrow> 'z hw_scheme \<Rightarrow> u16 \<times> 'z hw_scheme" where
  "pci_read_config_word bus dvc func reg s = map_prod ucast id (pci_read_config bus dvc func reg s)"

definition pci_read_config_long :: "u8 \<Rightarrow> u8 \<Rightarrow> u8 \<Rightarrow> u8 \<Rightarrow> 'z hw_scheme \<Rightarrow> u32 \<times> 'z hw_scheme" where
  "pci_read_config_long bus dvc func reg s = pci_read_config bus dvc func reg s"

section \<open>Classes\<close>

definition subcls_mass_storage :: "(u8 \<times> string) list" where
  "subcls_mass_storage = [(0x01, ''IDE''), (0x06, ''SATA'')]"
definition subcls_network :: "(u8 \<times> string) list" where
  "subcls_network = [(0x00, ''Ethernet'')]"
definition subcls_display :: "(u8 \<times> string) list" where
  "subcls_display = [(0x00, ''VGA'')]"
definition subcls_bridge :: "(u8 \<times> string) list" where
  "subcls_bridge = [(0x00, ''Host''), (0x01, ''ISA''), (0x80, ''Other'')]"
definition subcls_serial_bus :: "(u8 \<times> string) list" where
  "subcls_serial_bus = [(0x03, ''USB''), (0x05, ''SMBus'')]"

definition pci_classes :: "(u8 \<times> string \<times> (u8 \<times> string) list) list" where
  "pci_classes =
    [(0x01, ''Mass storage'', subcls_mass_storage), (0x02, ''Network'', subcls_network),
     (0x03, ''Display'', subcls_display), (0x06, ''Bridge'', subcls_bridge),
     (0x0c, ''Serial bus'', subcls_serial_bus)]"

fun find_sub :: "u8 \<Rightarrow> (u8 \<times> string) list \<Rightarrow> string" where
  "find_sub c [] = ''Unknown''"
| "find_sub c ((n, str) # subs) = (if n = c then str else find_sub c subs)"

fun find_class :: "u16 \<Rightarrow> (u8 \<times> string \<times> (u8 \<times> string) list) list \<Rightarrow> string" where
  "find_class cls [] = ''Unknown''"
| "find_class cls ((n, str, subs) # rest) =
    (if ucast n \<noteq> drop_bit 8 cls then find_class cls rest
     else str @ '': '' @ find_sub (ucast (cls AND 0xff)) subs)"

definition cls_to_str :: "u16 \<Rightarrow> string" where
  "cls_to_str cls = find_class cls pci_classes"

section \<open>The scan\<close>

definition pci_function :: "nat \<Rightarrow> nat \<Rightarrow> nat \<Rightarrow> 'z vga_scheme \<Rightarrow> 'z vga_scheme option" where
  "pci_function bus dev func s =
    do {
      let (vendorid, s1) = pci_read_config_word (of_nat bus) (of_nat dev) (of_nat func) 0 s;
      let (deviceid, s2) = pci_read_config_word (of_nat bus) (of_nat dev) (of_nat func) 2 s1;
      if vendorid = 0xffff \<or> deviceid = 0xffff then Some s2
      else do {
        let (cls, s3) = pci_read_config_word (of_nat bus) (of_nat dev) (of_nat func) 10 s2;
        let (sub, s4) = pci_read_config_long (of_nat bus) (of_nat dev) (of_nat func) 0x2c s3;
        map_option snd (printk
          (''%d:%d.%d'' @ [CHR 0x09] @ ''%04x:%04x [%04x] sub=%04x:%04x'' @ [CHR 0x09] @ ''%s'' @ [CHR 0x0A])
          [Num (of_nat bus), Num (of_nat dev), Num (of_nat func), Num (ucast vendorid), Num (ucast deviceid),
           Num (ucast cls), Num (ucast (sub AND 0xffff)), Num (ucast (drop_bit 16 sub)),
           Text (Some (cls_to_str cls))] s4)
      }
    }"

fun pci_loop :: "nat \<Rightarrow> nat \<Rightarrow> (nat \<Rightarrow> 's \<Rightarrow> 's option) \<Rightarrow> 's \<Rightarrow> 's option" where
  "pci_loop i 0 f s = Some s"
| "pci_loop i (Suc n) f s = do { s1 \<leftarrow> f i s; pci_loop (Suc i) n f s1 }"

definition init_pci :: "'z vga_scheme \<Rightarrow> (int \<times> 'z vga_scheme) option" where
  "init_pci s =
    do {
      (n, s1) \<leftarrow> printk (''init_pci:'' @ [CHR 0x0A]) [] s;
      s2 \<leftarrow> pci_loop 0 256 (\<lambda>bus. pci_loop 0 32 (\<lambda>dev. pci_loop 0 8 (\<lambda>func. pci_function bus dev func))) s1;
      Some (0, s2)
    }"

section \<open>Properties\<close>

text \<open>The index written to the port names the function unambiguously: bus, device, function and
  register are read back from its bits as the comment in the code lays them out.\<close>

theorem pci_index_fields:
  assumes "dvc < 32" "func < 8"
  shows "bit (pci_index bus dvc func reg) 31 \<and>
    ucast (drop_bit 16 (pci_index bus dvc func reg)) = bus \<and>
    ucast (drop_bit 11 (pci_index bus dvc func reg)) AND 31 = dvc \<and>
    ucast (drop_bit 8 (pci_index bus dvc func reg)) AND 7 = func \<and>
    ucast (pci_index bus dvc func reg) = reg AND 0xfc"
proof -
  have small: "\<not> bit x n" if "unat x < 2 ^ k" "k \<le> n" for x :: u8 and n k
  proof -
    have "take_bit k x = x" using that(1) by (simp add: word_unat_eq_iff unsigned_take_bit_eq take_bit_nat_eq_self)
    then show ?thesis using that(2) by (metis bit_take_bit_iff not_le)
  qed
  have "unat dvc < 2 ^ 5" "unat func < 2 ^ 3" using assms by (simp_all add: word_less_nat_alt)
  then have d: "5 \<le> n \<Longrightarrow> \<not> bit dvc n" and f: "3 \<le> n \<Longrightarrow> \<not> bit func n" for n
    using small by blast+
  have low: "n < LENGTH(8) \<Longrightarrow> n \<in> {0, 1, 2, 3, 4, 5, 6, 7}" for n :: nat by auto
  let ?i = "pci_index bus dvc func reg"
  have "bit ?i 31" by (simp add: pci_index_def bit_simps)
  moreover have "ucast (drop_bit 16 ?i) = bus"
    by (rule bit_word_eqI, drule low)
      (auto simp: pci_index_def bit_simps bit_numeral_rec d f)
  moreover have "ucast (drop_bit 11 ?i) AND 31 = dvc"
    by (rule bit_word_eqI, drule low)
      (auto simp: pci_index_def bit_simps bit_numeral_rec d f)
  moreover have "ucast (drop_bit 8 ?i) AND 7 = func"
    by (rule bit_word_eqI, drule low)
      (auto simp: pci_index_def bit_simps bit_numeral_rec d f)
  moreover have "ucast ?i = reg AND 0xfc"
  proof (rule bit_word_eqI)
    fix n :: nat
    assume n: "n < LENGTH(8)"
    have top: "\<not> bit (push_bit 31 (1 :: u32)) n" using n by (simp only: bit_push_bit_iff) simp
    have "bit ?i n \<longleftrightarrow> bit (ucast reg AND (0xfc :: u32)) n"
      using n top by (simp add: pci_index_def bit_simps)
    also have "\<dots> \<longleftrightarrow> bit reg n \<and> bit (0xfc :: u8) n"
      using low [OF n] by (elim insertE emptyE) (simp_all add: bit_simps bit_numeral_rec)
    finally show "bit (ucast ?i :: u8) n \<longleftrightarrow> bit (reg AND 0xfc) n" using n by (simp add: bit_simps)
  qed
  ultimately show ?thesis by blast
qed

theorem pci_index_fields_witness: "ucast (drop_bit 11 (pci_index 3 31 7 0x2c)) AND (31 :: u8) = 31"
  using pci_index_fields [where dvc = 31 and func = 7 and bus = 3 and reg = "0x2c"] by simp

end
