(* ===== verification/Boot.thy ===== *)
theory Boot
  imports Kbd Tar Debug Pci
begin

text \<open>
  Booting, \<open>src/src/kernel/main.c\<close> with \<open>src/src/include/multiboot.h\<close>, and the registration of the
  console driver (the function \<open>init\<close> of \<open>src/src/drivers/console.c\<close>): the interrupt descriptor
  table, the boot modules, the listing of the file system, the system-call registers, and
  \<open>kernel_start\<close>, which brings up every other part in the code's order.

  What the linker places (tables, stacks, entry points), the processor's \<open>cpuid\<close> and the frames
  of the stack are parameters, bundled in a record.  The multiboot structures are read from
  byte memory at their offsets.
\<close>

section \<open>Interrupt descriptors\<close>

record idt_entry =
  offset0_15 :: u16
  selector :: u16
  ist :: "3 word"
  reserved :: "5 word"
  trapgate :: "1 word"
  ones :: "3 word"
  zero_bit :: "1 word"
  dpl :: "2 word"
  present :: "1 word"
  offset16_31 :: u16
  offset32_63 :: u32
  ignore :: u32

definition idt_zero :: idt_entry where
  "idt_zero = \<lparr>offset0_15 = 0, selector = 0, ist = 0, reserved = 0, trapgate = 0, ones = 0, zero_bit = 0,
     dpl = 0, present = 0, offset16_31 = 0, offset32_63 = 0, ignore = 0\<rparr>"

record boot = kbd +
  idt :: "nat \<Rightarrow> idt_entry"
  idtr_limit :: u16
  idtr_addr :: u64

definition setup_idt_entry :: "u64 \<Rightarrow> bool \<Rightarrow> idt_entry \<Rightarrow> idt_entry" where
  "setup_idt_entry addr trap e =
    idt_zero\<lparr>offset0_15 := ucast (addr AND 0xffff), offset16_31 := ucast (drop_bit 16 addr AND 0xffff),
      offset32_63 := ucast (drop_bit 32 addr), selector := ucast KERNEL_CS, trapgate := of_bool trap,
      ones := - 1, present := 1\<rparr>"

fun setup_idt_loop :: "u64 \<Rightarrow> bool \<Rightarrow> nat \<Rightarrow> nat \<Rightarrow> 'z boot_scheme \<Rightarrow> 'z boot_scheme" where
  "setup_idt_loop vec trap i 0 s = s"
| "setup_idt_loop vec trap i (Suc n) s =
    setup_idt_loop vec trap (Suc i) n
      (s\<lparr>idt := (idt s)(i := setup_idt_entry (vec + of_nat (i * 16)) trap (idt s i))\<rparr>)"

definition init_idt :: "u64 \<Rightarrow> u64 \<Rightarrow> u64 \<Rightarrow> 'z boot_scheme \<Rightarrow> 'z boot_scheme option" where
  "init_idt vec vec_end idt_at s =
    do {
      BUG_ON (vec_end - vec \<noteq> 16 * 256);
      let s1 = setup_idt_loop vec True 0 32 s;
      let s2 = s1\<lparr>idt := (idt s1)(14 := (idt s1 14)\<lparr>trapgate := 0\<rparr>)\<rparr>;
      let s3 = setup_idt_loop vec False 32 224 s2;
      Some (s3\<lparr>idtr_limit := 16 * 256 - 1, idtr_addr := idt_at\<rparr>)
    }"

section \<open>Listing a directory tree\<close>

text \<open>The recursion runs through three places of the function: its start, the loop over the calls
  of \<open>vfs_dgetdents\<close>, and the loop over the entries of the buffer.  \<open>frame k\<close> is the address of
  \<open>buf\<close> in the \<open>k\<close>-th nested call.\<close>

datatype tree_at =
    Tree string
  | Tree_scan nat string int
  | Tree_entry string nat nat nat

definition path_sep :: "string \<Rightarrow> string option" where
  "path_sep path = (if path = [] then None else if last path = CHR 0x2F then Some [] else Some [CHR 0x2F])"

partial_function (option) tree_go ::
  "(nat \<Rightarrow> nat) \<Rightarrow> nat \<Rightarrow> tree_at \<Rightarrow> 'z kstate_scheme \<Rightarrow> 'z kstate_scheme option" where
  "tree_go frame k pos s =
    (case pos of
       Tree path \<Rightarrow> do {
         (r, nm, s1) \<leftarrow> lookup_path_dir path s;
         (case r of
            Inl e \<Rightarrow> Some s1
          | Inr d \<Rightarrow> do {
              s2 \<leftarrow> kprintk (line ''D %7d %s'') [Num 0, Text (Some path)] s1;
              s3 \<leftarrow> tree_go frame k (Tree_scan d path 0) s2;
              dentry_put d s3
            })
       }
     | Tree_scan d path st \<Rightarrow> do {
         (count, s1) \<leftarrow> vfs_dgetdents d (frame k) 50 st s;
         if count < 0 then kprintk (line ''count=%d'') [int_arg count] s1
         else if count = 0 then Some s1
         else do {
           s2 \<leftarrow> tree_go frame k (Tree_entry path 0 (nat count) (frame k)) s1;
           tree_go frame k (Tree_scan d path (st + count)) s2
         }
       }
     | Tree_entry path i count dp \<Rightarrow>
         if count \<le> i then Some s
         else do {
           name \<leftarrow> string_at (mem s) (dp + 12);
           sep \<leftarrow> path_sep path;
           s3 \<leftarrow> (if DIR_TYPE (load32 (dp + 4) (mem s)) = DIR_DIR then do {
               (p, s1) \<leftarrow> kmalloc (of_nat (length path + 1 + length name + 1)) s;
               BUG_ON (p = 0);
               let s2 = s1\<lparr>names := (names s1)(p \<mapsto> path @ sep @ name)\<rparr>;
               s4 \<leftarrow> tree_go frame (Suc k) (Tree (path @ sep @ name)) s2;
               free_obj p s4
             }
             else kprintk (line ''F %7d %s%s%s'')
               [Num (ucast (load32 (dp + 8) (mem s))), Text (Some path), Text (Some sep), Text (Some name)] s);
           tree_go frame k (Tree_entry path (i + 1) count (frame k + unat (load32 dp (mem s3)))) s3
         })"

definition tree :: "(nat \<Rightarrow> nat) \<Rightarrow> string \<Rightarrow> 'z kstate_scheme \<Rightarrow> 'z kstate_scheme option" where
  "tree frame path s = tree_go frame 0 (Tree path) s"

section \<open>The console driver\<close>

definition console_init ::
  "(nat \<Rightarrow> nat) \<Rightarrow> nat \<Rightarrow> nat \<Rightarrow> 'z kstate_scheme \<Rightarrow> (int \<times> 'z kstate_scheme) option" where
  "console_init frame keyboard_irq_at ops_at s =
    do {
      (r, c) \<leftarrow> register_irq 1 keyboard_irq_at 0 (cpu s);
      (ret, s1) \<leftarrow> devfs_register ''platform/console'' ops_at (s\<lparr>cpu := c\<rparr>);
      if ret < 0 then do {
        s2 \<leftarrow> kprintk (line ''Error registering console driver: %d'') [int_arg ret] s1;
        Some (ret, s2)
      }
      else do {
        s2 \<leftarrow> tree frame ''/'' s1;
        Some (0, s2)
      }
    }"

section \<open>Multiboot\<close>

definition MULTIBOOT_BOOTLOADER_MAGIC :: u64 where [const_defs]: "MULTIBOOT_BOOTLOADER_MAGIC = 0x2BADB002"
definition MULTIBOOT_FLAG_MEM_INFO :: u32 where [const_defs]: "MULTIBOOT_FLAG_MEM_INFO = push_bit 1 1"

record multiboot_info =
  mb_flags :: u32
  mem_lower :: u32
  mem_upper :: u32
  boot_device :: u32
  cmdline :: u32
  mods_count :: u32
  mods_addr :: u32

record module_t =
  mod_start :: u32
  mod_end :: u32
  mod_string :: u32

definition sizeof_module :: nat where "sizeof_module = 16"

definition get_mbi :: "nat \<Rightarrow> mem \<Rightarrow> multiboot_info" where
  "get_mbi a m =
    \<lparr>mb_flags = load32 a m, mem_lower = load32 (a + 4) m, mem_upper = load32 (a + 8) m,
     boot_device = load32 (a + 12) m, cmdline = load32 (a + 16) m, mods_count = load32 (a + 20) m,
     mods_addr = load32 (a + 24) m\<rparr>"

definition get_module :: "nat \<Rightarrow> mem \<Rightarrow> module_t" where
  "get_module a m = \<lparr>mod_start = load32 a m, mod_end = load32 (a + 4) m, mod_string = load32 (a + 8) m\<rparr>"

definition get_modules_end :: "nat \<Rightarrow> mem \<Rightarrow> u64" where
  "get_modules_end mbi_at m =
    (let mbi = get_mbi mbi_at m
     in if mb_flags mbi AND 8 = 0 then 0
        else if mods_count mbi = 0 then 0
        else let a = unat (P2V_IMAGE (ucast (mods_addr mbi))) + sizeof_module * unat (mods_count mbi - 1)
             in ucast (round_page_up32 (mod_end (get_module a m))))"

definition bootimg_module ::
  "'z kstate_scheme drivers \<Rightarrow> nat \<Rightarrow> nat \<Rightarrow> 'z kstate_scheme \<Rightarrow> 'z kstate_scheme option" where
  "bootimg_module drv ustar_at a s =
    do {
      let md = get_module a (mem s);
      (ret, s1) \<leftarrow> extract_tar drv ustar_at (unat (P2V (ucast (mod_start md)))) (mod_end md - mod_start md) s;
      if ret < 0 then do {
        str \<leftarrow> string_at (mem s1) (unat (P2V (ucast (mod_string (get_module a (mem s1))))));
        kprintk (quoted ''Error extracting bootimg '%s'' @ line '': %d'') [Text (Some str), int_arg ret] s1
      }
      else Some s1
    }"

definition extract_bootimg ::
  "'z kstate_scheme drivers \<Rightarrow> nat \<Rightarrow> nat \<Rightarrow> 'z kstate_scheme \<Rightarrow> 'z kstate_scheme option" where
  "extract_bootimg drv ustar_at mbi_at s =
    (let mbi = get_mbi mbi_at (mem s)
     in if mb_flags mbi AND 8 = 0 then kprintk (line ''No bootimg found.'') [] s
        else if mods_count mbi = 0 then kprintk (line ''No bootimg found.'') [] s
        else for_range 0 (unat (mods_count mbi))
          (\<lambda>i. bootimg_module drv ustar_at (unat (P2V (ucast (mods_addr mbi))) + sizeof_module * i)) s)"

section \<open>System calls and drivers\<close>

definition init_syscall :: "u64 \<Rightarrow> 'z hw_scheme \<Rightarrow> 'z hw_scheme" where
  "init_syscall system_call s =
    (let s1 = wrmsr 0xc0000081 (push_bit 48 (ucast (USER_CS - 16)) OR push_bit 32 (ucast KERNEL_CS)) s;
         s2 = wrmsr 0xc0000082 system_call s1
     in wrmsr 0xc0000084 0x47700 s2)"

fun run_init_funcs :: "('s \<Rightarrow> (int \<times> 's) option) list \<Rightarrow> 's \<Rightarrow> 's option" where
  "run_init_funcs [] s = Some s"
| "run_init_funcs (f # fs) s = do { (r, s1) \<leftarrow> f s; run_init_funcs fs s1 }"

section \<open>The first threads\<close>

text \<open>The bytes of a word in memory order, and the characters of a \<open>char\<close> array up to the first zero.\<close>

definition word_bytes :: "u32 \<Rightarrow> u8 list" where
  "word_bytes w = [ucast w, ucast (drop_bit 8 w), ucast (drop_bit 16 w), ucast (drop_bit 24 w)]"

definition chars_of :: "u8 list \<Rightarrow> string" where
  "chars_of bs = map (\<lambda>b. char_of (unat b)) (takeWhile (\<lambda>b. b \<noteq> 0) bs)"

type_synonym cpuid_fun = "u32 \<Rightarrow> u32 \<times> u32 \<times> u32 \<times> u32"

definition cpuid_line :: "cpuid_fun \<Rightarrow> u32 \<Rightarrow> 'z kstate_scheme \<Rightarrow> 'z kstate_scheme option" where
  "cpuid_line cpuid i s =
    (let (a, b, c, d) = cpuid i
     in kprintk (line ''0x%x: %8x %8x %8x %8x'')
          [Num (ucast i), Num (ucast a), Num (ucast b), Num (ucast c), Num (ucast d)] s)"

text \<open>\<open>i <= max\<close> holds for every \<open>i\<close> if \<open>max\<close> is the largest word.\<close>

partial_function (option) cpuid_loop ::
  "cpuid_fun \<Rightarrow> u32 \<Rightarrow> u32 \<Rightarrow> 'z kstate_scheme \<Rightarrow> 'z kstate_scheme option" where
  "cpuid_loop cpuid i mx s =
    (if i \<le> mx then do { s1 \<leftarrow> cpuid_line cpuid i s; cpuid_loop cpuid (i + 1) mx s1 } else Some s)"

definition cpuid_bytes :: "cpuid_fun \<Rightarrow> u32 \<Rightarrow> u8 list" where
  "cpuid_bytes cpuid i =
    (let (a, b, c, d) = cpuid i in word_bytes a @ word_bytes b @ word_bytes c @ word_bytes d)"

definition run_init ::
  "'z kstate_scheme drivers \<Rightarrow> cpuid_fun \<Rightarrow> nat \<Rightarrow> nat \<Rightarrow> nat \<Rightarrow> 'z kstate_scheme \<Rightarrow>
     (int option \<times> 'z kstate_scheme) option" where
  "run_init drv cpuid elfmag_at ehdr_at phdr_at s =
    do {
      s1 \<leftarrow> kprintk (line ''Running /prog...'') [] s;
      let (mx, b0, c0, d0) = cpuid 0;
      let brand = chars_of (word_bytes b0 @ word_bytes d0 @ word_bytes c0 @ [0]);
      let extmax = fst (cpuid 0x80000000);
      let extbrand = (if extmax \<ge> 0x80000004
        then chars_of (cpuid_bytes cpuid 0x80000002 @ cpuid_bytes cpuid 0x80000003 @
          cpuid_bytes cpuid 0x80000004 @ [0])
        else []);
      s2 \<leftarrow> kprintk (line ''Brand: %s'' @ line ''Ext brand: %s'') [Text (Some brand), Text (Some extbrand)] s1;
      s3 \<leftarrow> cpuid_loop cpuid 1 mx s2;
      s4 \<leftarrow> (if extmax \<ge> 0x80000001 then
          (let (a, b, c, d) = cpuid 0x80000001
           in kprintk (line ''0x80000001: %8x %8x %8x %8x'')
             [Num (ucast a), Num (ucast b), Num (ucast c), Num (ucast d)] s3)
        else Some s3);
      s5 \<leftarrow> cpuid_loop cpuid 0x80000005 extmax s4;
      kernel_exec drv elfmag_at ehdr_at phdr_at ''/prog'' s5
    }"

text \<open>One turn of the loop of \<open>kthread_func\<close>.\<close>

definition kthread_turn :: "string \<Rightarrow> int \<Rightarrow> 'z kstate_scheme \<Rightarrow> (int \<times> 'z kstate_scheme) option" where
  "kthread_turn data x s =
    do {
      nr \<leftarrow> need_resched s;
      if nr \<noteq> 0 then do {
        t \<leftarrow> task_of s (current s);
        s1 \<leftarrow> (if x smod 10 = 0 then kprintk (line ''%d%s'') [int_arg (t_pid t), Text (Some data)] s else Some s);
        s2 \<leftarrow> schedule s1;
        Some (x + 1, s2)
      }
      else Some (x, s)
    }"

section \<open>The start of the kernel\<close>

record 's image =
  im_end :: u64
  im_l4 :: u64
  im_l4_frame :: u64
  im_l3_frame :: u64
  im_vec :: u64
  im_vec_end :: u64
  im_idt :: u64
  im_gdt :: nat
  im_tss :: u64
  im_idle :: nat
  im_bitmap :: "nat \<Rightarrow> u64"
  im_timer :: nat
  im_syscall :: u64
  im_ustar :: nat
  im_frame :: "nat \<Rightarrow> nat"
  im_inits :: "('s \<Rightarrow> (int \<times> 's) option) list"
  im_run_init :: u64

definition on_cpu :: "(vga \<Rightarrow> vga) \<Rightarrow> 'z kstate_scheme \<Rightarrow> 'z kstate_scheme" where
  "on_cpu f s = s\<lparr>cpu := f (cpu s)\<rparr>"

text \<open>Memory: the frames above the image and its modules, the idle task, the heap.  The products
  are computed in 32 bits.  The field \<open>page_dir\<close> is the top table of the current task, from here on
  that of the idle task.\<close>

definition start_memory :: "'z boot_scheme image \<Rightarrow> nat \<Rightarrow> 'z boot_scheme \<Rightarrow> 'z boot_scheme option" where
  "start_memory im mbi_at s =
    do {
      let mbi = get_mbi mbi_at (mem s);
      let total = (ucast ((mem_upper mbi + 1024) * 1024) :: u64);
      s1 \<leftarrow> map_memory (im_l4_frame im) (im_l3_frame im) total s;
      s2 \<leftarrow> init_idt (im_vec im) (im_vec_end im) (im_idt im) s1;
      let s3 = init_tss (im_gdt im) (im_tss im) (im_idle im) s2;
      let b0 = get_modules_end mbi_at (mem s3);
      let bs = (if b0 = 0 then ROUND_PAGE_UP (V2P_IMAGE (im_end im)) else b0);
      let sz = ROUND_PAGE_DOWN (ucast (mem_upper mbi * 1024) - bs);
      s4 \<leftarrow> init_pmm bs sz (im_bitmap im) s3;
      s5 \<leftarrow> init_idle (im_idle im) (im_l4 im) s4;
      let s6 = s5\<lparr>page_dir := im_l4_frame im\<rparr>;
      s7 \<leftarrow> init_heap s6;
      init_mm total s7
    }"

definition start_devices :: "'z boot_scheme image \<Rightarrow> 'z boot_scheme \<Rightarrow> 'z boot_scheme option" where
  "start_devices im s =
    do {
      let s1 = init_scheduler s;
      let s2 = on_cpu init_pit (on_cpu init_pic s1);
      (r, c) \<leftarrow> register_irq 0 (im_timer im) 0 (cpu s2);
      let s3 = on_cpu sti (s2\<lparr>cpu := c\<rparr>);
      s4 \<leftarrow> kprintk (line ''Found %u MB of memory.'') [Num (get_mem_size s3 div 1024 div 1024)] s3;
      kprintk (line ''Memory used: %u bytes.'') [Num (get_used_mem s4)] s4
    }"

definition start_files ::
  "'z boot_scheme drivers \<Rightarrow> 'z boot_scheme image \<Rightarrow> nat \<Rightarrow> 'z boot_scheme \<Rightarrow> 'z boot_scheme option" where
  "start_files drv im mbi_at s =
    do {
      let (r1, s1) = init_ramfs s;
      (r2, s2) \<leftarrow> vfs_mount ''ramfs'' ''/'' s1;
      s3 \<leftarrow> extract_bootimg drv (im_ustar im) mbi_at s2;
      let (r3, s4) = init_devfs s3;
      (r4, s5) \<leftarrow> vfs_mkdir ''/dev'' s4;
      (r5, s6) \<leftarrow> vfs_mount ''devfs'' ''/dev'' s5;
      tree (im_frame im) ''/'' s6
    }"

text \<open>The endless loops after an error have no result.  The result is the state in which the
  first thread starts.\<close>

definition kernel_start ::
  "'z boot_scheme drivers \<Rightarrow> 'z boot_scheme image \<Rightarrow> u64 \<Rightarrow> nat \<Rightarrow> 'z boot_scheme \<Rightarrow> 'z boot_scheme option" where
  "kernel_start drv im mb_checksum mbi_at s =
    do {
      let s1 = on_cpu init_console s;
      if mb_checksum \<noteq> MULTIBOOT_BOOTLOADER_MAGIC then None
      else if mb_flags (get_mbi mbi_at (mem s1)) AND MULTIBOOT_FLAG_MEM_INFO = 0 then None
      else do {
        s2 \<leftarrow> kprintk (line ''Found %u KB of memory.'') [Num (ucast (mem_upper (get_mbi mbi_at (mem s1)) + 1024))] s1;
        s3 \<leftarrow> start_memory im mbi_at s2;
        s4 \<leftarrow> start_devices im s3;
        s5 \<leftarrow> start_files drv im mbi_at s4;
        (r, c) \<leftarrow> init_pci (cpu s5);
        let s6 = on_cpu (init_syscall (im_syscall im)) (s5\<lparr>cpu := c\<rparr>);
        s7 \<leftarrow> run_init_funcs (im_inits im) s6;
        (pid, s8) \<leftarrow> kernel_thread (im_run_init im) 0 s7;
        schedule s8
      }
    }"


section \<open>The gates\<close>

definition gate_addr :: "idt_entry \<Rightarrow> u64" where
  "gate_addr e = ucast (offset0_15 e) OR push_bit 16 (ucast (offset16_31 e)) OR push_bit 32 (ucast (offset32_63 e))"

lemma gate_addr_setup: "gate_addr (setup_idt_entry addr trap e) = addr"
proof (rule bit_word_eqI)
  fix n :: nat assume n: "n < LENGTH(64)"
  have m: "(0xffff :: u64) = mask 16" by (simp add: mask_eq_decr_exp)
  show "bit (gate_addr (setup_idt_entry addr trap e)) n = bit addr n"
    using n unfolding gate_addr_def setup_idt_entry_def m
    by (cases "n < 16"; cases "n < 32") (auto simp: bit_simps)
qed

lemma setup_idt_loop_spec:
  "idt (setup_idt_loop vec trap i n s) v =
     (if i \<le> v \<and> v < i + n then setup_idt_entry (vec + of_nat (v * 16)) trap (idt s v) else idt s v)"
proof (induction n arbitrary: i s)
  case (Suc n)
  have e: "setup_idt_entry a t x = setup_idt_entry a t y" for a t x y by (simp add: setup_idt_entry_def)
  show ?case
  proof (cases "v = i")
    case True
    then show ?thesis using Suc [of "Suc i"] by simp
  next
    case False
    then have "Suc i \<le> v \<longleftrightarrow> i \<le> v" by auto
    then show ?thesis using Suc [of "Suc i"] False by simp
  qed
qed auto

lemma setup_fields:
  "present (setup_idt_entry addr trap e) = 1" "selector (setup_idt_entry addr trap e) = ucast KERNEL_CS"
  "dpl (setup_idt_entry addr trap e) = 0" "ones (setup_idt_entry addr trap e) = - 1"
  "trapgate (setup_idt_entry addr trap e) = of_bool trap"
  by (simp_all add: setup_idt_entry_def idt_zero_def)

section \<open>Properties\<close>

text \<open>After \<open>init_idt\<close> every one of the 256 interrupt gates is present in the kernel's code
  segment for the kernel only and leads to its own 16-byte entry point; exactly the exceptions
  but the page fault, which must not be interrupted before it has read the address, keep
  interrupts on.\<close>

theorem idt_gates:
  assumes "vec_end - vec = 16 * 256" "v < 256"
  shows "\<exists>s'. init_idt vec vec_end idt_at s = Some s' \<and> gate_addr (idt s' v) = vec + of_nat (v * 16) \<and>
    present (idt s' v) = 1 \<and> selector (idt s' v) = ucast KERNEL_CS \<and> dpl (idt s' v) = 0 \<and> ones (idt s' v) = - 1 \<and>
    (trapgate (idt s' v) = 1 \<longleftrightarrow> v < 32 \<and> v \<noteq> 14) \<and> idtr_addr s' = idt_at"
proof -
  define s1 where "s1 = setup_idt_loop vec True 0 32 s"
  define s2 where "s2 = s1\<lparr>idt := (idt s1)(14 := (idt s1 14)\<lparr>trapgate := 0\<rparr>)\<rparr>"
  define s' where "s' = (setup_idt_loop vec False 32 224 s2)\<lparr>idtr_limit := 16 * 256 - 1, idtr_addr := idt_at\<rparr>"
  have r: "init_idt vec vec_end idt_at s = Some s'"
    using assms(1) by (simp add: init_idt_def Let_def s'_def s2_def s1_def)
  have i1: "idt s1 u = (if u < 32 then setup_idt_entry (vec + of_nat (u * 16)) True (idt s u) else idt s u)" for u
    using setup_idt_loop_spec [of vec True 0 32 s u] by (simp add: s1_def)
  have i': "idt s' v = (if 32 \<le> v then setup_idt_entry (vec + of_nat (v * 16)) False (idt s2 v) else idt s2 v)"
    using setup_idt_loop_spec [of vec False 32 224 s2 v] assms(2) by (simp add: s'_def)
  have a: "idtr_addr s' = idt_at" by (simp add: s'_def)
  have g: "gate_addr (x\<lparr>trapgate := t\<rparr>) = gate_addr x" for x t by (simp add: gate_addr_def)
  consider "32 \<le> v" | "v < 32" "v \<noteq> 14" | "v = 14" using assms(2) by linarith
  then show ?thesis
  proof cases
    case 1
    then have "idt s' v = setup_idt_entry (vec + of_nat (v * 16)) False (idt s2 v)" using i' by simp
    then show ?thesis using r a 1 by (intro exI [of _ s'] conjI) (simp_all add: gate_addr_setup setup_fields)
  next
    case 2
    then have "idt s' v = setup_idt_entry (vec + of_nat (v * 16)) True (idt s v)" using i' i1 [of v] by (simp add: s2_def)
    then show ?thesis using r a 2 by (intro exI [of _ s'] conjI) (simp_all add: gate_addr_setup setup_fields)
  next
    case 3
    have "idt s' 14 = (setup_idt_entry (vec + of_nat (14 * 16)) True (idt s 14))\<lparr>trapgate := 0\<rparr>"
      using i' i1 [of 14] 3 by (simp add: s2_def)
    then show ?thesis using r a unfolding 3
      by (intro exI [of _ s'] conjI) (simp_all add: g gate_addr_setup setup_fields)
  qed
qed

theorem idt_gates_witness:
  "\<forall>s :: boot. \<exists>s'. init_idt 0xffffffff80101000 0xffffffff80102000 8 s = Some s' \<and>
     gate_addr (idt s' 14) = 0xffffffff801010e0 \<and> trapgate (idt s' 14) \<noteq> 1"
proof
  fix s :: boot
  show "\<exists>s'. init_idt 0xffffffff80101000 0xffffffff80102000 8 s = Some s' \<and>
      gate_addr (idt s' 14) = 0xffffffff801010e0 \<and> trapgate (idt s' 14) \<noteq> 1"
    using idt_gates [of "0xffffffff80102000" "0xffffffff80101000" 14 8 s] by auto
qed

end
