(* ===== verification/Startup.thy ===== *)
theory Startup
  imports ProcessProps
begin

text \<open>
  The start code, \<open>src/src/kernel/setup.S\<close>: from the boot loader's 32-bit entry through the first page
  tables and long mode to the call of \<open>kernel_start\<close>.

  The code runs with paging off at first; from the moment it is on, every access and the
  instruction behind every jump go through the page tables that the code has just
  written: an address that is not mapped makes the run \<open>None\<close>.  What the processor does with
  a table is \<open>page_walk\<close>; entries it may have cached are not modelled.
\<close>

section \<open>The processor's tables\<close>

definition entry_frame :: "u64 \<Rightarrow> u64" where
  "entry_frame e = e AND 0x000ffffffffff000"

definition table_index :: "nat \<Rightarrow> u64 \<Rightarrow> nat" where
  "table_index i va = unat (drop_bit (12 + 9 * i) va AND 0x1ff)"

definition walk_entry :: "mem \<Rightarrow> u64 \<Rightarrow> nat \<Rightarrow> u64 \<Rightarrow> u64 option" where
  "walk_entry m t i va =
    (let e = load64 (unat t + 8 * table_index i va) m
     in if e AND ucast PTE_PRESENT = 0 then None else Some e)"

text \<open>A large page ends the walk in the third table.\<close>

definition page_walk :: "mem \<Rightarrow> u64 \<Rightarrow> u64 \<Rightarrow> u64 option" where
  "page_walk m t va =
    do {
      e4 \<leftarrow> walk_entry m (entry_frame t) 3 va;
      e3 \<leftarrow> walk_entry m (entry_frame e4) 2 va;
      e2 \<leftarrow> walk_entry m (entry_frame e3) 1 va;
      if e2 AND ucast PTE_SIZE \<noteq> 0 then Some ((e2 AND 0x000fffffffe00000) OR (va AND 0x1fffff))
      else do {
        e1 \<leftarrow> walk_entry m (entry_frame e2) 0 va;
        Some (entry_frame e1 OR (va AND 0xfff))
      }
    }"

section \<open>The code\<close>

text \<open>Addresses of the image: the tables, the stack, the descriptor table and its pointer, and the
  two labels jumped to.\<close>

record layout =
  at_l4 :: u64
  at_l3 :: u64
  at_l2 :: u64
  at_stack :: u64
  at_gdt :: u64
  at_gdtr :: u64
  at_code64 :: u64
  at_upper :: u64

record start_cpu =
  phys :: mem
  st_eax :: u32
  st_ebx :: u32
  st_rsi :: u64
  st_rdi :: u64
  st_rsp :: u64
  st_rbp :: u64
  st_flags :: u64
  st_cr0 :: u64
  st_cr3 :: u64
  st_cr4 :: u64
  st_efer :: u64
  st_gdt_limit :: u16
  st_gdt_base :: u64
  st_segments :: u64

definition img :: "u64 \<Rightarrow> nat" where
  "img a = unat (V2P_IMAGE a)"

text \<open>The entries of the two large pages and of the tables above them.\<close>

definition large_entry :: "u32 \<Rightarrow> u32" where
  "large_entry a = a + PTE_PRESENT + PTE_WRITE + PTE_SIZE"

definition table_entry :: "u64 \<Rightarrow> u32" where
  "table_entry t = ucast (V2P_IMAGE t) + PTE_PRESENT + PTE_WRITE"

definition first_tables :: "layout \<Rightarrow> mem \<Rightarrow> mem" where
  "first_tables l m =
    (let m1 = store32 (img (at_l2 l)) (large_entry 0) m;
         m2 = store32 (img (at_l2 l) + 8) (large_entry 0x200000) m1;
         m3 = store32 (img (at_l3 l)) (table_entry (at_l2 l)) m2;
         m4 = store32 (img (at_l3 l) + unat (drop_bit 30 KERNEL_VIRT_ADDR AND 0x1ff) * 8) (table_entry (at_l2 l)) m3;
         m5 = store32 (img (at_l4 l)) (table_entry (at_l3 l)) m4
     in store32 (img (at_l4 l) + unat (drop_bit 39 KERNEL_VIRT_ADDR AND 0x1ff) * 8) (table_entry (at_l3 l)) m5)"

text \<open>32-bit code without paging.\<close>

definition setup32 :: "layout \<Rightarrow> start_cpu \<Rightarrow> start_cpu" where
  "setup32 l s =
    (let esp = V2P_IMAGE (at_stack l) + 4096;
         s1 = s\<lparr>st_rsp := esp, phys := store32 (unat (esp - 4)) 0 (phys s), st_flags := 0\<rparr>;
         s2 = s1\<lparr>st_rsi := ucast (st_eax s1)\<rparr>;
         s3 = s2\<lparr>phys := first_tables l (phys s2)\<rparr>;
         s4 = s3\<lparr>st_eax := ucast (V2P_IMAGE (at_l4 l)), st_cr3 := V2P_IMAGE (at_l4 l)\<rparr>;
         s5 = s4\<lparr>st_gdt_limit := load16 (img (at_gdtr l)) (phys s4),
                 st_gdt_base := ucast (load32 (img (at_gdtr l) + 2) (phys s4))\<rparr>;
         s6 = s5\<lparr>st_cr4 := set_bit 5 (st_cr4 s5)\<rparr>;
         s7 = s6\<lparr>st_efer := st_efer s6 OR (push_bit 8 1 OR push_bit 0 1)\<rparr>
     in s7\<lparr>st_cr0 := set_bit 31 (st_cr0 s7)\<rparr>)"

text \<open>Accesses through the tables.  None of the code's crosses into another large page.\<close>

definition translated :: "u64 \<Rightarrow> start_cpu \<Rightarrow> nat option" where
  "translated va s = map_option unat (page_walk (phys s) (st_cr3 s) va)"

definition store_at :: "(nat \<Rightarrow> 'a \<Rightarrow> mem \<Rightarrow> mem) \<Rightarrow> u64 \<Rightarrow> 'a \<Rightarrow> start_cpu \<Rightarrow> start_cpu option" where
  "store_at st va v s = do { a \<leftarrow> translated va s; Some (s\<lparr>phys := st a v (phys s)\<rparr>) }"

text \<open>The code that runs with paging on, up to the call of \<open>kernel_start\<close>.\<close>

definition setup64 :: "layout \<Rightarrow> start_cpu \<Rightarrow> start_cpu option" where
  "setup64 l s =
    do {
      s1 \<leftarrow> store_at store16 0xb8000 0x0f41 s;
      pc \<leftarrow> translated (V2P_IMAGE (at_code64 l)) s1;
      s2 \<leftarrow> store_at store16 0xb8002 0x0f42 s1;
      pc \<leftarrow> translated (at_upper l) s2;
      s3 \<leftarrow> store_at store64 (at_gdtr l + 2) (at_gdt l) s2;
      a \<leftarrow> translated (at_gdtr l) s3;
      let s4 = s3\<lparr>st_gdt_limit := load16 a (phys s3), st_gdt_base := load64 (a + 2) (phys s3), st_segments := 0x10\<rparr>;
      let s5 = s4\<lparr>st_rsp := at_stack l + 4096 - 0xb0\<rparr>;
      s6 \<leftarrow> store_at store64 (at_l3 l) 0 s5;
      s7 \<leftarrow> store_at store64 (at_l4 l) 0 s6;
      pc \<leftarrow> translated (at_upper l) s7;
      let s8 = s7\<lparr>st_rbp := 0, st_rdi := ucast (ucast (st_rsi s7) :: u32)\<rparr>;
      Some (s8\<lparr>st_rsi := ucast (st_ebx s8) + KERNEL_VIRT_ADDR\<rparr>)
    }"

definition setup_start :: "layout \<Rightarrow> start_cpu \<Rightarrow> start_cpu option" where
  "setup_start l s = setup64 l (setup32 l s)"

section \<open>Data\<close>

text \<open>The header the boot loader looks for, and the descriptors: kernel code and stack, the task-state
  segment's place, user stack and code.\<close>

definition MULTIBOOT_HEADER_MAGIC :: u32 where "MULTIBOOT_HEADER_MAGIC = 0x1BADB002"

definition MULTIBOOT_HEADER_FLAGS :: u32 where
  "MULTIBOOT_HEADER_FLAGS = push_bit 0 1 OR push_bit 1 1 OR push_bit 16 1"

definition mb_header :: "u64 \<Rightarrow> u64 \<Rightarrow> u64 \<Rightarrow> u64 \<Rightarrow> u64 \<Rightarrow> u32 list" where
  "mb_header header code data_end bss_end entry =
    [MULTIBOOT_HEADER_MAGIC, MULTIBOOT_HEADER_FLAGS, - (MULTIBOOT_HEADER_MAGIC + MULTIBOOT_HEADER_FLAGS)] @
    map (\<lambda>a. ucast (V2P_IMAGE a)) [header, code, data_end, bss_end, entry]"

definition gdt_words :: "u32 list" where
  "gdt_words = [0, 0, 0, 0x00209800, 0, 0x00009200, 0, 0, 0, 0, 0, 0x0000f200, 0, 0x0020f800]"

lemma mb_header_checksum: "sum_list (take 3 (mb_header header code data_end bss_end entry)) = 0"
  by (simp add: mb_header_def)

end
