(* ===== verification/StartupProps.thy ===== *)
theory StartupProps
  imports Startup
begin

text \<open>
  The start code reaches the kernel: tables in byte memory, what a walk through the first tables
  gives, and the run of the code through its own tables.
\<close>

section \<open>Tables in memory\<close>

definition table :: "mem \<Rightarrow> nat \<Rightarrow> (nat \<Rightarrow> u64) \<Rightarrow> bool" where
  "table m t f \<longleftrightarrow> (\<forall>i < 512. load64 (t + 8 * i) m = f i)"

lemma load64_cong: "(\<And>i. i < 8 \<Longrightarrow> m' (a + i) = m (a + i)) \<Longrightarrow> load64 a m' = load64 a m"
  unfolding load64_def by (intro arg_cong2 [where f = "(OR)"] arg_cong [where f = ucast]
    arg_cong [where f = "push_bit 32"] load32_cong) (auto simp: add.assoc)

lemma table_frame:
  "table m t f \<Longrightarrow> (\<And>a. t \<le> a \<Longrightarrow> a < t + 4096 \<Longrightarrow> m' a = m a) \<Longrightarrow> table m' t f"
  unfolding table_def using load64_cong [of m' "t + 8 * i" m for i] by simp

lemma store64_other: "b < a \<or> a + 8 \<le> b \<Longrightarrow> store64 a v m b = m b"
  unfolding store64_def by (subst store32_other; (subst store32_other)?; auto)

lemma store16_other: "b < a \<or> a + 2 \<le> b \<Longrightarrow> store16 a v m b = m b"
  by (auto simp: store16_def)

text \<open>A 32-bit store into an entry that was zero.\<close>

lemma load64_store32:
  assumes "load64 a m = 0"
  shows "load64 a (store32 a v m) = ucast v"
proof -
  have "load32 (a + 4) m = 0"
  proof (rule bit_word_eqI)
    fix n assume n: "n < LENGTH(32)"
    have "bit (load64 a m) (n + 32) \<longleftrightarrow> bit (load32 (a + 4) m) n"
      unfolding load64_def using n by (auto simp: bit_simps dest: bit_imp_le_length)
    then show "bit (load32 (a + 4) m) n \<longleftrightarrow> bit 0 n" using assms by simp
  qed
  moreover have "load32 (a + 4) (store32 a v m) = load32 (a + 4) m" by (rule load32_store32_other) simp
  ultimately show ?thesis by (simp add: load64_def load32_store32)
qed

lemma table_store32:
  assumes "table m t f" "i < 512" "f i = 0"
  shows "table (store32 (t + 8 * i) v m) t (f(i := ucast v))"
  unfolding table_def
proof (intro allI impI)
  fix j :: nat assume j: "j < 512"
  show "load64 (t + 8 * j) (store32 (t + 8 * i) v m) = (f(i := ucast v)) j"
  proof (cases "j = i")
    case True
    then show ?thesis using assms by (simp add: table_def load64_store32)
  next
    case False
    then have "load64 (t + 8 * j) (store32 (t + 8 * i) v m) = load64 (t + 8 * j) m"
      by (intro load64_cong store32_other) (cases "j < i"; auto)
    then show ?thesis using False j assms(1) by (simp add: table_def)
  qed
qed

lemma table_store64:
  assumes "table m t f" "i < 512"
  shows "table (store64 (t + 8 * i) v m) t (f(i := v))"
  unfolding table_def
proof (intro allI impI)
  fix j :: nat assume j: "j < 512"
  show "load64 (t + 8 * j) (store64 (t + 8 * i) v m) = (f(i := v)) j"
  proof (cases "j = i")
    case True
    then show ?thesis by (simp add: load64_store64)
  next
    case False
    then have "load64 (t + 8 * j) (store64 (t + 8 * i) v m) = load64 (t + 8 * j) m"
      by (intro load64_store64_other) (cases "j < i"; auto)
    then show ?thesis using False j assms(1) by (simp add: table_def)
  qed
qed

section \<open>A walk through the first tables\<close>

lemma table_index_less [simp]: "table_index i va < 512"
proof -
  have "drop_bit (12 + 9 * i) va AND 0x1ff \<le> 0x1ff" by (rule word_and_le1)
  then have "table_index i va \<le> unat (0x1ff :: u64)" unfolding table_index_def word_le_nat_alt .
  then show ?thesis by simp
qed

lemma walk_entry_table:
  "table m (unat t) f \<Longrightarrow> walk_entry m t i va =
    (if f (table_index i va) AND ucast PTE_PRESENT = 0 then None else Some (f (table_index i va)))"
  by (simp add: walk_entry_def table_def)

text \<open>The entry for a table that is page-aligned and below 4 megabytes.\<close>

definition low_page :: "u64 \<Rightarrow> bool" where
  "low_page t \<longleftrightarrow> t AND 0xfff = 0 \<and> t < 0x400000"

lemma low_page_bits:
  assumes "low_page t"
  shows "bit t n \<Longrightarrow> 12 \<le> n \<and> n < 22"
proof
  assume b: "bit t n"
  have m: "(0xfff :: u64) = mask 12" by (simp add: mask_eq_exp_minus_1)
  have "take_bit 12 t = 0" using assms unfolding low_page_def m by (simp only: take_bit_eq_mask and.commute)
  then have "\<not> bit (take_bit 12 t) n" by simp
  then show "12 \<le> n" using b by (simp add: bit_take_bit_iff)
  have "unat t < 2 ^ 22" using assms by (simp add: low_page_def word_less_nat_alt)
  then have "take_bit 22 t = t" by (simp add: word_unat_eq_iff unsigned_take_bit_eq take_bit_nat_eq_self)
  then have "bit (take_bit 22 t) n" using b by (simp only:)
  then show "n < 22" by (simp only: bit_take_bit_iff)
qed

definition entry_of :: "u64 \<Rightarrow> u64" where
  "entry_of t = t OR 3"

lemma bit_three: "bit (3 :: 'a :: len word) n \<Longrightarrow> n < 2"
proof -
  have "(3 :: 'a word) = mask 2" by (simp add: mask_eq_exp_minus_1)
  moreover assume "bit (3 :: 'a word) n"
  ultimately have "bit (mask 2 :: 'a word) n" by (simp only:)
  then show "n < 2" by (simp only: bit_mask_iff)
qed

lemma table_entry_eq:
  assumes "low_page (V2P_IMAGE t)"
  shows "ucast (table_entry t) = entry_of (V2P_IMAGE t)"
proof -
  let ?a = "V2P_IMAGE t"
  have nb: "\<not> bit ?a 0" "\<not> bit ?a (Suc 0)" using low_page_bits [OF assms, of 0] low_page_bits [OF assms, of 1] by auto
  have "(ucast ?a :: u32) + PTE_PRESENT + PTE_WRITE = ucast ?a + 3" by (simp add: const_defs)
  also have "\<dots> = ucast ?a OR 3"
  proof (rule disjunctive_add)
    fix n
    have "n = 0 \<or> n = Suc 0" if "bit (3 :: u32) n" using bit_three [OF that] by linarith
    then show "\<not> bit (ucast ?a :: u32) n \<or> \<not> bit (3 :: u32) n" using nb by (auto simp: bit_simps)
  qed
  finally have "table_entry t = ucast ?a OR 3" by (simp add: table_entry_def)
  moreover have "(ucast (ucast ?a :: u32) :: u64) = ?a"
    by (rule bit_word_eqI) (auto simp: bit_simps dest: low_page_bits [OF assms])
  then have "(ucast (ucast ?a OR 3 :: u32) :: u64) = ?a OR 3" by (simp add: unsigned_or_eq)
  ultimately show ?thesis by (simp add: entry_of_def)
qed

lemma entry_of_simps:
  assumes "low_page t"
  shows "entry_of t AND ucast PTE_PRESENT \<noteq> 0" "entry_frame (entry_of t) = t" "entry_frame t = t"
proof -
  have m: "(0x000ffffffffff000 :: u64) = push_bit 12 (mask 40)" by (simp add: mask_eq_exp_minus_1)
  show "entry_of t AND ucast PTE_PRESENT \<noteq> 0"
  proof
    assume "entry_of t AND ucast PTE_PRESENT = 0"
    then have "bit (entry_of t AND ucast PTE_PRESENT) 0 = bit (0 :: u64) 0" by simp
    then show False by (simp add: entry_of_def const_defs bit_simps)
  qed
  show "entry_frame t = t" unfolding entry_frame_def m
    by (rule bit_word_eqI) (auto simp: bit_simps dest: low_page_bits [OF assms])
  have "\<not> bit (3 :: u64) n" if "12 \<le> n" for n using bit_three [of n] that by fastforce
  then show "entry_frame (entry_of t) = t" unfolding entry_frame_def m entry_of_def
    by (intro bit_word_eqI) (auto simp: bit_simps dest: low_page_bits [OF assms])
qed

text \<open>Two large pages.\<close>

definition large_pages :: "nat \<Rightarrow> u64" where
  "large_pages = (\<lambda>_. 0)(0 := 0x83, 1 := 0x200083)"

definition tables_at :: "mem \<Rightarrow> layout \<Rightarrow> (nat \<Rightarrow> u64) \<Rightarrow> (nat \<Rightarrow> u64) \<Rightarrow> bool" where
  "tables_at m l f4 f3 \<longleftrightarrow> table m (img (at_l4 l)) f4 \<and> table m (img (at_l3 l)) f3 \<and> table m (img (at_l2 l)) large_pages"

definition linked_at :: "nat set \<Rightarrow> u64 \<Rightarrow> nat \<Rightarrow> u64" where
  "linked_at I t i = (if i \<in> I then entry_of t else 0)"

lemma walk_tables:
  assumes t: "low_page (V2P_IMAGE (at_l4 l))" "low_page (V2P_IMAGE (at_l3 l))" "low_page (V2P_IMAGE (at_l2 l))"
    and m: "tables_at m l (linked_at I4 (V2P_IMAGE (at_l3 l))) (linked_at I3 (V2P_IMAGE (at_l2 l)))"
  shows "page_walk m (V2P_IMAGE (at_l4 l)) va =
    (if table_index 3 va \<in> I4 \<and> table_index 2 va \<in> I3 \<and> table_index 1 va < 2
     then Some (of_nat (table_index 1 va * 0x200000) OR (va AND 0x1fffff)) else None)"
proof -
  let ?t4 = "V2P_IMAGE (at_l4 l)" and ?t3 = "V2P_IMAGE (at_l3 l)" and ?t2 = "V2P_IMAGE (at_l2 l)"
  have tb: "table m (unat ?t4) (linked_at I4 ?t3)" "table m (unat ?t3) (linked_at I3 ?t2)" "table m (unat ?t2) large_pages"
    using m by (simp_all add: tables_at_def img_def)
  have e4: "walk_entry m (entry_frame ?t4) 3 va = (if table_index 3 va \<in> I4 then Some (entry_of ?t3) else None)"
    unfolding entry_of_simps(3) [OF t(1)] walk_entry_table [OF tb(1)]
    using entry_of_simps(1) [OF t(2)] by (simp add: linked_at_def)
  have e3: "walk_entry m (entry_frame (entry_of ?t3)) 2 va = (if table_index 2 va \<in> I3 then Some (entry_of ?t2) else None)"
    unfolding entry_of_simps(2) [OF t(2)] walk_entry_table [OF tb(2)]
    using entry_of_simps(1) [OF t(3)] by (simp add: linked_at_def)
  have e2: "walk_entry m (entry_frame (entry_of ?t2)) 1 va =
      (if table_index 1 va < 2 then Some (large_pages (table_index 1 va)) else None)"
    unfolding entry_of_simps(2) [OF t(3)] walk_entry_table [OF tb(3)]
    by (auto simp: large_pages_def const_defs)
  have "table_index 1 va = 0 \<or> table_index 1 va = 1" if "table_index 1 va < 2" using that by linarith
  then show ?thesis
    unfolding page_walk_def e4
    by (auto simp: e3 e2 large_pages_def const_defs simp del: One_nat_def)
qed

section \<open>The addresses of the image\<close>

lemma field_nat: "unat (take_bit n (drop_bit k (va :: u64))) = unat va div 2 ^ k mod 2 ^ n"
proof -
  have "take_bit 64 (unat va) = unat va" using unat_u64_lt [of va] by (simp add: take_bit_nat_eq_self)
  then have "unat (take_bit n (drop_bit k va)) = take_bit n (drop_bit k (unat va))"
    by (simp only: unsigned_take_bit_eq unsigned_drop_bit_eq) simp
  also have "\<dots> = unat va div 2 ^ k mod 2 ^ n" by (simp only: take_bit_eq_mod drop_bit_eq_div)
  finally show ?thesis .
qed

lemma table_index_nat: "table_index i va = unat va div 2 ^ (12 + 9 * i) mod 512"
proof -
  have m: "(0x1ff :: u64) = mask 9" by (simp add: mask_eq_exp_minus_1)
  have "table_index i va = unat (take_bit 9 (drop_bit (12 + 9 * i) va))"
    unfolding table_index_def m by (simp only: take_bit_eq_mask)
  then show ?thesis unfolding field_nat by simp
qed

text \<open>The four megabytes behind \<open>KERNEL_VIRT_ADDR\<close>, in the 48 bits the tables translate.\<close>

definition in_image :: "u64 \<Rightarrow> bool" where
  "in_image va \<longleftrightarrow> take_bit 26 (drop_bit 22 va) = take_bit 26 (drop_bit 22 KERNEL_VIRT_ADDR)"

lemma in_image_nat: "in_image va \<longleftrightarrow> unat va div 2 ^ 22 mod 2 ^ 26 = 0x3fffe00"
proof -
  have "unat KERNEL_VIRT_ADDR div 2 ^ 22 mod 2 ^ 26 = 0x3fffe00" by (simp add: KERNEL_VIRT_ADDR_def)
  then show ?thesis unfolding in_image_def word_unat_eq_iff field_nat by simp
qed

lemma split_bits: "(w :: nat) div 2 mod 67108864 = (w div 262144 mod 512) * 131072 + (w div 512 mod 512) * 256 + w mod 512 div 2"
proof -
  define x y z a b c where d: "x = w div 512" "y = x div 512" "z = y div 512" "a = w mod 512" "b = x mod 512" "c = y mod 512"
  have e: "w = 512 * x + a" "x = 512 * y + b" "y = 512 * z + c" and l: "a < 512" "b < 512" "c < 512"
    by (simp_all add: d)
  have "w div 262144 = y" by (simp add: d div_mult2_eq [symmetric])
  moreover have "w div 2 = 256 * x + a div 2" unfolding e(1) by simp
  then have "w div 2 = c * 131072 + b * 256 + a div 2 + 67108864 * z" using e(2,3) by simp
  moreover have "c * 131072 + b * 256 + a div 2 < 67108864" using l by linarith
  ultimately show ?thesis by (simp add: d(1) [symmetric] d(4-6) [symmetric])
qed

lemma digits_unique:
  fixes a b c :: nat
  assumes "a < 512" "b < 512" "c < 512"
  shows "c * 131072 + b * 256 + a div 2 = 67108352 \<longleftrightarrow> c = 511 \<and> b = 510 \<and> a < 2"
proof
  assume e: "c * 131072 + b * 256 + a div 2 = 67108352"
  have r: "b * 256 + a div 2 < 131072" "a div 2 < 256" using assms by linarith+
  have "c = (c * 131072 + (b * 256 + a div 2)) div 131072" using r(1) by simp
  also have "\<dots> = 511" using e by (simp add: add.assoc)
  finally have c: "c = 511" .
  then have f: "b * 256 + a div 2 = 130560" using e by simp
  have "b = (b * 256 + a div 2) div 256" using r(2) by simp
  then have "b = 510" using f by simp
  then show "c = 511 \<and> b = 510 \<and> a < 2" using c f by simp
qed auto

lemma in_image_index: "in_image va \<longleftrightarrow> table_index 3 va = 511 \<and> table_index 2 va = 510 \<and> table_index 1 va < 2"
proof -
  define w where "w = unat va div 2 ^ 21"
  have i: "table_index 3 va = w div 262144 mod 512" "table_index 2 va = w div 512 mod 512" "table_index 1 va = w mod 512"
    "unat va div 2 ^ 22 mod 2 ^ 26 = w div 2 mod 67108864"
    by (simp_all add: table_index_nat w_def div_mult2_eq [symmetric])
  show ?thesis unfolding in_image_nat i split_bits by (rule digits_unique) simp_all
qed

lemma image_value:
  assumes "table_index 1 va < 2"
  shows "of_nat (table_index 1 va * 0x200000) OR (va AND 0x1fffff) = va AND 0x3fffff"
proof -
  have m: "(0x1fffff :: u64) = mask 21" "(0x3fffff :: u64) = mask 22" by (simp_all add: mask_eq_exp_minus_1)
  have o: "bit va 21 \<longleftrightarrow> odd (unat va div 2 ^ 21)"
  proof -
    have "bit va 21 \<longleftrightarrow> bit (unat va) 21" by (simp add: bit_unsigned_iff)
    then show ?thesis unfolding bit_iff_odd .
  qed
  have "w mod 512 mod 2 = w mod 2" for w :: nat by (rule mod_mod_cancel) simp
  then have "odd (w mod 512) = odd w" for w :: nat by (simp only: odd_iff_mod_2_eq_one)
  then have i: "bit va 21 \<longleftrightarrow> odd (table_index 1 va)" unfolding o by (simp add: table_index_nat)
  consider "table_index 1 va = 0" | "table_index 1 va = 1" using assms by linarith
  then show ?thesis
  proof cases
    case 1
    then have nb: "\<not> bit va 21" using i by simp
    have "va AND mask 21 = va AND mask 22"
    proof (rule bit_word_eqI)
      fix n show "bit (va AND mask 21) n \<longleftrightarrow> bit (va AND mask 22) n"
        using nb by (cases "n = 21") (auto simp: bit_simps)
    qed
    then show ?thesis unfolding m 1 by simp
  next
    case 2
    then have b: "bit va 21" using i by simp
    have p: "of_nat (1 * 0x200000) = (push_bit 21 1 :: u64)" by simp
    have s: "bit (push_bit 21 1 :: u64) n \<longleftrightarrow> n = 21" for n
      by (simp only: bit_push_bit_iff bit_1_iff) auto
    have "push_bit 21 1 OR (va AND mask 21) = va AND mask 22"
    proof (rule bit_word_eqI)
      fix n show "bit (push_bit 21 1 OR (va AND mask 21)) n \<longleftrightarrow> bit (va AND mask 22) n"
        unfolding bit_or_iff s using b by (cases "n = 21") (auto simp: bit_and_iff bit_mask_iff)
    qed
    then show ?thesis unfolding m 2 p .
  qed
qed

section \<open>Addresses below four megabytes\<close>

lemma value_nat: "unat ((va :: u64) AND 0x3fffff) = unat va mod 0x400000"
proof -
  have m: "(0x3fffff :: u64) = mask 22" by (simp add: mask_eq_exp_minus_1)
  have "unat (take_bit 22 (drop_bit 0 va)) = unat va div 2 ^ 0 mod 2 ^ 22" by (rule field_nat [of 22 0])
  then show ?thesis unfolding m by (simp add: take_bit_eq_mask)
qed

lemma low_index:
  assumes "unat va < 0x400000"
  shows "table_index 3 va = 0" "table_index 2 va = 0" "table_index 1 va < 2" "unat (va AND 0x3fffff) = unat va"
  using assms by (simp_all add: table_index_nat value_nat)

lemma img_nat:
  assumes "img a < 0x400000"
  shows "unat a = 0xffffffff80000000 + img a"
proof -
  have "a = V2P_IMAGE a + KERNEL_VIRT_ADDR" by (simp add: V2P_IMAGE_def)
  then have "unat a = unat (V2P_IMAGE a + KERNEL_VIRT_ADDR)" by simp
  also have "\<dots> = unat (V2P_IMAGE a) + unat KERNEL_VIRT_ADDR"
    by (rule unat_plus_simple [THEN iffD1]) (use assms in \<open>simp add: img_def word_le_nat_alt unat_word_ariths KERNEL_VIRT_ADDR_def\<close>)
  finally show ?thesis by (simp add: img_def KERNEL_VIRT_ADDR_def)
qed

lemma img_index:
  assumes "img a < 0x400000"
  shows "table_index 3 a = 511" "table_index 2 a = 510" "table_index 1 a < 2" "unat (a AND 0x3fffff) = img a"
proof -
  let ?v = "0xffffffff80000000 + img a"
  have v: "unat a = ?v" by (rule img_nat [OF assms])
  have d3: "?v div 549755813888 = 33554431" by (rule div_nat_eqI) (use assms in simp_all)
  have d2: "?v div 1073741824 = 17179869182" by (rule div_nat_eqI) (use assms in simp_all)
  have "?v = img a + 8796093021184 * 2097152" by simp
  then have d1: "?v div 2097152 = img a div 2097152 + 8796093021184" by (simp only: div_mult_self1)
  have "img a div 2097152 < 2" using assms by linarith
  moreover have "img a div 2097152 + 8796093021184 = img a div 2097152 + 17179869182 * 512" by simp
  then have "(img a div 2097152 + 8796093021184) mod 512 = img a div 2097152 mod 512" by (simp only: mod_mult_self1)
  ultimately have m1: "(img a div 2097152 + 8796093021184) mod 512 < 2" by simp
  have "?v = img a + 4398046510592 * 4194304" by simp
  then have "?v mod 4194304 = img a mod 4194304" by (simp only: mod_mult_self1)
  then have m0: "?v mod 4194304 = img a" using assms by simp
  show "table_index 3 a = 511" "table_index 2 a = 510" by (simp_all add: table_index_nat v d3 d2)
  show "table_index 1 a < 2" using m1 by (simp add: table_index_nat v d1)
  show "unat (a AND 0x3fffff) = img a" by (simp add: value_nat v m0)
qed

section \<open>What the code writes\<close>

text \<open>The tables are page-aligned, different from each other and, like the rest of the image, between one and
  four megabytes.  The stack's page and the pointer to the descriptor table are elsewhere.\<close>

definition tables_of :: "layout \<Rightarrow> u64 set" where
  "tables_of l = {at_l4 l, at_l3 l, at_l2 l}"

definition clear_of :: "nat \<Rightarrow> nat \<Rightarrow> layout \<Rightarrow> bool" where
  "clear_of a n l \<longleftrightarrow> (\<forall>t \<in> tables_of l. a + n \<le> img t \<or> img t + 4096 \<le> a)"

definition layout_ok :: "layout \<Rightarrow> bool" where
  "layout_ok l \<longleftrightarrow> (\<forall>t \<in> tables_of l. low_page (V2P_IMAGE t) \<and> 0x100000 \<le> img t) \<and>
     distinct [at_l4 l, at_l3 l, at_l2 l] \<and>
     low_page (V2P_IMAGE (at_stack l)) \<and> at_stack l \<notin> tables_of l \<and>
     img (at_gdtr l) + 10 \<le> 0x400000 \<and> clear_of (img (at_gdtr l)) 10 l \<and>
     img (at_code64 l) < 0x400000 \<and> img (at_upper l) < 0x400000"

lemma low_page_nat:
  assumes "low_page (V2P_IMAGE t)"
  obtains k where "img t = 4096 * k" "k < 1024"
proof -
  have m: "(0xfff :: u64) = mask 12" by (simp add: mask_eq_exp_minus_1)
  have "take_bit 12 (V2P_IMAGE t) = 0" using assms unfolding low_page_def m by (simp only: take_bit_eq_mask and.commute)
  then have "unat (take_bit 12 (drop_bit 0 (V2P_IMAGE t))) = 0" by simp
  then have "img t mod 4096 = 0" unfolding field_nat by (simp add: img_def)
  then have "img t = 4096 * (img t div 4096)" using mult_div_mod_eq [of 4096 "img t"] by linarith
  moreover have "img t < 4194304" using assms by (simp add: low_page_def img_def word_less_nat_alt)
  ultimately show ?thesis using that [of "img t div 4096"] by linarith
qed

lemma img_inj: "img a = img b \<Longrightarrow> a = b"
  by (simp add: img_def V2P_IMAGE_def word_unat_eq_iff [symmetric])

lemma pages_apart:
  assumes "low_page (V2P_IMAGE a)" "low_page (V2P_IMAGE b)" "a \<noteq> b"
  shows "img a + 4096 \<le> img b \<or> img b + 4096 \<le> img a"
proof -
  obtain j k where "img a = 4096 * j" "img b = 4096 * k" using low_page_nat assms(1,2) by metis
  moreover have "img a \<noteq> img b" using img_inj assms(3) by blast
  ultimately show ?thesis by auto
qed

lemma linked_at_simps:
  "(linked_at I t)(i := entry_of t) = linked_at (insert i I) t"
  "(linked_at I t)(i := 0) = linked_at (I - {i}) t"
  "linked_at {} t = (\<lambda>_. 0)"
  by (auto simp: linked_at_def)

section \<open>Following the code\<close>

lemma apart:
  assumes "layout_ok l" "a \<in> tables_of l" "b \<in> insert (at_stack l) (tables_of l)" "a \<noteq> b"
  shows "img a + 4096 \<le> img b \<or> img b + 4096 \<le> img a"
  using assms by (intro pages_apart) (auto simp: layout_ok_def)

text \<open>A store into one table leaves the others alone.\<close>

lemma other_table32:
  assumes "layout_ok l" "{a, b} \<subseteq> tables_of l" "a \<noteq> b" "i < 512"
  shows "table m (img a) f \<Longrightarrow> table (store32 (img b + 8 * i) v m) (img a) f"
  by (erule table_frame, rule store32_other) (use apart [of l a b] assms in auto)

lemma other_table64:
  assumes "layout_ok l" "{a, b} \<subseteq> tables_of l" "a \<noteq> b" "i < 512"
  shows "table m (img a) f \<Longrightarrow> table (store64 (img b + 8 * i) v m) (img a) f"
  by (erule table_frame, rule store64_other) (use apart [of l a b] assms in auto)

lemma clear_tables:
  assumes "tables_at m l f4 f3" "clear_of a n l" "\<And>b. b < a \<or> a + n \<le> b \<Longrightarrow> m' b = m b"
  shows "tables_at m' l f4 f3"
  unfolding tables_at_def
  by (intro conjI; rule table_frame [of m]) (use assms in \<open>auto simp: tables_at_def clear_of_def tables_of_def\<close>)

lemma kernel_slots:
  "unat (drop_bit 30 KERNEL_VIRT_ADDR AND 0x1ff) = 510" "unat (drop_bit 39 KERNEL_VIRT_ADDR AND 0x1ff) = 511"
  by (simp_all add: KERNEL_VIRT_ADDR_def)

lemma first_tables_at:
  assumes ok: "layout_ok l" and z: "\<forall>t \<in> tables_of l. table m (img t) (\<lambda>_. 0)"
  shows "tables_at (first_tables l m) l (linked_at {0, 511} (V2P_IMAGE (at_l3 l))) (linked_at {0, 510} (V2P_IMAGE (at_l2 l)))"
proof -
  let ?l4 = "at_l4 l" and ?l3 = "at_l3 l" and ?l2 = "at_l2 l"
  have d: "?l4 \<noteq> ?l3" "?l4 \<noteq> ?l2" "?l3 \<noteq> ?l2" and t: "?l4 \<in> tables_of l" "?l3 \<in> tables_of l" "?l2 \<in> tables_of l"
    using ok by (auto simp: layout_ok_def tables_of_def)
  have e: "ucast (table_entry ?l3) = entry_of (V2P_IMAGE ?l3)" "ucast (table_entry ?l2) = entry_of (V2P_IMAGE ?l2)"
    using ok t by (simp_all add: layout_ok_def table_entry_eq)
  define m1 m2 m3 m4 m5 where "m1 = store32 (img ?l2 + 8 * 0) (large_entry 0) m"
    "m2 = store32 (img ?l2 + 8 * 1) (large_entry 0x200000) m1"
    "m3 = store32 (img ?l3 + 8 * 0) (table_entry ?l2) m2"
    "m4 = store32 (img ?l3 + 8 * 510) (table_entry ?l2) m3"
    "m5 = store32 (img ?l4 + 8 * 0) (table_entry ?l3) m4"
  note m = this
  have f: "first_tables l m = store32 (img ?l4 + 8 * 511) (table_entry ?l3) m5"
    by (simp add: first_tables_def Let_def kernel_slots m)
  note other = other_table32 [OF ok]
  have "table m2 (img ?l2) ((\<lambda>_. 0)(0 := ucast (large_entry 0), 1 := ucast (large_entry 0x200000)))"
    unfolding m(1,2) by (intro table_store32) (use z t in auto)
  then have "table m2 (img ?l2) large_pages" by (simp add: large_pages_def large_entry_def const_defs)
  then have "table (first_tables l m) (img ?l2) large_pages"
    unfolding f m(3-5) by (intro other) (use t d in auto)
  moreover have "table m2 (img ?l3) (linked_at {} (V2P_IMAGE ?l2))"
    unfolding m(1,2) linked_at_simps by (intro other) (use t d z in auto)
  then have "table m4 (img ?l3) ((linked_at {} (V2P_IMAGE ?l2))(0 := ucast (table_entry ?l2), 510 := ucast (table_entry ?l2)))"
    unfolding m(3,4) by (intro table_store32) (auto simp: linked_at_def)
  then have "table m4 (img ?l3) (linked_at {510, 0} (V2P_IMAGE ?l2))" unfolding e linked_at_simps(1) .
  then have "table (first_tables l m) (img ?l3) (linked_at {510, 0} (V2P_IMAGE ?l2))"
    unfolding f m(5) by (intro other) (use t d in auto)
  moreover have "table m4 (img ?l4) (linked_at {} (V2P_IMAGE ?l3))"
    unfolding m(1-4) linked_at_simps by (intro other) (use t d z in auto)
  then have "table (first_tables l m) (img ?l4)
      ((linked_at {} (V2P_IMAGE ?l3))(0 := ucast (table_entry ?l3), 511 := ucast (table_entry ?l3)))"
    unfolding f m(5) by (intro table_store32) (auto simp: linked_at_def)
  then have "table (first_tables l m) (img ?l4) (linked_at {511, 0} (V2P_IMAGE ?l3))" unfolding e linked_at_simps(1) .
  ultimately show ?thesis by (simp add: tables_at_def insert_commute)
qed

text \<open>The tables of a state, with the entries that are present.\<close>

definition paging :: "layout \<Rightarrow> nat set \<Rightarrow> nat set \<Rightarrow> start_cpu \<Rightarrow> bool" where
  "paging l I4 I3 s \<longleftrightarrow> st_cr3 s = V2P_IMAGE (at_l4 l) \<and>
     tables_at (phys s) l (linked_at I4 (V2P_IMAGE (at_l3 l))) (linked_at I3 (V2P_IMAGE (at_l2 l)))"

lemma paging_walk:
  assumes "layout_ok l" "paging l I4 I3 s"
  shows "page_walk (phys s) (st_cr3 s) va =
    (if table_index 3 va \<in> I4 \<and> table_index 2 va \<in> I3 \<and> table_index 1 va < 2 then Some (va AND 0x3fffff) else None)"
  using walk_tables [of l "phys s" I4 I3 va] image_value [of va] assms
  by (auto simp: paging_def layout_ok_def tables_of_def)

lemma translated_low:
  "layout_ok l \<Longrightarrow> paging l I4 I3 s \<Longrightarrow> 0 \<in> I4 \<Longrightarrow> 0 \<in> I3 \<Longrightarrow> unat va < 0x400000 \<Longrightarrow> translated va s = Some (unat va)"
  by (simp add: translated_def paging_walk low_index del: One_nat_def)

lemma translated_img:
  "layout_ok l \<Longrightarrow> paging l I4 I3 s \<Longrightarrow> 511 \<in> I4 \<Longrightarrow> 510 \<in> I3 \<Longrightarrow> img va < 0x400000 \<Longrightarrow> translated va s = Some (img va)"
  by (simp add: translated_def paging_walk img_index del: One_nat_def)

lemma paging_store:
  assumes "paging l I4 I3 s" "clear_of a n l" "\<And>b. b < a \<or> a + n \<le> b \<Longrightarrow> m' b = phys s b"
  shows "paging l I4 I3 (s\<lparr>phys := m'\<rparr>)"
  using assms clear_tables [of "phys s" l _ _ a n m'] by (simp add: paging_def)

lemma paging_store64:
  assumes "paging l I4 I3 s" "clear_of a n l" "n = 10"
  shows "paging l I4 I3 (s\<lparr>phys := store64 (a + 2) v (phys s)\<rparr>)"
  by (rule paging_store [OF assms(1,2)]) (use assms(3) in \<open>auto intro: store64_other\<close>)

lemma low_clear: "layout_ok l \<Longrightarrow> a + n \<le> 0x100000 \<Longrightarrow> clear_of a n l"
  by (force simp: layout_ok_def clear_of_def)

lemma paging_store16:
  assumes "layout_ok l" "paging l I4 I3 s" "a + 2 \<le> 0x100000"
  shows "paging l I4 I3 (s\<lparr>phys := store16 a v (phys s)\<rparr>)"
  by (rule paging_store [OF assms(2) low_clear [OF assms(1,3)]]) (rule store16_other)

text \<open>Removing the entry for low memory from either table.\<close>

lemma paging_unmap:
  assumes ok: "layout_ok l" and p: "paging l I4 I3 s"
  shows "paging l I4 (I3 - {0}) (s\<lparr>phys := store64 (img (at_l3 l)) 0 (phys s)\<rparr>)"
    "paging l (I4 - {0}) I3 (s\<lparr>phys := store64 (img (at_l4 l)) 0 (phys s)\<rparr>)"
proof -
  have d: "at_l4 l \<noteq> at_l3 l" "at_l4 l \<noteq> at_l2 l" "at_l3 l \<noteq> at_l2 l" and t: "at_l4 l \<in> tables_of l" "at_l3 l \<in> tables_of l" "at_l2 l \<in> tables_of l"
    using ok by (auto simp: layout_ok_def tables_of_def)
  note st = table_store64 [where i = 0, simplified] and ot = other_table64 [OF ok, where i = 0, simplified]
  show "paging l I4 (I3 - {0}) (s\<lparr>phys := store64 (img (at_l3 l)) 0 (phys s)\<rparr>)"
    using p d t unfolding paging_def tables_at_def linked_at_simps [symmetric] by (auto intro!: st ot)
  show "paging l (I4 - {0}) I3 (s\<lparr>phys := store64 (img (at_l4 l)) 0 (phys s)\<rparr>)"
    using p d t unfolding paging_def tables_at_def linked_at_simps [symmetric] by (auto intro!: st ot)
qed

lemma setup32_paging:
  assumes ok: "layout_ok l" and z: "\<forall>t \<in> tables_of l. table (phys s) (img t) (\<lambda>_. 0)"
  shows "paging l {0, 511} {0, 510} (setup32 l s)"
proof -
  let ?esp = "unat (V2P_IMAGE (at_stack l) + 4096 - 4)"
  let ?m = "store32 ?esp 0 (phys s)"
  obtain k where k: "img (at_stack l) = 4096 * k" "k < 1024" using ok low_page_nat by (metis layout_ok_def)
  have e: "?esp = img (at_stack l) + 4092"
  proof -
    have "V2P_IMAGE (at_stack l) + 4096 - 4 = V2P_IMAGE (at_stack l) + 4092" by simp
    also have "unat \<dots> = unat (V2P_IMAGE (at_stack l)) + unat (4092 :: u64)"
      by (rule unat_plus_simple [THEN iffD1]) (use k in \<open>simp add: img_def word_le_nat_alt unat_word_ariths\<close>)
    finally show ?thesis by (simp add: img_def)
  qed
  have "table ?m (img t) (\<lambda>_. 0)" if t: "t \<in> tables_of l" for t
  proof (rule table_frame)
    have ne: "t \<noteq> at_stack l" using t ok by (auto simp: layout_ok_def)
    show "table (phys s) (img t) (\<lambda>_. 0)" using z t by blast
    show "?m a = phys s a" if "img t \<le> a" "a < img t + 4096" for a
      unfolding e by (rule store32_other) (use apart [OF ok t _ ne] that in auto)
  qed
  then have "tables_at (first_tables l ?m) l (linked_at {0, 511} (V2P_IMAGE (at_l3 l))) (linked_at {0, 510} (V2P_IMAGE (at_l2 l)))"
    by (intro first_tables_at [OF ok]) blast
  then show ?thesis by (simp add: paging_def setup32_def Let_def)
qed

lemma gdtr_plus: "layout_ok l \<Longrightarrow> img (at_gdtr l + 2) = img (at_gdtr l) + 2"
proof -
  assume ok: "layout_ok l"
  have "V2P_IMAGE (at_gdtr l + 2) = V2P_IMAGE (at_gdtr l) + 2" by (simp add: V2P_IMAGE_def)
  moreover have "unat (V2P_IMAGE (at_gdtr l) + 2) = unat (V2P_IMAGE (at_gdtr l)) + unat (2 :: u64)"
    by (rule unat_plus_simple [THEN iffD1])
      (use ok in \<open>simp add: layout_ok_def img_def word_le_nat_alt unat_word_ariths\<close>)
  ultimately show ?thesis by (simp add: img_def)
qed

lemma setup64_spec:
  assumes ok: "layout_ok l" and p: "paging l {0, 511} {0, 510} s"
  shows "\<exists>s'. setup64 l s = Some s' \<and> paging l {511} {510} s' \<and> st_rsp s' = at_stack l + 4096 - 0xb0 \<and>
    st_rbp s' = 0 \<and> st_rdi s' = ucast (ucast (st_rsi s) :: u32) \<and> st_rsi s' = P2V_IMAGE (ucast (st_ebx s)) \<and>
    st_gdt_base s' = at_gdt l \<and> st_segments s' = 0x10 \<and> st_cr0 s' = st_cr0 s \<and> st_cr4 s' = st_cr4 s \<and> st_efer s' = st_efer s"
proof -
  have o: "img (at_gdtr l) + 10 \<le> 0x400000" "clear_of (img (at_gdtr l)) 10 l" "img (at_code64 l) < 0x400000" "img (at_upper l) < 0x400000"
    using ok by (simp_all add: layout_ok_def)
  have lt: "img t < 0x400000" if "t \<in> tables_of l" for t
    using ok that by (auto simp: layout_ok_def low_page_def img_def word_less_nat_alt)
  note low = translated_low [OF ok] and im = translated_img [OF ok]
  define s1 where "s1 = s\<lparr>phys := store16 0xb8000 0x0f41 (phys s)\<rparr>"
  have r1: "store_at store16 0xb8000 0x0f41 s = Some s1" using low [OF p] by (simp add: store_at_def s1_def)
  have p1: "paging l {0, 511} {0, 510} s1"
    unfolding s1_def by (rule paging_store16 [OF ok p]) simp
  define s2 where "s2 = s1\<lparr>phys := store16 0xb8002 0x0f42 (phys s1)\<rparr>"
  have r2: "store_at store16 0xb8002 0x0f42 s1 = Some s2" using low [OF p1] by (simp add: store_at_def s2_def)
  have p2: "paging l {0, 511} {0, 510} s2"
    unfolding s2_def by (rule paging_store16 [OF ok p1]) simp
  have c1: "translated (V2P_IMAGE (at_code64 l)) s1 = Some (unat (V2P_IMAGE (at_code64 l)))"
    using low [OF p1] o(3) by (simp add: img_def)
  define s3 where "s3 = s2\<lparr>phys := store64 (img (at_gdtr l) + 2) (at_gdt l) (phys s2)\<rparr>"
  have r3: "store_at store64 (at_gdtr l + 2) (at_gdt l) s2 = Some s3"
    using im [OF p2, of "at_gdtr l + 2"] o(1) gdtr_plus [OF ok] by (simp add: store_at_def s3_def)
  have p3: "paging l {0, 511} {0, 510} s3"
    unfolding s3_def by (rule paging_store64 [OF p2 o(2) refl])
  define s5 where "s5 = s3\<lparr>st_gdt_limit := load16 (img (at_gdtr l)) (phys s3), st_gdt_base := at_gdt l,
    st_segments := 0x10, st_rsp := at_stack l + 4096 - 0xb0\<rparr>"
  have g: "load64 (img (at_gdtr l) + 2) (phys s3) = at_gdt l" by (simp add: s3_def load64_store64)
  have p5: "paging l {0, 511} {0, 510} s5" using p3 by (simp add: paging_def s5_def)
  define s6 where "s6 = s5\<lparr>phys := store64 (img (at_l3 l)) 0 (phys s5)\<rparr>"
  have r6: "store_at store64 (at_l3 l) 0 s5 = Some s6"
    using im [OF p5, of "at_l3 l"] lt by (simp add: store_at_def s6_def tables_of_def)
  have p6: "paging l {0, 511} {510} s6" using paging_unmap(1) [OF ok p5] by (simp add: s6_def)
  define s7 where "s7 = s6\<lparr>phys := store64 (img (at_l4 l)) 0 (phys s6)\<rparr>"
  have r7: "store_at store64 (at_l4 l) 0 s6 = Some s7"
    using im [OF p6, of "at_l4 l"] lt by (simp add: store_at_def s7_def tables_of_def)
  have p7: "paging l {511} {510} s7" using paging_unmap(2) [OF ok p6] by (simp add: s7_def)
  have u2: "translated (at_upper l) s2 = Some (img (at_upper l))" and g3: "translated (at_gdtr l) s3 = Some (img (at_gdtr l))"
    and u7: "translated (at_upper l) s7 = Some (img (at_upper l))"
    using im [OF p2] im [OF p3] im [OF p7] o by simp_all
  have s5: "s3\<lparr>st_gdt_limit := load16 (img (at_gdtr l)) (phys s3),
      st_gdt_base := load64 (img (at_gdtr l) + 2) (phys s3), st_segments := 0x10\<rparr>\<lparr>st_rsp := at_stack l + 4096 - 0xb0\<rparr> = s5"
    unfolding g by (simp add: s5_def)
  define s' where "s' = s7\<lparr>st_rbp := 0, st_rdi := ucast (ucast (st_rsi s7) :: u32), st_rsi := ucast (st_ebx s7) + KERNEL_VIRT_ADDR\<rparr>"
  have "setup64 l s = Some s'"
    by (simp only: setup64_def Let_def r1 c1 r2 u2 r3 g3 s5 r6 r7 u7 Option.bind_lunit) (simp add: s'_def)
  moreover have "paging l {511} {510} s'" using p7 by (simp add: paging_def s'_def)
  ultimately show ?thesis by (simp add: s'_def s7_def s6_def s5_def s3_def s2_def s1_def P2V_IMAGE_def)
qed

section \<open>Properties\<close>

text \<open>C10: Started by the boot loader with zeroed tables, the start code reaches \<open>kernel_start\<close>: every
  access and every jump behind the switch to paging is mapped.  It arrives in long mode on the idle
  task's stack, with the loader's magic number and the kernel address of its information as arguments, and with
  page tables that map the four megabytes of the image and nothing else.\<close>

theorem setup_reaches_kernel:
  assumes "layout_ok l" "\<forall>t \<in> tables_of l. table (phys s) (img t) (\<lambda>_. 0)"
  shows "\<exists>s'. setup_start l s = Some s' \<and> st_rdi s' = ucast (st_eax s) \<and> st_rsi s' = P2V_IMAGE (ucast (st_ebx s)) \<and>
    st_rbp s' = 0 \<and> st_rsp s' = at_stack l + 4096 - 0xb0 \<and> st_gdt_base s' = at_gdt l \<and>
    bit (st_cr0 s') 31 \<and> bit (st_cr4 s') 5 \<and> bit (st_efer s') 8 \<and>
    (\<forall>va. page_walk (phys s') (st_cr3 s') va = (if in_image va then Some (va AND 0x3fffff) else None))"
proof -
  obtain s' where s': "setup64 l (setup32 l s) = Some s'" "paging l {511} {510} s'" "st_rsp s' = at_stack l + 4096 - 0xb0"
    "st_rbp s' = 0" "st_rdi s' = ucast (ucast (st_rsi (setup32 l s)) :: u32)"
    "st_rsi s' = P2V_IMAGE (ucast (st_ebx (setup32 l s)))" "st_gdt_base s' = at_gdt l"
    "st_cr0 s' = st_cr0 (setup32 l s)" "st_cr4 s' = st_cr4 (setup32 l s)" "st_efer s' = st_efer (setup32 l s)"
    using setup64_spec [OF assms(1) setup32_paging [OF assms]] by (elim exE conjE) (rule that)
  have "page_walk (phys s') (st_cr3 s') va = (if in_image va then Some (va AND 0x3fffff) else None)" for va
    using paging_walk [OF assms(1) s'(2)] by (simp add: in_image_index)
  moreover have "bit (st_cr0 (setup32 l s)) 31" "bit (st_cr4 (setup32 l s)) 5" "bit (st_efer (setup32 l s)) 8"
    by (simp_all add: setup32_def Let_def bit_simps)
  moreover have "(ucast (ucast (st_eax s) :: u64) :: u32) = st_eax s" by (rule bit_word_eqI) (auto simp: bit_simps)
  moreover have "st_rsi (setup32 l s) = ucast (st_eax s)" "st_ebx (setup32 l s) = st_ebx s"
    by (simp_all add: setup32_def Let_def)
  ultimately show ?thesis using s' by (simp add: setup_start_def)
qed

definition demo_layout :: layout where
  "demo_layout = \<lparr>at_l4 = 0xffffffff80120000, at_l3 = 0xffffffff80121000, at_l2 = 0xffffffff80122000,
     at_stack = 0xffffffff80123000, at_gdt = 0xffffffff80124000, at_gdtr = 0xffffffff80124040,
     at_code64 = 0xffffffff80100100, at_upper = 0xffffffff80100120\<rparr>"

definition demo_start :: start_cpu where
  "demo_start = \<lparr>phys = (\<lambda>_. 0), st_eax = 0x2BADB002, st_ebx = 0x9000, st_rsi = 0, st_rdi = 0, st_rsp = 0, st_rbp = 0,
     st_flags = 0, st_cr0 = 0, st_cr3 = 0, st_cr4 = 0, st_efer = 0, st_gdt_limit = 0, st_gdt_base = 0, st_segments = 0\<rparr>"

theorem setup_reaches_kernel_witness:
  "\<exists>s'. setup_start demo_layout demo_start = Some s' \<and> st_rdi s' = 0x2BADB002 \<and> st_rsi s' = 0xffffffff80009000 \<and>
     page_walk (phys s') (st_cr3 s') 0xffffffff80100000 = Some 0x100000 \<and> page_walk (phys s') (st_cr3 s') 0x100000 = None"
proof -
  have l: "layout_ok demo_layout"
    by (simp add: layout_ok_def demo_layout_def tables_of_def low_page_def img_def V2P_IMAGE_def clear_of_def KERNEL_VIRT_ADDR_def)
  have "load64 a (\<lambda>_. 0) = 0" for a by (simp add: load64_def load32_def)
  then have z: "\<forall>t \<in> tables_of demo_layout. table (phys demo_start) (img t) (\<lambda>_. 0)"
    by (simp add: table_def demo_start_def)
  have i: "in_image 0xffffffff80100000" "\<not> in_image 0x100000" by (simp_all add: in_image_nat)
  show ?thesis using setup_reaches_kernel [OF l z] i
    by (auto simp: demo_start_def P2V_IMAGE_def KERNEL_VIRT_ADDR_def)
qed

end
