(* ===== verification/Queues.thy ===== *)
theory Queues
  imports KbdProps
begin

text \<open>
  The run queue and a wait queue as a state machine: whatever order switches, sleeps, wake-ups and
  requests to reschedule come in, no task is lost, as long as no wake-up falls between a task's
  going to sleep and its switch; a lemma shows what happens then.
\<close>

section \<open>Steps\<close>

text \<open>The current task's state says that it runs.  It does not between a task's \<open>waitqueue_sleep\<close>,
  after which the task goes on with state \<open>TASK_INTERRUPTIBLE\<close>, and its \<open>schedule\<close>.\<close>

definition awake :: "'z kstate_scheme \<Rightarrow> bool" where
  "awake s \<longleftrightarrow> map_option t_state (task_of s (current s)) = Some TASK_RUNNING"

text \<open>The steps of the machine, each a call of one function of the kernel.  Going to sleep and switching
  away are two steps; a request to reschedule, or a switch made by an interrupt, may come
  between them.  A wake-up may come at any time but then: this is a condition on the wakers that the
  code does not enforce (\<open>console_read\<close> sleeps and switches with interrupts enabled), and
  \<open>wakeup_in_window\<close> below shows that it is needed.\<close>

inductive queue_step :: "nat \<Rightarrow> 'z kstate_scheme \<Rightarrow> 'z kstate_scheme \<Rightarrow> bool" for q where
  sleep: "current s \<noteq> idle s \<Longrightarrow> awake s \<Longrightarrow> waitqueue_sleep q s = Some s' \<Longrightarrow> queue_step q s s'"
| switch: "schedule s = Some s' \<Longrightarrow> queue_step q s s'"
| wake: "awake s \<Longrightarrow> waitqueue_wakeup q s = Some s' \<Longrightarrow> queue_step q s s'"
| ask: "set_need_resched s = Some s' \<Longrightarrow> queue_step q s s'"

inductive_cases queue_stepE: "queue_step q s s'"

text \<open>Every task of the set \<open>T\<close> is either on the run queue and runs, or waits and sleeps.\<close>

definition settled :: "nat set \<Rightarrow> nat \<Rightarrow> 'z kstate_scheme \<Rightarrow> bool" where
  "settled T q s \<longleftrightarrow> (\<exists>ts ws. all_running s ts \<and> waits s q ws \<and>
     (\<forall>p \<in> set ws. map_option t_state (task_of s p) = Some TASK_INTERRUPTIBLE) \<and>
     set ts \<union> set ws = T \<and> set ts \<inter> set ws = {} \<and> idle s \<notin> T)"

text \<open>The current task has gone to sleep and not switched away: it is on both queues.\<close>

definition drowsy :: "nat set \<Rightarrow> nat \<Rightarrow> 'z kstate_scheme \<Rightarrow> bool" where
  "drowsy T q s \<longleftrightarrow> (\<exists>ts ws. sched_inv s ts \<and> current s \<in> set ts \<and> waits s q (current s # ws) \<and>
     (\<forall>p \<in> set (idle s # ts) - {current s}. map_option t_state (task_of s p) = Some TASK_RUNNING) \<and>
     (\<forall>p \<in> set (current s # ws). map_option t_state (task_of s p) = Some TASK_INTERRUPTIBLE) \<and>
     set ts \<union> set ws = T \<and> set ts \<inter> set ws = {} \<and> idle s \<notin> T)"

definition queue_inv :: "nat set \<Rightarrow> nat \<Rightarrow> 'z kstate_scheme \<Rightarrow> bool" where
  "queue_inv T q s \<longleftrightarrow> settled T q s \<or> drowsy T q s"

lemma settled_awake: "settled T q s \<Longrightarrow> awake s"
  by (auto simp: settled_def all_running_def sched_inv_def awake_def)

lemma drowsy_asleep: "drowsy T q s \<Longrightarrow> \<not> awake s"
  by (auto simp: drowsy_def awake_def const_defs)

lemma queue_inv_awake: "queue_inv T q s \<Longrightarrow> awake s \<Longrightarrow> settled T q s"
  using drowsy_asleep by (auto simp: queue_inv_def)

section \<open>Each step keeps the queues\<close>

lemma schedule_running_waits:
  assumes run: "all_running s ts" and w: "waits s q ws" and s': "schedule s = Some s'"
  shows "waits s' q ws"
proof -
  have inv: "sched_inv s ts" and c: "current s \<in> set (idle s # ts)" using run by (auto simp: all_running_def sched_inv_def)
  obtain t where t: "task_of s (current s) = Some t" "t_state t = TASK_RUNNING"
    using run c by (auto simp: all_running_def)
  have cr: "can_run t" by (rule can_run_running [OF t(2)])
  have rq: "runq s ts" using inv by (simp add: sched_inv_def)
  let ?n = "pick (idle s) ts (current s) (can_run t)"
  obtain s2 where s2: "schedule s = schedule_switch ?n s s2" "task_of s2 = task_of s" "current s2 = current s" "lnk s2 = lnk s"
    using schedule_eq [OF rq t(1) c] cr by auto
  have "?n \<in> set (idle s # ts)" using pick_in [of "current s" "idle s" ts True] c runq_distinct [OF rq] cr by auto
  then obtain u where u: "task_of s ?n = Some u" using inv by (auto simp: sched_inv_def)
  have z: "t_state t \<noteq> TASK_ZOMBIE" using cr by (simp add: can_run_def)
  let ?s3 = "s2\<lparr>global_flags := global_flags s2 AND NOT 1\<rparr>"
  have "lnk s' = lnk s"
  proof (cases "?n = current s")
    case True
    then have "s' = irq_restore (rflags (cpu s)) ?s3" using s' s2(1) by (simp add: schedule_switch_def)
    then show ?thesis by (simp add: irq_restore_def s2(4))
  next
    case False
    then have "context_switch (current s) ?n (rflags (cpu s)) ?s3 = Some s'"
      using s' s2(1) by (simp add: schedule_switch_def)
    then show ?thesis
      using context_switch_eq [of ?s3 "current s" t ?n u "rflags (cpu s)"] t(1) z u False s2 by auto
  qed
  then show ?thesis using w by (simp add: waits_def)
qed

lemma settled_switch:
  assumes "settled T q s" "schedule s = Some s'"
  shows "settled T q s' \<and> idle s' = idle s"
proof -
  obtain ts ws where i: "all_running s ts" "waits s q ws"
    "\<forall>p \<in> set ws. map_option t_state (task_of s p) = Some TASK_INTERRUPTIBLE"
    "set ts \<union> set ws = T" "set ts \<inter> set ws = {}" "idle s \<notin> T"
    using assms(1) by (auto simp: settled_def)
  have r: "all_running s' ts" "idle s' = idle s" using all_running_schedule [OF i(1)] assms(2) by auto
  obtain t where t: "task_of s (current s) = Some t" "t_state t = TASK_RUNNING"
    using i(1) by (auto simp: all_running_def sched_inv_def)
  have cr: "can_run t" by (rule can_run_running [OF t(2)])
  have "\<forall>p. map_option t_state (task_of s' p) = map_option t_state (task_of s p)"
    using schedule_spec [of s ts t] i(1) t(1) cr assms(2) by (auto simp: all_running_def can_run_def)
  then show ?thesis
    using i r schedule_running_waits [OF i(1,2) assms(2)] unfolding settled_def
    by (intro conjI exI [of _ ts] exI [of _ ws]) simp_all
qed

lemma settled_wake:
  assumes "settled T q s"
  obtains s' ts where "waitqueue_wakeup q s = Some s'" "settled T q s'" "idle s' = idle s"
    "all_running s' ts" "set ts = T"
proof -
  obtain ts ws where i: "all_running s ts" "waits s q ws"
    "\<forall>p \<in> set ws. map_option t_state (task_of s p) = Some TASK_INTERRUPTIBLE"
    "set ts \<union> set ws = T" "set ts \<inter> set ws = {}" "idle s \<notin> T"
    using assms by (auto simp: settled_def)
  have inv: "sched_inv s ts" and rq: "runq s ts" using i(1) by (auto simp: all_running_def sched_inv_def)
  have t: "\<forall>p \<in> set ws. \<exists>t. task_of s p = Some t \<and> (t_state t = TASK_INTERRUPTIBLE \<or> t_state t = TASK_UNINTERRUPTIBLE)"
    using i(3) by fastforce
  have dj: "set ws \<inter> set (idle s # ts) = {}" using i(4-6) by auto
  obtain s' where s': "waitqueue_wakeup q s = Some s'" "waits s' q []" "runq s' (rev ws @ ts)"
    "task_of s' = woken (set ws) (task_of s)" "idle s' = idle s" "current s' = current s"
    using waitqueue_wakeup_spec [OF i(2) rq dj t] by (elim exE conjE) (rule that)
  have st: "map_option t_state (task_of s' p) = Some TASK_RUNNING" if "p \<in> set (idle s # rev ws @ ts)" for p
    using that i(1,3) by (fastforce simp: s'(4) woken_def all_running_def)
  then have "task_of s' p \<noteq> None" if "p \<in> set (idle s # rev ws @ ts)" for p using that by fastforce
  then have a: "all_running s' (rev ws @ ts)"
    using s' inv st by (auto simp: all_running_def sched_inv_def)
  have T: "set (rev ws @ ts) = T" using i(4) by auto
  have "settled T q s'"
    unfolding settled_def using a s'(2,5) T i(6) by (intro exI [of _ "rev ws @ ts"] exI [of _ "[]"]) simp
  then show ?thesis by (rule that [OF s'(1) _ s'(5) a T])
qed

lemma settled_sleep:
  assumes "settled T q s" "current s \<noteq> idle s" "waitqueue_sleep q s = Some s'"
  shows "drowsy T q s' \<and> idle s' = idle s"
proof -
  let ?c = "current s"
  obtain ts ws where i: "all_running s ts" "waits s q ws"
    "\<forall>p \<in> set ws. map_option t_state (task_of s p) = Some TASK_INTERRUPTIBLE"
    "set ts \<union> set ws = T" "set ts \<inter> set ws = {}" "idle s \<notin> T"
    using assms(1) by (auto simp: settled_def)
  have inv: "sched_inv s ts" and rq: "runq s ts" and c: "?c \<in> set ts"
    using i(1) assms(2) by (auto simp: all_running_def sched_inv_def)
  obtain t where t: "task_of s ?c = Some t" "t_state t = TASK_RUNNING" using i(1) c by (auto simp: all_running_def)
  have cw: "?c \<notin> set ws" using c i(5) by auto
  let ?t = "t\<lparr>t_state := TASK_INTERRUPTIBLE\<rparr>"
  have s': "waits s' q (?c # ws)" "runq s' ts" "task_of s' = (task_of s)(?c \<mapsto> ?t)" "idle s' = idle s" "current s' = ?c"
    using waitqueue_sleep_spec [OF i(2) rq t cw] assms(3) by auto
  have "sched_inv s' ts" using inv s' by (auto simp: sched_inv_def)
  then show ?thesis
    using i s' c cw unfolding drowsy_def
    by (intro conjI exI [of _ ts] exI [of _ ws]) (auto simp: all_running_def)
qed

lemma drowsy_switch:
  assumes "drowsy T q s"
  obtains s' where "schedule s = Some s'" "settled T q s'" "idle s' = idle s"
proof -
  let ?c = "current s"
  obtain ts ws where i: "sched_inv s ts" "?c \<in> set ts" "waits s q (?c # ws)"
    "\<forall>p \<in> set (idle s # ts) - {?c}. map_option t_state (task_of s p) = Some TASK_RUNNING"
    "\<forall>p \<in> set (?c # ws). map_option t_state (task_of s p) = Some TASK_INTERRUPTIBLE"
    "set ts \<union> set ws = T" "set ts \<inter> set ws = {}" "idle s \<notin> T"
    using assms by (auto simp: drowsy_def)
  obtain t where t: "task_of s ?c = Some t" "t_state t = TASK_INTERRUPTIBLE" using i(5) by auto
  have cr: "\<not> can_run t" and z: "t_state t \<noteq> TASK_ZOMBIE" using t(2) by (simp_all add: can_run_def const_defs)
  have ci: "?c \<noteq> idle s" using i(2,6,8) by auto
  obtain s' where s': "schedule s = Some s'" "sched_inv s' (remove1 ?c ts)" "idle s' = idle s"
    "\<forall>p. map_option t_state (task_of s' p) = map_option t_state (task_of s p)"
    using schedule_spec [OF i(1) t(1) z] cr ci by auto
  have w: "waits s' q (?c # ws)" using schedule_blocked [OF i(1,2) t i(3)] s'(1) by auto
  have d: "distinct (idle s # ts)" using i(1) runq_distinct by (auto simp: sched_inv_def)
  then have r: "set (remove1 ?c ts) = set ts - {?c}" by simp
  have "all_running s' (remove1 ?c ts)" unfolding all_running_def using s' i(4) ci r by auto
  moreover have "\<forall>p \<in> set (?c # ws). map_option t_state (task_of s' p) = Some TASK_INTERRUPTIBLE"
    using i(5) s'(4) by simp
  moreover have "set (remove1 ?c ts) \<union> set (?c # ws) = T" "set (remove1 ?c ts) \<inter> set (?c # ws) = {}"
    unfolding r using i(2,6,7) by auto
  moreover have "idle s' \<notin> T" using s'(3) i(8) by simp
  ultimately have "settled T q s'" using w unfolding settled_def by blast
  then show ?thesis by (rule that [OF s'(1) _ s'(3)])
qed

lemma queue_switch:
  assumes "queue_inv T q s"
  obtains s' where "schedule s = Some s'" "settled T q s'" "idle s' = idle s"
proof (cases "settled T q s")
  case True
  then obtain ts where "all_running s ts" by (auto simp: settled_def)
  then obtain s' where "schedule s = Some s'" using all_running_schedule by blast
  then show ?thesis using settled_switch [OF True] that by blast
next
  case False
  then have "drowsy T q s" using assms by (simp add: queue_inv_def)
  then show ?thesis by (rule drowsy_switch) (rule that)
qed

lemma queue_ask:
  assumes "queue_inv T q s" "set_need_resched s = Some s'"
  shows "queue_inv T q s' \<and> idle s' = idle s"
proof -
  have "s' = s\<lparr>global_flags := global_flags s OR 1\<rparr>" using assms(2) by simp
  then show ?thesis
    using assms(1) by (auto simp: queue_inv_def settled_def drowsy_def all_running_def sched_inv_def runq_def waits_def)
qed

lemma queue_step_inv:
  assumes "queue_step q s s'" "queue_inv T q s"
  shows "queue_inv T q s' \<and> idle s' = idle s"
proof (rule queue_stepE [OF assms(1)], goal_cases)
  case 1
  then show ?case using settled_sleep [OF queue_inv_awake [OF assms(2)]] by (auto simp: queue_inv_def)
next
  case 2
  then show ?case using queue_switch [OF assms(2)] by (auto simp: queue_inv_def)
next
  case 3
  then show ?case using settled_wake [OF queue_inv_awake [OF assms(2)]] by (auto simp: queue_inv_def)
next
  case 4
  then show ?case using queue_ask [OF assms(2)] by simp
qed

lemma queue_reach_inv: "(queue_step q)\<^sup>*\<^sup>* s s' \<Longrightarrow> queue_inv T q s \<Longrightarrow> queue_inv T q s'"
  by (induction rule: rtranclp_induct) (auto dest: queue_step_inv)

text \<open>One wake-up is enough for every task of \<open>T\<close> to get the processor.\<close>

definition wakeup_suffices :: "nat set \<Rightarrow> nat \<Rightarrow> 'z kstate_scheme \<Rightarrow> bool" where
  "wakeup_suffices T q s \<longleftrightarrow> (\<exists>s1. waitqueue_wakeup q s = Some s1 \<and>
    (\<forall>p \<in> T. \<exists>n \<le> card T. \<exists>s2. schedule_times n s1 = Some s2 \<and> current s2 = p))"

lemma settled_wakeup_suffices: "settled T q s \<Longrightarrow> wakeup_suffices T q s"
proof (erule settled_wake)
  fix s1 ts
  assume s1: "waitqueue_wakeup q s = Some s1" "all_running s1 ts" "set ts = T"
  have "distinct ts" using s1(2) runq_distinct by (auto simp: all_running_def sched_inv_def)
  then have "card T = length ts" using s1(3) distinct_card by auto
  then show ?thesis using s1(1,3) schedule_fair_spec [OF s1(2)] by (auto simp: wakeup_suffices_def)
qed

section \<open>A wake-up between going to sleep and switching\<close>

text \<open>The node of a task that is still on the run queue is linked a second time.  If it was the first one,
  it now points to itself, and \<open>schedule\<close> never leaves the task again: all others are lost.\<close>

lemma self_loop_stays:
  assumes "nxt (lnk s) (Running (current s)) = Running (current s)" "current s \<noteq> idle s"
    "task_of s (current s) = Some t" "t_state t = TASK_RUNNING"
  shows "\<exists>s'. schedule_times n s = Some s' \<and> current s' = current s"
  using assms
proof (induction n arbitrary: s)
  case (Suc n)
  obtain s1 where s1: "schedule s = Some s1" "lnk s1 = lnk s" "idle s1 = idle s" "current s1 = current s" "task_of s1 = task_of s"
    using Suc.prems
    by (simp add: schedule_def irq_save_eq clear_global_flag_def irq_restore_def Let_def const_defs)
  then show ?case using Suc.IH [of s1] Suc.prems by simp
qed simp

lemma wakeup_in_window:
  assumes "runq s (c # ts)" "current s = c" "waits s q []" "task_of s c = Some t" "t_state t = TASK_RUNNING"
  shows "\<exists>s1 s2. waitqueue_sleep q s = Some s1 \<and> waitqueue_wakeup q s1 = Some s2 \<and>
    (\<forall>n. \<exists>s3. schedule_times n s2 = Some s3 \<and> current s3 = c)"
proof -
  let ?t = "t\<lparr>t_state := TASK_INTERRUPTIBLE\<rparr>"
  obtain s1 where s1: "waitqueue_sleep q s = Some s1" "waits s1 q [c]" "runq s1 (c # ts)"
    "task_of s1 = (task_of s)(c \<mapsto> ?t)" "idle s1 = idle s" "current s1 = c"
    using waitqueue_sleep_spec [of s q "[]" "c # ts" t] assms by auto
  have ci: "c \<noteq> idle s" using runq_distinct [OF assms(1)] by auto
  have w: "nxt (lnk s1) (Wait_head q) = Waitq c" "nxt (lnk s1) (Waitq c) = Wait_head q" "prv (lnk s1) (Waitq c) = Wait_head q"
    using s1(2) by (simp_all add: waits_def dlist_def)
  have r: "nxt (lnk s1) (Running (idle s)) = Running c" using s1(3,5) by (simp add: runq_def dlist_def)
  define k where "k = list_add (Running (idle s)) (Running c) (list_del (Waitq c) (lnk s1))"
  have k: "nxt k (Waitq c) = Wait_head q" "nxt k (Running c) = Running c"
    using w r ci by (simp_all add: k_def list_add_def list_del_def Let_def)
  define v where "v = s1\<lparr>cpu := cli (cpu s1), lnk := k, task_of := (task_of s)(c \<mapsto> t)\<rparr>"
  have tt: "?t\<lparr>t_state := TASK_RUNNING\<rparr> = t" using assms(5) by simp
  have b: "wakeup_body (Waitq c) (s1\<lparr>cpu := cli (cpu s1)\<rparr>) = Some (False, v)"
    using tt by (simp add: wakeup_body_def set_task_def on_links_def s1(4,5) k_def v_def)
  have "list_for_each lnk (Wait_head q) wakeup_body (s1\<lparr>cpu := cli (cpu s1)\<rparr>) = Some (Wait_head q, v)"
    unfolding list_for_each_def by (simp add: list_for_each_from.simps w b) (simp add: list_for_each_from.simps v_def k)
  then have wk: "waitqueue_wakeup q s1 = Some (irq_restore (rflags (cpu s1)) v)"
    using ci by (simp add: waitqueue_wakeup_def irq_save_eq v_def s1(5,6))
  let ?s2 = "irq_restore (rflags (cpu s1)) v"
  have f: "current ?s2 = c" "idle ?s2 = idle s" "lnk ?s2 = k" "task_of ?s2 c = Some t"
    by (simp_all add: irq_restore_def v_def s1(5,6))
  have "\<exists>s3. schedule_times n ?s2 = Some s3 \<and> current s3 = c" for n
    using self_loop_stays [of ?s2 t n] k(2) ci assms(5) unfolding f by blast
  then show ?thesis using s1(1) wk by blast
qed

section \<open>Properties\<close>

text \<open>C17: No task is lost.  Start with every task of a set on the run queue or asleep on the wait
  queue and let any sequence of steps follow: tasks going to sleep, switches, requests to reschedule, and
  wake-ups, which may come at any time except between a task's \<open>waitqueue_sleep\<close> and its next
  \<open>schedule\<close>.  Then each task is still on exactly one of the two queues, running or sleeping
  accordingly, unless the current task has just gone to sleep; in that case this holds after its switch
  away.  From there one wake-up is enough for every task to get the processor after finitely many
  switches.\<close>

theorem no_task_lost:
  assumes "settled T q s" "(queue_step q)\<^sup>*\<^sup>* s s'"
  shows "(awake s' \<longrightarrow> settled T q s' \<and> wakeup_suffices T q s') \<and>
    (\<exists>s1. schedule s' = Some s1 \<and> settled T q s1 \<and> wakeup_suffices T q s1)"
proof -
  have i: "queue_inv T q s'" by (rule queue_reach_inv [OF assms(2)]) (simp add: queue_inv_def assms(1))
  obtain s1 where "schedule s' = Some s1" "settled T q s1" using i by (rule queue_switch)
  then show ?thesis using queue_inv_awake [OF i] settled_wakeup_suffices by blast
qed

theorem no_task_lost_witness:
  "\<exists>s s1 s2 s3 :: kstate. waitqueue_sleep 1 s = Some s1 \<and> schedule s1 = Some s2 \<and>
     waitqueue_wakeup 1 s2 = Some s3 \<and> current s = 8192 \<and> \<not> awake s1 \<and>
     (\<exists>n \<le> 2. \<exists>s4. schedule_times n s3 = Some s4 \<and> current s4 = 12288) \<and>
     (\<exists>n \<le> 2. \<exists>s4. schedule_times n s3 = Some s4 \<and> current s4 = 8192)"
proof -
  obtain s :: kstate where s: "runq s [8192]" "waits s 1 [12288]" "idle s = 4096" "current s = 8192" "task_of s = demo_tasks"
    using sched_demo by metis
  have a: "all_running s [8192]"
    using s by (simp add: all_running_def sched_inv_def demo_tasks_def demo_task_def)
  have i: "settled {8192, 12288} 1 s"
    unfolding settled_def using s a
    by (intro exI [of _ "[8192]"] exI [of _ "[12288]"]) (auto simp: demo_tasks_def demo_task_def)
  obtain t where t: "task_of s (current s) = Some t" "t_state t = TASK_RUNNING"
    using s by (simp add: demo_tasks_def demo_task_def)
  have ci: "current s \<noteq> idle s" using s by simp
  obtain s1 where s1: "waitqueue_sleep 1 s = Some s1" using waitqueue_sleep_spec [OF s(2,1) t] s(4) by auto
  then have st: "(queue_step 1)\<^sup>*\<^sup>* s s1" using sleep [OF ci settled_awake [OF i]] by blast
  have na: "\<not> awake s1" using settled_sleep [OF i ci s1] drowsy_asleep by blast
  obtain s2 s3 where s2: "schedule s1 = Some s2" and s3: "waitqueue_wakeup 1 s2 = Some s3"
    "\<forall>p \<in> {8192, 12288}. \<exists>n \<le> card {8192, 12288 :: nat}. \<exists>s4. schedule_times n s3 = Some s4 \<and> current s4 = p"
    using no_task_lost [OF i st] unfolding wakeup_suffices_def by blast
  have c: "card {8192, 12288 :: nat} = 2" by simp
  have r: "\<exists>n \<le> 2. \<exists>s4. schedule_times n s3 = Some s4 \<and> current s4 = p" if "p \<in> {8192, 12288}" for p
    using s3(2) that unfolding c by blast
  show ?thesis using s1 s2 s3(1) s(4) na r [of 12288] r [of 8192] by blast
qed

end
