(* ===== verification/FsFrame.thy ===== *)
theory FsFrame
  imports ProcessProps
begin

text \<open>
  What the file system leaves alone.  Every operation of the file system is polymorphic in the
  state around it; here each is shown to leave that part as it was.  The locale \<open>keeping\<close> is the
  interface for a relation that such operations preserve and that the drivers called through the
  file system are required to preserve (\<open>drivers_keep\<close>, \<open>reads_keep\<close>).
\<close>

section \<open>Operations that leave the rest of the state alone\<close>

text \<open>A run of the option monad taken apart, one construct at a time.\<close>

lemma bind_SomeE: "Option.bind m f = Some y \<Longrightarrow> (\<And>x. m = Some x \<Longrightarrow> f x = Some y \<Longrightarrow> P) \<Longrightarrow> P"
  by (cases m) auto

lemma prod_SomeE: "(case p of (a, b) \<Rightarrow> f a b) = Some y \<Longrightarrow> (\<And>a b. p = (a, b) \<Longrightarrow> f a b = Some y \<Longrightarrow> P) \<Longrightarrow> P"
  by (cases p) auto

lemma sum_SomeE:
  "(case r of Inl e \<Rightarrow> f e | Inr x \<Rightarrow> g x) = Some y \<Longrightarrow>
    (\<And>e. r = Inl e \<Longrightarrow> f e = Some y \<Longrightarrow> P) \<Longrightarrow> (\<And>x. r = Inr x \<Longrightarrow> g x = Some y \<Longrightarrow> P) \<Longrightarrow> P"
  by (cases r) auto

lemma option_SomeE:
  "(case r of None \<Rightarrow> z | Some x \<Rightarrow> g x) = Some y \<Longrightarrow>
    (r = None \<Longrightarrow> z = Some y \<Longrightarrow> P) \<Longrightarrow> (\<And>x. r = Some x \<Longrightarrow> g x = Some y \<Longrightarrow> P) \<Longrightarrow> P"
  by (cases r) auto

lemma if_SomeE:
  "(if b then u else v) = Some y \<Longrightarrow> (b \<Longrightarrow> u = Some y \<Longrightarrow> P) \<Longrightarrow> (\<not> b \<Longrightarrow> v = Some y \<Longrightarrow> P) \<Longrightarrow> P"
  by (cases b) auto

lemmas run_elims = bind_SomeE prod_SomeE sum_SomeE option_SomeE if_SomeE

lemma fs_of_kmem: "kmem.more s' = kmem.more s \<Longrightarrow> fstate.more s' = fstate.more s"
  by (rule same_fsD)

lemma fs_of_heap: "heap.more s' = heap.more s \<Longrightarrow> fstate.more s' = fstate.more s"
  by (blast dest: kmem_moreD intro: fs_of_kmem)

lemma kmalloc_fs: "kmalloc sz s = Some (p, s') \<Longrightarrow> fstate.more s' = fstate.more s"
  by (drule kmalloc_more) (rule fs_of_heap)

lemma kfree_fs: "kfree p s = Some s' \<Longrightarrow> fstate.more s' = fstate.more s"
  by (drule kfree_more) (rule fs_of_heap)

lemma kzalloc_fs: "kzalloc sz s = Some (p, s') \<Longrightarrow> fstate.more s' = fstate.more s"
  by (auto simp: kzalloc_def Let_def elim!: run_elims dest!: kmalloc_fs)

lemma set_fs:
  "set_dent d f s = Some s' \<Longrightarrow> fstate.more s' = fstate.more s"
  "set_file a g s = Some s' \<Longrightarrow> fstate.more s' = fstate.more s"
  "set_priv a h s = Some s' \<Longrightarrow> fstate.more s' = fstate.more s"
  "set_sb r k s = Some s' \<Longrightarrow> fstate.more s' = fstate.more s"
  by (auto simp: set_dent_def set_file_def set_priv_def set_sb_def split: sb_ref.split_asm)

lemma free_obj_fs: "free_obj p s = Some s' \<Longrightarrow> fstate.more s' = fstate.more s"
  by (auto simp: free_obj_def Let_def elim!: run_elims dest!: kfree_fs)

lemma dentry_get_fs: "dentry_get d s = Some (r, s') \<Longrightarrow> fstate.more s' = fstate.more s"
  by (auto simp: dentry_get_def Let_def elim!: run_elims dest!: set_fs)

lemma dentry_put_fs:
  assumes "dentry_put d s = Some s'"
  shows "fstate.more s' = fstate.more s"
proof (rule dentry_put.raw_induct [OF _ assms, where P = "\<lambda>_ s s'. fstate.more s' = fstate.more s"], goal_cases)
  case (1 put d s s')
  show ?case using 1(2)
    by (auto simp: Let_def elim!: run_elims dest!: set_fs free_obj_fs 1(1))
qed

lemma get_next_component_fs: "get_next_component path s = Some (c, r, n, s') \<Longrightarrow> fstate.more s' = fstate.more s"
  by (cases "path = []")
    (auto simp: get_next_component_def Let_def
      simp del: dropWhile_eq_Nil_conv elim!: run_elims dest!: kmalloc_fs)

lemma getdents_loop_fs:
  "getdents_loop is buf sz st count s = Some (r, s') \<Longrightarrow> fstate.more s' = fstate.more s"
proof (induction "is" arbitrary: buf sz st count s)
  case (Cons i "is")
  from Cons.prems show ?case by (auto simp: Let_def elim!: run_elims dest!: Cons.IH)
qed simp

lemma make_node_fs: "make_node z rest d name md s = Some (r, s') \<Longrightarrow> fstate.more s' = fstate.more s"
  by (auto simp: make_node_def Let_def elim!: run_elims
      dest!: kzalloc_fs free_obj_fs set_fs dentry_get_fs)

lemma mount_root_fs: "mount_root z rest sb s = Some (r, dp, s') \<Longrightarrow> fstate.more s' = fstate.more s"
  by (auto simp: mount_root_def Let_def elim!: run_elims
      dest!: kzalloc_fs free_obj_fs set_fs dentry_get_fs)

lemma lookup_node_fs: "lookup_node d name s = Some (r, s') \<Longrightarrow> fstate.more s' = fstate.more s"
  by (auto simp: lookup_node_def Let_def elim!: run_elims dest!: dentry_get_fs)

lemma getdents_node_fs: "getdents_node d buf sz st s = Some (r, s') \<Longrightarrow> fstate.more s' = fstate.more s"
  by (auto simp: getdents_node_def Let_def elim!: run_elims dest!: getdents_loop_fs)

lemma list_del_child_fs [simp]: "fstate.more (list_del_child dp s) = fstate.more s"
  by (simp add: list_del_child_def)

lemma fs_mount_fs: "fs_mount k sb s = Some (r, s') \<Longrightarrow> fstate.more s' = fstate.more s"
  by (cases k) (auto simp: ramfs_mount_def devfs_mount_def Let_def elim!: run_elims dest!: mount_root_fs)

lemma fs_lookup_fs: "fs_lookup k d name s = Some (r, s') \<Longrightarrow> fstate.more s' = fstate.more s"
  by (cases k) (auto simp: ramfs_lookup_def devfs_lookup_def dest!: lookup_node_fs)

lemma fs_getdents_fs: "fs_getdents k d buf sz st s = Some (r, s') \<Longrightarrow> fstate.more s' = fstate.more s"
  by (cases k) (auto simp: ramfs_getdents_def devfs_getdents_def dest!: getdents_node_fs)

lemma ramfs_mkdir_fs: "ramfs_mkdir d name s = Some (r, s') \<Longrightarrow> fstate.more s' = fstate.more s"
proof -
  assume "ramfs_mkdir d name s = Some (r, s')"
  then obtain a b where "make_node sizeof_ramfs_priv (Ramfs_data 0 0) d name DIR_DIR s = Some (a, b)" "s' = b"
    by (auto simp: ramfs_mkdir_def ramfs_make_node_def Let_def elim!: run_elims)
  then show ?thesis using make_node_fs by blast
qed

lemma fs_mkdir_fs: "fs_mkdir k d name s = Some (r, s') \<Longrightarrow> fstate.more s' = fstate.more s"
  by (cases k) (auto dest: ramfs_mkdir_fs)

lemma fs_rmdir_fs: "fs_rmdir k d s = Some (r, s') \<Longrightarrow> fstate.more s' = fstate.more s"
  by (cases k) (auto simp: ramfs_rmdir_def Let_def elim!: run_elims dest!: dentry_put_fs)

lemma ramfs_create_fs: "ramfs_create d name s = Some (r, s') \<Longrightarrow> fstate.more s' = fstate.more s"
proof -
  assume "ramfs_create d name s = Some (r, s')"
  then obtain a b where "make_node sizeof_ramfs_priv (Ramfs_data 0 0) d name DIR_FILE s = Some (a, b)" "s' = b"
    by (auto simp: ramfs_create_def ramfs_make_node_def Let_def elim!: run_elims)
  then show ?thesis using make_node_fs by blast
qed

lemma fs_create_fs: "fs_create k = Some g \<Longrightarrow> g d name s = Some (r, s') \<Longrightarrow> fstate.more s' = fstate.more s"
  by (cases k) (auto dest: ramfs_create_fs)

lemma fs_unlink_fs: "fs_unlink k = Some g \<Longrightarrow> g d s = Some (r, s') \<Longrightarrow> fstate.more s' = fstate.more s"
  by (cases k) (auto simp: ramfs_unlink_def Let_def elim!: run_elims dest!: kfree_fs dentry_put_fs)

lemma fs_truncate_fs: "fs_truncate k = Some g \<Longrightarrow> g f s = Some (r, s') \<Longrightarrow> fstate.more s' = fstate.more s"
  by (cases k) (auto simp: ramfs_truncate_def Let_def elim!: run_elims dest!: kfree_fs set_fs)

lemma ramfs_read_fs: "ramfs_read f off buf sz s = Some (r, s') \<Longrightarrow> fstate.more s' = fstate.more s"
  by (auto simp: ramfs_read_def Let_def elim!: run_elims)

lemma ramfs_grow_fs: "ramfs_grow pr n m s = Some (b, s') \<Longrightarrow> fstate.more s' = fstate.more s"
  by (auto simp: ramfs_grow_def Let_def elim!: run_elims dest!: kmalloc_fs kfree_fs set_fs)

lemma ramfs_write_fs: "ramfs_write f off buf sz s = Some (r, s') \<Longrightarrow> fstate.more s' = fstate.more s"
  by (auto simp: ramfs_write_def Let_def elim!: run_elims dest!: ramfs_grow_fs set_fs)

lemma lookup_done_fs: "lookup_done w d n s = Some r \<Longrightarrow> fstate.more (snd (snd r)) = fstate.more s"
  by (auto simp: lookup_done_def Let_def elim!: run_elims dest!: free_obj_fs)

lemma lookup_fail_fs: "lookup_fail e d n s = Some r \<Longrightarrow> fstate.more (snd (snd r)) = fstate.more s"
  by (auto simp: lookup_fail_def Let_def elim!: run_elims dest!: free_obj_fs dentry_put_fs)

lemma lookup_loop_fs:
  assumes "lookup_loop fl w path d s = Some r"
  shows "fstate.more (snd (snd r)) = fstate.more s"
proof (rule lookup_loop.raw_induct [OF _ assms,
      where P = "\<lambda>_ _ _ _ s r. fstate.more (snd (snd r)) = fstate.more s"], goal_cases)
  case (1 loop fl w path d s r)
  show ?case using 1(2)
    by (auto simp: Let_def elim!: run_elims
        dest!: set_fs free_obj_fs get_next_component_fs fs_lookup_fs lookup_done_fs lookup_fail_fs
          dentry_put_fs 1(1))
qed

lemma lookup_path_common_fs: "lookup_path_common p fl w s = Some (r, m, s') \<Longrightarrow> fstate.more s' = fstate.more s"
  by (auto simp: lookup_path_common_def Let_def elim!: run_elims
      dest!: dentry_get_fs lookup_loop_fs)

section \<open>Operations that call drivers\<close>

text \<open>A relation between states that holds when only the file systems' part changes is respected by
  every operation of the virtual file system that reaches no driver, and by the others when the
  drivers respect it.  Opening, closing and writing are asked for in every state; reading, which
  may sleep, only in the state in which it is called.\<close>

definition drivers_keep ::
  "('z fstate_scheme \<Rightarrow> 'z fstate_scheme \<Rightarrow> bool) \<Rightarrow> 'z fstate_scheme drivers \<Rightarrow> bool" where
  "drivers_keep K drv \<longleftrightarrow> (\<forall>a ops. drv a = Some ops \<longrightarrow>
     (\<forall>g f fl s r s'. dev_open ops = Some g \<longrightarrow> g f fl s = Some (r, s') \<longrightarrow> K s s') \<and>
     (\<forall>g f s r s'. dev_close ops = Some g \<longrightarrow> g f s = Some (r, s') \<longrightarrow> K s s') \<and>
     (\<forall>g f off buf sz s r s'. dev_write ops = Some g \<longrightarrow> g f off buf sz s = Some (r, s') \<longrightarrow> K s s'))"

definition reads_keep ::
  "('z fstate_scheme \<Rightarrow> 'z fstate_scheme \<Rightarrow> bool) \<Rightarrow> 'z fstate_scheme drivers \<Rightarrow> 'z fstate_scheme \<Rightarrow> bool" where
  "reads_keep K drv s \<longleftrightarrow> (\<forall>a ops g f off buf sz r s'. drv a = Some ops \<longrightarrow> dev_read ops = Some g \<longrightarrow>
     g f off buf sz s = Some (r, s') \<longrightarrow> K s s')"

locale keeping =
  fixes K :: "'z fstate_scheme \<Rightarrow> 'z fstate_scheme \<Rightarrow> bool"
  assumes K_more: "fstate.more s' = fstate.more s \<Longrightarrow> K s s'"
    and K_trans: "K s t \<Longrightarrow> K t u \<Longrightarrow> K s u"
begin

lemma K_refl: "K s s"
  by (rule K_more) simp

text \<open>Steps without a driver in front of and behind one with a driver.\<close>

lemma K_pre: "fstate.more t = fstate.more s \<Longrightarrow> K t u \<Longrightarrow> K s u"
  using K_more K_trans by blast

lemma K_post: "K s t \<Longrightarrow> fstate.more u = fstate.more t \<Longrightarrow> K s u"
  using K_more K_trans by blast

lemma dev_ops_drv: "dev_ops drv f s = Some ops \<Longrightarrow> \<exists>a. drv a = Some ops"
  by (auto simp: dev_ops_def elim!: run_elims)

lemma K_fs_open:
  assumes d: "drivers_keep K drv"
  shows "fs_open drv k = Some g \<Longrightarrow> g f fl s = Some (r, s') \<Longrightarrow> K s s'"
  by (cases k) (use d in \<open>auto simp: devfs_open_def intro: K_refl simp: drivers_keep_def elim!: run_elims dest!: dev_ops_drv\<close>)

lemma K_fs_close:
  assumes d: "drivers_keep K drv"
  shows "fs_close drv k = Some g \<Longrightarrow> g f s = Some (r, s') \<Longrightarrow> K s s'"
  by (cases k) (use d in \<open>auto simp: devfs_close_def simp: drivers_keep_def elim!: run_elims dest!: dev_ops_drv\<close>)

lemma K_fs_read:
  assumes d: "k = Devfs \<Longrightarrow> reads_keep K drv s"
  shows "fs_read drv k f off buf sz s = Some (r, s') \<Longrightarrow> K s s'"
  by (cases k) (use d in \<open>auto simp: devfs_read_def simp: reads_keep_def elim!: run_elims dest!: dev_ops_drv ramfs_read_fs intro: K_more\<close>)

lemma K_fs_write:
  assumes d: "k = Devfs \<Longrightarrow> drivers_keep K drv"
  shows "fs_write drv k f off buf sz s = Some (r, s') \<Longrightarrow> K s s'"
  by (cases k) (use d in \<open>auto simp: devfs_write_def simp: drivers_keep_def elim!: run_elims dest!: dev_ops_drv ramfs_write_fs intro: K_more\<close>)

lemma advance_fs: "advance f n s = Some s' \<Longrightarrow> fstate.more s' = fstate.more s"
  by (auto simp: advance_def elim!: run_elims dest!: set_fs)

lemma K_vfs_read:
  assumes d: "file_fs f s = Some Devfs \<Longrightarrow> reads_keep K drv s"
  shows "vfs_read drv f buf sz s = Some (r, s') \<Longrightarrow> K s s'"
  by (auto simp: vfs_read_def intro: K_refl elim!: run_elims dest!: K_fs_read [rotated] advance_fs intro: K_post d)

lemma K_vfs_write:
  assumes d: "file_fs f s = Some Devfs \<Longrightarrow> drivers_keep K drv"
  shows "vfs_write drv f buf sz s = Some (r, s') \<Longrightarrow> K s s'"
  by (auto simp: vfs_write_def intro: K_refl elim!: run_elims dest!: K_fs_write [rotated] advance_fs intro: K_post d)

lemma K_vfs_lseek: "vfs_lseek f off w s = Some (r, s') \<Longrightarrow> K s s'"
  by (rule K_more) (auto simp: vfs_lseek_def Let_def elim!: run_elims dest!: set_fs)

lemma dopen_dentry_fs: "dopen_dentry d name fl s = Some (r, s') \<Longrightarrow> fstate.more s' = fstate.more s"
  by (auto simp: dopen_dentry_def elim!: run_elims dest!: fs_lookup_fs dentry_put_fs dest: fs_create_fs)

text \<open>Closing, when the device says so.\<close>

lemma K_close_device:
  assumes d: "drivers_keep K drv"
  shows "(case fs_close drv k of None \<Rightarrow> Some (0, s) | Some g \<Rightarrow> g f s) = Some (r, s') \<Longrightarrow> K s s'"
  by (auto intro: K_refl elim!: run_elims dest: K_fs_close [OF d])

lemma K_open_device:
  assumes d: "drivers_keep K drv"
  shows "(case fs_open drv k of None \<Rightarrow> Some (0, s) | Some g \<Rightarrow> g f fl s) = Some (r, s') \<Longrightarrow> K s s'"
  by (auto intro: K_refl elim!: run_elims dest: K_fs_open [OF d])

lemma truncate_device_fs:
  "(case fs_truncate k of Some g \<Rightarrow> if b then g f s else Some (0, s) | None \<Rightarrow> Some (0, s)) = Some (r, s') \<Longrightarrow>
    fstate.more s' = fstate.more s"
  by (auto elim!: run_elims dest: fs_truncate_fs)

lemma K_files [simp]: "K (s\<lparr>files := x\<rparr>) t = K s t"
  using K_pre [of "s\<lparr>files := x\<rparr>" s t] K_pre [of s "s\<lparr>files := x\<rparr>" t] by auto

lemma K_vfs_dopen:
  assumes d: "drivers_keep K drv"
  shows "vfs_dopen drv d name fl s = Some (r, s') \<Longrightarrow> K s s'"
  unfolding vfs_dopen_def Let_def
  apply (elim bind_SomeE prod_SomeE sum_SomeE if_SomeE; clarsimp dest!: K_open_device [OF d] K_close_device [OF d]
      truncate_device_fs dopen_dentry_fs kzalloc_fs free_obj_fs dentry_put_fs simp del: fs_open.simps)
  apply (meson K_refl K_pre K_post K_trans K_more)+
  done

lemma K_vfs_open:
  assumes d: "drivers_keep K drv"
  shows "vfs_open drv path fl s = Some (r, s') \<Longrightarrow> K s s'"
  unfolding vfs_open_def
  by (elim bind_SomeE prod_SomeE sum_SomeE; clarsimp dest!: lookup_path_common_fs K_vfs_dopen [OF d] free_obj_fs dentry_put_fs)
    (meson K_refl K_pre K_post K_trans K_more)+

lemma K_vfs_close:
  assumes d: "drivers_keep K drv"
  shows "vfs_close drv f s = Some (r, s') \<Longrightarrow> K s s'"
  unfolding vfs_close_def
  by (elim bind_SomeE prod_SomeE if_SomeE; clarsimp dest!: K_close_device [OF d] set_fs free_obj_fs dentry_put_fs)
    (meson K_refl K_pre K_post K_trans K_more)+

end

section \<open>Operations on paths\<close>

lemma through_mount_paths_fs:
  "vfs_dgetdents d buf sz st s = Some (r, s') \<Longrightarrow> fstate.more s' = fstate.more s"
  "vfs_dmkdir d name s = Some (r, s') \<Longrightarrow> fstate.more s' = fstate.more s"
  "vfs_drmdir d s = Some (r, s') \<Longrightarrow> fstate.more s' = fstate.more s"
  "vfs_dunlink d s = Some (r, s') \<Longrightarrow> fstate.more s' = fstate.more s"
  by (auto simp: vfs_dgetdents_def vfs_dmkdir_def vfs_drmdir_def vfs_dunlink_def elim!: run_elims
      dest!: fs_getdents_fs fs_mkdir_fs fs_rmdir_fs dest: fs_unlink_fs)

lemma vfs_paths_fs:
  "vfs_getdents path buf sz st s = Some (r, s') \<Longrightarrow> fstate.more s' = fstate.more s"
  "vfs_mkdir path s = Some (r, s') \<Longrightarrow> fstate.more s' = fstate.more s"
  "vfs_rmdir path s = Some (r, s') \<Longrightarrow> fstate.more s' = fstate.more s"
  "vfs_unlink path s = Some (r, s') \<Longrightarrow> fstate.more s' = fstate.more s"
  by (auto simp: vfs_getdents_def vfs_mkdir_def vfs_rmdir_def vfs_unlink_def lookup_path_dir_def
      lookup_path_for_create_dir_def elim!: run_elims
      dest!: lookup_path_common_fs through_mount_paths_fs dentry_put_fs free_obj_fs)

lemma vfs_mount_fs: "vfs_mount ty path s = Some (r, s') \<Longrightarrow> fstate.more s' = fstate.more s"
  by (auto simp: vfs_mount_def lookup_path_dir_def Let_def elim!: run_elims
      dest!: lookup_path_common_fs fs_mount_fs dentry_put_fs free_obj_fs kzalloc_fs set_fs)

end
