(* ===== verification/Entry.thy ===== *)
theory Entry
  imports FsFrame Tar
begin

text \<open>
  The kernel's entry and exit code, \<open>src/src/kernel/idt.S\<close>: system calls from the
  \<open>syscall\<close> instruction through the table of functions to \<open>sysretq\<close>, and the way back from an
  interrupt, both with the test for a wanted reschedule.

  The registers at the entry are those right behind the instruction, which has put the
  return address into \<open>rcx\<close> and the flags into \<open>r11\<close>.  A task that is switched away from continues
  behind its call of \<open>schedule\<close> when it is switched to again: the result \<open>None\<close> in place of
  registers says that another task runs now.
\<close>

section \<open>The table of system calls\<close>

datatype sys_function =
    Printk | Sys_fork | Sys_exec | Sys_exit | Sys_getpid | Sys_pause | Sys_yield | Sys_usleep
  | Sys_getdents | Sys_open | Sys_close | Sys_read | Sys_write | Sys_lseek
  | Sys_mkdir | Sys_rmdir | Sys_unlink | Sys_mount

definition sys_call_table :: "sys_function list" where
  "sys_call_table =
    [Printk, Sys_fork, Sys_exec, Sys_exit, Sys_getpid, Sys_pause, Sys_yield, Sys_usleep,
     Sys_getdents, Sys_open, Sys_close, Sys_read, Sys_write, Sys_lseek,
     Sys_mkdir, Sys_rmdir, Sys_unlink, Sys_mount]"

definition NUM_SYSCALLS :: nat where
  "NUM_SYSCALLS = length sys_call_table"

text \<open>What the functions need from outside: the drivers, how the compiler's \<open>va_arg\<close> reads the
  words behind a format, addresses of locals and constants of \<open>do_exec_elf\<close>, and the upper half
  of \<open>rax\<close>, which a function that returns an \<open>int\<close> leaves arbitrary.\<close>

record 's sys_env =
  env_drv :: "'s drivers"
  env_va :: "string \<Rightarrow> u64 list \<Rightarrow> mem \<Rightarrow> arg list"
  env_elfmag :: nat
  env_ehdr :: nat
  env_phdr :: nat
  env_hi :: u32

definition int_rax :: "'s sys_env \<Rightarrow> int \<Rightarrow> u64" where
  "int_rax env r = push_bit 32 (ucast (env_hi env)) OR ucast (word_of_int r :: u32)"

definition int_result :: "'s sys_env \<Rightarrow> (int \<times> 's) option \<Rightarrow> (u64 option \<times> 's) option" where
  "int_result env = map_option (\<lambda>(r, s). (Some (int_rax env r), s))"

text \<open>Arguments: \<open>int\<close>, \<open>u32\<close>, a pointer, a string.  The registers behind the format are the
  variable arguments, and after them the words on the stack, which are the saved registers.\<close>

definition arg_int :: "u64 \<Rightarrow> int" where
  "arg_int v = sint (ucast v :: u32)"

definition arg_path :: "u64 \<Rightarrow> 'z kstate_scheme \<Rightarrow> string option" where
  "arg_path v s = string_at (mem s) (unat v)"

definition var_args :: "regs \<Rightarrow> u64 list" where
  "var_args r = [reg_rsi r, reg_rdx r, reg_r10 r, reg_r8 r, reg_r9 r, reg_rax r, reg_rcx r, reg_rdx r, reg_rbx r,
     reg_rbp r, reg_rsi r, reg_rdi r, reg_r8 r, reg_r9 r, reg_r10 r, reg_r11 r]"

definition sys_printk ::
  "'z kstate_scheme sys_env \<Rightarrow> regs \<Rightarrow> 'z kstate_scheme \<Rightarrow> (int \<times> 'z kstate_scheme) option" where
  "sys_printk env r s =
    do {
      fmt \<leftarrow> arg_path (reg_rdi r) s;
      (n, c) \<leftarrow> printk fmt (env_va env fmt (var_args r) (mem s)) (cpu s);
      Some (sint n, s\<lparr>cpu := c\<rparr>)
    }"

fun call_function ::
  "'z kstate_scheme sys_env \<Rightarrow> sys_function \<Rightarrow> regs \<Rightarrow> 'z kstate_scheme \<Rightarrow>
     (u64 option \<times> 'z kstate_scheme) option" where
  "call_function env Printk r s = int_result env (sys_printk env r s)"
| "call_function env Sys_fork r s = int_result env (sys_fork s)"
| "call_function env Sys_exec r s =
    do {
      path \<leftarrow> arg_path (reg_rdi r) s;
      int_result env (sys_exec (env_drv env) (env_elfmag env) (env_ehdr env) (env_phdr env) path s)
    }"
| "call_function env Sys_exit r s = map_option (Pair None) (sys_exit s)"
| "call_function env Sys_getpid r s = int_result env (map_option (\<lambda>n. (n, s)) (sys_getpid s))"
| "call_function env Sys_pause r s = int_result env (sys_pause s)"
| "call_function env Sys_yield r s = int_result env (sys_yield s)"
| "call_function env Sys_usleep r s =
    map_option (\<lambda>(n, s1). (Some (word_of_int n), s1)) (sys_usleep (sint (reg_rdi r)) s)"
| "call_function env Sys_getdents r s =
    do {
      path \<leftarrow> arg_path (reg_rdi r) s;
      int_result env (sys_getdents path (unat (reg_rsi r)) (ucast (reg_rdx r)) (arg_int (reg_r10 r)) s)
    }"
| "call_function env Sys_open r s =
    do {
      path \<leftarrow> arg_path (reg_rdi r) s;
      int_result env (sys_open (env_drv env) path (ucast (reg_rsi r)) s)
    }"
| "call_function env Sys_close r s = int_result env (sys_close (env_drv env) (arg_int (reg_rdi r)) s)"
| "call_function env Sys_read r s =
    int_result env (sys_read (env_drv env) (arg_int (reg_rdi r)) (unat (reg_rsi r)) (ucast (reg_rdx r)) s)"
| "call_function env Sys_write r s =
    int_result env (sys_write (env_drv env) (arg_int (reg_rdi r)) (unat (reg_rsi r)) (ucast (reg_rdx r)) s)"
| "call_function env Sys_lseek r s =
    int_result env (sys_lseek (arg_int (reg_rdi r)) (ucast (reg_rsi r)) (arg_int (reg_rdx r)) s)"
| "call_function env Sys_mkdir r s =
    do { path \<leftarrow> arg_path (reg_rdi r) s; int_result env (sys_mkdir path s) }"
| "call_function env Sys_rmdir r s =
    do { path \<leftarrow> arg_path (reg_rdi r) s; int_result env (sys_rmdir path s) }"
| "call_function env Sys_unlink r s =
    do { path \<leftarrow> arg_path (reg_rdi r) s; int_result env (sys_unlink path s) }"
| "call_function env Sys_mount r s =
    do {
      fstype \<leftarrow> arg_path (reg_rdi r) s;
      path \<leftarrow> arg_path (reg_rsi r) s;
      int_result env (sys_mount fstype path s)
    }"

section \<open>System calls\<close>

text \<open>The saved registers, in the place an interrupt's would be.\<close>

definition syscall_frame :: "regs \<Rightarrow> regs" where
  "syscall_frame r = r\<lparr>reg_ss := ucast USER_DS, reg_rflags := reg_r11 r, reg_cs := ucast USER_CS,
     reg_rip := reg_rcx r, error_code := 0, vector := 0\<rparr>"

text \<open>\<open>sysretq\<close> takes the return address from \<open>rcx\<close>, the flags from \<open>r11\<close>, and loads the user's
  segments.\<close>

definition sysret_regs :: "regs \<Rightarrow> regs" where
  "sysret_regs f = f\<lparr>reg_rcx := reg_rip f, reg_r11 := reg_rflags f, reg_cs := ucast USER_CS, reg_ss := ucast USER_DS\<rparr>"

definition resched_wanted :: "'z kstate_scheme \<Rightarrow> bool" where
  "resched_wanted s \<longleftrightarrow> bit (global_flags s) (nat FLAG_NEED_RESCHED)"

definition ret_from_fork :: "'z kstate_scheme \<Rightarrow> (regs option \<times> 'z kstate_scheme) option" where
  "ret_from_fork s =
    do {
      let s1 = s\<lparr>cpu := cli (cpu s)\<rparr>;
      s2 \<leftarrow> (if resched_wanted s1 then schedule s1 else Some s1);
      if current s2 = current s1
      then let f = user_regs s2 (current s2)
           in Some (Some (sysret_regs f), s2\<lparr>cpu := restore_flags (reg_rflags f) (cpu s2)\<rparr>)
      else Some (None, s2)
    }"

text \<open>The kernel stack is the page below \<open>swapgs_kernel_rsp\<close>, which makes its task the current one.\<close>

definition system_call ::
  "'z kstate_scheme sys_env \<Rightarrow> regs \<Rightarrow> 'z kstate_scheme \<Rightarrow> (regs option \<times> 'z kstate_scheme) option" where
  "system_call env r s =
    do {
      let c = unat (swapgs_kernel_rsp s - sizeof_task_stack);
      let s1 = s\<lparr>current := c, user_regs := (user_regs s)(c := syscall_frame r), cpu := sti (cpu s)\<rparr>;
      (rax, s2) \<leftarrow> (if of_nat NUM_SYSCALLS \<le> reg_rax r
        then Some (Some (word_of_int (- errno_code ENOSYS)), s1)
        else call_function env (sys_call_table ! unat (reg_rax r)) (syscall_frame r) s1);
      (case rax of
         None \<Rightarrow> Some (None, s2)
       | Some v \<Rightarrow> ret_from_fork (s2\<lparr>user_regs := (user_regs s2)
           (current s2 := (user_regs s2 (current s2))\<lparr>reg_rax := v\<rparr>)\<rparr>))
    }"

section \<open>Interrupts\<close>

text \<open>The comparison reads \<open>72(%rsp)\<close>, where the saved \<open>r10\<close> is.\<close>

definition ret_from_interrupt ::
  "regs \<Rightarrow> 'z kstate_scheme \<Rightarrow> (regs option \<times> 'z kstate_scheme) option" where
  "ret_from_interrupt r s =
    do {
      s1 \<leftarrow> (if resched_wanted s \<and> (reg_r10 r = ucast USER_CS \<or> current s = idle s)
             then schedule s else Some s);
      Some (if current s1 = current s
            then (Some r, s1\<lparr>cpu := restore_flags (reg_rflags r) (cpu s1)\<rparr>) else (None, s1))
    }"

definition vec_common ::
  "(regs \<Rightarrow> 'z kstate_scheme \<Rightarrow> 'z kstate_scheme option) \<Rightarrow> regs \<Rightarrow> 'z kstate_scheme \<Rightarrow>
     (regs option \<times> 'z kstate_scheme) option" where
  "vec_common do_vec r s = do { s1 \<leftarrow> do_vec r s; ret_from_interrupt r s1 }"

text \<open>The dispatcher of theory \<open>Arch\<close> on the whole state: the table of handlers is in the
  processor's part.  \<open>call\<close> runs the handler at an address with its data.\<close>

definition pack :: "'z kstate_scheme \<Rightarrow> 'z kstate_scheme vga_scheme" where
  "pack s = vga.extend (cpu s) s"

definition unpack :: "'z kstate_scheme vga_scheme \<Rightarrow> 'z kstate_scheme" where
  "unpack t = (vga.more t)\<lparr>cpu := vga.truncate t\<rparr>"

definition kernel_irq ::
  "(nat \<Rightarrow> nat \<Rightarrow> 'z kstate_scheme \<Rightarrow> 'z kstate_scheme option) \<Rightarrow> regs \<Rightarrow> 'z kstate_scheme \<Rightarrow>
     'z kstate_scheme option" where
  "kernel_irq call r s = map_option unpack (do_irq (\<lambda>h d t. map_option pack (call h d (unpack t))) r (pack s))"

definition kernel_vector ::
  "(regs \<Rightarrow> 'z kstate_scheme \<Rightarrow> 'z kstate_scheme option) \<Rightarrow>
     (nat \<Rightarrow> nat \<Rightarrow> 'z kstate_scheme \<Rightarrow> 'z kstate_scheme option) \<Rightarrow> regs \<Rightarrow> 'z kstate_scheme \<Rightarrow>
     'z kstate_scheme option" where
  "kernel_vector page_fault call = do_vector page_fault (kernel_irq call)"

text \<open>A new kernel thread pops its argument and returns into its function, with interrupts on.\<close>

definition kernel_thread_start :: "'z kstate_scheme \<Rightarrow> (u64 \<times> u64 \<times> 'z kstate_scheme) option" where
  "kernel_thread_start s =
    do {
      t \<leftarrow> task_of s (current s);
      (case resume_at t of
         Kernel_thread_start fn data \<Rightarrow> Some (fn, data, s\<lparr>cpu := sti (cpu s)\<rparr>)
       | _ \<Rightarrow> None)
    }"

end
