(* ===== verification/EntryProps.thy ===== *)
theory EntryProps
  imports Entry Kbd
begin

text \<open>
  System calls on files, seen by the program that makes them: what the functions of the table leave
  alone (the interpretation \<open>vk\<close> of \<open>keeping\<close>), that the console's functions are such functions,
  except for a read that has to wait, how a call comes back, and the properties that
  follow: data written through one call is read back through another, each call restores the
  registers, and a number outside the table is refused.
\<close>

section \<open>What file system calls leave alone\<close>

definition same_tasks :: "'z kstate_scheme \<Rightarrow> 'z kstate_scheme \<Rightarrow> bool" where
  "same_tasks s t \<longleftrightarrow> lnk t = lnk s \<and> task_of t = task_of s \<and> user_regs t = user_regs s \<and>
     current t = current s \<and> idle t = idle s \<and> global_flags t = global_flags s \<and>
     next_free_pid t = next_free_pid s \<and> tss_rsp0 t = tss_rsp0 s \<and>
     swapgs_kernel_rsp t = swapgs_kernel_rsp s \<and> cr3 t = cr3 s"

interpretation vk: keeping same_tasks
proof
  show "same_tasks s s'" if "fstate.more s' = fstate.more s" for s s' :: "'z kstate_scheme"
    using that by (cases s; cases s') (simp add: same_tasks_def)
qed (auto simp: same_tasks_def)

text \<open>The same but for the descriptors of the current task.\<close>

definition pdt_only :: "'z kstate_scheme \<Rightarrow> 'z kstate_scheme \<Rightarrow> bool" where
  "pdt_only s t \<longleftrightarrow> lnk t = lnk s \<and> user_regs t = user_regs s \<and>
     current t = current s \<and> idle t = idle s \<and> global_flags t = global_flags s \<and>
     next_free_pid t = next_free_pid s \<and> tss_rsp0 t = tss_rsp0 s \<and>
     swapgs_kernel_rsp t = swapgs_kernel_rsp s \<and> cr3 t = cr3 s \<and>
     (\<forall>p. p \<noteq> current s \<longrightarrow> task_of t p = task_of s p) \<and>
     (\<forall>p. map_option (pdt_update (\<lambda>_. [])) (task_of t p) = map_option (pdt_update (\<lambda>_. [])) (task_of s p))"

lemma pdt_only_same: "same_tasks s t \<Longrightarrow> pdt_only s t"
  by (simp add: same_tasks_def pdt_only_def)

lemma pdt_only_refl: "pdt_only s s"
  by (simp add: pdt_only_def)

lemma pdt_only_set:
  assumes "same_tasks s t" "set_task (current t) (\<lambda>x. x\<lparr>pdt := g x\<rparr>) t = Some u"
  shows "pdt_only s u"
  using assms by (auto simp: same_tasks_def pdt_only_def set_task_def)

definition file_functions :: "sys_function list" where
  "file_functions = drop 8 sys_call_table"

lemma sys_open_pdt:
  assumes "drivers_keep same_tasks drv" "sys_open drv path fl s = Some (r, s')"
  shows "pdt_only s s'"
  using assms(2) unfolding sys_open_def Let_def
  by (auto elim!: run_elims intro: pdt_only_refl pdt_only_same dest!: vk.K_vfs_open [OF assms(1)]
      dest: pdt_only_set)

lemma sys_close_pdt:
  assumes "drivers_keep same_tasks drv" "sys_close drv fd s = Some (r, s')"
  shows "pdt_only s s'"
  using assms(2) unfolding sys_close_def
  by (auto elim!: run_elims intro: pdt_only_refl pdt_only_same dest!: vk.K_vfs_close [OF assms(1)]
      dest: pdt_only_set)

text \<open>A descriptor of a file of the device file system.\<close>

definition device_fd :: "int \<Rightarrow> 'z kstate_scheme \<Rightarrow> bool" where
  "device_fd fd s \<longleftrightarrow> (\<exists>f. fd_file fd s = Some (Inr f) \<and> file_fs f s = Some Devfs)"

lemma sys_read_same:
  assumes "device_fd fd s \<Longrightarrow> reads_keep same_tasks drv s" "sys_read drv fd buf sz s = Some (r, s')"
  shows "same_tasks s s'"
proof (cases "\<exists>f. fd_file fd s = Some (Inr f)")
  case True
  then obtain f where f: "fd_file fd s = Some (Inr f)" ..
  have "vfs_read drv f buf sz s = Some (r, s')" using assms(2) f by (simp add: sys_read_def)
  then show ?thesis by (rule vk.K_vfs_read [rotated]) (use assms(1) f in \<open>auto simp: device_fd_def\<close>)
qed (use assms(2) in \<open>auto simp: sys_read_def intro: vk.K_refl elim!: run_elims\<close>)

lemma fd_calls_same:
  assumes "drivers_keep same_tasks drv"
  shows "sys_write drv fd buf sz s = Some (r, s') \<Longrightarrow> same_tasks s s'"
    and "sys_lseek fd off w s = Some (r, s') \<Longrightarrow> same_tasks s s'"
  by (auto simp: sys_write_def sys_lseek_def intro: vk.K_refl elim!: run_elims
      dest!: vk.K_vfs_write [OF assms] vk.K_vfs_lseek)

lemma path_calls_same:
  "sys_getdents path buf sz st s = Some (r, s') \<Longrightarrow> same_tasks s s'"
  "sys_mkdir path s = Some (r, s') \<Longrightarrow> same_tasks s s'"
  "sys_rmdir path s = Some (r, s') \<Longrightarrow> same_tasks s s'"
  "sys_unlink path s = Some (r, s') \<Longrightarrow> same_tasks s s'"
  "sys_mount ty path s = Some (r, s') \<Longrightarrow> same_tasks s s'"
  by (auto simp: sys_getdents_def sys_mkdir_def sys_rmdir_def sys_unlink_def sys_mount_def intro: vk.K_more
      dest!: vfs_paths_fs vfs_mount_fs)

lemma file_function_pdt:
  assumes d: "drivers_keep same_tasks (env_drv env)" and f: "fn \<in> set file_functions"
    and rd: "fn = Sys_read \<Longrightarrow> device_fd (arg_int (reg_rdi r)) s \<Longrightarrow> reads_keep same_tasks (env_drv env) s"
    and c: "call_function env fn r s = Some (res, s')"
  shows "pdt_only s s' \<and> (\<exists>v. res = Some v)"
proof (cases "fn = Sys_read")
  case True
  then show ?thesis
    using c rd [OF True] by (auto simp: int_result_def elim!: run_elims intro: pdt_only_same dest!: sys_read_same [rotated])
next
  case False
  then show ?thesis
    using f c
    by (auto simp: file_functions_def sys_call_table_def int_result_def elim!: run_elims intro: pdt_only_same
        dest!: sys_open_pdt [OF d] sys_close_pdt [OF d] fd_calls_same [OF d] path_calls_same)
qed

section \<open>The console\<close>

text \<open>A table of drivers that holds the console's functions only, the one device of the source.\<close>

definition only_console ::
  "(nat \<Rightarrow> 'z kbd_scheme \<Rightarrow> 'z kbd_scheme option) \<Rightarrow> nat \<Rightarrow> 'z kbd_scheme drivers \<Rightarrow> bool" where
  "only_console rsm q drv \<longleftrightarrow> (\<forall>a ops. drv a = Some ops \<longrightarrow> ops = console_ops rsm q)"

lemma console_write_same:
  "for_range i n (\<lambda>i s. Some (s\<lparr>cpu := console_putc (mem s (buf + i)) (cpu s)\<rparr>)) s = Some s' \<Longrightarrow> same_tasks s s'"
proof (induction n arbitrary: i s)
  case (Suc n)
  let ?t = "s\<lparr>cpu := console_putc (mem s (buf + i)) (cpu s)\<rparr>"
  have "same_tasks ?t s'" by (rule Suc.IH) (use Suc.prems in simp)
  then show ?case by (simp add: same_tasks_def)
qed (simp add: same_tasks_def)

text \<open>Opening, closing and writing only print.  Reading takes characters out of the buffer if there
  are any; otherwise it goes to sleep, and nothing of this kind holds.\<close>

lemma console_drivers_keep:
  assumes "only_console rsm q drv"
  shows "drivers_keep same_tasks drv"
proof -
  have "same_tasks s s'" if "console_write f off buf sz s = Some (r, s')" for f off buf sz r and s s' :: "'z kbd_scheme"
    using that by (auto simp: console_write_def elim!: run_elims dest: console_write_same)
  moreover have "same_tasks s s'" if "console_open f fl s = Some (r, s')" for f fl r and s s' :: "'z kbd_scheme"
    using that by (auto simp: console_open_def kprintk_def same_tasks_def elim!: run_elims)
  moreover have "same_tasks s s'" if "console_close f s = Some (r, s')" for f r and s s' :: "'z kbd_scheme"
    using that by (auto simp: console_close_def kprintk_def same_tasks_def elim!: run_elims)
  ultimately show ?thesis using assms unfolding drivers_keep_def only_console_def by (fastforce simp: console_ops_def)
qed

lemma console_reads_keep:
  assumes "only_console rsm q drv" "klen s \<noteq> 0"
  shows "reads_keep same_tasks drv s"
proof -
  have "same_tasks s s'" if "console_read rsm q f off buf sz s = Some (r, s')" for f off buf sz r s'
    using that assms(2)
    by (auto simp: console_read_def console_wait.simps [of _ _ s] irq_save_def irq_restore_def console_take_def
        same_tasks_def Let_def split: if_splits prod.splits)
  then show ?thesis using assms(1) unfolding reads_keep_def only_console_def by (fastforce simp: console_ops_def)
qed

section \<open>Returning to the caller\<close>

text \<open>The user's stack pointer of the entry belongs to the current task.\<close>

definition stack_ok :: "'z kstate_scheme \<Rightarrow> bool" where
  "stack_ok s \<longleftrightarrow> swapgs_kernel_rsp s = of_nat (current s) + sizeof_task_stack \<and> current s < 2 ^ 64"

lemma stack_ok_current: "stack_ok s \<Longrightarrow> unat (swapgs_kernel_rsp s - sizeof_task_stack) = current s"
  by (simp add: stack_ok_def unat_of_nat)

text \<open>The user goes on behind its instruction with a result in \<open>rax\<close> and every other register as
  it was.\<close>

definition user_resumes :: "regs \<Rightarrow> u64 \<Rightarrow> regs \<Rightarrow> bool" where
  "user_resumes r v q \<longleftrightarrow> reg_rax q = v \<and> reg_rip q = reg_rcx r \<and> reg_rcx q = reg_rcx r \<and>
     reg_rflags q = reg_r11 r \<and> reg_r11 q = reg_r11 r \<and> reg_rsp q = reg_rsp r \<and>
     reg_rdx q = reg_rdx r \<and> reg_rbx q = reg_rbx r \<and> reg_rbp q = reg_rbp r \<and> reg_rsi q = reg_rsi r \<and>
     reg_rdi q = reg_rdi r \<and> reg_r8 q = reg_r8 r \<and> reg_r9 q = reg_r9 r \<and> reg_r10 q = reg_r10 r \<and>
     reg_r12 q = reg_r12 r \<and> reg_r13 q = reg_r13 r \<and> reg_r14 q = reg_r14 r \<and> reg_r15 q = reg_r15 r \<and>
     reg_cs q = ucast USER_CS \<and> reg_ss q = ucast USER_DS"

definition entered :: "regs \<Rightarrow> 'z kstate_scheme \<Rightarrow> 'z kstate_scheme" where
  "entered r s = s\<lparr>user_regs := (user_regs s)(current s := syscall_frame r), cpu := sti (cpu s)\<rparr>"

definition left :: "regs \<Rightarrow> u64 \<Rightarrow> 'z kstate_scheme \<Rightarrow> 'z kstate_scheme" where
  "left r v s = s\<lparr>user_regs := (user_regs s)(current s := (syscall_frame r)\<lparr>reg_rax := v\<rparr>),
     cpu := restore_flags (reg_r11 r) (cli (cpu s))\<rparr>"

definition resumed :: "regs \<Rightarrow> u64 \<Rightarrow> regs" where
  "resumed r v = sysret_regs ((syscall_frame r)\<lparr>reg_rax := v\<rparr>)"

lemma user_resumes_resumed: "user_resumes r v (resumed r v)"
  by (simp add: user_resumes_def resumed_def sysret_regs_def syscall_frame_def)

lemma current_entered:
  assumes "stack_ok s"
  shows "s\<lparr>current := unat (swapgs_kernel_rsp s - sizeof_task_stack),
      user_regs := (user_regs s)(unat (swapgs_kernel_rsp s - sizeof_task_stack) := syscall_frame r),
      cpu := sti (cpu s)\<rparr> = entered r s"
  unfolding stack_ok_current [OF assms] by (simp add: entered_def)

lemma ret_from_fork_at_once:
  assumes "\<not> resched_wanted s" "user_regs s (current s) = f"
  shows "ret_from_fork s = Some (Some (sysret_regs f), s\<lparr>cpu := restore_flags (reg_rflags f) (cli (cpu s))\<rparr>)"
  using assms by (simp add: ret_from_fork_def resched_wanted_def Let_def)

lemma system_call_done:
  assumes ok: "stack_ok s" and nr: "reg_rax r < of_nat NUM_SYSCALLS"
    and c: "call_function env (sys_call_table ! unat (reg_rax r)) (syscall_frame r) (entered r s) = Some (Some v, s2)"
    and k: "current s2 = current s" "user_regs s2 = user_regs (entered r s)" "\<not> resched_wanted s2"
  shows "system_call env r s = Some (Some (resumed r v), left r v s2)"
proof -
  let ?f = "(syscall_frame r)\<lparr>reg_rax := v\<rparr>"
  let ?t = "s2\<lparr>user_regs := (user_regs s2)(current s := ?f)\<rparr>"
  have u: "user_regs s2 (current s) = syscall_frame r" using k(2) by (simp add: entered_def)
  have n: "\<not> of_nat NUM_SYSCALLS \<le> reg_rax r" using nr by simp
  have "system_call env r s = ret_from_fork ?t"
    unfolding system_call_def Let_def current_entered [OF ok] if_not_P [OF n] c by (simp add: k(1) u)
  also have "\<dots> = Some (Some (sysret_regs ?f), ?t\<lparr>cpu := restore_flags (reg_rflags ?f) (cli (cpu ?t))\<rparr>)"
    by (rule ret_from_fork_at_once) (use k in \<open>simp_all add: resched_wanted_def\<close>)
  also have "reg_rflags ?f = reg_r11 r" by (simp add: syscall_frame_def)
  finally show ?thesis by (simp add: resumed_def left_def k(1) fun_upd_def)
qed

lemma file_nr: "reg_rax r = of_nat n \<Longrightarrow> 8 \<le> n \<Longrightarrow> n < NUM_SYSCALLS \<Longrightarrow>
    reg_rax r < of_nat NUM_SYSCALLS \<and> unat (reg_rax r) = n \<and> sys_call_table ! n \<in> set file_functions"
proof -
  assume a: "reg_rax r = of_nat n" "8 \<le> n" "n < NUM_SYSCALLS"
  have l: "NUM_SYSCALLS = 18" by (simp add: NUM_SYSCALLS_def sys_call_table_def)
  have u: "unat (reg_rax r) = n" using a l by (simp add: unat_of_nat)
  have "file_functions ! (n - 8) = sys_call_table ! n" "n - 8 < length file_functions"
    using a l by (simp_all add: file_functions_def NUM_SYSCALLS_def)
  then have "sys_call_table ! n \<in> set file_functions" by (metis nth_mem)
  moreover have "unat (of_nat NUM_SYSCALLS :: u64) = 18" unfolding l by simp
  then have "reg_rax r < of_nat NUM_SYSCALLS" unfolding word_less_nat_alt u using a(3) l by linarith
  ultimately show ?thesis using u by blast
qed

lemma part_entered: "fstate.truncate (entered r s) = fstate.truncate s"
  by (simp add: entered_def fstate.defs)

lemma fd_entered [simp]: "fd_file fd (entered r s) = fd_file fd s"
  by (simp add: fd_file_def entered_def)

lemma device_fd_part:
  fixes s s' :: "'z kstate_scheme"
  assumes "fstate.truncate s' = fstate.truncate s" "fd_file fd s' = fd_file fd s"
  shows "device_fd fd s' = device_fd fd s"
proof -
  have "get_sb m s' = get_sb m s" for m
    using assms(1) by (simp add: get_sb_def fstate.defs split: sb_ref.splits)
  then show ?thesis using assms by (simp add: device_fd_def file_fs_def fstate.defs)
qed

lemma file_syscall_spec:
  assumes ok: "stack_ok s" "\<not> resched_wanted s" and d: "drivers_keep same_tasks (env_drv env)"
    and nr: "reg_rax r = of_nat n" "8 \<le> n" "n < NUM_SYSCALLS"
    and rd: "n = 11 \<Longrightarrow> device_fd (arg_int (reg_rdi r)) s \<Longrightarrow> reads_keep same_tasks (env_drv env) (entered r s)"
    and c: "call_function env (sys_call_table ! n) (syscall_frame r) (entered r s) = Some (res, s2)"
  obtains v where "res = Some v" "system_call env r s = Some (Some (resumed r v), left r v s2)"
    "pdt_only (entered r s) s2"
proof -
  note f = file_nr [OF nr]
  have "n = 11" if "sys_call_table ! n = Sys_read"
  proof -
    have "n < length sys_call_table" "11 < length sys_call_table" "distinct sys_call_table"
      "sys_call_table ! n = sys_call_table ! 11"
      using that nr(3) by (simp_all add: NUM_SYSCALLS_def sys_call_table_def)
    then show ?thesis using nth_eq_iff_index_eq by blast
  qed
  moreover have "device_fd fd (entered r s) = device_fd fd s" for fd
    by (rule device_fd_part [OF part_entered fd_entered])
  ultimately have "sys_call_table ! n = Sys_read \<Longrightarrow> device_fd (arg_int (reg_rdi (syscall_frame r))) (entered r s) \<Longrightarrow>
      reads_keep same_tasks (env_drv env) (entered r s)" using rd by (simp add: syscall_frame_def)
  from file_function_pdt [OF d _ this c] f obtain v where p: "pdt_only (entered r s) s2" and v: "res = Some v" by blast
  have "system_call env r s = Some (Some (resumed r v), left r v s2)"
  proof (rule system_call_done [OF ok(1)])
    show "reg_rax r < of_nat NUM_SYSCALLS" using f by blast
    show "call_function env (sys_call_table ! unat (reg_rax r)) (syscall_frame r) (entered r s) = Some (Some v, s2)"
      using c f v by simp
    show "current s2 = current s" "user_regs s2 = user_regs (entered r s)" "\<not> resched_wanted s2"
      using p ok(2) by (simp_all add: pdt_only_def entered_def resched_wanted_def)
  qed
  then show ?thesis using that v p by blast
qed

section \<open>Reading back through system calls\<close>

lemma fs_part:
  fixes s s' :: "'z fstate_scheme"
  assumes "fstate.truncate s' = fstate.truncate s"
  shows "fs_inv s' = fs_inv s" "grow_ready k s' = grow_ready k s" "open_at s' f fl N = open_at s f fl N"
    "afile_of s' f = afile_of s f" "user_bytes s' buf sz = user_bytes s buf sz" "mem s' = mem s"
    "files s' = files s" "dents s' = dents s"
proof -
  have eq: "mem s' = mem s" "dents s' = dents s" "sbs s' = sbs s" "files s' = files s" "privs s' = privs s"
    "names s' = names s" "rootfs s' = rootfs s"
    using assms by (simp_all add: fstate.defs)
  have "heap.truncate s' = heap.truncate s" using assms by (simp add: fstate.defs heap.defs)
  note h = heap_part [OF this]
  have d: "data_blocks s' = data_blocks s" by (simp add: data_blocks_def eq)
  have g: "get_sb m s' = get_sb m s" for m by (simp add: get_sb_def eq split: sb_ref.splits)
  show "fs_inv s' = fs_inv s"
    by (simp add: fs_inv_def objects_def one_kind_def dent_ok_def priv_ok_def sb_ok_def d g eq h(1,2))
  show "grow_ready k s' = grow_ready k s" by (rule h)
  show "open_at s' f fl N = open_at s f fl N" by (simp add: open_at_def file_at_def eq)
  show "afile_of s' f = afile_of s f" by (simp add: afile_of_def file_bytes_def eq)
  show "user_bytes s' buf sz = user_bytes s buf sz" by (simp add: user_bytes_def eq)
  show "mem s' = mem s" "files s' = files s" "dents s' = dents s" by (rule eq)+
qed

lemma part_left: "fstate.truncate (left r v s) = fstate.truncate s"
  by (simp add: left_def fstate.defs)

text \<open>What a call of a function on the tasks' state needs again for the next one.\<close>

definition user_ready :: "'z kstate_scheme \<Rightarrow> bool" where
  "user_ready s \<longleftrightarrow> stack_ok s \<and> \<not> resched_wanted s"

lemma ready_left:
  "same_tasks (entered r s) s2 \<Longrightarrow> user_ready s \<Longrightarrow> user_ready (left r v s2)"
  "same_tasks (entered r s) s2 \<Longrightarrow> fd_file fd (left r' v s2) = fd_file fd s"
  "same_tasks (entered r s) s2 \<Longrightarrow> current (left r' v s2) = current s"
  by (auto simp: same_tasks_def user_ready_def stack_ok_def resched_wanted_def left_def entered_def fd_file_def)

text \<open>A call with an \<open>int\<close> result of a function that leaves the tasks alone.\<close>

lemma int_call_done:
  assumes "user_ready s" "reg_rax r = of_nat n" "n < NUM_SYSCALLS"
    and "call_function env (sys_call_table ! n) (syscall_frame r) (entered r s) = Some (Some v, s2)"
    and "same_tasks (entered r s) s2"
  shows "system_call env r s = Some (Some (resumed r v), left r v s2)"
proof (rule system_call_done)
  have l: "NUM_SYSCALLS = 18" by (simp add: NUM_SYSCALLS_def sys_call_table_def)
  have u: "unat (reg_rax r) = n" using assms(2,3) l by (simp add: unat_of_nat)
  have "unat (of_nat NUM_SYSCALLS :: u64) = 18" unfolding l by simp
  then show "reg_rax r < of_nat NUM_SYSCALLS" unfolding word_less_nat_alt u using assms(3) l by linarith
  show "call_function env (sys_call_table ! unat (reg_rax r)) (syscall_frame r) (entered r s) = Some (Some v, s2)"
    using assms(4) u by simp
qed (use assms(1,5) in \<open>auto simp: user_ready_def same_tasks_def resched_wanted_def entered_def\<close>)

definition fd_args :: "nat \<Rightarrow> int \<Rightarrow> regs \<Rightarrow> bool" where
  "fd_args n fd r \<longleftrightarrow> reg_rax r = of_nat n \<and> arg_int (reg_rdi r) = fd"

lemma frame_args [simp]:
  "reg_rdi (syscall_frame r) = reg_rdi r" "reg_rsi (syscall_frame r) = reg_rsi r"
  "reg_rdx (syscall_frame r) = reg_rdx r"
  by (simp_all add: syscall_frame_def)

lemma NUM_SYSCALLS_eq: "NUM_SYSCALLS = 18"
  by (simp add: NUM_SYSCALLS_def sys_call_table_def)

lemma open_at_ramfs: "fs_inv s \<Longrightarrow> open_at s f fl N \<Longrightarrow> file_fs f s = Some Ramfs"
  unfolding open_at_def using file_fs_ramfs by blast

lemma write_call:
  assumes rdy: "user_ready s"
    and r: "fd_args 12 fd r" "unat (reg_rsi r) = buf" "ucast (reg_rdx r) = (sz :: u32)"
    and fd: "fd_file fd s = Some (Inr f)"
    and inv: "fs_inv s" and op: "open_at s f fl N" and md: "f_openmode fl AND O_WRONLY \<noteq> 0"
    and N: "unat (f_offset fl) + unat sz \<le> N" "N < 2 ^ 30" and k: "2 * N + 8192 \<le> 4096 * k"
    and g: "grow_ready (k + j) s" and buf: "buf + unat sz \<le> heap_start"
  obtains s' M where "system_call env r s = Some (Some (resumed r (int_rax env (int (unat sz)))), s')"
    "user_ready s'" "fd_file fd s' = Some (Inr f)" "fs_inv s'" "grow_ready j s'"
    "afile_of s' f = afile_write (user_bytes s buf sz) (afile_of s f)"
    "open_at s' f (fl\<lparr>f_offset := f_offset fl + sz\<rparr>) M" "\<forall>b < heap_start. mem s' b = mem s b"
proof -
  note e = fs_part [OF part_entered [of r s]]
  obtain s2 M where w: "vfs_write (env_drv env) f buf sz (entered r s) = Some (int (unat sz), s2)"
    "fs_inv s2" "grow_ready j s2" "afile_of s2 f = afile_write (user_bytes s buf sz) (afile_of s f)"
    "open_at s2 f (fl\<lparr>f_offset := f_offset fl + sz\<rparr>) M" "\<forall>b < heap_start. mem s2 b = mem s b"
    using vfs_write_spec [of "entered r s" f fl N sz k j buf "env_drv env"] inv op md N k g buf
    unfolding e by auto
  have "file_fs f (entered r s) = Some Ramfs"
    using open_at_ramfs [of "entered r s" f fl N] inv op unfolding e by blast
  then have st: "same_tasks (entered r s) s2" by (intro vk.K_vfs_write [OF _ w(1)]) simp
  let ?v = "int_rax env (int (unat sz))"
  have "call_function env (sys_call_table ! 12) (syscall_frame r) (entered r s) = Some (Some ?v, s2)"
    using r fd w(1) by (simp add: sys_call_table_def fd_args_def sys_write_def int_result_def)
  then have run: "system_call env r s = Some (Some (resumed r ?v), left r ?v s2)"
    by (rule int_call_done [OF rdy _ _ _ st, rotated -1]) (use r in \<open>simp_all add: fd_args_def NUM_SYSCALLS_eq\<close>)
  note l = fs_part [OF part_left [of r ?v s2]]
  show ?thesis
    by (rule that [OF run, of M]) (use w(2-6) fd ready_left [OF st] rdy in \<open>simp_all only: l\<close>)
qed

lemma seek_call:
  assumes rdy: "user_ready s"
    and r: "fd_args 13 fd r" "ucast (reg_rsi r) = t" "arg_int (reg_rdx r) = SEEK_SET"
    and fd: "fd_file fd s = Some (Inr f)"
    and inv: "fs_inv s" and op: "open_at s f fl M" and t: "t \<le> f_offset fl"
  obtains s' where "system_call env r s = Some (Some (resumed r (int_rax env (sint t))), s')"
    "user_ready s'" "fd_file fd s' = Some (Inr f)" "fs_inv s'" "open_at s' f (fl\<lparr>f_offset := t\<rparr>) M"
    "afile_of s' f = (fst (afile_of s f), unat t)" "mem s' = mem s"
proof -
  note e = fs_part [OF part_entered [of r s]]
  let ?e = "entered r s" and ?v = "int_rax env (sint t)"
  obtain x p n q where o: "files s f = Some fl" "file_at s (f_dentry fl) x p n q" "f_offset fl \<le> d_size x" "unat n \<le> M"
    using op by (auto simp: open_at_def)
  have x: "dents s (f_dentry fl) = Some x" using o(2) by (simp add: file_at_def)
  define s2 where "s2 = ?e\<lparr>files := (files ?e)(f \<mapsto> fl\<lparr>f_offset := t\<rparr>)\<rparr>"
  have nl: "\<not> d_size x < t" using order_trans [OF t o(3)] by simp
  have w: "vfs_lseek f t SEEK_SET ?e = Some (sint t, s2)"
    using o(1) nl x e(7,8) by (simp add: vfs_lseek_def s2_def set_file_def SEEK_SET_def SEEK_CUR_def SEEK_END_def)
  have st: "same_tasks ?e s2" by (rule vk.K_vfs_lseek [OF w])
  have "call_function env (sys_call_table ! 13) (syscall_frame r) ?e = Some (Some ?v, s2)"
    using r fd w by (simp add: sys_call_table_def fd_args_def sys_lseek_def int_result_def)
  then have run: "system_call env r s = Some (Some (resumed r ?v), left r ?v s2)"
    by (rule int_call_done [OF rdy _ _ _ st, rotated -1]) (use r in \<open>simp_all add: fd_args_def NUM_SYSCALLS_eq\<close>)
  note l = fs_part [OF part_left [of r ?v s2]]
  have i: "fs_inv s2" unfolding s2_def by (rule fs_inv_files) (use inv o(1) e in simp_all)
  have a: "open_at s2 f (fl\<lparr>f_offset := t\<rparr>) M" "afile_of s2 f = (fst (afile_of s f), unat t)" "mem s2 = mem s"
    using o t e(6-8) by (auto simp: s2_def open_at_def file_at_def afile_of_def file_bytes_def entered_def)
  show ?thesis
    by (rule that [OF run]) (use a i fd ready_left [OF st] rdy in \<open>simp_all only: l\<close>)
qed

lemma read_call:
  assumes rdy: "user_ready s"
    and r: "fd_args 11 fd r" "unat (reg_rsi r) = buf" "ucast (reg_rdx r) = (sz :: u32)"
    and fd: "fd_file fd s = Some (Inr f)"
    and inv: "fs_inv s" and op: "open_at s f fl N" and md: "f_openmode fl AND O_RDONLY \<noteq> 0"
    and N: "unat (f_offset fl) + unat sz < 2 ^ 31" and buf: "buf + unat sz \<le> heap_start"
  obtains s' where "system_call env r s =
      Some (Some (resumed r (int_rax env (int (length (fst (afile_read (unat sz) (afile_of s f))))))), s')"
    "user_ready s'" "fd_file fd s' = Some (Inr f)" "fs_inv s'"
    "afile_of s' f = snd (afile_read (unat sz) (afile_of s f))"
    "\<forall>i < length (fst (afile_read (unat sz) (afile_of s f))).
       mem s' (buf + i) = fst (afile_read (unat sz) (afile_of s f)) ! i"
    "\<forall>b. b < buf \<or> buf + unat sz \<le> b \<longrightarrow> mem s' b = mem s b"
proof -
  note e = fs_part [OF part_entered [of r s]]
  let ?e = "entered r s" and ?bs = "fst (afile_read (unat sz) (afile_of s f))"
  obtain s2 where w: "vfs_read (env_drv env) f buf sz ?e = Some (int (length ?bs), s2)"
    "fs_inv s2" "afile_of s2 f = snd (afile_read (unat sz) (afile_of s f))"
    "\<forall>i < length ?bs. mem s2 (buf + i) = ?bs ! i" "\<forall>b. b < buf \<or> buf + unat sz \<le> b \<longrightarrow> mem s2 b = mem s b"
    using vfs_read_spec [of ?e f fl N sz buf "env_drv env"] inv op md N buf unfolding e by auto
  have "file_fs f ?e = Some Ramfs" using open_at_ramfs [of ?e f fl N] inv op unfolding e by blast
  then have st: "same_tasks ?e s2" by (intro vk.K_vfs_read [OF _ w(1)]) simp
  let ?v = "int_rax env (int (length ?bs))"
  have "call_function env (sys_call_table ! 11) (syscall_frame r) ?e = Some (Some ?v, s2)"
    using r fd w(1) by (simp add: sys_call_table_def fd_args_def sys_read_def int_result_def)
  then have run: "system_call env r s = Some (Some (resumed r ?v), left r ?v s2)"
    by (rule int_call_done [OF rdy _ _ _ st, rotated -1]) (use r in \<open>simp_all add: fd_args_def NUM_SYSCALLS_eq\<close>)
  note l = fs_part [OF part_left [of r ?v s2]]
  show ?thesis
    by (rule that [OF run]) (use w(2-5) fd ready_left [OF st] rdy in \<open>simp_all only: l\<close>)
qed

lemma arg_int_rax: "- (2 ^ 31) \<le> n \<Longrightarrow> n < 2 ^ 31 \<Longrightarrow> arg_int (int_rax env n) = n"
proof -
  assume n: "- (2 ^ 31) \<le> n" "n < 2 ^ 31"
  have "(ucast (int_rax env n) :: u32) = word_of_int n"
    unfolding int_rax_def by (rule bit_word_eqI) (auto simp: bit_simps)
  then show ?thesis using n by (simp add: arg_int_def int_word_sint)
qed

lemma resumed_rax [simp]: "reg_rax (resumed r v) = v"
  by (simp add: resumed_def sysret_regs_def)

text \<open>C3: What one system call writes to a file of a ramfs through a descriptor, another reads back: after
  \<open>write(fd, buf, size)\<close> and \<open>lseek(fd, old_position, SEEK_SET)\<close> the call
  \<open>read(fd, buf2, size)\<close> puts the bytes of the first buffer into the second.  Each call returns
  to the caller with the count in \<open>rax\<close> and the other registers as they were.\<close>

theorem file_roundtrip:
  assumes "user_ready s" "fd_file fd s = Some (Inr f)"
    and "fs_inv s" "open_at s f fl N" "f_openmode fl = O_RDWR"
    and "unat (f_offset fl) + unat sz \<le> N" "N < 2 ^ 30" "2 * N + 8192 \<le> 4096 * k" "grow_ready k s"
    and "buf + unat sz \<le> heap_start" "buf2 + unat sz \<le> heap_start"
    and "fd_args 12 fd r1" "unat (reg_rsi r1) = buf" "ucast (reg_rdx r1) = (sz :: u32)"
    and "fd_args 13 fd r2" "ucast (reg_rsi r2) = f_offset fl" "arg_int (reg_rdx r2) = SEEK_SET"
    and "fd_args 11 fd r3" "unat (reg_rsi r3) = buf2" "ucast (reg_rdx r3) = sz"
  shows "\<exists>q1 q2 q3 s1 s2 s3. system_call env r1 s = Some (Some q1, s1) \<and>
    system_call env r2 s1 = Some (Some q2, s2) \<and> system_call env r3 s2 = Some (Some q3, s3) \<and>
    arg_int (reg_rax q1) = int (unat sz) \<and> arg_int (reg_rax q3) = int (unat sz) \<and>
    user_resumes r1 (reg_rax q1) q1 \<and> user_resumes r2 (reg_rax q2) q2 \<and> user_resumes r3 (reg_rax q3) q3 \<and>
    fs_inv s3 \<and> (\<forall>i < unat sz. mem s3 (buf2 + i) = mem s (buf + i))"
proof -
  have w: "f_openmode fl AND O_WRONLY \<noteq> 0" "f_openmode fl AND O_RDONLY \<noteq> 0"
    using assms(5) by (simp_all add: const_defs)
  have g: "grow_ready (k + 0) s" using assms(9) by simp
  have n: "unat (f_offset fl + sz) = unat (f_offset fl) + unat sz" "unat (f_offset fl) + unat sz < 2 ^ 31"
    using assms(6,7) by (simp_all add: unat_word_ariths)
  have "unat sz < 2147483648" using assms(6,7) by simp
  then have n3: "int (unat sz) < 2 ^ 31" using of_nat_less_iff [of "unat sz" 2147483648, where ?'a = int] by simp
  have le: "f_offset fl \<le> f_offset fl + sz" using n(1) by (simp add: word_le_nat_alt)
  then have le': "f_offset fl \<le> f_offset (fl\<lparr>f_offset := f_offset fl + sz\<rparr>)" by simp
  have fl: "fl\<lparr>f_offset := f_offset fl + sz, f_offset := f_offset fl\<rparr> = fl" by simp
  obtain s1 M where 1: "system_call env r1 s = Some (Some (resumed r1 (int_rax env (int (unat sz)))), s1)"
    "user_ready s1" "fd_file fd s1 = Some (Inr f)" "fs_inv s1"
    "afile_of s1 f = afile_write (user_bytes s buf sz) (afile_of s f)"
    "open_at s1 f (fl\<lparr>f_offset := f_offset fl + sz\<rparr>) M"
    by (rule write_call [OF assms(1,12-14,2-4) w(1) assms(6-8) g assms(10)])
  obtain s2 where 2: "system_call env r2 s1 = Some (Some (resumed r2 (int_rax env (sint (f_offset fl)))), s2)"
    "user_ready s2" "fd_file fd s2 = Some (Inr f)" "fs_inv s2" "open_at s2 f fl M"
    "afile_of s2 f = (fst (afile_of s1 f), unat (f_offset fl))"
    by (rule seek_call [OF 1(2) assms(15-17) 1(3,4,6) le', unfolded fl])
  obtain bs where bs: "afile_of s f = (bs, unat (f_offset fl))" "unat (f_offset fl) \<le> length bs"
    using assms(4) file_bytes_at by (fastforce simp: open_at_def afile_of_def word_le_nat_alt)
  have l: "length (user_bytes s buf sz) = unat sz" by (simp add: user_bytes_def)
  have r: "fst (afile_read (unat sz) (afile_of s2 f)) = user_bytes s buf sz"
    using bs l by (simp add: 2(6) 1(5) afile_read_def afile_write_def Let_def)
  obtain s3 where 3: "system_call env r3 s2 = Some (Some (resumed r3 (int_rax env (int (unat sz)))), s3)"
    "fs_inv s3" "\<forall>i < unat sz. mem s3 (buf2 + i) = user_bytes s buf sz ! i"
    by (rule read_call [OF 2(2) assms(18-20) 2(3-5) w(2) n(2) assms(11), unfolded r l])
  have m: "\<forall>i < unat sz. mem s3 (buf2 + i) = mem s (buf + i)" using 3(3) by (simp add: user_bytes_def)
  have a: "arg_int (int_rax env (int (unat sz))) = int (unat sz)" by (rule arg_int_rax [OF _ n3]) (rule order_trans [of _ 0]; simp)
  show ?thesis
    by (intro exI conjI, rule 1(1), rule 2(1), rule 3(1))
      (use a in \<open>simp_all add: user_resumes_resumed 3(2) m\<close>)
qed

definition demo_env :: "kstate sys_env" where
  "demo_env = \<lparr>env_drv = Map.empty, env_va = (\<lambda>_ _ _. []), env_elfmag = 0, env_ehdr = 0, env_phdr = 0, env_hi = 0\<rparr>"

text \<open>A call with its number and three arguments.\<close>

definition call_regs :: "u64 \<Rightarrow> u64 \<Rightarrow> u64 \<Rightarrow> u64 \<Rightarrow> regs" where
  "call_regs nr a b c = regs_zero\<lparr>reg_rax := nr, reg_rdi := a, reg_rsi := b, reg_rdx := c\<rparr>"

lemma call_regs_simps [simp]:
  "reg_rax (call_regs nr a b c) = nr" "reg_rdi (call_regs nr a b c) = a"
  "reg_rsi (call_regs nr a b c) = b" "reg_rdx (call_regs nr a b c) = c"
  by (simp_all add: call_regs_def)

lemma fd_demo:
  obtains s :: kstate and f fl where "fs_inv s" "grow_ready 3 s" "open_at s f fl 4" "f_openmode fl = O_RDWR"
    "f_offset fl = 0" "fd_file 0 s = Some (Inr f)" "user_ready s"
proof -
  obtain s :: kstate where s: "fs_inv s" "grow_ready (length (path_comps ''/a'') + (3 + 3)) s"
    "denotes OPEN_FLAGS ''/a'' s = Inr (root_of s)" "fs_of s (root_of s) = Some Ramfs"
    "child s (root_of s) (last (path_comps ''/a'')) = None" "files s = Map.empty"
    "fstate.more s = kstate_ext demo_links demo_tasks (\<lambda>_. regs_zero) Map.empty Map.empty 8192 4096 0 2 0 12288 0 vga_demo ()"
    by (rule open_demo)
  have f: "(O_CREAT OR O_RDWR) AND O_CREAT \<noteq> 0" "(O_CREAT OR O_RDWR) AND O_TRUNC = 0"
    by (simp_all add: const_defs)
  have p: "path_comps ''/a'' \<noteq> []" "length (last (path_comps ''/a'')) < PATH_MAX"
    by (simp_all add: demo_path2 PATH_MAX_def)
  obtain f s' where o: "opened (last (path_comps ''/a'')) (O_CREAT OR O_RDWR) s (root_of s) f s' 3"
    using vfs_open_new [OF s(1,2) demo_path2(1) p s(3,4,5) f, of Map.empty] by blast
  have m: "(O_CREAT OR O_RDWR) AND O_RDWR = O_RDWR" by (simp add: const_defs)
  obtain e where e: "files s' f = Some \<lparr>f_dentry = e, f_openmode = O_RDWR, f_offset = 0, f_refcnt = 1\<rparr>"
    using o m unfolding opened_def by auto
  let ?fl = "\<lparr>f_dentry = e, f_openmode = O_RDWR, f_offset = 0, f_refcnt = 1\<rparr>"
  define t where "t = s'\<lparr>task_of := [8192 \<mapsto> (demo_task TASK_RUNNING)\<lparr>pdt := f # replicate 9 0\<rparr>]\<rparr>"
  have mr: "fstate.more s' = fstate.more s" "fs_inv s'" "grow_ready 3 s'" "open_at s' f ?fl 4"
    using o e open_at_mono [of s' f _ 0 4] by (auto simp: opened_def)
  have "f \<in> fst ` live s'" using fs_invD(2) [OF mr(2)] e by (auto simp: objects_def)
  then have f0: "f \<noteq> 0" using live_ge by fastforce
  have c: "current s' = 8192" "global_flags s' = 0" "swapgs_kernel_rsp s' = 12288"
    using mr(1) s(7) by (cases s'; cases s; simp)+
  have "fstate.truncate t = fstate.truncate s'" by (simp add: t_def fstate.defs)
  note part = fs_part [OF this]
  show ?thesis
    by (rule that [of t f ?fl])
      (use mr f0 c in \<open>simp_all add: part, simp_all add: t_def fd_file_def PDT_SIZE_def user_ready_def stack_ok_def
          resched_wanted_def sizeof_task_stack_def\<close>)
qed

theorem file_roundtrip_witness:
  "\<exists>(s :: kstate) q1 q2 q3 s1 s2 s3. system_call demo_env (call_regs 12 0 4096 4) s = Some (Some q1, s1) \<and>
    system_call demo_env (call_regs 13 0 0 0) s1 = Some (Some q2, s2) \<and>
    system_call demo_env (call_regs 11 0 5000 4) s2 = Some (Some q3, s3) \<and>
    arg_int (reg_rax q3) = 4 \<and> mem s3 5003 = mem s 4099"
proof -
  obtain s :: kstate and f fl where s: "fs_inv s" "grow_ready 3 s" "open_at s f fl 4" "f_openmode fl = O_RDWR"
    "f_offset fl = 0" "fd_file 0 s = Some (Inr f)" "user_ready s" by (rule fd_demo)
  have a: "fd_args 12 0 (call_regs 12 0 4096 4)" "fd_args 13 0 (call_regs 13 0 0 0)"
    "fd_args 11 0 (call_regs 11 0 5000 4)" by (simp_all add: fd_args_def arg_int_def)
  have h: "4096 + unat (4 :: u32) \<le> heap_start" "5000 + unat (4 :: u32) \<le> heap_start"
    by (simp_all add: heap_start_def)
  have "\<exists>q1 q2 q3 s1 s2 s3. system_call demo_env (call_regs 12 0 4096 4) s = Some (Some q1, s1) \<and>
    system_call demo_env (call_regs 13 0 0 0) s1 = Some (Some q2, s2) \<and>
    system_call demo_env (call_regs 11 0 5000 4) s2 = Some (Some q3, s3) \<and>
    arg_int (reg_rax q1) = int (unat (4 :: u32)) \<and> arg_int (reg_rax q3) = int (unat (4 :: u32)) \<and>
    user_resumes (call_regs 12 0 4096 4) (reg_rax q1) q1 \<and> user_resumes (call_regs 13 0 0 0) (reg_rax q2) q2 \<and>
    user_resumes (call_regs 11 0 5000 4) (reg_rax q3) q3 \<and>
    fs_inv s3 \<and> (\<forall>i < unat (4 :: u32). mem s3 (5000 + i) = mem s (4096 + i))"
    by (rule file_roundtrip [OF s(7,6,1,3,4) _ _ _ s(2) h a(1) _ _ a(2) _ _ a(3)])
      (simp_all add: s(5) arg_int_def SEEK_SET_def)
  then obtain q1 q2 q3 s1 s2 s3 where r: "system_call demo_env (call_regs 12 0 4096 4) s = Some (Some q1, s1)"
    "system_call demo_env (call_regs 13 0 0 0) s1 = Some (Some q2, s2)"
    "system_call demo_env (call_regs 11 0 5000 4) s2 = Some (Some q3, s3)"
    "arg_int (reg_rax q3) = int (unat (4 :: u32))"
    "\<forall>i < unat (4 :: u32). mem s3 (5000 + i) = mem s (4096 + i)" by (elim exE conjE) (rule that)
  have "mem s3 5003 = mem s 4099" using r(5) [rule_format, of 3] by simp
  moreover have "arg_int (reg_rax q3) = 4" using r(4) by simp
  ultimately show ?thesis using r(1-3) by blast
qed

text \<open>C12: A system call of the file system (numbers 8 to 17) hands the function's result to the
  caller: when the function returns, the user continues behind the \<open>syscall\<close> instruction
  with that value in \<open>rax\<close> and all other registers as they were; the file system is as the
  function left it, and the run queue, the saved registers and the states of all other tasks are as they
  were before the call.  The drivers are the console's functions, and the one call that may have to
  wait, a read of a device, finds a character in the keyboard's buffer (a reader that finds none
  sleeps, and another task runs).\<close>

theorem file_syscall_returns:
  fixes s :: "'z kbd_scheme"
  assumes "user_ready s" "only_console rsm q (env_drv env)"
    and "reg_rax r = of_nat n" "8 \<le> n" "n < NUM_SYSCALLS"
    and "n = 11 \<Longrightarrow> device_fd (arg_int (reg_rdi r)) s \<Longrightarrow> klen s \<noteq> 0"
    and "call_function env (sys_call_table ! n) (syscall_frame r) (entered r s) = Some (res, s2)"
  shows "\<exists>v q s'. res = Some v \<and> system_call env r s = Some (Some q, s') \<and> user_resumes r v q \<and>
    fstate.truncate s' = fstate.truncate s2 \<and> user_ready s' \<and> current s' = current s \<and> lnk s' = lnk s \<and>
    (\<forall>p. p \<noteq> current s \<longrightarrow> task_of s' p = task_of s p \<and> user_regs s' p = user_regs s p)"
proof -
  have ok: "stack_ok s" "\<not> resched_wanted s" using assms(1) by (simp_all add: user_ready_def)
  have rd: "reads_keep same_tasks (env_drv env) (entered r s)" if "n = 11" "device_fd (arg_int (reg_rdi r)) s"
    by (rule console_reads_keep [OF assms(2)]) (use assms(6) [OF that] in \<open>simp add: entered_def\<close>)
  obtain v where v: "res = Some v" "system_call env r s = Some (Some (resumed r v), left r v s2)"
    "pdt_only (entered r s) s2"
    by (rule file_syscall_spec [OF ok console_drivers_keep [OF assms(2)] assms(3-5) rd assms(7)])
  have "user_ready (left r v s2) \<and> current (left r v s2) = current s \<and> lnk (left r v s2) = lnk s \<and>
    (\<forall>p. p \<noteq> current s \<longrightarrow> task_of (left r v s2) p = task_of s p \<and> user_regs (left r v s2) p = user_regs s p)"
    using v(3) ok by (auto simp: pdt_only_def user_ready_def stack_ok_def resched_wanted_def left_def entered_def)
  then show ?thesis using v(1,2) user_resumes_resumed part_left by blast
qed

definition entry_demo :: kstate where
  "entry_demo = cow_demo\<lparr>current := 8192, swapgs_kernel_rsp := 12288, global_flags := 0\<rparr>"

lemma entry_demo_ready: "user_ready entry_demo"
  by (simp add: entry_demo_def user_ready_def stack_ok_def resched_wanted_def sizeof_task_stack_def)

text \<open>A kernel whose descriptor 0 is the console, with one character typed.\<close>

definition console_env :: "kbd sys_env" where
  "console_env = \<lparr>env_drv = [64 \<mapsto> console_ops (\<lambda>_. Some) 20480], env_va = (\<lambda>_ _ _. []), env_elfmag = 0,
     env_ehdr = 0, env_phdr = 0, env_hi = 0\<rparr>"

definition console_demo :: kbd where
  "console_demo = kstate.extend (entry_demo\<lparr>
     task_of := [8192 \<mapsto> (demo_task TASK_RUNNING)\<lparr>pdt := 16 # replicate 9 0\<rparr>],
     files := [16 \<mapsto> \<lparr>f_dentry = 32, f_openmode = O_RDWR, f_offset = 0, f_refcnt = 1\<rparr>],
     dents := [32 \<mapsto> \<lparr>d_name = ''console'', d_parent = 0, d_refcnt = 1, d_sb = Root_sb, d_mnt = None,
       d_priv = 48, d_mode = DIR_FILE, d_size = 0\<rparr>],
     privs := [48 \<mapsto> \<lparr>p_dentry = 32, p_children = [], p_rest = Devfs_ops 64\<rparr>],
     rootfs := Some \<lparr>sb_fs = Devfs, root_dentry = 32\<rparr>\<rparr>) (kbd.fields (\<lambda>_. 97) 0 1)"

lemma console_demo_simps [simp]:
  "task_of console_demo = [8192 \<mapsto> (demo_task TASK_RUNNING)\<lparr>pdt := 16 # replicate 9 0\<rparr>]"
  "files console_demo = [16 \<mapsto> \<lparr>f_dentry = 32, f_openmode = O_RDWR, f_offset = 0, f_refcnt = 1\<rparr>]"
  "dents console_demo = [32 \<mapsto> \<lparr>d_name = ''console'', d_parent = 0, d_refcnt = 1, d_sb = Root_sb, d_mnt = None,
     d_priv = 48, d_mode = DIR_FILE, d_size = 0\<rparr>]"
  "privs console_demo = [48 \<mapsto> \<lparr>p_dentry = 32, p_children = [], p_rest = Devfs_ops 64\<rparr>]"
  "rootfs console_demo = Some \<lparr>sb_fs = Devfs, root_dentry = 32\<rparr>"
  "kbuf console_demo = (\<lambda>_. 97)" "khead console_demo = 0" "klen console_demo = 1"
  "current console_demo = 8192" "swapgs_kernel_rsp console_demo = 12288" "global_flags console_demo = 0"
  "mem console_demo = (\<lambda>_. 0)"
  by (simp_all add: console_demo_def entry_demo_def cow_demo_def kstate.defs kbd.defs)

lemma console_demo_facts:
  "user_ready console_demo" "only_console (\<lambda>_. Some) 20480 (env_drv console_env)" "device_fd 0 console_demo"
  by (simp_all add: user_ready_def stack_ok_def resched_wanted_def sizeof_task_stack_def only_console_def
      console_env_def device_fd_def fd_file_def PDT_SIZE_def file_fs_def get_sb_def)

lemma console_demo_read:
  obtains s2 where "sys_read (env_drv console_env) 0 4096 4 (entered r console_demo) = Some (1, s2)"
    "mem s2 4096 = 97"
proof -
  let ?e = "entered r console_demo"
  have e: "files ?e = files console_demo" "dents ?e = dents console_demo" "privs ?e = privs console_demo"
    "rootfs ?e = rootfs console_demo" "klen ?e = 1" "khead ?e = 0" "kbuf ?e = (\<lambda>_. 97)"
    by (simp_all add: entered_def)
  have w: "console_wait (\<lambda>_. Some) 20480 ?e = Some ?e" by (simp add: console_wait.simps e)
  obtain fl c where "save_flags_irq (cpu ?e) = (fl, c)" by (cases "save_flags_irq (cpu ?e)")
  then have i: "irq_save ?e = (fl, ?e\<lparr>cpu := c\<rparr>)" by (simp add: irq_save_def)
  let ?t = "snd (console_take 4096 4 (?e\<lparr>cpu := c\<rparr>))"
  have k: "fst (console_take 4096 4 (?e\<lparr>cpu := c\<rparr>)) = 1" "mem ?t 4096 = 97" "files ?t = files console_demo"
    by (simp_all add: console_take_def e Let_def BUFSIZE_def min_def)
  have r: "console_read (\<lambda>_. Some) 20480 16 0 4096 4 ?e = Some (1, irq_restore fl ?t)"
    using k(1) by (auto simp: console_read_def w i split: prod.splits)
  have d: "fd_file 0 console_demo = Some (Inr 16)" by (simp add: fd_file_def PDT_SIZE_def)
  have f: "fs_read (env_drv console_env) Devfs 16 0 4096 4 ?e = Some (1, irq_restore fl ?t)"
    using r by (simp add: devfs_read_def dev_ops_def e console_env_def console_ops_def)
  let ?u = "irq_restore fl ?t"
  have v: "files ?u = files console_demo" "mem ?u 4096 = 97" using k by (simp_all add: irq_restore_def)
  have "\<exists>s2. vfs_read (env_drv console_env) 16 4096 4 ?e = Some (1, s2) \<and> mem s2 4096 = 97"
    using v by (simp add: vfs_read_def e f const_defs file_fs_def get_sb_def advance_def set_file_def del: fs_read.simps)
  then have "\<exists>s2. sys_read (env_drv console_env) 0 4096 4 ?e = Some (1, s2) \<and> mem s2 4096 = 97"
    by (simp add: sys_read_def d)
  then show ?thesis using that by blast
qed

theorem file_syscall_returns_witness:
  "\<exists>q s'. system_call console_env (call_regs 11 0 4096 4) console_demo = Some (Some q, s') \<and>
     arg_int (reg_rax q) = 1 \<and> reg_rdi q = 0 \<and> mem s' 4096 = 97"
proof -
  let ?r = "call_regs 11 0 4096 4"
  obtain s2 where s2: "sys_read (env_drv console_env) 0 4096 4 (entered ?r console_demo) = Some (1, s2)"
    "mem s2 4096 = 97" by (rule console_demo_read)
  then have "call_function console_env (sys_call_table ! 11) (syscall_frame ?r) (entered ?r console_demo) =
    Some (Some (int_rax console_env 1), s2)"
    by (simp add: sys_call_table_def int_result_def arg_int_def)
  from file_syscall_returns [OF console_demo_facts(1,2) _ _ _ _ this]
  obtain q s' where "system_call console_env ?r console_demo = Some (Some q, s')"
    "user_resumes ?r (int_rax console_env 1) q" "fstate.truncate s' = fstate.truncate s2"
    by (auto simp: NUM_SYSCALLS_eq)
  moreover have "arg_int (int_rax console_env 1) = 1" by (rule arg_int_rax) simp_all
  moreover have "mem s' = mem s2" using fs_part(6) [OF calculation(3)] .
  ultimately show ?thesis using s2(2) by (auto simp: user_resumes_def)
qed

text \<open>C26: A call with a number outside the table is refused: the user gets \<open>-ENOSYS\<close> (as a
  64-bit value) and every other register back, and apart from the saved registers of the task and
  the processor's interrupt flag nothing has changed.\<close>

theorem unknown_syscall_refused:
  assumes "user_ready s" "of_nat NUM_SYSCALLS \<le> reg_rax r"
  shows "\<exists>q s'. system_call env r s = Some (Some q, s') \<and> user_resumes r (- 38) q \<and>
    fstate.truncate s' = fstate.truncate s \<and> lnk s' = lnk s \<and> task_of s' = task_of s \<and>
    current s' = current s \<and> global_flags s' = global_flags s \<and> vmas s' = vmas s \<and> timers s' = timers s \<and>
    vmem (cpu s') = vmem (cpu s) \<and> out_log (cpu s') = out_log (cpu s)"
proof -
  have ok: "stack_ok s" "\<not> resched_wanted s" using assms(1) by (simp_all add: user_ready_def)
  let ?f = "(syscall_frame r)\<lparr>reg_rax := - 38\<rparr>" and ?e = "entered r s"
  let ?t = "?e\<lparr>user_regs := (user_regs ?e)(current s := ?f)\<rparr>"
  have c: "current ?e = current s" "user_regs ?e (current s) = syscall_frame r" by (simp_all add: entered_def)
  have w: "word_of_int (- errno_code ENOSYS) = (- 38 :: u64)" by simp
  have "system_call env r s = ret_from_fork ?t"
    unfolding system_call_def Let_def current_entered [OF ok(1)] if_P [OF assms(2)] w by (simp add: c)
  also have "\<dots> = Some (Some (sysret_regs ?f), ?t\<lparr>cpu := restore_flags (reg_rflags ?f) (cli (cpu ?t))\<rparr>)"
    by (rule ret_from_fork_at_once) (use ok in \<open>simp_all add: resched_wanted_def entered_def\<close>)
  finally have run: "system_call env r s =
    Some (Some (resumed r (- 38)), ?t\<lparr>cpu := restore_flags (reg_rflags ?f) (cli (cpu ?t))\<rparr>)"
    by (simp add: resumed_def)
  show ?thesis
    by (intro exI conjI, rule run, rule user_resumes_resumed)
      (simp_all add: entered_def fstate.defs restore_flags_def cli_def sti_def)
qed

theorem unknown_syscall_refused_witness:
  "\<exists>q s'. system_call demo_env (call_regs 18 7 0 0) entry_demo = Some (Some q, s') \<and>
     reg_rax q = - 38 \<and> reg_rdi q = 7"
proof -
  have "of_nat NUM_SYSCALLS \<le> reg_rax (call_regs 18 7 0 0)" by (simp add: NUM_SYSCALLS_eq)
  from unknown_syscall_refused [OF entry_demo_ready this, of demo_env]
  show ?thesis by (auto simp: user_resumes_def)
qed

end
