(* ===== verification/ForkProps.thy ===== *)
theory ForkProps
  imports EntryProps
begin

text \<open>
  \<open>fork\<close> through its system call: the parent gets the child's number, and the child, when it is
  switched to, comes out of the same call with 0.
\<close>

section \<open>What fork leaves alone\<close>

lemma for_range_keeps:
  assumes "for_range i n f s = Some s'" "\<And>k s t. f k s = Some t \<Longrightarrow> g t = g s"
  shows "g s' = g s"
  using assms(1)
proof (induction n arbitrary: i s)
  case (Suc n)
  then obtain s1 where s1: "f i s = Some s1" "for_range (Suc i) n f s1 = Some s'" by (auto elim!: run_elims)
  from Suc.IH [OF s1(2)] assms(2) [OF s1(1)] show ?case by simp
qed simp

lemma alloc_page_more: "alloc_page fl s = Some (p, s') \<Longrightarrow> vmm.more s' = vmm.more s"
proof -
  assume "alloc_page fl s = Some (p, s')"
  then obtain f where "alloc_phys_page s = Some (f, s')" by (auto simp: alloc_page_def elim!: run_elims)
  then have "pmm.more s' = pmm.more s" by (auto simp: alloc_phys_page_def Let_def elim!: run_elims)
  then show ?thesis by (cases s; cases s') simp
qed

lemma vmm_small_more:
  "vmm.more (set_frame t i f s) = vmm.more s" "vmm.more (copy_table a b s) = vmm.more s"
  "vmm.more (tlb_invalidate_entry va s) = vmm.more s"
  by (simp_all add: set_frame_def copy_table_def tlb_invalidate_entry_def)

lemma clone_l1_more: "clone_l1_entry va old n l s = Some s' \<Longrightarrow> vmm.more s' = vmm.more s"
  by (auto simp: clone_l1_entry_def Let_def vmm_small_more elim!: run_elims)

lemma clone_l2_more: "clone_l2_entry va n k s = Some s' \<Longrightarrow> vmm.more s' = vmm.more s"
  by (auto simp: clone_l2_entry_def Let_def vmm_small_more elim!: run_elims dest!: alloc_page_more
      for_range_keeps [where g = vmm.more, OF _ clone_l1_more])

lemma clone_l3_more: "clone_l3_entry va n k s = Some s' \<Longrightarrow> vmm.more s' = vmm.more s"
  by (auto simp: clone_l3_entry_def Let_def vmm_small_more elim!: run_elims dest!: alloc_page_more
      for_range_keeps [where g = vmm.more, OF _ clone_l2_more])

lemma clone_l4_more: "clone_l4_entry old n k s = Some s' \<Longrightarrow> vmm.more s' = vmm.more s"
  by (auto simp: clone_l4_entry_def Let_def vmm_small_more elim!: run_elims dest!: alloc_page_more
      for_range_keeps [where g = vmm.more, OF _ clone_l3_more])

text \<open>What a user sees of the kernel's state when it is entered.\<close>

definition entry_part :: "'z kstate_scheme \<Rightarrow> (nat \<Rightarrow> regs) \<times> nat \<times> nat \<times> u64 \<times> u64 \<times> u64" where
  "entry_part s = (user_regs s, current s, idle s, global_flags s, swapgs_kernel_rsp s, rflags (cpu s))"

lemma entry_part_vmm: "vmm.more s' = vmm.more s \<Longrightarrow> entry_part s' = entry_part s"
  by (cases s; cases s') (simp add: entry_part_def)

lemma entry_part_fs: "fstate.more s' = fstate.more s \<Longrightarrow> entry_part s' = entry_part s"
  by (cases s; cases s') (simp add: entry_part_def)

lemma entry_part_simps [simp]:
  "entry_part (on_links f s) = entry_part s" "entry_part (s\<lparr>vmas := v\<rparr>) = entry_part s"
  "entry_part (s\<lparr>task_of := t\<rparr>) = entry_part s" "entry_part (s\<lparr>next_free_pid := n\<rparr>) = entry_part s"
  by (simp_all add: entry_part_def on_links_def)

lemma set_task_part: "set_task p f s = Some s' \<Longrightarrow> entry_part s' = entry_part s"
  by (auto simp: set_task_def)

lemma clone_area_part: "clone_area p it s = Some (b, s') \<Longrightarrow> entry_part s' = entry_part s"
  by (auto simp: clone_area_def Let_def elim!: run_elims dest!: kzalloc_fs entry_part_fs)

lemma copy_table_part [simp]: "entry_part (copy_table a b s) = entry_part s"
  by (rule entry_part_vmm) (rule vmm_small_more)

lemma clone_mm_part: "clone_mm p s = Some (r, s') \<Longrightarrow> entry_part s' = entry_part s"
  by (auto simp: clone_mm_def Let_def elim!: run_elims
      dest!: alloc_page_more [THEN entry_part_vmm] set_task_part
        for_range_keeps [where g = entry_part, OF _ clone_l4_more [THEN entry_part_vmm]]
        list_for_each_keeps [where g = entry_part, OF _ clone_area_part])

lemma alloc_task_part: "alloc_task q s = Some (p, pid, s') \<Longrightarrow> entry_part s' = entry_part s"
  by (auto simp: alloc_task_def copy_task_def take_pid_def Let_def elim!: run_elims
      dest!: alloc_page_more [THEN entry_part_vmm] set_task_part)

lemma alloc_task_pid: "alloc_task q s = Some (p, pid, s') \<Longrightarrow> \<exists>t. task_of s' p = Some t \<and> t_pid t = pid"
  by (auto simp: alloc_task_def take_pid_def Let_def set_task_def on_links_def elim!: run_elims)

definition pids :: "'z kstate_scheme \<Rightarrow> nat \<Rightarrow> int option" where
  "pids s = (\<lambda>p. map_option t_pid (task_of s p))"

lemma pids_vmm: "vmm.more s' = vmm.more s \<Longrightarrow> pids s' = pids s"
  by (cases s; cases s') (simp add: pids_def)

lemma pids_fs: "fstate.more s' = fstate.more s \<Longrightarrow> pids s' = pids s"
  by (cases s; cases s') (simp add: pids_def)

lemma pids_simps [simp]: "pids (on_links f s) = pids s" "pids (s\<lparr>vmas := v\<rparr>) = pids s"
  by (simp_all add: pids_def on_links_def)

lemma pids_copy [simp]: "pids (copy_table a b s) = pids s"
  by (rule pids_vmm) (rule vmm_small_more)

lemma pids_set_task: "set_task p f s = Some s' \<Longrightarrow> (\<And>x. t_pid (f x) = t_pid x) \<Longrightarrow> pids s' = pids s"
  by (auto simp: set_task_def pids_def)

lemma clone_area_pids: "clone_area p it s = Some (b, s') \<Longrightarrow> pids s' = pids s"
  by (auto simp: clone_area_def Let_def elim!: run_elims dest!: kzalloc_fs pids_fs)

lemma clone_mm_pids: "clone_mm p s = Some (r, s') \<Longrightarrow> pids s' = pids s"
  by (auto simp: clone_mm_def Let_def elim!: run_elims
      dest!: alloc_page_more [THEN pids_vmm] pids_set_task
        for_range_keeps [where g = pids, OF _ clone_l4_more [THEN pids_vmm]]
        list_for_each_keeps [where g = pids, OF _ clone_area_pids])

lemma alloc_task_fresh:
  assumes "pmm_inv s" "free_frames s \<noteq> {}" "unat (first_frame s) + nframes s \<le> 2 ^ 28"
    and "off_free s T" "alloc_task q s = Some (p, pid, s')"
  shows "p \<notin> T"
proof -
  obtain f and s1 :: "'a kstate_scheme" where f: "alloc_page MAP_READWRITE s = Some (page_at f, s1)"
    "unat f \<in> free_frames s" using task_page [OF assms(1-3)] .
  have "p = unat (page_at f)" using assms(5) f(1) by (auto simp: alloc_task_def Let_def elim!: run_elims)
  then show ?thesis using assms(4) f(2) by (simp add: off_free_def)
qed

lemma sys_fork_spec:
  assumes "sys_fork s = Some (pid, s')" "0 \<le> pid"
  obtains p s1 s2 where "alloc_task (current s) s = Some (p, pid, s1)" "clone_mm p s1 = Some (0, s2)"
    "user_regs s' = (user_regs s)(p := (user_regs s (current s))\<lparr>reg_rax := 0\<rparr>)"
    "entry_part (s'\<lparr>user_regs := user_regs s\<rparr>) = entry_part s"
    "\<exists>t. task_of s' p = Some t \<and> t_pid t = pid \<and> resume_at t = Ret_from_fork"
proof -
  obtain p n s1 where a: "alloc_task (current s) s = Some (p, n, s1)" and
    r: "(do {
      (ret, s2) \<leftarrow> clone_mm p s1;
      if ret < 0 then do {
        s3 \<leftarrow> free_page (of_nat p) s2;
        Some (ret, s3\<lparr>task_of := (task_of s3)(p := None)\<rparr>)
      }
      else do {
        let s3 = s2\<lparr>user_regs := (user_regs s2)(p := (user_regs s2 (current s2))\<lparr>reg_rax := 0\<rparr>)\<rparr>;
        s4 \<leftarrow> set_task p (\<lambda>x. x\<lparr>resume_at := Ret_from_fork\<rparr>) s3;
        Some (n, s4)
      }
    }) = Some (pid, s')" using assms(1) unfolding sys_fork_def by (auto elim!: bind_SomeE prod_SomeE)
  obtain ret s2 where c: "clone_mm p s1 = Some (ret, s2)" using r by (auto elim!: bind_SomeE prod_SomeE)
  have ret: "ret = 0 \<or> ret = - errno_code ENOMEM"
    using c by (auto simp: clone_mm_def Let_def elim!: run_elims)
  have "\<not> ret < 0" using r c assms(2) by (auto elim!: run_elims)
  then have ret0: "ret = 0" using ret by auto
  then have n: "pid = n" and w: "set_task p (\<lambda>x. x\<lparr>resume_at := Ret_from_fork\<rparr>)
    (s2\<lparr>user_regs := (user_regs s2)(p := (user_regs s2 (current s2))\<lparr>reg_rax := 0\<rparr>)\<rparr>) = Some s'"
    using r c by (auto simp: Let_def elim!: run_elims)
  have e: "entry_part s2 = entry_part s" using clone_mm_part [OF c] alloc_task_part [OF a] by simp
  then have es: "user_regs s2 = user_regs s" "current s2 = current s" by (simp_all add: entry_part_def)
  have "pids s2 p = Some pid"
    using clone_mm_pids [OF c] alloc_task_pid [OF a] n by (auto simp: pids_def)
  then have t: "\<exists>t. task_of s' p = Some t \<and> t_pid t = pid \<and> resume_at t = Ret_from_fork"
    using w by (auto simp: pids_def set_task_def)
  have u: "user_regs s' = (user_regs s)(p := (user_regs s (current s))\<lparr>reg_rax := 0\<rparr>)"
    and p: "entry_part (s'\<lparr>user_regs := user_regs s\<rparr>) = entry_part s"
    using w e es by (auto simp: set_task_def entry_part_def)
  show ?thesis by (rule that [of p s1 s2]) (use a c n ret0 t u p in simp_all)
qed

text \<open>C5: \<open>fork\<close> returns twice.  When the address space could be copied, the parent goes on behind
  its \<open>syscall\<close> instruction with the child's process number in \<open>rax\<close>; the new task has that number
  and resumes at \<open>ret_from_fork\<close>; and whenever the scheduler runs it there, it goes on in
  user mode at the same place, with the same stack pointer and the same registers, and 0 in \<open>rax\<close>.\<close>

theorem fork_returns_twice:
  fixes s :: "'z kstate_scheme"
  assumes "user_ready s" "reg_rax r = 1"
    and "pmm_inv s" "free_frames s \<noteq> {}" "unat (first_frame s) + nframes s \<le> 2 ^ 28" "off_free s {current s}"
    and "sys_fork (entered r s) = Some (pid, s2)" "0 \<le> pid"
  shows "\<exists>p q s'. system_call env r s = Some (Some q, s') \<and> user_resumes r (int_rax env pid) q \<and>
    p \<noteq> current s \<and> (\<exists>t. task_of s' p = Some t \<and> t_pid t = pid \<and> resume_at t = Ret_from_fork) \<and>
    (\<forall>u :: 'z kstate_scheme. current u = p \<longrightarrow> user_regs u p = user_regs s' p \<longrightarrow> \<not> resched_wanted u \<longrightarrow>
       (\<exists>q' u'. ret_from_fork u = Some (Some q', u') \<and> user_resumes r 0 q'))"
proof -
  let ?e = "entered r s" and ?v = "int_rax env pid"
  have ok: "stack_ok s" "\<not> resched_wanted s" using assms(1) by (simp_all add: user_ready_def)
  obtain p s1 t1 where f: "alloc_task (current ?e) ?e = Some (p, pid, s1)"
    "user_regs s2 = (user_regs ?e)(p := (user_regs ?e (current ?e))\<lparr>reg_rax := 0\<rparr>)"
    "entry_part (s2\<lparr>user_regs := user_regs ?e\<rparr>) = entry_part ?e"
    "\<exists>t. task_of s2 p = Some t \<and> t_pid t = pid \<and> resume_at t = Ret_from_fork"
    by (rule sys_fork_spec [OF assms(7,8)])
  have tr: "pmm.truncate ?e = pmm.truncate s" "first_frame ?e = first_frame s" "nframes ?e = nframes s"
    "free_frames ?e = free_frames s"
    by (simp_all add: entered_def pmm.defs nframes_def free_frames_def used_frames_def managed_def)
  have pe: "pmm_inv ?e" "off_free ?e {current s}"
    using assms(3,6) pmm_part(1) [OF tr(1)] tr by (simp_all add: off_free_def)
  have np: "p \<noteq> current s"
    using alloc_task_fresh [OF pe(1) _ _ pe(2) f(1)] assms(4,5) tr by simp
  have c: "current s2 = current s" "global_flags s2 = global_flags s"
    using f(3) by (simp_all add: entry_part_def entered_def)
  have u: "user_regs s2 (current s) = syscall_frame r" "user_regs s2 p = (syscall_frame r)\<lparr>reg_rax := 0\<rparr>"
    using f(2) np by (simp_all add: entered_def)
  let ?f = "(syscall_frame r)\<lparr>reg_rax := ?v\<rparr>"
  let ?t = "s2\<lparr>user_regs := (user_regs s2)(current s := ?f)\<rparr>"
  have nr: "\<not> of_nat NUM_SYSCALLS \<le> reg_rax r" by (simp add: assms(2) NUM_SYSCALLS_eq word_le_nat_alt)
  have cf: "call_function env (sys_call_table ! unat (reg_rax r)) (syscall_frame r) ?e = Some (Some ?v, s2)"
    using assms(2,7) by (simp add: sys_call_table_def int_result_def)
  have "system_call env r s = ret_from_fork ?t"
    unfolding system_call_def Let_def current_entered [OF ok(1)] if_not_P [OF nr] cf by (simp add: c u)
  also have "\<dots> = Some (Some (sysret_regs ?f), ?t\<lparr>cpu := restore_flags (reg_rflags ?f) (cli (cpu ?t))\<rparr>)"
    by (rule ret_from_fork_at_once) (use ok c in \<open>simp_all add: resched_wanted_def\<close>)
  finally have run: "system_call env r s =
    Some (Some (resumed r ?v), ?t\<lparr>cpu := restore_flags (reg_rflags ?f) (cli (cpu ?t))\<rparr>)"
    by (simp add: resumed_def)
  have child: "\<exists>q' u'. ret_from_fork u = Some (Some q', u') \<and> user_resumes r 0 q'"
    if "current u = p" "user_regs u p = (syscall_frame r)\<lparr>reg_rax := 0\<rparr>" "\<not> resched_wanted u" for u :: "'z kstate_scheme"
    using ret_from_fork_at_once [OF that(3), of "(syscall_frame r)\<lparr>reg_rax := 0\<rparr>"] that(1,2)
      user_resumes_resumed [of r 0] by (simp add: resumed_def)
  obtain t where t: "task_of s2 p = Some t" "t_pid t = pid" "resume_at t = Ret_from_fork" using f(4) by blast
  show ?thesis
    by (intro exI conjI, rule run, rule user_resumes_resumed, rule np)
      (use t child u(2) np in \<open>simp_all\<close>)
qed

section \<open>A state in which a fork succeeds\<close>

lemma alloc_task_total:
  fixes s :: "'z kstate_scheme"
  assumes "pmm_inv s" "free_frames s \<noteq> {}" "unat (first_frame s) + nframes s \<le> 2 ^ 28"
    and "task_of s q = Some t" "0 \<le> next_free_pid s"
  obtains p s' f where "alloc_task q s = Some (p, next_free_pid s, s')" "pmm_inv s'"
    "free_frames s' = free_frames s - {f}" "first_frame s' = first_frame s" "nframes s' = nframes s"
    "tables s' = tables s" "task_of s' = (task_of s)(p \<mapsto> t\<lparr>t_pid := next_free_pid s\<rparr>)"
    "current s' = current s" "\<forall>c. c \<noteq> p \<longrightarrow> nxt (lnk s') (Vm_areas c) = nxt (lnk s) (Vm_areas c)"
proof -
  obtain f and s1 :: "'z kstate_scheme" where f: "alloc_phys_page s = Some (f, s1)" "f \<noteq> 0" "unat f \<in> free_frames s"
    "pmm_inv s1" "free_frames s1 = free_frames s - {unat f}"
    using alloc_phys_page_available [OF assms(1,2)] by blast
  have f28: "unat f < 2 ^ 28" using f(3) assms(3) by (simp add: free_frames_def managed_def)
  have "page_at f \<noteq> 0"
  proof
    assume "page_at f = 0"
    then have "unat (page_at f) = 0" by simp
    then show False unfolding unat_page_at [OF f28] by (simp add: MEMORY_BASE_def)
  qed
  then have a: "alloc_page MAP_READWRITE s = Some (page_at f, s1)" "page_at f \<noteq> 0"
    using f(1,2) by (simp_all add: alloc_page_def page_at_def)
  have m: "lnk s1 = lnk s" "task_of s1 = task_of s" "next_free_pid s1 = next_free_pid s" "tables s1 = tables s"
    "current s1 = current s" using alloc_phys_page_vmm [OF f(1)] by (cases s; cases s1; simp)+
  let ?p = "unat (page_at f)"
  define k where "k = copy_node (Vm_areas ?p) (Vm_areas q) (copy_node (Waitq ?p) (Waitq q)
        (copy_node (Running ?p) (Running q) (copy_node (Tasks ?p) (Tasks q) (lnk s))))"
  define s' where "s' = s1\<lparr>task_of := (task_of s)(?p \<mapsto> t\<lparr>t_pid := next_free_pid s\<rparr>),
    next_free_pid := sint (word_of_int (next_free_pid s + 1) :: u32),
    lnk := list_add (Running q) (Running ?p) (list_add (Tasks q) (Tasks ?p) k)\<rparr>"
  have "alloc_task q s = Some (?p, next_free_pid s, s')"
    using a assms(4,5)
    by (simp add: alloc_task_def Let_def copy_task_def m take_pid_def set_task_def on_links_def s'_def k_def)
  moreover have tr: "pmm.truncate s' = pmm.truncate s1" by (simp add: s'_def pmm.defs)
  moreover have "first_frame s' = first_frame s" "nframes s' = nframes s" "free_frames s' = free_frames s - {unat f}"
    "tables s' = tables s" "task_of s' = (task_of s)(?p \<mapsto> t\<lparr>t_pid := next_free_pid s\<rparr>)"
    using alloc_phys_page_frame [OF f(1)] f(5) m
    by (simp_all add: s'_def nframes_def free_frames_def used_frames_def managed_def)
  moreover have "current s' = current s" by (simp add: s'_def m)
  moreover have "\<forall>c. c \<noteq> ?p \<longrightarrow> nxt (lnk s') (Vm_areas c) = nxt (lnk s) (Vm_areas c)"
    by (simp add: s'_def k_def copy_node_def list_add_def Let_def)
  ultimately show ?thesis using that f(4) pmm_part(1) [OF tr] by metis
qed

lemma for_range_skip: "(\<And>k. i \<le> k \<Longrightarrow> k < i + n \<Longrightarrow> f k s = Some s) \<Longrightarrow> for_range i n f s = Some s"
  by (induction n arbitrary: i) auto

lemma clone_mm_empty:
  fixes s :: "'z kstate_scheme"
  assumes "pmm_inv s" "free_frames s \<noteq> {}" "unat (first_frame s) + nframes s \<le> 2 ^ 28"
    and t: "task_of s (current s) = Some t" "task_of s p \<noteq> None"
    and e: "\<And>i. i < user_entries \<Longrightarrow> \<not> pte_present (tables s (frame_of (t_page_dir t)) i)"
    and l: "nxt (lnk s) (Vm_areas (current s)) = Vm_areas (current s)"
  shows "\<exists>s'. clone_mm p s = Some (0, s')"
proof -
  obtain f and s1 :: "'z kstate_scheme" where f: "alloc_page MAP_READWRITE s = Some (page_at f, s1)" "page_at f \<noteq> 0"
    "unat f \<in> free_frames s" "vmm.more s1 = vmm.more s" "tables s1 = tables s" using task_page [OF assms(1-3)] .
  have m: "lnk s1 = lnk s" "task_of s1 = task_of s" "current s1 = current s"
    using f(4) by (cases s; cases s1; simp)+
  let ?old = "frame_of (t_page_dir t)" and ?new = "frame_of (page_at f)"
  define s2 where "s2 = copy_table ?new ?old s1"
  define s3 where "s3 = s2\<lparr>task_of := (task_of s)(p \<mapsto> (the (task_of s p))\<lparr>t_page_dir := page_at f\<rparr>)\<rparr>"
  have st: "set_task p (\<lambda>x. x\<lparr>t_page_dir := page_at f\<rparr>) s2 = Some s3"
    using t(2) m by (auto simp: set_task_def s3_def s2_def copy_table_def)
  have "tables s3 ?old = tables s ?old" by (simp add: s3_def s2_def copy_table_def f(5))
  then have r: "for_range 0 user_entries (clone_l4_entry ?old ?new) s3 = Some s3"
    by (intro for_range_skip) (simp add: clone_l4_entry_def e)
  define s5 where "s5 = on_links (list_init (Vm_areas p)) s3"
  have n: "nxt (lnk s5) (Vm_areas (current s5)) = Vm_areas (current s5)"
    using l m by (simp add: s5_def s3_def s2_def copy_table_def on_links_def list_init_def set_nxt_def set_prv_def)
  have c5: "current s3 = current s5" by (simp add: s5_def on_links_def)
  have "list_for_each lnk (Vm_areas (current s5)) (clone_area p) s5 = Some (Vm_areas (current s5), s5)"
    unfolding list_for_each_def n by (simp add: list_for_each_from.simps)
  then show ?thesis
    using f(1,2) st r t(1) by (simp add: clone_mm_def Let_def s2_def [symmetric] s5_def [symmetric] c5)
qed

definition fork_demo :: kstate where
  "fork_demo = thread_demo\<lparr>lnk := list_init (Vm_areas 4096) (lnk thread_demo), tables := \<lambda>_ _. pte_zero,
     swapgs_kernel_rsp := 8192\<rparr>"

lemma fork_demo_facts:
  "user_ready fork_demo" "pmm_inv fork_demo" "free_frames fork_demo = {1..<65}" "off_free fork_demo {4096}"
  "unat (first_frame fork_demo) + nframes fork_demo \<le> 2 ^ 28" "current fork_demo = 4096"
proof -
  have tr: "pmm.truncate fork_demo = pmm.truncate thread_demo" by (simp add: fork_demo_def pmm.defs)
  show "pmm_inv fork_demo" using thread_demo_facts(1) pmm_part(1) [OF tr] by simp
  have f: "free_frames fork_demo = free_frames thread_demo"
    using pmm_part(2) [OF tr] by (simp add: free_frames_def managed_def nframes_def fork_demo_def)
  then show "free_frames fork_demo = {1..<65}" using thread_demo_facts(2) by simp
  show "off_free fork_demo {4096}" using thread_demo_facts(5) f by (simp add: off_free_def)
  show "current fork_demo = 4096" "user_ready fork_demo"
    "unat (first_frame fork_demo) + nframes fork_demo \<le> 2 ^ 28"
    by (simp_all add: fork_demo_def thread_demo_def cow_demo_def user_ready_def stack_ok_def resched_wanted_def
        sizeof_task_stack_def nframes_def)
qed

lemma fork_demo_forks:
  obtains s2 where "sys_fork (entered r fork_demo) = Some (2, s2)"
proof -
  let ?e = "entered r fork_demo"
  have tr: "pmm.truncate ?e = pmm.truncate fork_demo" by (simp add: entered_def pmm.defs)
  have f: "free_frames ?e = {1..<65}" "first_frame ?e = first_frame fork_demo" "nframes ?e = nframes fork_demo"
    using fork_demo_facts(3)
    by (simp_all add: entered_def nframes_def free_frames_def used_frames_def managed_def)
  have i: "pmm_inv ?e" "free_frames ?e \<noteq> {}" "unat (first_frame ?e) + nframes ?e \<le> 2 ^ 28"
    using fork_demo_facts pmm_part(1) [OF tr] f by simp_all
  have t: "task_of ?e 4096 = Some (demo_task TASK_RUNNING)" "next_free_pid ?e = 2" "current ?e = 4096"
    by (simp_all add: entered_def fork_demo_def thread_demo_def cow_demo_def demo_tasks_def)
  have n0: "0 \<le> next_free_pid ?e" by (simp add: t(2))
  obtain p s1 g where a: "alloc_task 4096 ?e = Some (p, next_free_pid ?e, s1)" "pmm_inv s1"
    "free_frames s1 = free_frames ?e - {g}" "first_frame s1 = first_frame ?e" "nframes s1 = nframes ?e"
    "tables s1 = tables ?e" "task_of s1 = (task_of ?e)(p \<mapsto> (demo_task TASK_RUNNING)\<lparr>t_pid := next_free_pid ?e\<rparr>)"
    "current s1 = current ?e" "\<forall>c. c \<noteq> p \<longrightarrow> nxt (lnk s1) (Vm_areas c) = nxt (lnk ?e) (Vm_areas c)"
    by (rule alloc_task_total [OF i t(1) n0])
  have fr: "free_frames s1 \<noteq> {}"
  proof -
    have "1 \<in> free_frames s1 \<or> 2 \<in> free_frames s1" using a(3) f(1) by auto
    then show ?thesis by auto
  qed
  have p: "p \<noteq> 4096"
    using alloc_task_fresh [OF i, of "{4096}"] fork_demo_facts(4) a(1) f fork_demo_facts(3) by (auto simp: off_free_def)
  have c1: "current s1 = 4096" using a(8) t(3) by simp
  have "\<exists>s2. clone_mm p s1 = Some (0, s2)"
  proof (rule clone_mm_empty [OF a(2) fr])
    show "unat (first_frame s1) + nframes s1 \<le> 2 ^ 28" using i(3) a(4,5) by simp
    show "task_of s1 (current s1) = Some (demo_task TASK_RUNNING)" using a(7) p t(1) c1 by simp
    show "task_of s1 p \<noteq> None" by (simp add: a(7))
    show "\<not> pte_present (tables s1 (frame_of (t_page_dir (demo_task TASK_RUNNING))) i)" for i
      by (simp add: a(6) entered_def fork_demo_def pte_present_def pte_zero_def)
    show "nxt (lnk s1) (Vm_areas (current s1)) = Vm_areas (current s1)"
      using a(9) [rule_format, of 4096] p c1 by (simp add: entered_def fork_demo_def list_init_def)
  qed
  then obtain s2 where c: "clone_mm p s1 = Some (0, s2)" by blast
  have "pids s2 p \<noteq> None" using clone_mm_pids [OF c] a(7) by (simp add: pids_def)
  then obtain t2 where t2: "task_of s2 p = Some t2" by (auto simp: pids_def)
  have al: "alloc_task (current ?e) ?e = Some (p, 2, s1)" using a(1) t(2,3) by simp
  show ?thesis
    by (rule that) (simp add: sys_fork_def al c t2 set_task_def)
qed

theorem fork_returns_twice_witness:
  "\<exists>p q s'. system_call demo_env (call_regs 1 5 0 0) fork_demo = Some (Some q, s') \<and>
     arg_int (reg_rax q) = 2 \<and> reg_rdi q = 5 \<and> p \<noteq> 4096 \<and> (\<exists>t. task_of s' p = Some t \<and> t_pid t = 2)"
proof -
  let ?r = "call_regs 1 5 0 0"
  obtain s2 where s2: "sys_fork (entered ?r fork_demo) = Some (2, s2)" by (rule fork_demo_forks)
  have "free_frames fork_demo \<noteq> {}" "off_free fork_demo {current fork_demo}"
    using fork_demo_facts(3,4,6) by simp_all
  from fork_returns_twice [OF fork_demo_facts(1) _ fork_demo_facts(2) this(1) fork_demo_facts(5) this(2) s2, of demo_env]
  obtain p q s' where "system_call demo_env ?r fork_demo = Some (Some q, s')"
    "user_resumes ?r (int_rax demo_env 2) q" "p \<noteq> 4096" "\<exists>t. task_of s' p = Some t \<and> t_pid t = 2"
    using fork_demo_facts(6) by auto
  moreover have "arg_int (int_rax demo_env 2) = 2" by (rule arg_int_rax) simp_all
  ultimately show ?thesis by (auto simp: user_resumes_def)
qed

end
