(* ===== verification/User.thy ===== *)
theory User
  imports EntryProps
begin

text \<open>
  The test program that runs as the first process, \<open>src/usr/prog.c\<close>: its system-call wrappers,
  string routines, allocator, the walk through the file system and \<open>main\<close>.

  The program's variables are in byte memory, but for the allocator's index.  What is placed by the
  compiler is a parameter: the addresses of string literals, arrays and locals.  A call that
  switches to another task returns when that task gives way; \<open>u_back\<close> stands for what happens
  until then.
\<close>

section \<open>System calls\<close>

record user = kstate +
  malloc_ptr :: int

record 's user_env =
  u_env :: "'s sys_env"
  u_back :: "nat \<Rightarrow> 's \<Rightarrow> (regs \<times> 's) option"
  u_regs :: regs
  u_lit :: "string \<Rightarrow> u64"
  u_heap :: nat

text \<open>The macros \<open>SYSCALL0\<close> to \<open>SYSCALL6\<close>: the number in \<open>rax\<close>, the arguments in
  \<open>rdi\<close>, \<open>rsi\<close>, \<open>rdx\<close>, \<open>r10\<close>, \<open>r8\<close> and \<open>r9\<close>, the result in \<open>rax\<close>.\<close>

definition nth_or :: "u64 list \<Rightarrow> nat \<Rightarrow> u64 \<Rightarrow> u64" where
  "nth_or xs i d = (if i < length xs then xs ! i else d)"

definition set_args :: "u64 \<Rightarrow> u64 list \<Rightarrow> regs \<Rightarrow> regs" where
  "set_args nr xs r = r\<lparr>reg_rax := nr, reg_rdi := nth_or xs 0 (reg_rdi r), reg_rsi := nth_or xs 1 (reg_rsi r),
     reg_rdx := nth_or xs 2 (reg_rdx r), reg_r10 := nth_or xs 3 (reg_r10 r), reg_r8 := nth_or xs 4 (reg_r8 r),
     reg_r9 := nth_or xs 5 (reg_r9 r)\<rparr>"

definition SYSCALL ::
  "'z kstate_scheme user_env \<Rightarrow> u64 \<Rightarrow> u64 list \<Rightarrow> 'z kstate_scheme \<Rightarrow> (u64 \<times> 'z kstate_scheme) option" where
  "SYSCALL u nr args s =
    do {
      (ret, s1) \<leftarrow> system_call (u_env u) (set_args nr args (u_regs u)) s;
      (case ret of
         Some q \<Rightarrow> Some (reg_rax q, s1)
       | None \<Rightarrow> do { (q, s2) \<leftarrow> u_back u (current s) s1; Some (reg_rax q, s2) })
    }"

text \<open>Wrappers of type \<open>long\<close> and \<open>int\<close>.\<close>

definition long_call ::
  "'z kstate_scheme user_env \<Rightarrow> u64 \<Rightarrow> u64 list \<Rightarrow> 'z kstate_scheme \<Rightarrow> (int \<times> 'z kstate_scheme) option" where
  "long_call u nr args s = map_option (map_prod sint id) (SYSCALL u nr args s)"

definition int_call ::
  "'z kstate_scheme user_env \<Rightarrow> u64 \<Rightarrow> u64 list \<Rightarrow> 'z kstate_scheme \<Rightarrow> (int \<times> 'z kstate_scheme) option" where
  "int_call u nr args s = map_option (map_prod arg_int id) (SYSCALL u nr args s)"

text \<open>An \<open>int\<close> argument is sign-extended, a pointer or a \<open>u32\<close> zero-extended.\<close>

definition u_printk where "u_printk u p = long_call u 0 [p]"
definition u_printk2 where "u_printk2 u p a b c = long_call u 0 [p, a, b, c]"
definition u_fork where "u_fork u = long_call u 1 []"
definition u_exec where "u_exec u p = long_call u 2 [p]"
definition u_exit where "u_exit u = long_call u 3 []"
definition u_getpid where "u_getpid u = int_call u 4 []"
definition u_pause where "u_pause u = int_call u 5 []"
definition u_yield where "u_yield u = int_call u 6 []"
definition u_usleep where "u_usleep u (n :: int) = int_call u 7 [word_of_int n]"
definition u_getdents where
  "u_getdents u p buf (n :: u32) (i :: int) = int_call u 8 [p, buf, ucast n, word_of_int i]"
definition u_open where "u_open u p (i :: int) = int_call u 9 [p, word_of_int i]"
definition u_close where "u_close u (fd :: int) = int_call u 10 [word_of_int fd]"
definition u_read where "u_read u (fd :: int) buf (n :: u32) = int_call u 11 [word_of_int fd, buf, ucast n]"
definition u_write where "u_write u (fd :: int) buf (n :: u32) = int_call u 12 [word_of_int fd, buf, ucast n]"
definition u_lseek where
  "u_lseek u (fd :: int) (n :: u32) (w :: int) = int_call u 13 [word_of_int fd, ucast n, word_of_int w]"
definition u_mkdir where "u_mkdir u p = int_call u 14 [p]"
definition u_rmdir where "u_rmdir u p = int_call u 15 [p]"
definition u_unlink where "u_unlink u p = int_call u 16 [p]"
definition u_mount where "u_mount u ty p = int_call u 17 [ty, p]"

section \<open>Strings\<close>

text \<open>The program has copies of the kernel's assembly loops.\<close>

definition u_strcpy :: "nat \<Rightarrow> nat \<Rightarrow> mem \<Rightarrow> (nat \<times> mem) option" where
  "u_strcpy dest src m = do { m1 \<leftarrow> strcpy_loop dest src m; Some (dest, m1) }"

definition u_strlen :: "nat \<Rightarrow> mem \<Rightarrow> u32" where
  "u_strlen s m = ucast (NOT (of_nat (scasb 0xFFFFFFFF s m)) - 1 :: u64)"

definition u_strcat :: "nat \<Rightarrow> nat \<Rightarrow> mem \<Rightarrow> (nat \<times> mem) option" where
  "u_strcat dest src m =
    do {
      (d, m1) \<leftarrow> u_strcpy (nat (int dest + sint (u_strlen dest m))) src m;
      Some (dest, m1)
    }"

section \<open>Memory\<close>

definition malloc_size :: int where "malloc_size = 2 ^ 20"

text \<open>After the message and \<open>pause\<close> the allocation goes on.\<close>

definition malloc :: "'z user_scheme user_env \<Rightarrow> int \<Rightarrow> 'z user_scheme \<Rightarrow> (nat \<times> 'z user_scheme) option" where
  "malloc u sz s =
    do {
      let s1 = s\<lparr>malloc_ptr := (malloc_ptr s + 7) sdiv 8 * 8\<rparr>;
      s2 \<leftarrow> (if malloc_ptr s1 + sz > malloc_size then do {
          (r, s3) \<leftarrow> u_printk2 u (u_lit u (line ''OUT OF MEMORY %d'')) (word_of_int sz) 0 0 s1;
          (r, s4) \<leftarrow> u_pause u s3;
          Some s4
        }
        else Some s1);
      let p = nat (int (u_heap u) + malloc_ptr s2);
      Some (p, s2\<lparr>malloc_ptr := malloc_ptr s2 + sz\<rparr>)
    }"

definition free_mem :: "nat \<Rightarrow> 'z user_scheme \<Rightarrow> 'z user_scheme" where
  "free_mem p s = s"

section \<open>The walk through the file system\<close>

text \<open>The function's three places: its start, the loop over the calls of \<open>getdents\<close>, the loop over
  the entries in the buffer, which is at \<open>frame k\<close> in the \<open>k\<close>-th nested call.\<close>

datatype user_tree =
    U_tree nat
  | U_scan nat int
  | U_entry nat nat nat nat

definition u_ends_in_slash :: "nat \<Rightarrow> mem \<Rightarrow> bool" where
  "u_ends_in_slash path m \<longleftrightarrow> m (path + unat (u_strlen path m - 1)) = 47"

text \<open>The new path: \<open>path\<close>, a slash if it does not end in one, and \<open>name\<close>.\<close>

definition join_path ::
  "'z user_scheme user_env \<Rightarrow> nat \<Rightarrow> nat \<Rightarrow> 'z user_scheme \<Rightarrow> (nat \<times> 'z user_scheme) option" where
  "join_path u path name s =
    do {
      (p, s1) \<leftarrow> malloc u (sint (u_strlen path (mem s) + 1 + u_strlen name (mem s) + 1)) s;
      (r1, m1) \<leftarrow> u_strcpy p path ((mem s1)(p := 0));
      (r2, m2) \<leftarrow> (if \<not> u_ends_in_slash path m1 then u_strcat p (unat (u_lit u ''/'')) m1 else Some (p, m1));
      (r3, m3) \<leftarrow> u_strcat p name m2;
      Some (p, s1\<lparr>mem := m3\<rparr>)
    }"

partial_function (option) user_tree_go ::
  "'z user_scheme user_env \<Rightarrow> (nat \<Rightarrow> nat) \<Rightarrow> nat \<Rightarrow> user_tree \<Rightarrow> 'z user_scheme \<Rightarrow> 'z user_scheme option" where
  "user_tree_go u frame k pos s =
    (case pos of
       U_tree path \<Rightarrow> do {
         (r, s1) \<leftarrow> u_printk2 u (u_lit u (line ''D %s'')) (of_nat path) 0 0 s;
         user_tree_go u frame k (U_scan path 0) s1
       }
     | U_scan path st \<Rightarrow> do {
         (count, s1) \<leftarrow> u_getdents u (of_nat path) (of_nat (frame k)) 100 st s;
         if count < 0 then do {
           (r, s2) \<leftarrow> u_printk2 u (u_lit u (line ''count=%d'')) (word_of_int count) 0 0 s1;
           Some s2
         }
         else if count = 0 then Some s1
         else do {
           s2 \<leftarrow> user_tree_go u frame k (U_entry path 0 (nat count) (frame k)) s1;
           user_tree_go u frame k (U_scan path (st + count)) s2
         }
       }
     | U_entry path i count dp \<Rightarrow>
         if count \<le> i then Some s
         else do {
           s2 \<leftarrow> (if DIR_TYPE (load32 (dp + 4) (mem s)) = DIR_DIR then do {
               (p, s1) \<leftarrow> join_path u path (dp + 12) s;
               s3 \<leftarrow> user_tree_go u frame (Suc k) (U_tree p) s1;
               Some (free_mem p s3)
             }
             else do {
               let sep = u_lit u (if u_ends_in_slash path (mem s) then [] else ''/'');
               (r, s1) \<leftarrow> u_printk2 u (u_lit u (line ''F %s%s%s'')) (of_nat path) sep (of_nat (dp + 12)) s;
               Some s1
             });
           user_tree_go u frame k (U_entry path (i + 1) count (frame k + unat (load32 dp (mem s2)))) s2
         })"

definition user_tree ::
  "'z user_scheme user_env \<Rightarrow> (nat \<Rightarrow> nat) \<Rightarrow> nat \<Rightarrow> 'z user_scheme \<Rightarrow> 'z user_scheme option" where
  "user_tree u frame path s = user_tree_go u frame 0 (U_tree path) s"

section \<open>The main program\<close>

text \<open>\<open>if (err < 0) { printk2(...); pause(); }\<close>\<close>

definition report ::
  "'z user_scheme user_env \<Rightarrow> string \<Rightarrow> int \<Rightarrow> 'z user_scheme \<Rightarrow> 'z user_scheme option" where
  "report u what err s =
    (if err < 0 then do {
       (r, s1) \<leftarrow> u_printk2 u (u_lit u (what @ line ''=%d'')) (word_of_int err) 0 0 s;
       (r, s2) \<leftarrow> u_pause u s1;
       Some s2
     }
     else Some s)"

text \<open>The loop that echoes the console; \<open>k\<close> is the address of the array of that name.\<close>

partial_function (option) echo_loop ::
  "'z user_scheme user_env \<Rightarrow> nat \<Rightarrow> int \<Rightarrow> 'z user_scheme \<Rightarrow> 'z user_scheme option" where
  "echo_loop u k fd s =
    do {
      (err, s1) \<leftarrow> u_read u fd (of_nat k) 10 s;
      let s2 = s1\<lparr>mem := (mem s1)(nat (int k + err) := 0)\<rparr>;
      (r, s3) \<leftarrow> u_write u fd (of_nat k) (word_of_int err) s2;
      if err > 0 \<and> mem s3 (nat (int k + err - 1)) \<noteq> 10 then echo_loop u k fd s3 else Some s3
    }"

text \<open>Behind \<open>pause\<close>: the two loops that the child and the parent of a fork do not leave.\<close>

partial_function (option) child_loop :: "'z user_scheme user_env \<Rightarrow> 'z user_scheme \<Rightarrow> 'z user_scheme option" where
  "child_loop u s =
    do {
      (n, s1) \<leftarrow> u_getpid u s;
      (r, s2) \<leftarrow> u_printk2 u (u_lit u (line ''child: pid=%d'')) (word_of_int n) 0 0 s1;
      (r, s3) \<leftarrow> u_usleep u 1000000 s2;
      child_loop u s3
    }"

partial_function (option) parent_loop ::
  "'z user_scheme user_env \<Rightarrow> int \<Rightarrow> 'z user_scheme \<Rightarrow> 'z user_scheme option" where
  "parent_loop u pid s =
    do {
      (n, s1) \<leftarrow> u_getpid u s;
      (r, s2) \<leftarrow> u_printk2 u (u_lit u (line ''parent: pid=%d, child=%d'')) (word_of_int n) (word_of_int pid) 0 s1;
      (r, s3) \<leftarrow> u_usleep u 1000000 s2;
      parent_loop u pid s3
    }"

definition fork_demo_code ::
  "'z user_scheme user_env \<Rightarrow> nat \<Rightarrow> 'z user_scheme \<Rightarrow> 'z user_scheme option" where
  "fork_demo_code u a s =
    do {
      (r, s1) \<leftarrow> u_usleep u 1000000 s;
      (r, s2) \<leftarrow> u_printk u (u_lit u (line ''start2'')) s1;
      let s3 = s2\<lparr>mem := (mem s2)(a := 49, a + 1 := 10)\<rparr>;
      (ret, s4) \<leftarrow> u_fork u s3;
      let pid = arg_int (word_of_int ret);
      if pid = 0 then do {
        (r, s5) \<leftarrow> u_usleep u 500000 s4;
        child_loop u s5
      }
      else parent_loop u pid s4
    }"

text \<open>\<open>k\<close> and \<open>a\<close> are the addresses of the arrays \<open>k\<close> and \<open>s\<close>.\<close>

definition user_main ::
  "'z user_scheme user_env \<Rightarrow> (nat \<Rightarrow> nat) \<Rightarrow> nat \<Rightarrow> nat \<Rightarrow> 'z user_scheme \<Rightarrow> 'z user_scheme option" where
  "user_main u frame k a s =
    do {
      (r, s1) \<leftarrow> u_printk u (u_lit u (line ''start'')) s;
      s2 \<leftarrow> user_tree u frame (unat (u_lit u ''/'')) s1;
      (fd, s3) \<leftarrow> u_open u (u_lit u ''/dev/platform/console/dev'') 3 s2;
      s4 \<leftarrow> report u ''fd'' fd s3;
      let str = u_lit u ([CHR ''i'', CHR 0x27] @ line ''m writing!!'');
      (err, s5) \<leftarrow> u_write u fd str (u_strlen (unat str) (mem s4)) s4;
      s6 \<leftarrow> report u ''err'' err s5;
      s7 \<leftarrow> echo_loop u k fd s6;
      (err2, s8) \<leftarrow> u_close u fd s7;
      s9 \<leftarrow> report u ''close'' err2 s8;
      (r, s10) \<leftarrow> u_pause u s9;
      fork_demo_code u a s10
    }"

text \<open>The start code: \<open>main\<close>, then the call with number 3.\<close>

definition user_start ::
  "'z user_scheme user_env \<Rightarrow> (nat \<Rightarrow> nat) \<Rightarrow> nat \<Rightarrow> nat \<Rightarrow> 'z user_scheme \<Rightarrow> 'z user_scheme option" where
  "user_start u frame k a s = do { s1 \<leftarrow> user_main u frame k a s; (r, s2) \<leftarrow> SYSCALL u 3 [] s1; Some s2 }"

end
