(* ===== verification/UserProps.thy ===== *)
theory UserProps
  imports User
begin

text \<open>
  The test program: its allocator returns disjoint blocks, its wrappers return what the kernel's
  functions return, and the walk through the file system joins path names correctly.
\<close>

section \<open>The allocator\<close>

lemma malloc_in_bounds:
  assumes "0 \<le> malloc_ptr s" "0 \<le> sz" "malloc_ptr s + 7 + sz \<le> malloc_size"
  shows "\<exists>b. malloc u sz s = Some (u_heap u + nat b, s\<lparr>malloc_ptr := b + sz\<rparr>) \<and> malloc_ptr s \<le> b \<and>
    b \<le> malloc_ptr s + 7 \<and> b mod 8 = 0"
proof -
  let ?b = "(malloc_ptr s + 7) div 8 * 8"
  have q: "(malloc_ptr s + 7) sdiv 8 = (malloc_ptr s + 7) div 8"
    using assms(1) by (simp add: signed_divide_int_def)
  have b: "malloc_ptr s \<le> ?b" "?b \<le> malloc_ptr s + 7" "?b mod 8 = 0" "0 \<le> ?b" using assms(1) by presburger+
  then have "malloc u sz s = Some (u_heap u + nat ?b, s\<lparr>malloc_ptr := ?b + sz\<rparr>)"
    using assms by (simp add: malloc_def q nat_add_distrib)
  with b show ?thesis by (intro exI [of _ ?b] conjI)
qed

fun mallocs :: "'z user_scheme user_env \<Rightarrow> int list \<Rightarrow> 'z user_scheme \<Rightarrow> (nat list \<times> 'z user_scheme) option" where
  "mallocs u [] s = Some ([], s)"
| "mallocs u (n # ns) s =
    do { (p, s1) \<leftarrow> malloc u n s; (ps, s2) \<leftarrow> mallocs u ns s1; Some (p # ps, s2) }"

text \<open>Blocks one behind the other, from an address on.\<close>

fun laid_out :: "nat \<Rightarrow> nat list \<Rightarrow> int list \<Rightarrow> bool" where
  "laid_out a [] [] \<longleftrightarrow> True"
| "laid_out a (p # ps) (n # ns) \<longleftrightarrow> a \<le> p \<and> laid_out (p + nat n) ps ns"
| "laid_out a _ _ \<longleftrightarrow> False"

lemma mallocs_spec:
  assumes "0 \<le> malloc_ptr s" "\<forall>n \<in> set ns. 0 \<le> n" "malloc_ptr s + sum_list (map (\<lambda>n. n + 7) ns) \<le> malloc_size"
  shows "\<exists>ps m. mallocs u ns s = Some (ps, s\<lparr>malloc_ptr := m\<rparr>) \<and> length ps = length ns \<and>
    malloc_ptr s \<le> m \<and> m \<le> malloc_size \<and>
    laid_out (u_heap u + nat (malloc_ptr s)) ps ns \<and>
    (\<forall>i < length ns. ps ! i + nat (ns ! i) \<le> u_heap u + nat m \<and> (ps ! i - u_heap u) mod 8 = 0)"
  using assms
proof (induction ns arbitrary: s)
  case Nil
  have "s = s\<lparr>malloc_ptr := malloc_ptr s\<rparr>" by simp
  with Nil show ?case by (intro exI [of _ "[]"] exI [of _ "malloc_ptr s"]) simp
next
  case (Cons n ns)
  have nn: "0 \<le> sum_list (map (\<lambda>n. n + 7) ns)" using Cons.prems(2) by (intro sum_list_nonneg) auto
  obtain b where b: "malloc u n s = Some (u_heap u + nat b, s\<lparr>malloc_ptr := b + n\<rparr>)" "malloc_ptr s \<le> b"
    "b \<le> malloc_ptr s + 7" "b mod 8 = 0"
    using malloc_in_bounds [of s n u] Cons.prems nn by auto
  let ?s = "s\<lparr>malloc_ptr := b + n\<rparr>"
  have "0 \<le> malloc_ptr ?s" "malloc_ptr ?s + sum_list (map (\<lambda>n. n + 7) ns) \<le> malloc_size"
    using b Cons.prems by simp_all
  with Cons.IH [of ?s] Cons.prems(2) obtain ps m where
    i: "mallocs u ns ?s = Some (ps, ?s\<lparr>malloc_ptr := m\<rparr>)" "length ps = length ns" "b + n \<le> m" "m \<le> malloc_size"
    "laid_out (u_heap u + nat (b + n)) ps ns"
    "\<forall>i < length ns. ps ! i + nat (ns ! i) \<le> u_heap u + nat m \<and> (ps ! i - u_heap u) mod 8 = 0" by auto
  have b0: "0 \<le> b" "0 \<le> n" using b(2) Cons.prems by auto
  have n1: "nat (b + n) = nat b + nat n" using b0 by (rule nat_add_distrib)
  have "nat b mod 8 = 0" using b(4) b0(1) by presburger
  moreover have "u_heap u + nat b + nat n \<le> u_heap u + nat m" using i(3) b0 n1 by linarith
  ultimately have "\<forall>j < length (n # ns). ((u_heap u + nat b) # ps) ! j + nat ((n # ns) ! j) \<le> u_heap u + nat m \<and>
      (((u_heap u + nat b) # ps) ! j - u_heap u) mod 8 = 0"
    using i(6) by (auto simp: less_Suc_eq_0_disj)
  moreover have "laid_out (u_heap u + nat (malloc_ptr s)) ((u_heap u + nat b) # ps) (n # ns)"
    using i(5) b(2) n1 by (simp add: add.assoc)
  ultimately show ?case using b(1,2) i(1-4) b0
    by (auto intro!: exI [of _ "(u_heap u + nat b) # ps"] exI [of _ m])
qed

lemma laid_out_ge: "laid_out a ps ns \<Longrightarrow> k < length ps \<Longrightarrow> a \<le> ps ! k"
  by (induction a ps ns arbitrary: k rule: laid_out.induct) (fastforce simp: less_Suc_eq_0_disj)+

lemma laid_out_disjoint:
  assumes "laid_out a ps ns" "i < j" "j < length ps"
  shows "ps ! i + nat (ns ! i) \<le> ps ! j"
  using assms
proof (induction a ps ns arbitrary: i j rule: laid_out.induct)
  case (2 a p ps n ns)
  then show ?case using laid_out_ge [of "p + nat n" ps ns] by (cases i; cases j) auto
qed auto

text \<open>C29: As long as the requests fit into its megabyte (counting up to seven bytes of padding each),
  the program's allocator returns blocks inside the array, aligned to 8 bytes from its start
  and disjoint from one another, without any system call.\<close>

theorem user_malloc_disjoint:
  assumes "0 \<le> malloc_ptr s" "\<forall>n \<in> set ns. 0 \<le> n" "malloc_ptr s + sum_list (map (\<lambda>n. n + 7) ns) \<le> malloc_size"
  shows "\<exists>ps m. mallocs u ns s = Some (ps, s\<lparr>malloc_ptr := m\<rparr>) \<and> length ps = length ns \<and>
    (\<forall>i < length ns. u_heap u + nat (malloc_ptr s) \<le> ps ! i \<and> ps ! i + nat (ns ! i) \<le> u_heap u + nat malloc_size \<and>
       (ps ! i - u_heap u) mod 8 = 0 \<and> (\<forall>j < length ns. i < j \<longrightarrow> ps ! i + nat (ns ! i) \<le> ps ! j))"
proof -
  obtain ps m where p: "mallocs u ns s = Some (ps, s\<lparr>malloc_ptr := m\<rparr>)" "length ps = length ns"
    "m \<le> malloc_size" "laid_out (u_heap u + nat (malloc_ptr s)) ps ns"
    "\<forall>i < length ns. ps ! i + nat (ns ! i) \<le> u_heap u + nat m \<and> (ps ! i - u_heap u) mod 8 = 0"
    using mallocs_spec [OF assms] by blast
  have "nat m \<le> nat malloc_size" using p(3) by simp
  then have e: "\<forall>i < length ns. ps ! i + nat (ns ! i) \<le> u_heap u + nat malloc_size" using p(5) by fastforce
  show ?thesis
    using p(1,2,5) e laid_out_ge [OF p(4)] laid_out_disjoint [OF p(4)] by (intro exI [of _ ps] exI [of _ m]) simp
qed

definition user_demo :: user where
  "user_demo = kstate.extend entry_demo (user.fields 0)"

theorem user_malloc_disjoint_witness:
  "\<forall>u :: user user_env. \<exists>ps m. mallocs u [3, 10, 0] user_demo = Some (ps, user_demo\<lparr>malloc_ptr := m\<rparr>) \<and>
     ps ! 0 + 3 \<le> ps ! 1 \<and> ps ! 1 + 10 \<le> ps ! 2"
proof
  fix u :: "user user_env"
  have m: "malloc_ptr user_demo = 0" by (simp add: user_demo_def user.defs kstate.defs)
  obtain ps m where r: "mallocs u [3, 10, 0] user_demo = Some (ps, user_demo\<lparr>malloc_ptr := m\<rparr>)" "length ps = 3"
    "\<forall>i < 3. \<forall>j < 3. i < j \<longrightarrow> ps ! i + nat ([3, 10, 0] ! i) \<le> ps ! j"
    using user_malloc_disjoint [of user_demo "[3, 10, 0]" u] m by (auto simp: malloc_size_def numeral_3_eq_3)
  have "ps ! 0 + 3 \<le> ps ! 1" "ps ! 1 + 10 \<le> ps ! 2"
    using r(3) [rule_format, of 0 1] r(3) [rule_format, of 1 2] by simp_all
  then show "\<exists>ps m. mallocs u [3, 10, 0] user_demo = Some (ps, user_demo\<lparr>malloc_ptr := m\<rparr>) \<and>
     ps ! 0 + 3 \<le> ps ! 1 \<and> ps ! 1 + 10 \<le> ps ! 2" using r(1) by blast
qed

definition calls_kernel ::
  "'z kstate_scheme user_env \<Rightarrow> 'z kstate_scheme \<Rightarrow> nat \<Rightarrow> u64 list \<Rightarrow>
     ('z kstate_scheme \<Rightarrow> (int \<times> 'z kstate_scheme) option) \<Rightarrow> ('z kstate_scheme \<Rightarrow> (int \<times> 'z kstate_scheme) option) \<Rightarrow> bool" where
  "calls_kernel u s n args f g \<longleftrightarrow>
    (\<forall>r s2. f (entered (set_args (of_nat n) args (u_regs u)) s) = Some (r, s2) \<and> - (2 ^ 31) \<le> r \<and> r < 2 ^ 31 \<longrightarrow>
      (\<exists>s'. g s = Some (r, s') \<and> fstate.truncate s' = fstate.truncate s2 \<and> user_ready s'))"

lemma calls_kernelI:
  fixes s :: "'z kbd_scheme"
  assumes "user_ready s" "only_console rsm q (env_drv (u_env u))" "8 \<le> n" "n < NUM_SYSCALLS"
    and rd: "n = 11 \<Longrightarrow> device_fd (arg_int (reg_rdi (set_args (of_nat n) args (u_regs u)))) s \<Longrightarrow> klen s \<noteq> 0"
    and f: "\<And>e. e = entered (set_args (of_nat n) args (u_regs u)) s \<Longrightarrow>
      call_function (u_env u) (sys_call_table ! n) (syscall_frame (set_args (of_nat n) args (u_regs u))) e =
        int_result (u_env u) (f e)"
    and g: "\<And>s. g s = int_call u (of_nat n) args s"
  shows "calls_kernel u s n args f g"
  unfolding calls_kernel_def
proof (intro allI impI, elim conjE)
  fix r s2
  let ?r = "set_args (of_nat n) args (u_regs u)"
  assume r: "f (entered ?r s) = Some (r, s2)" "- (2 ^ 31) \<le> r" "r < 2 ^ 31"
  have c: "call_function (u_env u) (sys_call_table ! n) (syscall_frame ?r) (entered ?r s) =
      Some (Some (int_rax (u_env u) r), s2)"
    using f [OF refl] r(1) by (simp add: int_result_def)
  have ok: "stack_ok s" "\<not> resched_wanted s" using assms(1) by (simp_all add: user_ready_def)
  have nr: "reg_rax ?r = of_nat n" by (simp add: set_args_def)
  obtain v where v: "Some (int_rax (u_env u) r) = Some v"
    "system_call (u_env u) ?r s = Some (Some (resumed ?r v), left ?r v s2)" "pdt_only (entered ?r s) s2"
  proof (rule file_syscall_spec [OF ok console_drivers_keep [OF assms(2)] nr assms(3,4) _ c])
    show "reads_keep same_tasks (env_drv (u_env u)) (entered ?r s)" if "n = 11" "device_fd (arg_int (reg_rdi ?r)) s"
      by (rule console_reads_keep [OF assms(2)]) (use rd [OF that] in \<open>simp add: entered_def\<close>)
  qed
  have "reg_rax (resumed ?r v) = v" using user_resumes_resumed [of ?r v] by (simp add: user_resumes_def)
  moreover have "arg_int v = r" using v(1) r(2,3) arg_int_rax [of r "u_env u"] by simp
  ultimately have "g s = Some (r, left ?r v s2)"
    unfolding g int_call_def SYSCALL_def v(2) by simp
  moreover have "user_ready (left ?r v s2)"
    using v(3) ok by (auto simp: pdt_only_def user_ready_def stack_ok_def resched_wanted_def left_def entered_def)
  ultimately show "\<exists>s'. g s = Some (r, s') \<and> fstate.truncate s' = fstate.truncate s2 \<and> user_ready s'"
    using part_left by blast
qed

lemma set_args_simps [simp]:
  "reg_rdi (set_args n (a # xs) r) = a" "reg_rsi (set_args n (a # b # xs) r) = b"
  "reg_rdx (set_args n (a # b # c # xs) r) = c" "reg_r10 (set_args n (a # b # c # d # xs) r) = d"
  by (simp_all add: set_args_def nth_or_def)

lemma frame_r10 [simp]: "reg_r10 (syscall_frame r) = reg_r10 r"
  by (simp add: syscall_frame_def)

lemma arg_int_of_int: "- (2 ^ 31) \<le> i \<Longrightarrow> i < 2 ^ 31 \<Longrightarrow> arg_int (word_of_int i) = i"
proof -
  assume i: "- (2 ^ 31) \<le> i" "i < 2 ^ 31"
  have "(ucast (word_of_int i :: u64) :: u32) = word_of_int i" by (rule bit_word_eqI) (auto simp: bit_simps)
  then show ?thesis using i by (simp add: arg_int_def int_word_sint)
qed

lemma ucast_u32 [simp]: "ucast (ucast (n :: u32) :: u64) = n"
  by (rule bit_word_eqI) (auto simp: bit_simps)

lemma arg_path_entered [simp]: "arg_path p (entered r s) = arg_path p s"
  by (simp add: arg_path_def entered_def)

text \<open>C24: The wrappers with which a program calls the file system do what the kernel's functions do:
  when the function returns a number that is an \<open>int\<close>, the wrapper returns that number to the
  program, and the file system and the program's memory are as the function left them.  The drivers
  are the console's functions; for \<open>read\<close>, the descriptor is no device's or a character waits in the
  keyboard's buffer, since a reader that finds none sleeps and another task runs.\<close>

theorem user_file_calls:
  fixes s :: "'z kbd_scheme"
  assumes "user_ready s" "only_console rsm q (env_drv (u_env u))"
    and "- (2 ^ 31) \<le> fd" "fd < 2 ^ 31" "- (2 ^ 31) \<le> w" "w < 2 ^ 31"
    and "string_at (mem s) (unat p) = Some path" "string_at (mem s) (unat ty) = Some fstype"
  shows "((device_fd fd s \<longrightarrow> klen s \<noteq> 0) \<longrightarrow>
      calls_kernel u s 11 [word_of_int fd, buf, ucast n] (sys_read (env_drv (u_env u)) fd (unat buf) n) (u_read u fd buf n)) \<and>
    calls_kernel u s 12 [word_of_int fd, buf, ucast n] (sys_write (env_drv (u_env u)) fd (unat buf) n) (u_write u fd buf n) \<and>
    calls_kernel u s 13 [word_of_int fd, ucast n, word_of_int w] (sys_lseek fd n w) (u_lseek u fd n w) \<and>
    calls_kernel u s 10 [word_of_int fd] (sys_close (env_drv (u_env u)) fd) (u_close u fd) \<and>
    calls_kernel u s 9 [p, word_of_int w] (sys_open (env_drv (u_env u)) path (word_of_int w)) (u_open u p w) \<and>
    calls_kernel u s 8 [p, buf, ucast n, word_of_int w] (sys_getdents path (unat buf) n w) (u_getdents u p buf n w) \<and>
    calls_kernel u s 14 [p] (sys_mkdir path) (u_mkdir u p) \<and>
    calls_kernel u s 15 [p] (sys_rmdir path) (u_rmdir u p) \<and>
    calls_kernel u s 16 [p] (sys_unlink path) (u_unlink u p) \<and>
    calls_kernel u s 17 [ty, p] (sys_mount fstype path) (u_mount u ty p)"
proof -
  note rule = calls_kernelI [OF assms(1,2)]
  have path: "arg_path p s = Some path" "arg_path ty s = Some fstype" using assms(7,8) by (simp_all add: arg_path_def)
  have fl: "ucast (word_of_int w :: u64) = (word_of_int w :: u32)" by (rule bit_word_eqI) (auto simp: bit_simps)
  note facts = arg_int_of_int [OF assms(3,4)] arg_int_of_int [OF assms(5,6)] path fl NUM_SYSCALLS_eq
  note defs = sys_call_table_def u_read_def u_write_def u_lseek_def u_close_def u_open_def u_getdents_def
    u_mkdir_def u_rmdir_def u_unlink_def u_mount_def
  show ?thesis by (intro conjI impI rule) (simp_all add: facts defs)
qed

definition console_user_env :: "kbd user_env" where
  "console_user_env = \<lparr>u_env = console_env, u_back = (\<lambda>_ _. None), u_regs = regs_zero, u_lit = (\<lambda>_. 0), u_heap = 4096\<rparr>"

theorem user_file_calls_witness:
  "\<exists>s'. u_read console_user_env 0 4096 4 console_demo = Some (1, s') \<and> mem s' 4096 = 97"
proof -
  have d: "only_console (\<lambda>_. Some) 20480 (env_drv (u_env console_user_env))"
    using console_demo_facts(2) by (simp add: console_user_env_def)
  have str: "string_at (mem console_demo) (unat (0 :: u64)) = Some []" by (simp add: string_at.simps)
  have "calls_kernel console_user_env console_demo 11 [word_of_int 0, 4096, ucast (4 :: u32)]
      (sys_read (env_drv (u_env console_user_env)) 0 (unat (4096 :: u64)) 4) (u_read console_user_env 0 4096 4)"
    using user_file_calls [OF console_demo_facts(1) d _ _ _ _ str str, of 0 0 4096 4] by simp
  moreover obtain s2 where "sys_read (env_drv console_env) 0 4096 4
      (entered (set_args (of_nat 11) [word_of_int 0, 4096, ucast (4 :: u32)] (u_regs console_user_env)) console_demo) = Some (1, s2)"
    "mem s2 4096 = 97" by (rule console_demo_read)
  ultimately obtain s' where "u_read console_user_env 0 4096 4 console_demo = Some (1, s')"
    "fstate.truncate s' = fstate.truncate s2"
    unfolding calls_kernel_def by (fastforce simp: console_user_env_def)
  then show ?thesis using fs_part(6) [of s' s2] \<open>mem s2 4096 = 97\<close> by auto
qed

section \<open>Path names\<close>

lemma u_strlen_cstr: "cstr m s xs \<Longrightarrow> length xs < 0xFFFFFFFF \<Longrightarrow> u_strlen s m = of_nat (length xs)"
  using strlen_cstr by (simp add: u_strlen_def strlen_def)

lemma u_strcpy_cstr:
  assumes "cstr m src xs" "dest + length xs < src \<or> src + length xs < dest"
  obtains m' where "u_strcpy dest src m = Some (dest, m')" "cstr m' dest xs"
    "\<forall>a. a < dest \<or> dest + length xs < a \<longrightarrow> m' a = m a"
proof -
  let ?m = "movsb_up (Suc (length xs)) dest src m"
  have l: "strcpy_loop dest src m = Some ?m" by (rule strcpy_loop_cstr [OF assms(1)]) (use assms(2) in linarith)
  have "?m (dest + i) = m (src + i)" if "i \<le> length xs" for i
    by (rule movsb_up_copy) (use assms(2) that in linarith)+
  then have c: "cstr ?m dest xs" by (rule cstr_cong [OF assms(1)])
  have o: "?m a = m a" if "a < dest \<or> dest + length xs < a" for a
    using that movsb_up_below [of a dest "Suc (length xs)"] movsb_up_above [of dest "Suc (length xs)" a]
    by (auto simp del: movsb_up.simps)
  show ?thesis using c o by (intro that [of ?m]) (simp_all add: u_strcpy_def l del: movsb_up.simps)
qed

lemma sint_u32: "n < 2 ^ 31 \<Longrightarrow> sint (of_nat n :: u32) = int n"
  using int_word_sint [of "int n", where ?'a = 32] by simp

lemma cstr_app: "cstr m a (xs @ ys) \<longleftrightarrow> (\<forall>i < length xs. m (a + i) = xs ! i \<and> xs ! i \<noteq> 0) \<and> cstr m (a + length xs) ys"
  by (induction xs arbitrary: a) (auto simp: All_less_Suc2)

lemma u_strcat_cstr:
  assumes "cstr m dest xs" "cstr m src ys" "length xs < 2 ^ 31"
    and "dest + length xs + length ys < src \<or> src + length ys < dest + length xs"
  obtains m' where "u_strcat dest src m = Some (dest, m')" "cstr m' dest (xs @ ys)"
    "\<forall>a. a < dest + length xs \<or> dest + length xs + length ys < a \<longrightarrow> m' a = m a"
proof -
  have "sint (u_strlen dest m) = int (length xs)"
    using u_strlen_cstr [OF assms(1)] assms(3) by (simp add: sint_u32)
  then have p: "nat (int dest + sint (u_strlen dest m)) = dest + length xs" by simp
  obtain m' where m: "u_strcpy (dest + length xs) src m = Some (dest + length xs, m')"
    "cstr m' (dest + length xs) ys" "\<forall>a. a < dest + length xs \<or> dest + length xs + length ys < a \<longrightarrow> m' a = m a"
    by (rule u_strcpy_cstr [OF assms(2,4)])
  have "u_strcat dest src m = Some (dest, m')" by (simp add: u_strcat_def p m(1))
  moreover have "cstr m' dest (xs @ ys)" using assms(1) m(2,3) by (simp add: cstr_app cstr_nth [of m])
  ultimately show ?thesis using m(3) by (rule that)
qed

text \<open>A string outside the free part of the allocator's array.\<close>

definition clear_of_heap :: "'z user_scheme user_env \<Rightarrow> 'z user_scheme \<Rightarrow> nat \<Rightarrow> u8 list \<Rightarrow> bool" where
  "clear_of_heap u s a xs \<longleftrightarrow> cstr (mem s) a xs \<and>
    (a + length xs < u_heap u + nat (malloc_ptr s) \<or> u_heap u + nat malloc_size \<le> a)"

lemma clear_block:
  assumes "clear_of_heap u s a zs" "u_heap u + nat (malloc_ptr s) \<le> p" "p + n \<le> u_heap u + nat malloc_size"
  shows "a + length zs < p \<or> p + n \<le> a"
    and "\<forall>b. b < p \<or> p + n \<le> b \<longrightarrow> m b = mem s b \<Longrightarrow> cstr m a zs"
proof -
  show o: "a + length zs < p \<or> p + n \<le> a" using assms by (auto simp: clear_of_heap_def)
  have "cstr (mem s) a zs" using assms(1) by (simp add: clear_of_heap_def)
  then show "cstr m a zs" if "\<forall>b. b < p \<or> p + n \<le> b \<longrightarrow> m b = mem s b"
    by (rule cstr_cong) (use o that in force)
qed

lemma ends_in_slash_cstr:
  assumes "cstr m path xs" "xs \<noteq> []" "length xs < 2 ^ 31"
  shows "u_ends_in_slash path m \<longleftrightarrow> last xs = 47"
proof -
  have "u_strlen path m - 1 = of_nat (length xs - 1)"
    using u_strlen_cstr [OF assms(1)] assms(2,3) by (simp add: of_nat_diff Suc_le_eq)
  then have "unat (u_strlen path m - 1) = length xs - 1" using assms(3) by (simp add: unat_of_nat)
  then show ?thesis using assms(1,2) by (simp add: u_ends_in_slash_def cstr_nth last_conv_nth)
qed

text \<open>The slash between the two names, added to the copy at \<open>p\<close>.\<close>

lemma add_slash:
  assumes "cstr m p xs" "length xs < 2 ^ 31" "cstr m lit [47]" "lit + 1 < p \<or> p + length xs + 1 < lit"
  obtains m' where "(if \<not> sl then u_strcat p lit m else Some (p, m)) = Some (p, m')"
    "cstr m' p (xs @ (if sl then [] else [47]))" "\<forall>a. a < p \<or> p + length xs + 1 < a \<longrightarrow> m' a = m a"
proof (cases sl)
  case True
  then show ?thesis using that [of m] assms(1) by simp
next
  case False
  have d: "p + length xs + length [47 :: u8] < lit \<or> lit + length [47 :: u8] < p + length xs"
    using assms(4) by auto
  obtain m' where "u_strcat p lit m = Some (p, m')" "cstr m' p (xs @ [47])"
    "\<forall>a. a < p + length xs \<or> p + length xs + length [47 :: u8] < a \<longrightarrow> m' a = m a"
    by (rule u_strcat_cstr [OF assms(1,3,2) d])
  then show ?thesis using that [of m'] False by simp
qed

text \<open>C31: The path that the walk goes on with is the directory's path, a slash unless it ends in one,
  and the entry's name, in a new block of the allocator; no other byte of memory is changed and
  the block has room for the terminator.\<close>

theorem join_path_correct:
  fixes xs ys :: "u8 list"
  defines "n \<equiv> length xs + length ys + 2"
  assumes "0 \<le> malloc_ptr s" "malloc_ptr s + 7 + int n \<le> malloc_size" "xs \<noteq> []"
    and src: "clear_of_heap u s path xs" "clear_of_heap u s name ys" "clear_of_heap u s (unat (u_lit u ''/'')) [47]"
  shows "\<exists>p s'. join_path u path name s = Some (p, s') \<and>
    cstr (mem s') p (xs @ (if last xs = 47 then [] else [47]) @ ys) \<and>
    u_heap u + nat (malloc_ptr s) \<le> p \<and> p + n = u_heap u + nat (malloc_ptr s') \<and>
    (\<forall>a. a < p \<or> p + n \<le> a \<longrightarrow> mem s' a = mem s a)"
proof -
  have n: "n < 2 ^ 31 - 1" using assms(2,3) by (simp add: malloc_size_def)
  obtain b where b: "malloc u (int n) s = Some (u_heap u + nat b, s\<lparr>malloc_ptr := b + int n\<rparr>)"
    "malloc_ptr s \<le> b" "b \<le> malloc_ptr s + 7"
    using malloc_in_bounds [of s "int n" u] assms(2,3) by auto
  define p where "p = u_heap u + nat b"
  have p: "u_heap u + nat (malloc_ptr s) \<le> p" "p + n \<le> u_heap u + nat malloc_size"
    using b(2,3) assms(2,3) by (simp_all add: p_def)
  note out = clear_block(1) [OF _ p] and keep = clear_block(2) [OF _ p]
  have xl: "u_strlen path (mem s) = of_nat (length xs)" "u_strlen name (mem s) = of_nat (length ys)"
    using src n u_strlen_cstr [of "mem s"] by (simp_all add: n_def clear_of_heap_def)
  have sz: "sint (u_strlen path (mem s) + 1 + u_strlen name (mem s) + 1) = int n"
    using sint_u32 [of n] n by (simp add: xl n_def add.commute add.left_commute)
  have c0: "cstr ((mem s)(p := 0)) path xs" by (rule keep [OF src(1)]) (auto simp: n_def)
  obtain m1 where m1: "u_strcpy p path ((mem s)(p := 0)) = Some (p, m1)" "cstr m1 p xs"
    "\<forall>a. a < p \<or> p + length xs < a \<longrightarrow> m1 a = ((mem s)(p := 0)) a"
    by (rule u_strcpy_cstr [OF c0]) (use out [OF src(1)] in \<open>auto simp: n_def\<close>)
  have f1: "\<forall>a. a < p \<or> p + n \<le> a \<longrightarrow> m1 a = mem s a" using m1(3) by (auto simp: n_def)
  have e: "u_ends_in_slash path m1 \<longleftrightarrow> last xs = 47"
    by (rule ends_in_slash_cstr [OF keep [OF src(1) f1] assms(4)]) (use n in \<open>simp add: n_def\<close>)
  let ?zs = "xs @ (if last xs = 47 then [] else [47])"
  obtain m2 where m2: "(if \<not> last xs = 47 then u_strcat p (unat (u_lit u ''/'')) m1 else Some (p, m1)) = Some (p, m2)"
    "cstr m2 p ?zs" "\<forall>a. a < p \<or> p + length xs + 1 < a \<longrightarrow> m2 a = m1 a"
    by (rule add_slash [OF m1(2) _ keep [OF src(3) f1]]) (use out [OF src(3)] n assms(4) in \<open>auto simp: n_def\<close>)
  have f2: "\<forall>a. a < p \<or> p + n \<le> a \<longrightarrow> m2 a = mem s a" using m2(3) f1 by (auto simp: n_def)
  have zn: "length ?zs + length ys + 1 \<le> n" "length ?zs < 2 ^ 31" using n by (auto simp: n_def)
  obtain m3 where m3: "u_strcat p name m2 = Some (p, m3)" "cstr m3 p (?zs @ ys)"
    "\<forall>a. a < p + length ?zs \<or> p + length ?zs + length ys < a \<longrightarrow> m3 a = m2 a"
    by (rule u_strcat_cstr [OF m2(2) keep [OF src(2) f2] zn(2)]) (use out [OF src(2)] zn in auto)
  have f3: "\<forall>a. a < p \<or> p + n \<le> a \<longrightarrow> m3 a = mem s a" using m3(3) f2 zn by auto
  have "join_path u path name s = Some (p, s\<lparr>malloc_ptr := b + int n, mem := m3\<rparr>)"
    unfolding join_path_def sz b(1) p_def [symmetric] using m1(1) m2(1) m3(1) e by simp
  moreover have "p + n = u_heap u + nat (b + int n)" using b(2) assms(2) by (simp add: p_def nat_add_distrib)
  ultimately show ?thesis using m3(2) f3 p(1) by (intro exI conjI) auto
qed

theorem join_path_correct_witness:
  "\<exists>(u :: user user_env) s p s'. join_path u 256 512 s = Some (p, s') \<and> cstr (mem s') p [47, 97]"
proof -
  define m :: mem where "m = (\<lambda>_. 0)(256 := 47, 512 := 97, 768 := 47)"
  let ?s = "user_demo\<lparr>mem := m\<rparr>"
  let ?u = "\<lparr>u_env = undefined, u_back = (\<lambda>_ _. None), u_regs = regs_zero, u_lit = (\<lambda>_. 768), u_heap = 4096\<rparr> :: user user_env"
  have p: "malloc_ptr ?s = 0" by (simp add: user_demo_def user.defs kstate.defs)
  have c: "clear_of_heap ?u ?s 256 [47]" "clear_of_heap ?u ?s 512 [97]" "clear_of_heap ?u ?s (unat (u_lit ?u ''/'')) [47]"
    using p by (simp_all add: clear_of_heap_def m_def)
  have "\<exists>p s'. join_path ?u 256 512 ?s = Some (p, s') \<and>
    cstr (mem s') p ([47] @ (if last [47] = (47 :: u8) then [] else [47]) @ [97]) \<and>
    u_heap ?u + nat (malloc_ptr ?s) \<le> p \<and> p + (length [47 :: u8] + length [97 :: u8] + 2) = u_heap ?u + nat (malloc_ptr s') \<and>
    (\<forall>a. a < p \<or> p + (length [47 :: u8] + length [97 :: u8] + 2) \<le> a \<longrightarrow> mem s' a = mem ?s a)"
    by (rule join_path_correct [OF _ _ _ c]) (use p in \<open>simp_all add: malloc_size_def\<close>)
  then obtain p s' where "join_path ?u 256 512 ?s = Some (p, s')"
    "cstr (mem s') p ([47] @ (if last [47] = (47 :: u8) then [] else [47]) @ [97])" by blast
  then show ?thesis by (intro exI conjI) simp_all
qed

end
